(* ===== verification/Prelude.thy ===== *)
theory Prelude
  imports Main "HOL-Library.AList"
begin

text \<open>
  Shared vocabulary of the development.

  \<^item> Python strings are \<open>string\<close>; \<open>py_str\<close> is the decimal text \<open>str(n)\<close> of an integer and
    \<open>py_int\<close> reads ASCII decimal digits back, as \<open>int(s)\<close> does on such a string.
  \<^item> A coroutine that may raise is an \<open>eff\<close>: a function from the state to an exception
    (\<open>Inl\<close>) or a value (\<open>Inr\<close>) and the next state. State changes made before an exception stay, as
    they do in Python. \<open>seq\<close> is sequencing, \<open>catch\<close> is \<open>try/except\<close>, \<open>ensure\<close> is
    \<open>try/finally\<close> with a body that cannot raise.
  \<^item> The collection \<open>eff_simps\<close> evaluates effects, \<open>seq_split\<close> cuts a run of a sequence into its parts.
\<close>

named_theorems eff_simps \<open>evaluation rules of effects\<close>

section \<open>Effects: state passing with exceptions\<close>

type_synonym ('s, 'e, 'a) eff = "'s \<Rightarrow> ('e + 'a) \<times> 's"

definition ret :: "'a \<Rightarrow> ('s, 'e, 'a) eff" where
  "ret x s = (Inr x, s)"

definition throw :: "'e \<Rightarrow> ('s, 'e, 'a) eff" where
  "throw e s = (Inl e, s)"

definition seq :: "('s, 'e, 'a) eff \<Rightarrow> ('a \<Rightarrow> ('s, 'e, 'b) eff) \<Rightarrow> ('s, 'e, 'b) eff" where
  "seq m f s = (case m s of (Inl e, t) \<Rightarrow> (Inl e, t) | (Inr x, t) \<Rightarrow> f x t)"

definition catch :: "('s, 'e, 'a) eff \<Rightarrow> ('e \<Rightarrow> ('s, 'e, 'a) eff) \<Rightarrow> ('s, 'e, 'a) eff" where
  "catch m h s = (case m s of (Inl e, t) \<Rightarrow> h e t | (Inr x, t) \<Rightarrow> (Inr x, t))"

definition ensure :: "('s, 'e, 'a) eff \<Rightarrow> ('s \<Rightarrow> 's) \<Rightarrow> ('s, 'e, 'a) eff" where
  "ensure m g s = (case m s of (r, t) \<Rightarrow> (r, g t))"

definition asks :: "('s \<Rightarrow> 'a) \<Rightarrow> ('s, 'e, 'a) eff" where
  "asks f s = (Inr (f s), s)"

definition modify :: "('s \<Rightarrow> 's) \<Rightarrow> ('s, 'e, unit) eff" where
  "modify f s = (Inr (), f s)"

lemma ret_run [simp, eff_simps]: "ret x s = (Inr x, s)"
  by (simp add: ret_def)

lemma throw_run [simp, eff_simps]: "throw e s = (Inl e, s)"
  by (simp add: throw_def)

lemma asks_run [simp, eff_simps]: "asks f s = (Inr (f s), s)"
  by (simp add: asks_def)

lemma modify_run [simp, eff_simps]: "modify f s = (Inr (), f s)"
  by (simp add: modify_def)

lemma seq_Inr [eff_simps]: "m s = (Inr x, t) \<Longrightarrow> seq m f s = f x t"
  by (simp add: seq_def)

lemma seq_Inl [eff_simps]: "m s = (Inl e, t) \<Longrightarrow> seq m f s = (Inl e, t)"
  by (simp add: seq_def)

lemma catch_Inr [eff_simps]: "m s = (Inr x, t) \<Longrightarrow> catch m h s = (Inr x, t)"
  by (simp add: catch_def)

lemma catch_Inl [eff_simps]: "m s = (Inl e, t) \<Longrightarrow> catch m h s = h e t"
  by (simp add: catch_def)

lemma seq_ret [simp]: "seq (ret x) f s = f x s"
  by (simp add: seq_def)

lemma seq_throw [simp]: "seq (throw e) f s = (Inl e, s)"
  by (simp add: seq_def)

lemma seq_asks [simp]: "seq (asks g) f s = f (g s) s"
  by (simp add: seq_def)

lemma seq_modify [simp]: "seq (modify g) f s = f () (g s)"
  by (simp add: seq_def)

lemma seq_Inr_iff:
  "seq m f s = (Inr y, u) \<longleftrightarrow> (\<exists>x t. m s = (Inr x, t) \<and> f x t = (Inr y, u))"
  by (auto simp: seq_def split: prod.splits sum.splits)

lemma seq_Inl_iff:
  "seq m f s = (Inl e, u) \<longleftrightarrow> m s = (Inl e, u) \<or> (\<exists>x t. m s = (Inr x, t) \<and> f x t = (Inl e, u))"
  by (auto simp: seq_def split: prod.splits sum.splits)

lemma seq_split:
  "P (seq m f s) \<longleftrightarrow>
     (\<forall>e t. m s = (Inl e, t) \<longrightarrow> P (Inl e, t)) \<and> (\<forall>x t. m s = (Inr x, t) \<longrightarrow> P (f x t))"
  by (auto simp: seq_def split: prod.splits sum.splits)

lemma catch_split:
  "P (catch m h s) \<longleftrightarrow>
     (\<forall>e t. m s = (Inl e, t) \<longrightarrow> P (h e t)) \<and> (\<forall>x t. m s = (Inr x, t) \<longrightarrow> P (Inr x, t))"
  by (auto simp: catch_def split: prod.splits sum.splits)

text \<open>An assertion about the state that every step of a run keeps (also past an exception).\<close>

definition keeps :: "('s \<Rightarrow> bool) \<Rightarrow> ('s, 'e, 'a) eff \<Rightarrow> bool" where
  "keeps I m \<longleftrightarrow> (\<forall>s. I s \<longrightarrow> I (snd (m s)))"

lemma keepsI: "(\<And>s. I s \<Longrightarrow> I (snd (m s))) \<Longrightarrow> keeps I m"
  by (simp add: keeps_def)

lemma keepsD: "keeps I m \<Longrightarrow> I s \<Longrightarrow> I (snd (m s))"
  by (simp add: keeps_def)

lemma keeps_ret [intro!, simp]: "keeps I (ret x)"
  by (simp add: keeps_def)

lemma keeps_throw [intro!, simp]: "keeps I (throw e)"
  by (simp add: keeps_def)

lemma keeps_asks [intro!, simp]: "keeps I (asks f)"
  by (simp add: keeps_def)

lemma keeps_modify: "(\<And>s. I s \<Longrightarrow> I (f s)) \<Longrightarrow> keeps I (modify f)"
  by (simp add: keeps_def)

lemma keeps_seq [intro]:
  assumes "keeps I m" and "\<And>x. keeps I (f x)"
  shows "keeps I (seq m f)"
proof (rule keepsI)
  fix s assume "I s"
  with assms(1) have "I (snd (m s))" by (rule keepsD)
  with assms(2) show "I (snd (seq m f s))"
    by (auto simp: seq_def keeps_def split: prod.splits sum.splits)
qed

lemma keeps_catch [intro]:
  assumes "keeps I m" and "\<And>e. keeps I (h e)"
  shows "keeps I (catch m h)"
proof (rule keepsI)
  fix s assume "I s"
  with assms(1) have "I (snd (m s))" by (rule keepsD)
  with assms(2) show "I (snd (catch m h s))"
    by (auto simp: catch_def keeps_def split: prod.splits sum.splits)
qed

lemma keeps_if [intro]: "keeps I m \<Longrightarrow> keeps I n \<Longrightarrow> keeps I (if b then m else n)"
  by simp

lemma keeps_option: "keeps I m \<Longrightarrow> (\<And>x. keeps I (f x)) \<Longrightarrow> keeps I (case v of None \<Rightarrow> m | Some x \<Rightarrow> f x)"
  by (cases v) simp_all

lemma keeps_pair: "(\<And>a b. keeps I (f a b)) \<Longrightarrow> keeps I (case v of (a, b) \<Rightarrow> f a b)"
  by (cases v) simp

lemma keeps_sum: "(\<And>x. keeps I (f x)) \<Longrightarrow> (\<And>y. keeps I (g y)) \<Longrightarrow> keeps I (case v of Inl x \<Rightarrow> f x | Inr y \<Rightarrow> g y)"
  by (cases v) simp_all

lemma keeps_boolcase: "keeps I m \<Longrightarrow> keeps I n \<Longrightarrow> keeps I (case b of True \<Rightarrow> m | False \<Rightarrow> n)"
  by (cases b) simp_all

section \<open>Decimal text of integers\<close>

fun digit_char :: "nat \<Rightarrow> char" where
  "digit_char d = char_of (48 + d)"

definition is_digit :: "char \<Rightarrow> bool" where
  "is_digit c \<longleftrightarrow> 48 \<le> (of_char c :: nat) \<and> (of_char c :: nat) \<le> 57"

definition digit_val :: "char \<Rightarrow> nat" where
  "digit_val c = of_char c - 48"

fun nat_digits :: "nat \<Rightarrow> string" where
  "nat_digits n = (if n < 10 then [digit_char n] else nat_digits (n div 10) @ [digit_char (n mod 10)])"

declare nat_digits.simps [simp del]

definition py_str :: "int \<Rightarrow> string" where
  "py_str n = (if n < 0 then CHR ''-'' # nat_digits (nat (- n)) else nat_digits (nat n))"

definition decimal_value :: "string \<Rightarrow> int" where
  "decimal_value s = foldl (\<lambda>acc c. acc * 10 + int (digit_val c)) 0 s"

text \<open>\<open>s.isascii() and s.isdecimal()\<close>: non-empty and all characters \<open>0-9\<close>.\<close>

definition ascii_decimal :: "string \<Rightarrow> bool" where
  "ascii_decimal s \<longleftrightarrow> s \<noteq> [] \<and> list_all is_digit s"

lemma digit_char_props:
  assumes "d < 10"
  shows "is_digit (digit_char d)" and "digit_val (digit_char d) = d"
  using assms by (simp_all add: is_digit_def digit_val_def)

lemma decimal_value_snoc [simp]: "decimal_value (s @ [c]) = decimal_value s * 10 + int (digit_val c)"
  by (simp add: decimal_value_def)

lemma nat_digits_decimal: "ascii_decimal (nat_digits n)"
proof (induction n rule: nat_digits.induct)
  case (1 n)
  then show ?case
    by (cases "n < 10")
      (simp_all add: nat_digits.simps [of n] ascii_decimal_def digit_char_props del: digit_char.simps)
qed

lemma nat_digits_value: "decimal_value (nat_digits n) = int n"
proof (induction n rule: nat_digits.induct)
  case (1 n)
  show ?case
  proof (cases "n < 10")
    case True
    then show ?thesis
      by (simp add: nat_digits.simps [of n] decimal_value_def digit_char_props del: digit_char.simps)
  next
    case False
    with "1" have "decimal_value (nat_digits (n div 10)) = int (n div 10)" by simp
    with False show ?thesis
      by (simp add: nat_digits.simps [of n] digit_char_props del: digit_char.simps) presburger
  qed
qed

lemma decimal_value_nonneg: "0 \<le> decimal_value s"
  by (induction s rule: rev_induct) (simp_all add: decimal_value_def)

lemma py_str_value: "0 \<le> n \<Longrightarrow> decimal_value (py_str n) = n"
  by (simp add: py_str_def nat_digits_value)

lemma py_str_decimal: "0 \<le> n \<Longrightarrow> ascii_decimal (py_str n)"
  by (simp add: py_str_def nat_digits_decimal)

lemma py_str_nonempty [simp]: "py_str n \<noteq> []"
  using nat_digits_decimal by (auto simp: py_str_def ascii_decimal_def)

lemma nat_digits_inj: "nat_digits m = nat_digits n \<Longrightarrow> m = n"
  by (metis nat_digits_value of_nat_eq_iff)

lemma nat_digits_no_minus: "nat_digits m \<noteq> CHR ''-'' # s"
proof
  assume "nat_digits m = CHR ''-'' # s"
  with nat_digits_decimal [of m] have "is_digit (CHR ''-'')" by (simp add: ascii_decimal_def)
  then show False by (simp add: is_digit_def)
qed

lemma py_str_inj: "py_str m = py_str n \<longleftrightarrow> m = n"
proof
  assume eq: "py_str m = py_str n"
  consider "m < 0" "n < 0" | "m < 0" "0 \<le> n" | "0 \<le> m" "n < 0" | "0 \<le> m" "0 \<le> n" by linarith
  then show "m = n"
  proof cases
    case 1 with eq have "nat (- m) = nat (- n)" by (auto simp: py_str_def dest: nat_digits_inj)
    with 1 show ?thesis by simp
  next
    case 2 with eq nat_digits_no_minus show ?thesis by (simp add: py_str_def) metis
  next
    case 3 with eq nat_digits_no_minus show ?thesis by (simp add: py_str_def)
  next
    case 4 with eq have "nat m = nat n" by (auto simp: py_str_def dest: nat_digits_inj)
    with 4 show ?thesis by simp
  qed
qed simp

text \<open>
  \<open>int(s)\<close> on a string: surrounding ASCII whitespace, an optional sign, digits with single
  underscores between them; \<open>None\<close> where Python raises \<open>ValueError\<close>. (Non-ASCII digits, which
  Python also takes, do not occur in the eight-bit characters modelled.)
\<close>

definition is_space :: "char \<Rightarrow> bool" where
  "is_space c \<longleftrightarrow> (let n = (of_char c :: nat) in n = 32 \<or> 9 \<le> n \<and> n \<le> 13 \<or> 28 \<le> n \<and> n \<le> 31)"

definition strip :: "string \<Rightarrow> string" where
  "strip s = rev (dropWhile is_space (rev (dropWhile is_space s)))"

fun int_body :: "bool \<Rightarrow> int \<Rightarrow> string \<Rightarrow> int option" where
  "int_body prev acc [] = (if prev then Some acc else None)"
| "int_body prev acc (c # cs) =
     (if is_digit c then int_body True (acc * 10 + int (digit_val c)) cs
      else if c = CHR ''_'' \<and> prev then int_body False acc cs
      else None)"

definition py_int_of_str :: "string \<Rightarrow> int option" where
  "py_int_of_str s =
     (case strip s of
        [] \<Rightarrow> None
      | c # cs \<Rightarrow> (if c = CHR ''-'' then map_option uminus (int_body False 0 cs)
                  else if c = CHR ''+'' then int_body False 0 cs
                  else int_body False 0 (c # cs)))"

section \<open>Text helpers\<close>

text \<open>\<open>str.lower\<close> on ASCII text, and Python's substring test \<open>needle in hay\<close>.\<close>

definition lower_char :: "char \<Rightarrow> char" where
  "lower_char c = (let n = (of_char c :: nat) in if 65 \<le> n \<and> n \<le> 90 then char_of (n + 32) else c)"

definition lower :: "string \<Rightarrow> string" where
  "lower s = map lower_char s"

fun starts_with :: "string \<Rightarrow> string \<Rightarrow> bool" where
  "starts_with _ [] = True"
| "starts_with [] (_ # _) = False"
| "starts_with (x # xs) (p # ps) = (x = p \<and> starts_with xs ps)"

fun contains :: "string \<Rightarrow> string \<Rightarrow> bool" where
  "contains [] p = (p = [])"
| "contains (x # xs) p = (starts_with (x # xs) p \<or> contains xs p)"

lemma starts_with_iff: "starts_with s p \<longleftrightarrow> (\<exists>r. s = p @ r)"
  by (induction s p rule: starts_with.induct) auto

lemma contains_iff: "contains s p \<longleftrightarrow> (\<exists>l r. s = l @ p @ r)"
proof (induction s)
  case Nil
  then show ?case by simp
next
  case (Cons x xs)
  show ?case
  proof
    assume "contains (x # xs) p"
    then consider r where "x # xs = p @ r" | l r where "xs = l @ p @ r"
      using Cons starts_with_iff [of "x # xs" p] by auto
    then show "\<exists>l r. x # xs = l @ p @ r"
    proof cases
      case (1 r)
      then have "x # xs = [] @ p @ r" by simp
      then show ?thesis by blast
    next
      case (2 l r)
      then have "x # xs = (x # l) @ p @ r" by simp
      then show ?thesis by blast
    qed
  next
    assume "\<exists>l r. x # xs = l @ p @ r"
    then obtain l r where lr: "x # xs = l @ p @ r" by blast
    show "contains (x # xs) p"
    proof (cases l)
      case Nil
      with lr starts_with_iff [of "x # xs" p] have "starts_with (x # xs) p" by simp
      then show ?thesis by simp
    next
      case (Cons y ys)
      with lr \<open>contains xs p = (\<exists>l r. xs = l @ p @ r)\<close> show ?thesis by auto
    qed
  qed
qed

section \<open>Lists\<close>

lemma last_strict_sorted_max:
  fixes xs :: "'a::linorder list"
  assumes "sorted_wrt (<) xs" "x \<in> set xs"
  shows "x \<le> last xs"
  using assms by (induction xs) (auto simp: less_imp_le)

lemma sorted_wrt_snoc:
  "sorted_wrt P (xs @ [x]) \<longleftrightarrow> sorted_wrt P xs \<and> (\<forall>y \<in> set xs. P y x)"
  by (simp add: sorted_wrt_append)

end
