(* ===== verification/Floats.thy ===== *)
theory Floats
  imports Prelude Complex_Main "HOL-Library.Log_Nat"
begin

text \<open>
  Python's \<open>float\<close> (an IEEE double) as a rational number, and the rounding \<open>fl\<close> that every
  arithmetic operation of the program applies to its exact result: 53 significant bits, ties to the
  even significand. The exponent range is not bounded (volumes, prices and money amounts stay far
  from overflow and from the subnormals) and there are no infinities and no NaN.

  \<^item> \<open>round_half_even\<close> is Python's \<open>round(x)\<close>; \<open>py_round x d\<close> is \<open>round(x, d)\<close>, which
    rounds the exact binary value to \<open>d\<close> decimals and returns the nearest float.
  \<^item> \<open>fmul\<close>, \<open>fdiv\<close>, \<open>fadd\<close>, \<open>fsub\<close> are the float operations; \<open>fdiv\<close> of two integers is
    Python's true division, which is correctly rounded too.
  \<^item> The locale \<open>rounding\<close> is the contract the components rely on: rounding is monotone, odd, keeps
    the dyadic fractions with at most 53 significant bits and has relative error at most \<open>2^-53\<close>.
    It is interpreted on \<open>fl\<close> (qualifier \<open>dbl\<close>).
\<close>

section \<open>Rounding to integers\<close>

definition round_half_even :: "rat \<Rightarrow> int" where
  "round_half_even x =
     (let f = \<lfloor>x\<rfloor>; d = x - of_int f
      in if d < 1 / 2 then f else if d > 1 / 2 then f + 1 else if even f then f else f + 1)"

lemma round_half_even_of_int [simp]: "round_half_even (of_int n) = n"
  by (simp add: round_half_even_def)

lemma round_half_even_err: "\<bar>of_int (round_half_even x) - x\<bar> \<le> 1 / 2"
proof -
  define r where "r = x - of_int \<lfloor>x\<rfloor>"
  have r: "0 \<le> r" "r < 1" by (auto simp: r_def) linarith
  have "of_int (round_half_even x) - x = - r \<and> r \<le> 1 / 2 \<or> of_int (round_half_even x) - x = 1 - r \<and> 1 / 2 \<le> r"
    by (auto simp: round_half_even_def Let_def r_def)
  with r show ?thesis by linarith
qed

lemma round_half_even_mono:
  assumes "x \<le> y" shows "round_half_even x \<le> round_half_even y"
proof (cases "\<lfloor>x\<rfloor> = \<lfloor>y\<rfloor>")
  case True
  with assms show ?thesis by (auto simp: round_half_even_def Let_def)
next
  case False
  with assms have "\<lfloor>x\<rfloor> + 1 \<le> \<lfloor>y\<rfloor>" by linarith
  moreover have "round_half_even x \<le> \<lfloor>x\<rfloor> + 1" "\<lfloor>y\<rfloor> \<le> round_half_even y"
    by (auto simp: round_half_even_def Let_def)
  ultimately show ?thesis by linarith
qed

lemma round_half_even_minus: "round_half_even (- x) = - round_half_even x"
proof (cases "x = of_int \<lfloor>x\<rfloor>")
  case True
  then obtain n where "x = of_int n" by blast
  then show ?thesis by (metis of_int_minus round_half_even_of_int)
next
  case False
  have "of_int \<lfloor>x\<rfloor> \<le> x" "x < of_int \<lfloor>x\<rfloor> + 1" by linarith+
  with False have "of_int \<lfloor>x\<rfloor> < x" "x < of_int \<lfloor>x\<rfloor> + 1" by linarith+
  then have f: "\<lfloor>- x\<rfloor> = - \<lfloor>x\<rfloor> - 1"
    by (intro floor_unique) auto
  show ?thesis by (auto simp: round_half_even_def Let_def f)
qed

text \<open>A value strictly closer than one half to an integer rounds to it.\<close>

lemma round_half_even_near:
  assumes "\<bar>x - of_int n\<bar> < 1 / 2" shows "round_half_even x = n"
proof -
  have "\<bar>of_int (round_half_even x) - x\<bar> \<le> 1 / 2" by (rule round_half_even_err)
  with assms have "\<bar>(of_int (round_half_even x) :: rat) - of_int n\<bar> < 1" by linarith
  then have "\<bar>of_int (round_half_even x - n) :: rat\<bar> < 1" by simp
  then show ?thesis by linarith
qed

section \<open>Rounding to 53 bits\<close>

text \<open>\<open>ilog2 x\<close> is the exponent of the binary significand: \<open>2^e \<le> x < 2^(e+1)\<close>.\<close>

definition ilog2 :: "rat \<Rightarrow> int" where
  "ilog2 x = (if 1 \<le> x then int (floorlog 2 (nat \<lfloor>x\<rfloor>)) - 1
              else - int (floorlog 2 (nat (\<lceil>1 / x\<rceil> - 1))))"

definition fl :: "rat \<Rightarrow> rat" where
  "fl x = (if x = 0 then 0
           else let e = ilog2 \<bar>x\<bar> - 52
                in of_int (round_half_even (x * 2 powi (- e))) * 2 powi e)"

definition fmul :: "rat \<Rightarrow> rat \<Rightarrow> rat" where "fmul x y = fl (x * y)"
definition fdiv :: "rat \<Rightarrow> rat \<Rightarrow> rat" where "fdiv x y = fl (x / y)"
definition fadd :: "rat \<Rightarrow> rat \<Rightarrow> rat" where "fadd x y = fl (x + y)"
definition fsub :: "rat \<Rightarrow> rat \<Rightarrow> rat" where "fsub x y = fl (x - y)"

definition py_round :: "rat \<Rightarrow> nat \<Rightarrow> rat" where
  "py_round x d = fl (of_int (round_half_even (x * 10 ^ d)) / 10 ^ d)"

lemma floorlog2_bounds:
  assumes "0 < n"
  shows "2 ^ (floorlog 2 n - 1) \<le> n" and "n < 2 ^ floorlog 2 n" and "0 < floorlog 2 n"
  using floorlog_bounds [of n 2] assms by (auto simp: floorlog_eq_zero_iff intro: gr0I)

lemma powi_nat_rat: "(2::rat) powi (int n) = 2 ^ n"
  by simp

lemma ilog2_bounds:
  assumes "0 < x"
  shows "2 powi (ilog2 x) \<le> x" and "x < 2 powi (ilog2 x + 1)"
proof -
  have "2 powi (ilog2 x) \<le> x \<and> x < 2 powi (ilog2 x + 1)"
  proof (cases "1 \<le> x")
    case True
    define n where "n = nat \<lfloor>x\<rfloor>"
    define k where "k = floorlog 2 n"
    from True have n: "0 < n" "int n = \<lfloor>x\<rfloor>" by (auto simp: n_def)
    note b = floorlog2_bounds [OF n(1), folded k_def]
    have il: "ilog2 x = int (k - 1)" using True b(3) by (simp add: ilog2_def n_def k_def of_nat_diff)
    have "of_nat (2 ^ (k - 1)) \<le> (of_nat n :: rat)" using b(1) by (simp only: of_nat_le_iff)
    also have "of_nat n = (of_int \<lfloor>x\<rfloor> :: rat)" using n(2) by (metis of_int_of_nat_eq)
    also have "\<dots> \<le> x" by simp
    finally have lo: "2 ^ (k - 1) \<le> x" by simp
    have "x < of_int \<lfloor>x\<rfloor> + 1" by linarith
    also have "(of_int \<lfloor>x\<rfloor> :: rat) + 1 = of_nat (n + 1)" using n(2) by (metis of_int_of_nat_eq of_nat_1 of_nat_add)
    also have "\<dots> \<le> of_nat (2 ^ k)" using b(2) by (simp only: of_nat_le_iff)
    finally have hi: "x < 2 ^ k" by simp
    have "ilog2 x + 1 = int k" using il b(3) by simp
    with lo hi il show ?thesis by (simp only: power_int_of_nat)
  next
    case False
    define y where "y = 1 / x"
    from assms False have y: "1 < y" "x = 1 / y" by (auto simp: y_def field_simps)
    define n where "n = nat (\<lceil>y\<rceil> - 1)"
    define k where "k = floorlog 2 n"
    from y(1) have "2 \<le> \<lceil>y\<rceil>" by (simp add: le_ceiling_iff)
    then have n: "0 < n" "int n = \<lceil>y\<rceil> - 1" by (auto simp: n_def)
    note b = floorlog2_bounds [OF n(1), folded k_def]
    have il: "ilog2 x = - int k" using False by (simp add: ilog2_def n_def k_def y_def)
    have "of_nat (2 ^ (k - 1)) \<le> (of_nat n :: rat)" using b(1) by (simp only: of_nat_le_iff)
    also have "of_nat n = (of_int (\<lceil>y\<rceil> - 1) :: rat)" using n(2) by (metis of_int_of_nat_eq)
    also have "\<dots> < y" by (simp add: less_le_not_le) linarith
    finally have lo: "2 ^ (k - 1) < y" by simp
    have "y \<le> of_int \<lceil>y\<rceil>" by simp
    also have "\<dots> = of_nat (n + 1)" using n(2) by (metis add.commute diff_add_cancel of_int_of_nat_eq of_nat_1 of_nat_add add_diff_cancel_left')
    also have "\<dots> \<le> of_nat (2 ^ k)" using b(2) by (simp only: of_nat_le_iff)
    finally have hi: "y \<le> 2 ^ k" by simp
    have "2 powi (ilog2 x) = 1 / (2 ^ k :: rat)" using il by (simp add: power_int_minus field_simps)
    moreover have "1 / (2 ^ k) \<le> x"
      unfolding y(2) using hi y(1) by (intro divide_left_mono) simp_all
    moreover have "2 powi (ilog2 x + 1) = 1 / (2 ^ (k - 1) :: rat)"
    proof -
      have "ilog2 x + 1 = - int (k - 1)" using il b(3) by simp
      then show ?thesis by (simp only: power_int_minus power_int_of_nat inverse_eq_divide)
    qed
    moreover have "x < 1 / (2 ^ (k - 1))"
      unfolding y(2) using lo y(1) by (intro divide_strict_left_mono) simp_all
    ultimately show ?thesis by simp
  qed
  then show "2 powi (ilog2 x) \<le> x" and "x < 2 powi (ilog2 x + 1)" by auto
qed


lemma powi2_less_imp: "(2::rat) powi m < 2 powi n \<Longrightarrow> m < n"
proof (rule ccontr)
  assume "(2::rat) powi m < 2 powi n" "\<not> m < n"
  moreover from this(2) have "(2::rat) powi n \<le> 2 powi m"
    by (intro power_int_increasing) simp_all
  ultimately show False by linarith
qed

lemma ilog2_unique:
  assumes "2 powi k \<le> x" and "x < 2 powi (k + 1)"
  shows "ilog2 x = k"
proof -
  have "(0::rat) < 2 powi k" by simp
  with assms(1) have pos: "0 < x" by linarith
  note b = ilog2_bounds [OF pos]
  have "(2::rat) powi k < 2 powi (ilog2 x + 1)" using assms(1) b(2) by linarith
  then have "k < ilog2 x + 1" by (rule powi2_less_imp)
  moreover have "(2::rat) powi (ilog2 x) < 2 powi (k + 1)" using assms(2) b(1) by linarith
  then have "ilog2 x < k + 1" by (rule powi2_less_imp)
  ultimately show ?thesis by linarith
qed

lemma ilog2_mono: "0 < x \<Longrightarrow> x \<le> y \<Longrightarrow> ilog2 x \<le> ilog2 y"
proof -
  assume a: "0 < x" "x \<le> y"
  then have "(2::rat) powi (ilog2 x) < 2 powi (ilog2 y + 1)"
    using ilog2_bounds [of x] ilog2_bounds [of y] by linarith
  then have "ilog2 x < ilog2 y + 1" by (rule powi2_less_imp)
  then show ?thesis by linarith
qed

lemma fl_zero [simp]: "fl 0 = 0"
  by (simp add: fl_def)

lemma fl_minus: "fl (- x) = - fl x"
  by (simp add: fl_def Let_def round_half_even_minus)

lemma powi2_pos [simp]: "(0::rat) < 2 powi n"
  by simp

lemma powi2_cancel: "(2::rat) powi (- e) * 2 powi e = 1"
  by (simp add: power_int_minus)

text \<open>The significand of a positive number lies in \<open>[2^52, 2^53]\<close>.\<close>

lemma significand_bounds:
  assumes "0 < x" and e: "e = ilog2 x - 52"
  shows "2 ^ 52 \<le> x * 2 powi (- e)" and "x * 2 powi (- e) < 2 ^ 53"
    and "2 ^ 52 \<le> round_half_even (x * 2 powi (- e))"
    and "round_half_even (x * 2 powi (- e)) \<le> 2 ^ 53"
proof -
  note b = ilog2_bounds [OF assms(1)]
  have l: "(2::rat) powi (ilog2 x) * 2 powi (- e) = 2 ^ 52"
    by (simp add: e flip: power_int_add)
  have h: "(2::rat) powi (ilog2 x + 1) * 2 powi (- e) = 2 ^ 53"
    by (simp add: e flip: power_int_add)
  show lo: "2 ^ 52 \<le> x * 2 powi (- e)"
    using mult_right_mono [OF b(1), of "2 powi (- e)"] l by simp
  show hi: "x * 2 powi (- e) < 2 ^ 53"
    using mult_strict_right_mono [OF b(2), of "2 powi (- e)"] h by simp
  have "round_half_even (of_int (2 ^ 52)) \<le> round_half_even (x * 2 powi (- e))"
    using lo by (intro round_half_even_mono) simp
  then show "2 ^ 52 \<le> round_half_even (x * 2 powi (- e))" by (simp only: round_half_even_of_int)
  have "round_half_even (x * 2 powi (- e)) \<le> round_half_even (of_int (2 ^ 53))"
    using hi by (intro round_half_even_mono) simp
  then show "round_half_even (x * 2 powi (- e)) \<le> 2 ^ 53" by (simp only: round_half_even_of_int)
qed

lemma fl_pos_eq:
  "0 < x \<Longrightarrow> fl x = of_int (round_half_even (x * 2 powi (- (ilog2 x - 52)))) * 2 powi (ilog2 x - 52)"
  by (simp add: fl_def Let_def)

lemma fl_pos_bounds:
  assumes "0 < x"
  shows "2 powi (ilog2 x) \<le> fl x" and "fl x \<le> 2 powi (ilog2 x + 1)"
proof -
  define e where "e = ilog2 x - 52"
  define r where "r = round_half_even (x * 2 powi (- e))"
  note b = significand_bounds [OF assms e_def, folded r_def]
  have f: "fl x = of_int r * 2 powi e" using assms by (simp add: fl_pos_eq e_def r_def)
  have "of_int (2 ^ 52) \<le> (of_int r :: rat)" using b(3) by (simp only: of_int_le_iff)
  then have "2 ^ 52 * 2 powi e \<le> fl x" by (simp add: f)
  moreover have "(2::rat) ^ 52 * 2 powi e = 2 powi (ilog2 x)"
    using power_int_add [of "2::rat" 52 e] by (simp add: e_def)
  ultimately show "2 powi (ilog2 x) \<le> fl x" by simp
  have "(of_int r :: rat) \<le> of_int (2 ^ 53)" using b(4) by (simp only: of_int_le_iff)
  then have "fl x \<le> 2 ^ 53 * 2 powi e" by (simp add: f)
  moreover have "(2::rat) ^ 53 * 2 powi e = 2 powi (ilog2 x + 1)"
    using power_int_add [of "2::rat" 53 e] by (simp add: e_def add.commute)
  ultimately show "fl x \<le> 2 powi (ilog2 x + 1)" by simp
qed

lemma fl_pos: "0 < x \<Longrightarrow> 0 < fl x"
  using fl_pos_bounds(1) [of x] powi2_pos [of "ilog2 x"] by linarith

lemma fl_mono_pos:
  assumes "0 < x" and "x \<le> y" shows "fl x \<le> fl y"
proof (cases "ilog2 x = ilog2 y")
  case True
  have "x * 2 powi (- (ilog2 y - 52)) \<le> y * 2 powi (- (ilog2 y - 52))"
    using assms(2) by (simp add: mult_right_mono)
  then have "round_half_even (x * 2 powi (- (ilog2 y - 52))) \<le> round_half_even (y * 2 powi (- (ilog2 y - 52)))"
    by (rule round_half_even_mono)
  with assms True show ?thesis by (simp add: fl_pos_eq)
next
  case False
  with ilog2_mono [OF assms] have "ilog2 x + 1 \<le> ilog2 y" by linarith
  then have "(2::rat) powi (ilog2 x + 1) \<le> 2 powi (ilog2 y)"
    by (intro power_int_increasing) simp_all
  with fl_pos_bounds [of x] fl_pos_bounds [of y] assms show ?thesis by linarith
qed

lemma fl_mono: "x \<le> y \<Longrightarrow> fl x \<le> fl y"
proof -
  assume xy: "x \<le> y"
  consider "0 < x" | "x \<le> 0" "0 \<le> y" | "y < 0" using xy by linarith
  then show ?thesis
  proof cases
    case 1 with xy show ?thesis by (simp add: fl_mono_pos)
  next
    case 2
    have "fl x \<le> 0" using 2(1) fl_pos [of "- x"] fl_minus [of x] by (cases "x = 0") auto
    moreover have "0 \<le> fl y" using 2(2) fl_pos [of y] by (cases "y = 0") auto
    ultimately show ?thesis by linarith
  next
    case 3
    with xy have "fl (- y) \<le> fl (- x)" by (intro fl_mono_pos) simp_all
    then show ?thesis by (simp add: fl_minus)
  qed
qed

text \<open>A number with at most 53 significant bits is its own rounding.\<close>

lemma fl_exact_pos:
  assumes m: "0 < m" "m \<le> 2 ^ 53" and x: "x = of_int m * 2 powi k"
  shows "fl x = x"
proof -
  have pos: "0 < x" using m x by simp
  define e where "e = ilog2 x - 52"
  have "\<exists>n. x * 2 powi (- e) = of_int n"
  proof (cases "e \<le> k")
    case True
    then have "(2::rat) powi k * 2 powi (- e) = 2 ^ nat (k - e)"
      by (simp add: power_int_nonneg_exp flip: power_int_add)
    then have "x * 2 powi (- e) = of_int (m * 2 ^ nat (k - e))"
      by (simp add: x mult.assoc)
    then show ?thesis by blast
  next
    case False
    have "x \<le> 2 ^ 53 * 2 powi k" using m x by simp
    also have "\<dots> = 2 powi (53 + k)" by (simp add: power_int_add)
    also have "\<dots> \<le> 2 powi (e + 52)" using False by (intro power_int_increasing) simp_all
    finally have "x \<le> 2 powi (e + 52)" .
    with ilog2_bounds(1) [OF pos] have "x = 2 powi (e + 52)" by (simp add: e_def)
    then have "x * 2 powi (- e) = of_int (2 ^ 52)" by (simp flip: power_int_add)
    then show ?thesis by blast
  qed
  then obtain n where n: "x * 2 powi (- e) = of_int n" by blast
  have "fl x = of_int n * 2 powi e" using pos n by (simp add: fl_pos_eq flip: e_def)
  also have "\<dots> = x * (2 powi (- e) * 2 powi e)" by (simp flip: n)
  finally show ?thesis by (simp only: powi2_cancel mult_1_right)
qed

lemma fl_exact:
  assumes m: "\<bar>m\<bar> \<le> 2 ^ 53" and x: "x = of_int m * 2 powi k"
  shows "fl x = x"
proof -
  consider "m = 0" | "0 < m" | "0 < - m" by linarith
  then show ?thesis
  proof cases
    case 1 with x show ?thesis by simp
  next
    case 2 with m x show ?thesis by (intro fl_exact_pos) auto
  next
    case 3
    with m x have "fl (- x) = - x" by (intro fl_exact_pos [of "- m" _ k]) auto
    then show ?thesis by (simp add: fl_minus)
  qed
qed

lemma fl_err: "\<bar>fl x - x\<bar> \<le> \<bar>x\<bar> / 2 ^ 53"
proof -
  have pos: "\<bar>fl x - x\<bar> \<le> x / 2 ^ 53" if "0 < x" for x
  proof -
    define e where "e = ilog2 x - 52"
    define y where "y = x * 2 powi (- e)"
    have xy: "x = y * 2 powi e" by (simp add: y_def mult.assoc powi2_cancel)
    have "fl x - x = (of_int (round_half_even y) - y) * 2 powi e"
      using that by (subst (2) xy) (simp add: fl_pos_eq y_def e_def left_diff_distrib)
    then have "\<bar>fl x - x\<bar> = \<bar>of_int (round_half_even y) - y\<bar> * 2 powi e" by (simp add: abs_mult)
    also have "\<dots> \<le> 1 / 2 * 2 powi e"
      by (intro mult_right_mono round_half_even_err) simp
    also have "\<dots> = 2 powi (ilog2 x) / 2 ^ 53"
      by (simp add: e_def power_int_diff)
    also have "\<dots> \<le> x / 2 ^ 53"
      using ilog2_bounds(1) [OF that] by (simp add: divide_right_mono)
    finally show ?thesis .
  qed
  consider "x = 0" | "0 < x" | "0 < - x" by linarith
  then show ?thesis
  proof cases
    case 3
    with pos [of "- x"] show ?thesis by (simp add: fl_minus abs_minus_commute)
  qed (use pos in auto)
qed

lemma fl_idem: "fl (fl x) = fl x"
proof -
  have pos: "fl (fl x) = fl x" if "0 < x" for x
    using significand_bounds [OF that refl]
    by (intro fl_exact [of "round_half_even (x * 2 powi (- (ilog2 x - 52)))" _ "ilog2 x - 52"])
      (simp_all add: fl_pos_eq [OF that])
  consider "x = 0" | "0 < x" | "0 < - x" by linarith
  then show ?thesis
  proof cases
    case 3
    with pos [of "- x"] show ?thesis by (simp add: fl_minus)
  qed (use pos in auto)
qed

section \<open>The rounding contract\<close>

locale rounding =
  fixes rnd :: "rat \<Rightarrow> rat"
  assumes rnd_mono: "x \<le> y \<Longrightarrow> rnd x \<le> rnd y"
    and rnd_minus: "rnd (- x) = - rnd x"
    and rnd_dyadic: "\<bar>n\<bar> \<le> 2 ^ 53 \<Longrightarrow> rnd (of_int n / 2 ^ k) = of_int n / 2 ^ k"
    and rnd_idem: "rnd (rnd x) = rnd x"
    and rnd_err: "\<bar>rnd x - x\<bar> \<le> \<bar>x\<bar> / 2 ^ 53"
begin

lemma rnd_int: "\<bar>n\<bar> \<le> 2 ^ 53 \<Longrightarrow> rnd (of_int n) = of_int n"
  using rnd_dyadic [of n 0] by simp

lemma rnd_0: "rnd 0 = 0"
  using rnd_int [of 0] by simp

lemma rnd_nonneg: "0 \<le> x \<Longrightarrow> 0 \<le> rnd x"
  using rnd_mono [of 0 x] by (simp add: rnd_0)

lemma rnd_nonpos: "x \<le> 0 \<Longrightarrow> rnd x \<le> 0"
  using rnd_mono [of x 0] by (simp add: rnd_0)

lemma rnd_pos: "0 < x \<Longrightarrow> 0 < rnd x"
  using rnd_err [of x] by (simp add: abs_if field_simps split: if_splits)

lemma rnd_abs: "rnd \<bar>x\<bar> = \<bar>rnd x\<bar>"
  using rnd_minus [of x] rnd_nonneg [of x] rnd_nonpos [of x] by (auto simp: abs_if)

lemma rnd_max: "rnd (max x y) = max (rnd x) (rnd y)"
  using rnd_mono by (auto simp: max_def dual_order.antisym)

lemma rnd_min: "rnd (min x y) = min (rnd x) (rnd y)"
  using rnd_mono by (auto simp: min_def dual_order.antisym)

text \<open>Rounding to a double and then to an integer: the first step costs its relative error only.\<close>

lemma round_rnd_err: "\<bar>of_int (round_half_even (rnd x)) - x\<bar> \<le> 1 / 2 + \<bar>x\<bar> / 2 ^ 53"
  using round_half_even_err [of "rnd x"] rnd_err [of x] by linarith

lemma round_rnd_near:
  assumes "\<bar>x - of_int n\<bar> + \<bar>x\<bar> / 2 ^ 53 < 1 / 2"
  shows "round_half_even (rnd x) = n"
  using rnd_err [of x] assms by (intro round_half_even_near) linarith

end

interpretation dbl: rounding fl
proof
  show "fl (of_int n / 2 ^ k) = of_int n / 2 ^ k" if "\<bar>n\<bar> \<le> 2 ^ 53" for n k
    using that by (intro fl_exact [of n _ "- int k"]) (simp_all add: power_int_minus divide_inverse)
qed (fact fl_mono fl_minus fl_idem fl_err)+

end
