(* ===== verification/Errors.thy ===== *)
theory Errors
  imports Prelude Complex_Main
begin

text \<open>
  The exceptions of \<open>wire.py\<close> and \<open>auth.py\<close>, the broker taxonomy they are mapped to, and
  \<open>exceptions.py\<close>: the sets of \<open>errorCode\<close> strings, the predicates that classify a code and
  \<open>map_error_code\<close>. An exception is a value of \<open>exn\<close>; the subclass relation the \<open>except\<close> clauses
  use is written out as predicates (\<open>is_connection_error\<close>, \<open>is_wire_error\<close>).
\<close>

section \<open>Exceptions\<close>

datatype exn =
    CTraderConnectionError string
  | CTraderRequestSentConnectionError string
  | CTraderTimeoutError string
  | CTraderProtocolError (error_code: string) (description: string) (retry_after: "rat option")
  | CTraderAuthError string string
  | CTraderAccountsUnavailableError string
  | AsyncTimeoutError
  | CancelledError
  | OSError string
  | StructError
  | DecodeError
  | ValueError string
  | TypeError
  | KeyError string
  | AssertionError string
  | AttributeError string
  | ExchangeConnectionError string
  | VenueWritesQuarantinedError string
  | ExchangeRateLimitError string rat
  | InsufficientMarginError string
  | MarketClosedError string
  | ExchangeOrderRejectedError string
  | OrderDispositionUnknownError string string "string list option"
  | OrderSkippedByPlugin string string
  | BracketAttachAfterFillRejectedError int bool rat "string option"
  | CTraderBrokerError string

text \<open>\<open>CTraderRequestSentConnectionError\<close> is a subclass of \<open>CTraderConnectionError\<close>.\<close>

definition is_connection_error :: "exn \<Rightarrow> bool" where
  "is_connection_error e \<longleftrightarrow>
     (case e of CTraderConnectionError _ \<Rightarrow> True | CTraderRequestSentConnectionError _ \<Rightarrow> True | _ \<Rightarrow> False)"

definition is_protocol_error :: "exn \<Rightarrow> bool" where
  "is_protocol_error e \<longleftrightarrow> (case e of CTraderProtocolError _ _ _ \<Rightarrow> True | _ \<Rightarrow> False)"

definition is_timeout_error :: "exn \<Rightarrow> bool" where
  "is_timeout_error e \<longleftrightarrow> (case e of CTraderTimeoutError _ \<Rightarrow> True | _ \<Rightarrow> False)"

definition is_os_error :: "exn \<Rightarrow> bool" where
  "is_os_error e \<longleftrightarrow> (case e of OSError _ \<Rightarrow> True | AsyncTimeoutError \<Rightarrow> True | _ \<Rightarrow> False)"

text \<open>The subclasses of \<open>CTraderWireError\<close>.\<close>

definition is_wire_error :: "exn \<Rightarrow> bool" where
  "is_wire_error e \<longleftrightarrow>
     is_connection_error e \<or> is_protocol_error e \<or> is_timeout_error e
     \<or> (case e of CTraderAuthError _ _ \<Rightarrow> True | CTraderAccountsUnavailableError _ \<Rightarrow> True | _ \<Rightarrow> False)"

lemma is_connection_error_simps [simp]:
  "is_connection_error (CTraderConnectionError m)"
  "is_connection_error (CTraderRequestSentConnectionError m)"
  "\<not> is_connection_error (CTraderTimeoutError m)"
  "\<not> is_connection_error (CTraderProtocolError c d r)"
  "\<not> is_connection_error AsyncTimeoutError"
  by (simp_all add: is_connection_error_def)

lemma is_protocol_error_iff: "is_protocol_error e \<longleftrightarrow> (\<exists>c d r. e = CTraderProtocolError c d r)"
  by (cases e) (simp_all add: is_protocol_error_def)

lemma is_protocol_error_simps [simp]:
  "is_protocol_error (CTraderProtocolError c d r)"
  "\<not> is_protocol_error (CTraderConnectionError m)"
  "\<not> is_protocol_error (CTraderRequestSentConnectionError m)"
  "\<not> is_protocol_error (CTraderTimeoutError m)"
  "\<not> is_protocol_error AsyncTimeoutError"
  "\<not> is_protocol_error (ExchangeConnectionError m)"
  by (simp_all add: is_protocol_error_def)

text \<open>\<open>str(exc)\<close> of a protocol or auth error.\<close>

definition code_text :: "string \<Rightarrow> string \<Rightarrow> string" where
  "code_text code desc = (if desc \<noteq> [] then code @ '': '' @ desc else code)"

section \<open>Error-code sets\<close>

definition CONNECTION_CLASS_CODES :: "string list" where
  "CONNECTION_CLASS_CODES =
     [''CANT_ROUTE_REQUEST'', ''TIMEOUT_ERROR'', ''SERVER_IS_UNDER_MAINTENANCE'',
      ''CH_SERVER_NOT_REACHABLE'']"

definition NOT_FOUND_CODES :: "string list" where
  "NOT_FOUND_CODES =
     [''POSITION_NOT_FOUND'', ''POSITION_NOT_FOUND_OR_NOT_OPENED'', ''ORDER_NOT_FOUND'',
      ''ALREADY_CLOSED'']"

definition POSITION_LOCKED_CODES :: "string list" where
  "POSITION_LOCKED_CODES = [''POSITION_LOCKED'']"

definition MARGIN_CODES :: "string list" where
  "MARGIN_CODES =
     [''NOT_ENOUGH_MONEY'', ''NO_ENOUGH_MONEY_TO_OPEN_POSITION'', ''TRADING_BAD_VOLUME'',
      ''TRADING_DISABLED'']"

definition MARKET_CLOSED_CODES :: "string list" where
  "MARKET_CLOSED_CODES = [''MARKET_CLOSED'', ''SYMBOL_HAS_HOLIDAY'']"

definition RATE_LIMIT_CODES :: "string list" where
  "RATE_LIMIT_CODES = [''REQUEST_FREQUENCY_EXCEEDED'', ''BLOCKED_PAYLOAD_TYPE'']"

definition ACCOUNT_AUTH_LOST_CODES :: "string list" where
  "ACCOUNT_AUTH_LOST_CODES =
     [''ACCOUNT_NOT_AUTHORIZED'', ''CH_CLIENT_NOT_AUTHENTICATED'', ''CH_CLIENT_AUTH_FAILURE'']"

definition TOKEN_INVALID_CODES :: "string list" where
  "TOKEN_INVALID_CODES = [''OA_AUTH_TOKEN_EXPIRED'', ''CH_ACCESS_TOKEN_INVALID'']"

definition CLIENT_AUTH_LOST_CODES :: "string list" where
  "CLIENT_AUTH_LOST_CODES = [''CH_CLIENT_NOT_AUTHENTICATED'', ''CH_CLIENT_AUTH_FAILURE'']"

lemmas code_sets =
  CONNECTION_CLASS_CODES_def NOT_FOUND_CODES_def POSITION_LOCKED_CODES_def MARGIN_CODES_def
  MARKET_CLOSED_CODES_def RATE_LIMIT_CODES_def ACCOUNT_AUTH_LOST_CODES_def
  TOKEN_INVALID_CODES_def CLIENT_AUTH_LOST_CODES_def

section \<open>Classification\<close>

definition retryable :: "string \<Rightarrow> bool" where
  "retryable code \<longleftrightarrow> code \<in> set CONNECTION_CLASS_CODES"

definition is_account_auth_lost :: "string \<Rightarrow> string \<Rightarrow> bool" where
  "is_account_auth_lost code desc \<longleftrightarrow>
     code \<in> set ACCOUNT_AUTH_LOST_CODES \<or> code \<in> set TOKEN_INVALID_CODES
     \<or> (code = ''INVALID_REQUEST'' \<and> contains (lower desc) ''not authorized'')"

definition is_token_invalid :: "string \<Rightarrow> bool" where
  "is_token_invalid code \<longleftrightarrow> code \<in> set TOKEN_INVALID_CODES"

definition is_client_auth_lost :: "string \<Rightarrow> bool" where
  "is_client_auth_lost code \<longleftrightarrow> code \<in> set CLIENT_AUTH_LOST_CODES"

definition is_not_found :: "string \<Rightarrow> bool" where
  "is_not_found code \<longleftrightarrow> code \<in> set NOT_FOUND_CODES"

definition is_position_locked :: "string \<Rightarrow> bool" where
  "is_position_locked code \<longleftrightarrow> code \<in> set POSITION_LOCKED_CODES"

definition is_rate_limited :: "string \<Rightarrow> bool" where
  "is_rate_limited code \<longleftrightarrow> code \<in> set RATE_LIMIT_CODES"

definition map_error_code :: "string \<Rightarrow> string \<Rightarrow> rat option \<Rightarrow> exn" where
  "map_error_code code desc retry =
     (if code \<in> set RATE_LIMIT_CODES then
        ExchangeRateLimitError ''cTrader request rate limit exceeded; backing off''
          (case retry of None \<Rightarrow> 1 | Some r \<Rightarrow> max 0 r)
      else if code \<in> set MARGIN_CODES then
        InsufficientMarginError
          ''cTrader declined the order: insufficient margin or trading not permitted for this size''
      else let reason = (if desc \<noteq> [] then code @ '': '' @ desc else code)
        in if code \<in> set MARKET_CLOSED_CODES then
             MarketClosedError (''cTrader declined the order: market closed ('' @ reason @ '')'')
           else ExchangeOrderRejectedError
             (if reason \<noteq> [] then ''cTrader rejected the order ('' @ reason @ '')''
              else ''cTrader rejected the order''))"

definition map_protocol_error :: "exn \<Rightarrow> exn" where
  "map_protocol_error e =
     (case e of CTraderProtocolError c d r \<Rightarrow> map_error_code c d r | _ \<Rightarrow> e)"

lemmas classifiers =
  retryable_def is_account_auth_lost_def is_token_invalid_def is_client_auth_lost_def
  is_not_found_def is_position_locked_def is_rate_limited_def

lemma token_invalid_auth_lost: "is_token_invalid c \<Longrightarrow> is_account_auth_lost c d"
  by (simp add: classifiers)

lemma client_auth_lost_auth_lost: "is_client_auth_lost c \<Longrightarrow> is_account_auth_lost c d"
  by (auto simp: classifiers code_sets)

lemma rate_limited_not_auth_lost: "is_rate_limited c \<Longrightarrow> \<not> is_account_auth_lost c d"
  by (auto simp: classifiers code_sets)

lemma token_invalid_not_client_lost: "is_token_invalid c \<Longrightarrow> \<not> is_client_auth_lost c"
  by (auto simp: classifiers code_sets)

lemma map_error_code_rate_limited:
  "is_rate_limited c \<longleftrightarrow> (\<exists>m r. map_error_code c d retry = ExchangeRateLimitError m r)"
  by (auto simp: map_error_code_def is_rate_limited_def Let_def)

lemma map_error_code_delay_nonneg:
  "map_error_code c d retry = ExchangeRateLimitError m r \<Longrightarrow> 0 \<le> r"
  by (auto simp: map_error_code_def Let_def split: if_splits option.splits)

text \<open>
  The error classes the recovery code branches on do not overlap. A rate-limited, a
  margin, a market-closed, a position-locked and a not-found code is never taken for a lost
  session (which would re-send the request), an invalid token and a lost application channel (which
  need different repairs) are both lost sessions and are told apart, and only a rate limit is
  mapped to the taxonomy's back-off error.
\<close>

theorem error_classes_disjoint:
  shows "\<not> (is_account_auth_lost c d \<and> (is_rate_limited c \<or> is_not_found c \<or> is_position_locked c
            \<or> retryable c \<or> c \<in> set MARGIN_CODES \<or> c \<in> set MARKET_CLOSED_CODES))
    \<and> \<not> (is_token_invalid c \<and> is_client_auth_lost c)
    \<and> (is_account_auth_lost c [] \<longleftrightarrow>
         is_token_invalid c \<or> is_client_auth_lost c \<or> c = ''ACCOUNT_NOT_AUTHORIZED'')
    \<and> (is_rate_limited c \<longleftrightarrow> (\<exists>m r. map_error_code c d retry = ExchangeRateLimitError m r))"
proof (intro conjI)
  show "\<not> (is_account_auth_lost c d \<and> (is_rate_limited c \<or> is_not_found c \<or> is_position_locked c
            \<or> retryable c \<or> c \<in> set MARGIN_CODES \<or> c \<in> set MARKET_CLOSED_CODES))"
    by (auto simp: classifiers code_sets)
  show "\<not> (is_token_invalid c \<and> is_client_auth_lost c)"
    by (auto simp: classifiers code_sets)
  show "is_account_auth_lost c [] \<longleftrightarrow>
         is_token_invalid c \<or> is_client_auth_lost c \<or> c = ''ACCOUNT_NOT_AUTHORIZED''"
    by (auto simp: classifiers code_sets lower_def)
qed (rule map_error_code_rate_limited)

end
