(* ===== verification/Helpers.thy ===== *)
theory Helpers
  imports Floats Errors
begin

text \<open>
  \<open>helpers.py\<close>: the protocol constants, the endpoint choice, the parser of persisted protocol
  identifiers and the unit conversions of the order layer, and the rules row of \<open>models.py\<close>.
  Quantities in traded units are floats (theory Floats); protocol volumes are integer centi-units.
\<close>

section \<open>Constants and endpoint\<close>

definition MAX_MESSAGE_LENGTH :: int where "MAX_MESSAGE_LENGTH = 15000000"
definition HEARTBEAT_INTERVAL :: rat where "HEARTBEAT_INTERVAL = 10"
definition INBOUND_IDLE_TIMEOUT :: rat where "INBOUND_IDLE_TIMEOUT = 90"
definition REQUEST_TIMEOUT :: rat where "REQUEST_TIMEOUT = 30"
definition PROTOBUF_PORT :: int where "PROTOBUF_PORT = 5035"

definition protobuf_host :: "bool \<Rightarrow> string" where
  "protobuf_host demo = (if demo then ''demo.ctraderapi.com'' else ''live.ctraderapi.com'')"

text \<open>
  The environment variables \<open>PYNE_CTRADER_HOST\<close> and \<open>PYNE_CTRADER_PORT\<close> are arguments, \<open>[]\<close>
  when unset; a port text \<open>int()\<close> rejects raises \<open>ValueError\<close>.
\<close>

definition protobuf_endpoint ::
    "string \<Rightarrow> string \<Rightarrow> bool \<Rightarrow> string \<Rightarrow> int \<Rightarrow> exn + string \<times> int" where
  "protobuf_endpoint env_host env_port demo host port =
     (let h = (if env_host \<noteq> [] then env_host else if host \<noteq> [] then host else protobuf_host demo)
      in if env_port \<noteq> []
         then (case py_int_of_str env_port of
                 None \<Rightarrow> Inl (ValueError ''invalid literal for int()'')
               | Some p \<Rightarrow> Inr (h, p))
         else Inr (h, if port \<noteq> 0 then port else PROTOBUF_PORT))"

section \<open>Protocol identifiers\<close>

text \<open>A value read back from the JSON-shaped \<open>extras\<close> of a journal row.\<close>

datatype pyval = PyInt int | PyBool bool | PyStr string | PyFloat rat | PyNone | PyOther

definition parse_protocol_id :: "pyval \<Rightarrow> string \<Rightarrow> exn + int" where
  "parse_protocol_id v field =
     (let check = (\<lambda>n. if n \<le> 0 then Inl (ValueError (field @ '' must be positive, got '' @ py_str n))
                        else Inr n)
      in case v of
           PyInt n \<Rightarrow> check n
         | PyStr s \<Rightarrow> (if ascii_decimal s then check (decimal_value s)
                      else Inl (ValueError (field @ '' must be a positive integer'')))
         | _ \<Rightarrow> Inl (ValueError (field @ '' must be a positive integer'')))"

text \<open>
  \<open>parse_protocol_id\<close> accepts exactly the positive integers and the ASCII-decimal
  texts of positive integers (never a boolean, a float or a missing value), returns the number the
  text denotes, and reads back every positive identifier written as \<open>str(n)\<close>.
\<close>

theorem parse_protocol_id_exact:
  "(parse_protocol_id v field = Inr n \<longleftrightarrow>
      0 < n \<and> (v = PyInt n \<or> (\<exists>s. v = PyStr s \<and> ascii_decimal s \<and> decimal_value s = n)))
   \<and> parse_protocol_id (PyStr (py_str (int k + 1))) field = Inr (int k + 1)"
proof (rule conjI)
  show "parse_protocol_id v field = Inr n \<longleftrightarrow>
          0 < n \<and> (v = PyInt n \<or> (\<exists>s. v = PyStr s \<and> ascii_decimal s \<and> decimal_value s = n))"
    by (cases v) (auto simp: parse_protocol_id_def Let_def)
  show "parse_protocol_id (PyStr (py_str (int k + 1))) field = Inr (int k + 1)"
    by (simp add: parse_protocol_id_def py_str_decimal py_str_value)
qed

section \<open>Units\<close>

definition VOLUME_SCALE :: int where "VOLUME_SCALE = 100"

definition raw_volume :: "rat \<Rightarrow> int" where
  "raw_volume units = round_half_even (fmul units (of_int VOLUME_SCALE))"

definition quantize_volume :: "rat \<Rightarrow> int \<Rightarrow> int" where
  "quantize_volume units step_volume =
     (let raw = fmul units (of_int VOLUME_SCALE)
      in if 0 < step_volume
         then let quantized = round_half_even (fdiv raw (of_int step_volume)) * step_volume
              in if quantized = 0 \<and> 0 < raw then step_volume else quantized
         else round_half_even raw)"

definition volume_to_units :: "int \<Rightarrow> rat" where
  "volume_to_units volume = fdiv (of_int volume) (of_int VOLUME_SCALE)"

definition round_price :: "rat \<Rightarrow> nat \<Rightarrow> rat" where
  "round_price price digits = py_round price digits"

definition money_value :: "int \<Rightarrow> nat \<Rightarrow> rat" where
  "money_value raw money_digits = fdiv (of_int raw) (10 ^ money_digits)"

text \<open>\<open>models.py\<close>, the cached rules of one symbol.\<close>

record symbol_rules =
  symbol_id :: int
  digits :: nat
  min_volume :: int
  step_volume :: int
  max_volume :: int

lemma volume_to_units_nonneg: "0 \<le> v \<Longrightarrow> 0 \<le> volume_to_units v"
  by (simp add: volume_to_units_def fdiv_def VOLUME_SCALE_def dbl.rnd_nonneg)

lemma volume_to_units_mono: "v \<le> w \<Longrightarrow> volume_to_units v \<le> volume_to_units w"
  by (simp add: volume_to_units_def fdiv_def VOLUME_SCALE_def dbl.rnd_mono divide_right_mono)

text \<open>The exact centi-units of a converted volume differ from it by two rounding errors only.\<close>

lemma units_times_scale_err:
  "\<bar>fmul (volume_to_units v) (of_int VOLUME_SCALE) - of_int v\<bar> \<le> \<bar>of_int v\<bar> / 2 ^ 51"
proof -
  define x where "x = (of_int v :: rat)"
  define u where "u = fl (x / 100)"
  have u: "\<bar>u - x / 100\<bar> \<le> \<bar>x / 100\<bar> / 2 ^ 53" by (simp only: u_def dbl.rnd_err)
  then have a: "\<bar>u * 100 - x\<bar> \<le> \<bar>x\<bar> / 2 ^ 53" by (simp add: abs_if split: if_splits)
  have b: "\<bar>fl (u * 100) - u * 100\<bar> \<le> \<bar>u * 100\<bar> / 2 ^ 53" by (rule dbl.rnd_err)
  have c: "\<bar>u * 100\<bar> \<le> 2 * \<bar>x\<bar>" using a by (simp add: abs_if split: if_splits)
  have "\<bar>fl (u * 100) - x\<bar> \<le> \<bar>u * 100\<bar> / 2 ^ 53 + \<bar>x\<bar> / 2 ^ 53" using a b by linarith
  also have "\<dots> \<le> \<bar>x\<bar> / 2 ^ 51" using c by simp
  finally show ?thesis by (simp add: fmul_def volume_to_units_def fdiv_def VOLUME_SCALE_def x_def u_def)
qed

lemma fl_div_near:
  assumes k: "\<bar>k\<bar> < 2 ^ 49" and step: "0 < step"
    and near: "\<bar>raw - of_int (k * step)\<bar> \<le> \<bar>of_int (k * step)\<bar> / 2 ^ 51"
  shows "round_half_even (fl (raw / of_int step)) = k"
proof -
  define x where "x = raw / of_int step"
  have s: "(0::rat) < of_int step" using step by simp
  have "\<bar>raw - of_int k * of_int step\<bar> \<le> \<bar>of_int k * of_int step\<bar> / 2 ^ 51"
    using near by (simp only: of_int_mult)
  then have "\<bar>raw - of_int k * of_int step\<bar> / of_int step \<le> \<bar>of_int k * of_int step\<bar> / 2 ^ 51 / of_int step"
    by (rule divide_right_mono) (use s in simp)
  moreover have "\<bar>raw - of_int k * of_int step\<bar> / of_int step = \<bar>x - of_int k\<bar>"
  proof -
    have "x - of_int k = (raw - of_int k * of_int step) / of_int step"
      using s by (simp add: x_def field_simps)
    then show ?thesis using s by (simp add: abs_divide)
  qed
  moreover have "\<bar>of_int k * of_int step\<bar> / 2 ^ 51 / of_int step = \<bar>of_int k :: rat\<bar> / 2 ^ 51"
    using s by (simp add: abs_mult)
  ultimately have d: "\<bar>x - of_int k\<bar> \<le> \<bar>of_int k\<bar> / 2 ^ 51" by simp
  have kr: "\<bar>of_int k :: rat\<bar> < 2 ^ 49"
    using k by (metis of_int_abs of_int_less_iff of_int_numeral of_int_power)
  have "\<bar>x - of_int k\<bar> < 1 / 4" using d kr by simp
  moreover have "\<bar>x\<bar> / 2 ^ 53 < 1 / 8" using d kr by (simp add: abs_if split: if_splits)
  ultimately show ?thesis unfolding x_def by (intro dbl.round_rnd_near) (simp add: x_def)
qed

lemma units_round_trip:
  assumes "\<bar>v\<bar> < 2 ^ 49" and "0 < step" and "step dvd v"
  shows "raw_volume (volume_to_units v) = v" and "quantize_volume (volume_to_units v) step = v"
proof -
  note e = units_times_scale_err [of v]
  have vr: "\<bar>of_int v :: rat\<bar> < 2 ^ 49"
    using assms(1) by (metis of_int_abs of_int_less_iff of_int_numeral of_int_power)
  show "raw_volume (volume_to_units v) = v"
    unfolding raw_volume_def using e vr by (intro round_half_even_near) (simp add: abs_if split: if_splits)
  obtain k where k: "v = k * step" using assms(3) by (metis dvd_def mult.commute)
  have "\<bar>k\<bar> \<le> \<bar>v\<bar>" using k assms(2) by (simp add: abs_mult mult_le_cancel_left1)
  with assms(1) have kb: "\<bar>k\<bar> < 2 ^ 49" by linarith
  let ?raw = "fmul (volume_to_units v) (of_int VOLUME_SCALE)"
  have q: "round_half_even (fdiv ?raw (of_int step)) = k"
    unfolding fdiv_def using fl_div_near [OF kb assms(2)] e k by simp
  have "?raw \<le> 0" if "v = 0"
    using that by (simp add: fmul_def volume_to_units_def fdiv_def)
  then show "quantize_volume (volume_to_units v) step = v"
    using assms(2) q k by (auto simp: quantize_volume_def Let_def)
qed

text \<open>
  Converting a venue volume to traded units and back returns the same volume, also
  through the step quantiser when the volume is a multiple of the step: the float division by 100
  and the multiplication back never lose a centi-unit (for volumes below \<open>2^49\<close>, about five
  trillion units).
\<close>

theorem volume_round_trip:
  assumes "\<bar>v\<bar> < 2 ^ 49" and "0 < step" and "step dvd v"
  shows "raw_volume (volume_to_units v) = v \<and> quantize_volume (volume_to_units v) step = v"
  using units_round_trip [OF assms] by simp

theorem volume_round_trip_witness:
  "raw_volume (volume_to_units 123400) = 123400 \<and> quantize_volume (volume_to_units 123400) 100 = 123400"
  using volume_round_trip [of 123400 100] by simp

lemma quantize_volume_dvd: "0 < step \<Longrightarrow> step dvd quantize_volume units step"
  by (simp add: quantize_volume_def Let_def)

lemma quantize_volume_pos:
  assumes "0 < step" and "0 < units" shows "0 < quantize_volume units step"
proof -
  define raw where "raw = fmul units (of_int VOLUME_SCALE)"
  have raw: "0 < raw" using assms(2) by (simp add: raw_def fmul_def VOLUME_SCALE_def dbl.rnd_pos)
  have "0 \<le> fdiv raw (of_int step)" using raw assms(1) by (simp add: fdiv_def dbl.rnd_nonneg)
  then have "round_half_even 0 \<le> round_half_even (fdiv raw (of_int step))" by (rule round_half_even_mono)
  then have "0 \<le> round_half_even (fdiv raw (of_int step))" using round_half_even_of_int [of 0] by simp
  then show ?thesis
    using assms(1) raw by (auto simp: quantize_volume_def Let_def raw_def [symmetric] zero_less_mult_iff)
qed

text \<open>
  A bound that is a multiple of the step survives the quantiser: the requested raw volume is at
  least one half below it at worst, which is at most a quarter of a step, and that fraction is a
  double.
\<close>

lemma quantize_step_lower:
  assumes "0 < step" and "\<bar>m\<bar> < 2 ^ 50" and raw: "of_int (m * step) - 1 / 2 \<le> raw"
    and tie: "step = 1 \<Longrightarrow> m \<le> round_half_even raw"
    and dbl: "fl raw = raw"
  shows "m \<le> round_half_even (fl (raw / of_int step))"
proof (cases "step = 1")
  case True
  with tie dbl show ?thesis by simp
next
  case False
  then have "2 \<le> step" using assms(1) by linarith
  then have s: "(2::rat) \<le> of_int step" by simp
  have "(of_int (4 * m - 1) / 4 :: rat) = of_int m - 1 / 4" by (simp add: field_simps)
  also have "\<dots> \<le> of_int m - 1 / 2 / of_int step"
    using s by (simp add: field_simps)
  also have "\<dots> = (of_int (m * step) - 1 / 2) / of_int step" using s by (simp add: field_simps)
  also have "\<dots> \<le> raw / of_int step" using raw s by (intro divide_right_mono) simp_all
  finally have "fl (of_int (4 * m - 1) / 4) \<le> fl (raw / of_int step)" by (rule dbl.rnd_mono)
  moreover have "fl (of_int (4 * m - 1) / 4) = of_int (4 * m - 1) / 4"
    using dbl.rnd_dyadic [of "4 * m - 1" 2] assms(2) by simp
  ultimately have "of_int m - 1 / 4 \<le> fl (raw / of_int step)" by (simp add: field_simps)
  then have "round_half_even (of_int m - 1 / 4) \<le> round_half_even (fl (raw / of_int step))"
    by (rule round_half_even_mono)
  moreover have "round_half_even (of_int m - 1 / 4) = m" by (rule round_half_even_near) simp
  ultimately show ?thesis by simp
qed

lemma quantize_step_upper:
  assumes "0 < step" and "\<bar>m\<bar> < 2 ^ 50" and raw: "raw \<le> of_int (m * step) + 1 / 2"
    and tie: "step = 1 \<Longrightarrow> round_half_even raw \<le> m"
    and dbl: "fl raw = raw"
  shows "round_half_even (fl (raw / of_int step)) \<le> m"
proof -
  have "- m \<le> round_half_even (fl (- raw / of_int step))"
    using assms by (intro quantize_step_lower) (auto simp: round_half_even_minus fl_minus)
  then show ?thesis by (simp add: fl_minus round_half_even_minus)
qed

lemma quantized_bounds:
  assumes step: "0 < step" and units: "0 < units"
    and min: "0 < a" "min_v = a * step" and max: "b < 2 ^ 50" "max_v = b * step"
    and gate: "min_v \<le> raw_volume units" "raw_volume units \<le> max_v"
  defines "q \<equiv> quantize_volume units step"
    and "raw \<equiv> fmul units (of_int VOLUME_SCALE)"
  shows "step dvd q" and "0 < q" and "min_v \<le> q" and "q \<le> max_v"
    and "\<bar>of_int q - raw\<bar> \<le> of_int step / 2 + raw / 2 ^ 53"
proof -
  show "step dvd q" using step by (simp add: q_def quantize_volume_dvd)
  show qpos: "0 < q" using step units by (simp add: q_def quantize_volume_pos)
  have err: "\<bar>of_int (raw_volume units) - raw\<bar> \<le> 1 / 2"
    unfolding raw_volume_def raw_def by (rule round_half_even_err)
  have dbl: "fl raw = raw" by (simp add: raw_def fmul_def fl_idem)
  define k where "k = round_half_even (fl (raw / of_int step))"
  have "a * step \<le> b * step" using gate min max by linarith
  then have ab: "a \<le> b" using step by (simp add: mult_le_cancel_right)
  have glo: "(of_int (a * step) :: rat) \<le> of_int (raw_volume units)"
    and ghi: "of_int (raw_volume units) \<le> (of_int (b * step) :: rat)"
    using gate min(2) max(2) by (simp_all only: of_int_le_iff)
  have lo: "of_int (a * step) - 1 / 2 \<le> raw" and hi: "raw \<le> of_int (b * step) + 1 / 2"
    using err glo ghi by linarith+
  have ka: "a \<le> k" unfolding k_def
    using lo dbl ab min max gate
    by (intro quantize_step_lower step) (auto simp: raw_volume_def raw_def [symmetric])
  have kb: "k \<le> b" unfolding k_def
    using hi dbl ab min max gate
    by (intro quantize_step_upper step) (auto simp: raw_volume_def raw_def [symmetric])
  have qk: "q = k * step"
    using ka min step by (simp add: q_def quantize_volume_def Let_def fdiv_def k_def raw_def)
  show "min_v \<le> q" using ka step by (simp add: qk min)
  show "q \<le> max_v" using kb step by (simp add: qk max)
  have s: "(0::rat) < of_int step" using step by simp
  have rpos: "0 < raw" using units by (simp add: raw_def fmul_def VOLUME_SCALE_def dbl.rnd_pos)
  have "\<bar>of_int k - raw / of_int step\<bar> \<le> 1 / 2 + \<bar>raw / of_int step\<bar> / 2 ^ 53"
    unfolding k_def by (rule dbl.round_rnd_err)
  then have "\<bar>of_int k - raw / of_int step\<bar> * of_int step \<le> (1 / 2 + \<bar>raw / of_int step\<bar> / 2 ^ 53) * of_int step"
    by (rule mult_right_mono) (use s in simp)
  moreover have "\<bar>of_int k - raw / of_int step\<bar> * of_int step = \<bar>of_int q - raw\<bar>"
  proof -
    have "(of_int k - raw / of_int step) * of_int step = of_int q - raw"
      using s by (simp add: qk field_simps)
    then show ?thesis using s by (metis abs_mult abs_of_pos)
  qed
  moreover have "(1 / 2 + \<bar>raw / of_int step\<bar> / 2 ^ 53) * of_int step = of_int step / 2 + raw / 2 ^ 53"
    using s rpos by (simp add: field_simps)
  ultimately show "\<bar>of_int q - raw\<bar> \<le> of_int step / 2 + raw / 2 ^ 53" by simp
qed

text \<open>
  The volume an order is sent with. The quantised volume is a positive multiple of
  \<open>stepVolume\<close> for every positive request, differs from the requested centi-units by at most half a
  step (up to the float error of the division), and never leaves the venue's bounds when the request passed the
  min/max gate on its raw centi-units: rounding to the step cannot push an accepted order below
  \<open>minVolume\<close> or above \<open>maxVolume\<close>.
\<close>

theorem quantized_order_volume:
  assumes "0 < step" and "0 < units"
    and "0 < a" and "min_v = a * step" and "b < 2 ^ 50" and "max_v = b * step"
    and "min_v \<le> raw_volume units" and "raw_volume units \<le> max_v"
  shows "let q = quantize_volume units step; raw = fmul units (of_int VOLUME_SCALE)
     in step dvd q \<and> 0 < q \<and> min_v \<le> q \<and> q \<le> max_v \<and> \<bar>of_int q - raw\<bar> \<le> of_int step / 2 + raw / 2 ^ 53"
  unfolding Let_def using quantized_bounds [OF assms] by blast

text \<open>Five units at a step of one unit and bounds of one and a hundred units.\<close>

theorem quantized_order_volume_witness:
  "0 < quantize_volume 5 100 \<and> 100 \<le> quantize_volume 5 100 \<and> quantize_volume 5 100 \<le> 10000"
proof -
  have "fl 500 = 500" using dbl.rnd_int [of 500] by simp
  then have raw: "raw_volume 5 = 500"
    using round_half_even_of_int [of 500] by (simp add: raw_volume_def fmul_def VOLUME_SCALE_def)
  show ?thesis
    using quantized_order_volume [of 100 5 1 100 100 10000] raw by (simp add: Let_def)
qed

end
