(* ===== verification/Messages.thy ===== *)
theory Messages
  imports Helpers "HOL-Library.Word"
begin

text \<open>
  The protobuf messages the plugin builds and reads, with the fields its code uses (the generated
  classes of \<open>messages/\<close>, declared in \<open>proto/\<close>). A scalar field is read with its default when
  absent, as the generated classes do; a field whose presence the code tests with \<open>HasField\<close> is an
  \<open>option\<close>. Message types the modelled code only forwards are \<open>ProtoOAOther\<close>.
\<close>

type_synonym bytes = "8 word list"

datatype trade_side = BUY | SELL
datatype order_type = MARKET | LIMIT | STOP | STOP_LOSS_TAKE_PROFIT | MARKET_RANGE | STOP_LIMIT
datatype order_status =
    ORDER_STATUS_ACCEPTED | ORDER_STATUS_FILLED | ORDER_STATUS_REJECTED | ORDER_STATUS_EXPIRED
  | ORDER_STATUS_CANCELLED
datatype exec_type =
    ORDER_ACCEPTED | ORDER_FILLED | ORDER_REPLACED | ORDER_CANCELLED | ORDER_EXPIRED
  | ORDER_REJECTED | ORDER_CANCEL_REJECTED | SWAP | DEPOSIT_WITHDRAW | ORDER_PARTIAL_FILL
  | BONUS_DEPOSIT_WITHDRAW
datatype position_status =
    POSITION_STATUS_OPEN | POSITION_STATUS_CLOSED | POSITION_STATUS_CREATED | POSITION_STATUS_ERROR
datatype period = M1 | M2 | M3 | M4 | M5 | M10 | M15 | M30 | H1 | H4 | H12 | D1 | W1 | MN1

record trendbar =
  tb_volume :: int
  tb_period :: period
  tb_low :: int
  tb_deltaOpen :: int
  tb_deltaClose :: int
  tb_deltaHigh :: int
  tb_minutes :: int

record spot_event =
  sp_symbolId :: int
  sp_bid :: int
  sp_ask :: int
  sp_trendbars :: "trendbar list"

record trade_data =
  td_symbolId :: int
  td_volume :: int
  td_tradeSide :: trade_side
  td_openTimestamp :: int
  td_label :: string

record order =
  o_orderId :: int
  o_tradeData :: trade_data
  o_orderType :: order_type
  o_orderStatus :: order_status
  o_executionPrice :: rat
  o_executedVolume :: int
  o_utcLastUpdateTimestamp :: int
  o_closingOrder :: bool
  o_limitPrice :: rat
  o_stopPrice :: rat
  o_clientOrderId :: string
  o_positionId :: int
  o_isStopOut :: bool
  o_stopLoss :: "rat option"
  o_takeProfit :: "rat option"
  o_relativeStopLoss :: "int option"
  o_relativeTakeProfit :: "int option"
  o_expirationTimestamp :: "int option"
  o_timeInForce :: "int option"

record position =
  p_positionId :: int
  p_tradeData :: trade_data
  p_positionStatus :: position_status
  p_price :: rat
  p_stopLoss :: "rat option"
  p_takeProfit :: "rat option"
  p_trailingStopLoss :: "bool option"

record deal =
  d_dealId :: int
  d_filledVolume :: int
  d_executionTimestamp :: int
  d_executionPrice :: rat
  d_commission :: int
  d_moneyDigits :: nat
  d_closedVolume :: "int option"

record exec_event =
  x_account :: int
  x_executionType :: exec_type
  x_position :: "position option"
  x_order :: order
  x_deal :: "deal option"
  x_errorCode :: string
  x_isServerEvent :: bool

record order_error =
  e_account :: int
  e_errorCode :: string
  e_orderId :: int
  e_description :: string

record trading_account =
  a_id :: int
  a_isLive :: bool
  a_brokerTitleShort :: string

record trader =
  t_brokerName :: string
  t_balance :: int
  t_moneyDigits :: nat
  t_depositAssetId :: int
  t_hedged :: bool

record new_order =
  n_account :: int
  n_symbolId :: int
  n_tradeSide :: trade_side
  n_volume :: int
  n_clientOrderId :: string
  n_label :: string
  n_comment :: "string option"
  n_orderType :: order_type
  n_limitPrice :: "rat option"
  n_stopPrice :: "rat option"
  n_goodTillCancel :: bool

record amend_sltp =
  s_account :: int
  s_positionId :: int
  s_stopLoss :: "rat option"
  s_takeProfit :: "rat option"
  s_trailingStopLoss :: "bool option"

record amend_order =
  m_account :: int
  m_orderId :: int
  m_volume :: int
  m_limitPrice :: "rat option"
  m_stopPrice :: "rat option"

text \<open>The sizing and precision fields of \<open>ProtoOASymbol\<close>.\<close>

record symbol_detail =
  y_digits :: nat
  y_minVolume :: int
  y_stepVolume :: int
  y_maxVolume :: int

text \<open>A reconcile response lists positions and orders, a symbol or asset list identifiers with names.\<close>

datatype msg =
    ProtoHeartbeatEvent
  | ProtoErrorRes string string
  | ProtoOAErrorRes string string "int option"
  | ProtoOASpotEvent spot_event
  | ProtoOAExecutionEvent exec_event
  | ProtoOAOrderErrorEvent order_error
  | ProtoOAAccountDisconnectEvent int
  | ProtoOAAccountsTokenInvalidatedEvent "int list" string
  | ProtoOAClientDisconnectEvent string
  | ProtoOAApplicationAuthReq string string
  | ProtoOAAccountAuthReq int string
  | ProtoOARefreshTokenReq string
  | ProtoOARefreshTokenRes string string string int
  | ProtoOAGetAccountListByAccessTokenReq string
  | ProtoOAGetAccountListByAccessTokenRes "trading_account list"
  | ProtoOATraderReq int
  | ProtoOATraderRes trader
  | ProtoOANewOrderReq new_order
  | ProtoOACancelOrderReq int int
  | ProtoOAAmendPositionSLTPReq amend_sltp
  | ProtoOAClosePositionReq int int int
  | ProtoOAAmendOrderReq amend_order
  | ProtoOAReconcileReq int bool
  | ProtoOAReconcileRes "position list" "order list"
  | ProtoOASymbolsListReq int
  | ProtoOASymbolsListRes "(int \<times> string) list"
  | ProtoOASymbolByIdReq int int
  | ProtoOASymbolByIdRes "symbol_detail list"
  | ProtoOAAssetListReq int
  | ProtoOAAssetListRes "(int \<times> string) list"
  | ProtoOAOther int bytes

text \<open>The \<open>ProtoMessage\<close> envelope; an absent \<open>clientMsgId\<close> reads as the empty string.\<close>

record envelope =
  payloadType :: int
  payload :: bytes
  clientMsgId :: string

text \<open>
  The protobuf runtime and the generated classes, which the wire layer calls: serialisation of the
  envelope and of a concrete message, its \<open>payloadType\<close> default, and the decoder
  \<open>_PAYLOAD_TYPE_TO_CLASS\<close> holds for a payload type (\<open>None\<close> for an unknown type); a decoder
  returns \<open>None\<close> where \<open>ParseFromString\<close> raises \<open>DecodeError\<close>.
\<close>

record codec =
  enc_env :: "envelope \<Rightarrow> bytes"
  dec_env :: "bytes \<Rightarrow> envelope option"
  type_of :: "msg \<Rightarrow> int"
  enc_msg :: "msg \<Rightarrow> bytes"
  class_of :: "int \<Rightarrow> (bytes \<Rightarrow> msg option) option"

text \<open>
  What protobuf promises for a message: the envelope around it and the message itself parse back, and
  no other message type has the payload type of the heartbeat.
\<close>

definition carries :: "codec \<Rightarrow> msg \<Rightarrow> string \<Rightarrow> bool" where
  "carries cd m c \<longleftrightarrow>
     (let env = \<lparr>payloadType = type_of cd m, payload = enc_msg cd m, clientMsgId = c\<rparr>
      in dec_env cd (enc_env cd env) = Some env
         \<and> (case class_of cd (type_of cd m) of
               None \<Rightarrow> False | Some parse \<Rightarrow> parse (enc_msg cd m) = Some m)
         \<and> (type_of cd m = type_of cd ProtoHeartbeatEvent \<longleftrightarrow> m = ProtoHeartbeatEvent))"

end
