(* ===== verification/Wire.thy ===== *)
theory Wire
  imports Messages
begin

text \<open>
  \<open>wire.py\<close>: one persistent connection. The state of \<open>WireClient\<close> is the record \<open>wire\<close>; a future
  a request waits on is an entry of \<open>futures\<close>, keyed by the number of its request, and
  \<open>pending\<close> maps the \<open>clientMsgId\<close> text to it. A coroutine is cut where it awaits: \<open>send_begin\<close> runs
  \<open>send_request\<close> up to the wait for the response, \<open>send_finish\<close> from there. \<open>recv_step\<close> is one turn of
  \<open>_recv_loop\<close> on the bytes received, \<open>recv_loop\<close> the whole loop until the stream ends,
  \<open>hb_tick\<close> one turn of \<open>_heartbeat_loop\<close>. The inductive \<open>wire_step\<close> interleaves them in any order.

  What the outside decides is an argument: the loop clock (\<open>now\<close>), whether \<open>drain\<close> succeeds, what the
  write gate raises, and the bytes received. The write under the send lock is one step.
\<close>

section \<open>Framing\<close>

definition be32 :: "nat \<Rightarrow> bytes" where
  "be32 n = [word_of_nat (n div 2 ^ 24), word_of_nat (n div 2 ^ 16), word_of_nat (n div 2 ^ 8),
             word_of_nat n]"

fun be32_val :: "bytes \<Rightarrow> nat" where
  "be32_val [a, b, c, d] = unat a * 2 ^ 24 + unat b * 2 ^ 16 + unat c * 2 ^ 8 + unat d"
| "be32_val _ = 0"

lemma length_be32 [simp]: "length (be32 n) = 4"
  by (simp add: be32_def)

lemma be32_round_trip:
  assumes "n < 2 ^ 32" shows "be32_val (be32 n) = n"
proof -
  define a b c where "a = n div 256" and "b = a div 256" and "c = b div 256"
  have d: "n div 256 = a" "n div 65536 = b" "n div 16777216 = c"
    by (simp_all add: a_def b_def c_def div_mult2_eq [symmetric])
  have "n div 16777216 < 256" using assms by (simp add: less_mult_imp_div_less)
  then have c: "c mod 256 = c" by (simp add: d)
  have "n = a * 256 + n mod 256" "a = b * 256 + a mod 256" "b = c * 256 + b mod 256"
    by (simp_all only: a_def b_def c_def div_mult_mod_eq)
  then have "c * 16777216 + b mod 256 * 65536 + a mod 256 * 256 + n mod 256 = n" by linarith
  then show ?thesis by (simp add: be32_def unat_of_nat d c)
qed

definition frame :: "codec \<Rightarrow> msg \<Rightarrow> string \<Rightarrow> exn + bytes" where
  "frame cd m client_msg_id =
     (let body = enc_env cd \<lparr>payloadType = type_of cd m, payload = enc_msg cd m,
                             clientMsgId = client_msg_id\<rparr>
      in if length body < 2 ^ 32 then Inr (be32 (length body) @ body) else Inl StructError)"

section \<open>State\<close>

datatype sock = NoSock | Open | Closing

datatype fut = Waiting | Done msg | Failed exn | Cancelled

record wire =
  sock :: sock
  msg_id :: int
  pending :: "string \<rightharpoonup> int"
  futures :: "int \<rightharpoonup> fut"
  last_send :: rat
  last_recv :: rat
  inbound_heartbeats :: nat
  spot_events_without_trendbar :: nat
  spot_events_with_trendbar :: nat
  events :: "msg list"
  written :: "bytes list"

definition init_wire :: wire where
  "init_wire = \<lparr>sock = NoSock, msg_id = 0, pending = Map.empty, futures = Map.empty, last_send = 0,
     last_recv = 0, inbound_heartbeats = 0, spot_events_without_trendbar = 0,
     spot_events_with_trendbar = 0, events = [], written = []\<rparr>"

definition is_connected :: "wire \<Rightarrow> bool" where
  "is_connected w \<longleftrightarrow> sock w = Open"

definition telemetry_snapshot :: "wire \<Rightarrow> nat \<times> nat \<times> nat" where
  "telemetry_snapshot w =
     (inbound_heartbeats w, spot_events_without_trendbar w, spot_events_with_trendbar w)"

definition reset_telemetry :: "wire \<Rightarrow> wire" where
  "reset_telemetry w = w\<lparr>inbound_heartbeats := 0, spot_events_without_trendbar := 0,
     spot_events_with_trendbar := 0\<rparr>"

definition close_writer :: "wire \<Rightarrow> wire" where
  "close_writer w = (if sock w = Open then w\<lparr>sock := Closing\<rparr> else w)"

definition fail_pending :: "exn \<Rightarrow> wire \<Rightarrow> wire" where
  "fail_pending e w =
     w\<lparr>pending := Map.empty,
       futures := (\<lambda>i. case futures w i of
                        Some Waiting \<Rightarrow> (if i \<in> ran (pending w) then Some (Failed e) else Some Waiting)
                      | f \<Rightarrow> f)\<rparr>"

section \<open>Connecting and disconnecting\<close>

text \<open>What \<open>asyncio.open_connection\<close> under its timeout did.\<close>

datatype open_outcome = Opened | OpenTimeout | OpenFailed string

definition connect :: "string \<Rightarrow> rat \<Rightarrow> open_outcome \<Rightarrow> (wire, exn, unit) eff" where
  "connect peer now outcome w =
     (case outcome of
        OpenTimeout \<Rightarrow> (Inl (CTraderConnectionError (''connection to '' @ peer @ '' not established'')), w)
      | OpenFailed err \<Rightarrow> (Inl (CTraderConnectionError (''connection to '' @ peer @ '' failed: '' @ err)), w)
      | Opened \<Rightarrow> (Inr (), (reset_telemetry (w\<lparr>sock := Open\<rparr>))\<lparr>last_send := now, last_recv := now\<rparr>))"

text \<open>
  \<open>disconnect\<close> cancels and awaits the two background tasks first. A receive task still running runs
  its \<open>finally\<close> clause and ends with \<open>CancelledError\<close>, which is swallowed; an exception a task already
  ended with is raised again by the await, before the socket is closed and the pending requests are
  failed.
\<close>

datatype task = NoTask | Running | Ended "exn option"

definition disconnect :: "task \<Rightarrow> (wire, exn, unit) eff" where
  "disconnect recv_task w =
     (let w1 = (if recv_task = Running then fail_pending (CTraderConnectionError ''connection lost'') w
                else w)
      in case recv_task of
           Ended (Some e) \<Rightarrow>
             (if e = CancelledError
              then (Inr (), fail_pending (CTraderConnectionError ''connection closed'')
                              ((close_writer w1)\<lparr>sock := NoSock\<rparr>))
              else (Inl e, w1))
         | _ \<Rightarrow> (Inr (), fail_pending (CTraderConnectionError ''connection closed'')
                            ((close_writer w1)\<lparr>sock := NoSock\<rparr>)))"

section \<open>Sending\<close>

definition send_message ::
    "codec \<Rightarrow> rat \<Rightarrow> bool \<Rightarrow> exn option \<Rightarrow> msg \<Rightarrow> string \<Rightarrow> (wire, exn, unit) eff" where
  "send_message cd now drain gate m client_msg_id w =
     (if sock w \<noteq> Open then (Inl (CTraderConnectionError ''not connected''), w)
      else case frame cd m client_msg_id of
             Inl e \<Rightarrow> (Inl e, w)
           | Inr data \<Rightarrow>
               (case gate of
                  Some e \<Rightarrow> (Inl e, w)
                | None \<Rightarrow>
                    let w1 = w\<lparr>written := written w @ [data]\<rparr>
                    in if drain then (Inr (), w1\<lparr>last_send := now\<rparr>)
                       else (Inl (CTraderRequestSentConnectionError ''connection lost while sending''),
                             close_writer w1)))"

definition raise_on_error :: "msg \<Rightarrow> exn + msg" where
  "raise_on_error m =
     (case m of
        ProtoErrorRes c d \<Rightarrow> Inl (CTraderProtocolError c d None)
      | ProtoOAErrorRes c d r \<Rightarrow> Inl (CTraderProtocolError c d (map_option of_int r))
      | _ \<Rightarrow> Inr m)"

definition pop_pending :: "int \<Rightarrow> wire \<Rightarrow> wire" where
  "pop_pending i w = w\<lparr>pending := (pending w)(py_str i := None)\<rparr>"

text \<open>\<open>send_request\<close> up to the wait: the number of the request it waits for, or the exception.\<close>

definition as_wire_timeout :: "exn \<Rightarrow> exn" where
  "as_wire_timeout e =
     (if e = AsyncTimeoutError then CTraderTimeoutError ''no response within the timeout'' else e)"

definition send_begin :: "codec \<Rightarrow> rat \<Rightarrow> bool \<Rightarrow> exn option \<Rightarrow> msg \<Rightarrow> (wire, exn, int) eff" where
  "send_begin cd now drain gate m w =
     (let i = msg_id w + 1;
          w1 = w\<lparr>msg_id := i, futures := (futures w)(i \<mapsto> Waiting),
                 pending := (pending w)(py_str i \<mapsto> i)\<rparr>
      in case send_message cd now drain gate m (py_str i) w1 of
           (Inr _, w2) \<Rightarrow> (Inr i, w2)
         | (Inl e, w2) \<Rightarrow> (Inl (as_wire_timeout e), pop_pending i (w2\<lparr>futures := (futures w2)(i \<mapsto> Cancelled)\<rparr>)))"

text \<open>
  The rest of \<open>send_request\<close>: \<open>None\<close> while the response is outstanding and the timeout has not
  expired, else what the call returns or raises. A connection loss while waiting is raised as the
  request-sent variant: the bytes were written.
\<close>

definition send_finish :: "int \<Rightarrow> bool \<Rightarrow> wire \<Rightarrow> ((exn + msg) \<times> wire) option" where
  "send_finish i expired w =
     (case futures w i of
        Some (Done m) \<Rightarrow> Some (raise_on_error m, pop_pending i w)
      | Some (Failed e) \<Rightarrow>
          Some (Inl (case e of
                       CTraderConnectionError s \<Rightarrow> CTraderRequestSentConnectionError s
                     | CTraderRequestSentConnectionError s \<Rightarrow> CTraderRequestSentConnectionError s
                     | _ \<Rightarrow> as_wire_timeout e), pop_pending i w)
      | Some Waiting \<Rightarrow>
          (if expired
           then Some (Inl (CTraderTimeoutError ''no response within the timeout''),
                      pop_pending i (w\<lparr>futures := (futures w)(i \<mapsto> Cancelled)\<rparr>))
           else None)
      | _ \<Rightarrow> None)"

section \<open>Receiving\<close>

definition count_event :: "msg \<Rightarrow> wire \<Rightarrow> wire" where
  "count_event m w =
     (case m of
        ProtoOASpotEvent sp \<Rightarrow>
          (if sp_trendbars sp \<noteq> []
           then w\<lparr>spot_events_with_trendbar := spot_events_with_trendbar w + 1\<rparr>
           else w\<lparr>spot_events_without_trendbar := spot_events_without_trendbar w + 1\<rparr>)
      | _ \<Rightarrow> w)"

lemma count_event_fields [simp]:
  "pending (count_event m w) = pending w" "futures (count_event m w) = futures w"
  "events (count_event m w) = events w" "msg_id (count_event m w) = msg_id w"
  "sock (count_event m w) = sock w" "written (count_event m w) = written w"
  "last_recv (count_event m w) = last_recv w" "last_send (count_event m w) = last_send w"
  by (simp_all add: count_event_def split: msg.split)

definition route :: "codec \<Rightarrow> envelope \<Rightarrow> (wire, exn, unit) eff" where
  "route cd env w =
     (case class_of cd (payloadType env) of
        None \<Rightarrow> (Inr (), w)
      | Some parse \<Rightarrow>
          (case parse (payload env) of
             None \<Rightarrow> (Inl DecodeError, w)
           | Some m \<Rightarrow>
               let w1 = count_event m w
               in (case (if clientMsgId env \<noteq> [] then pending w1 (clientMsgId env) else None) of
                     Some i \<Rightarrow>
                       (if futures w1 i = Some Waiting
                        then (Inr (), w1\<lparr>futures := (futures w1)(i \<mapsto> Done m)\<rparr>)
                        else (Inr (), w1\<lparr>events := events w1 @ [m]\<rparr>))
                   | None \<Rightarrow> (Inr (), w1\<lparr>events := events w1 @ [m]\<rparr>))))"

text \<open>
  One turn of the receive loop on the bytes still unread: \<open>More\<close> with the rest of the stream, or
  \<open>Stop\<close> with the exception that ended the turn.
\<close>

datatype turn = More bytes | Stop exn

definition recv_step :: "codec \<Rightarrow> rat \<Rightarrow> bool \<Rightarrow> bytes \<Rightarrow> wire \<Rightarrow> turn \<times> wire" where
  "recv_step cd now drain buf w =
     (if length buf < 4 then (Stop (OSError ''IncompleteReadError''), w)
      else let n = be32_val (take 4 buf); rest = drop 4 buf in
        if int n > MAX_MESSAGE_LENGTH
        then (Stop (CTraderProtocolError ''LENGTH_EXCEEDED'' ''inbound frame too long'' None), w)
        else if length rest < n then (Stop (OSError ''IncompleteReadError''), w)
        else let w1 = w\<lparr>last_recv := now\<rparr> in
          case dec_env cd (take n rest) of
            None \<Rightarrow> (Stop DecodeError, w1)
          | Some env \<Rightarrow>
              (if payloadType env = type_of cd ProtoHeartbeatEvent
               then (case send_message cd now drain None ProtoHeartbeatEvent []
                            (w1\<lparr>inbound_heartbeats := inbound_heartbeats w1 + 1\<rparr>) of
                       (Inr _, w2) \<Rightarrow> (More (drop n rest), w2)
                     | (Inl e, w2) \<Rightarrow> (Stop e, w2))
               else (case route cd env w1 of
                       (Inr _, w2) \<Rightarrow> (More (drop n rest), w2)
                     | (Inl e, w2) \<Rightarrow> (Stop e, w2))))"

text \<open>
  How the loop ends: the two \<open>except\<close> clauses close the writer; a connection error of the wire layer
  itself (a failed heartbeat echo) matches neither and leaves the task as its exception. The
  \<open>finally\<close> clause fails every pending request.
\<close>

definition recv_end :: "exn \<Rightarrow> wire \<Rightarrow> exn option \<times> wire" where
  "recv_end e w =
     (let handled = (case e of OSError _ \<Rightarrow> True | DecodeError \<Rightarrow> True | StructError \<Rightarrow> True
                             | CTraderProtocolError _ _ _ \<Rightarrow> True | _ \<Rightarrow> False);
          w1 = (if handled then close_writer w else w)
      in (if handled then None else Some e, fail_pending (CTraderConnectionError ''connection lost'') w1))"

lemma recv_step_shorter: "recv_step cd now drain buf w = (More rest, w') \<Longrightarrow> length rest < length buf"
  by (auto simp: recv_step_def Let_def split: if_splits option.splits prod.splits sum.splits)

function recv_loop ::
    "codec \<Rightarrow> (nat \<Rightarrow> rat) \<Rightarrow> (nat \<Rightarrow> bool) \<Rightarrow> nat \<Rightarrow> bytes \<Rightarrow> wire \<Rightarrow> exn option \<times> wire" where
  "recv_loop cd clock drain k buf w =
     (case recv_step cd (clock k) (drain k) buf w of
        (More rest, w') \<Rightarrow> recv_loop cd clock drain (k + 1) rest w'
      | (Stop e, w') \<Rightarrow> recv_end e w')"
  by pat_completeness auto
termination
  by (relation "measure (\<lambda>(cd, clock, drain, k, buf, w). length buf)") (auto dest: recv_step_shorter [OF sym])

declare recv_loop.simps [simp del]

section \<open>Heartbeats and the inbound watchdog\<close>

datatype hb = HbContinue | HbStop

definition hb_tick :: "codec \<Rightarrow> rat \<Rightarrow> bool \<Rightarrow> wire \<Rightarrow> hb \<times> wire" where
  "hb_tick cd now drain w =
     (if INBOUND_IDLE_TIMEOUT \<le> now - last_recv w then (HbStop, close_writer w)
      else if HEARTBEAT_INTERVAL \<le> now - last_send w
      then (case send_message cd now drain None ProtoHeartbeatEvent [] w of
              (Inr _, w') \<Rightarrow> (HbContinue, w')
            | (Inl e, w') \<Rightarrow> (HbStop, w'))
      else (HbContinue, w))"

text \<open>The loop over the times it wakes up at, with the outcome of each drain.\<close>

fun heartbeat_loop :: "codec \<Rightarrow> (rat \<times> bool) list \<Rightarrow> wire \<Rightarrow> wire" where
  "heartbeat_loop cd [] w = w"
| "heartbeat_loop cd ((now, drain) # ticks) w =
     (case hb_tick cd now drain w of
        (HbContinue, w') \<Rightarrow> heartbeat_loop cd ticks w'
      | (HbStop, w') \<Rightarrow> w')"

section \<open>Interleavings\<close>

text \<open>Every way the connection's state can move: any coroutine may take the next step.\<close>

inductive wire_step :: "codec \<Rightarrow> wire \<Rightarrow> wire \<Rightarrow> bool" for cd :: codec where
  connected: "wire_step cd w (snd (connect peer now outcome w))"
| begun: "wire_step cd w (snd (send_begin cd now drain gate m w))"
| finished: "send_finish i expired w = Some (r, w') \<Longrightarrow> wire_step cd w w'"
| sent: "wire_step cd w (snd (send_message cd now drain None m [] w))"
| received: "recv_step cd now drain buf w = (More rest, w') \<Longrightarrow> wire_step cd w w'"
| ended: "recv_step cd now drain buf w = (Stop e, w') \<Longrightarrow> wire_step cd w (snd (recv_end e w'))"
| ticked: "wire_step cd w (snd (hb_tick cd now drain w))"
| disconnected: "wire_step cd w (snd (disconnect recv_task w))"

inductive wire_reach :: "codec \<Rightarrow> wire \<Rightarrow> bool" for cd :: codec where
  start: "wire_reach cd init_wire"
| step: "wire_reach cd w \<Longrightarrow> wire_step cd w w' \<Longrightarrow> wire_reach cd w'"

text \<open>
  The bookkeeping of requests: ids are the texts of the numbers handed out so far, and every request
  still waiting is registered under its own id.
\<close>

definition wire_inv :: "wire \<Rightarrow> bool" where
  "wire_inv w \<longleftrightarrow>
     (\<forall>k i. pending w k = Some i \<longrightarrow> k = py_str i \<and> 1 \<le> i \<and> i \<le> msg_id w)
     \<and> (\<forall>i. futures w i \<noteq> None \<longrightarrow> 1 \<le> i \<and> i \<le> msg_id w)
     \<and> (\<forall>i. futures w i = Some Waiting \<longrightarrow> pending w (py_str i) = Some i)
     \<and> 0 \<le> msg_id w"

definition same_requests :: "wire \<Rightarrow> wire \<Rightarrow> bool" where
  "same_requests w w' \<longleftrightarrow> msg_id w' = msg_id w \<and> pending w' = pending w \<and> futures w' = futures w"

lemma same_requests_inv: "same_requests w w' \<Longrightarrow> wire_inv w \<Longrightarrow> wire_inv w'"
  by (simp add: same_requests_def wire_inv_def)

lemma same_requests_refl [simp]: "same_requests w w"
  by (simp add: same_requests_def)

lemma same_requests_trans: "same_requests u v \<Longrightarrow> same_requests v w \<Longrightarrow> same_requests u w"
  by (simp add: same_requests_def)

lemma close_writer_same [simp]: "same_requests w (close_writer w)"
  by (simp add: same_requests_def close_writer_def)

lemma close_writer_fields [simp]:
  "events (close_writer w) = events w" "written (close_writer w) = written w"
  "futures (close_writer w) = futures w" "pending (close_writer w) = pending w"
  "msg_id (close_writer w) = msg_id w" "last_recv (close_writer w) = last_recv w"
  by (simp_all add: close_writer_def)

lemma close_writer_not_open [simp]: "sock (close_writer w) \<noteq> Open"
  by (simp add: close_writer_def)

lemma send_message_same: "same_requests w (snd (send_message cd now drain gate m c w))"
  by (auto simp: send_message_def same_requests_def Let_def split: sum.splits option.splits)

lemma hb_tick_same: "same_requests w (snd (hb_tick cd now drain w))"
  using send_message_same [of w cd now drain None ProtoHeartbeatEvent "[]"]
  by (auto simp: hb_tick_def split: prod.splits sum.splits)

lemma fail_pending_inv: "wire_inv w \<Longrightarrow> wire_inv (fail_pending e w)"
  by (auto simp: wire_inv_def fail_pending_def ran_def split: option.splits fut.splits if_splits)

lemma fail_pending_none_waiting: "wire_inv w \<Longrightarrow> futures (fail_pending e w) i \<noteq> Some Waiting"
  by (auto simp: wire_inv_def fail_pending_def ran_def split: option.splits fut.splits if_splits)

lemma fail_pending_fields [simp]:
  "sock (fail_pending e w) = sock w" "events (fail_pending e w) = events w"
  "msg_id (fail_pending e w) = msg_id w" "written (fail_pending e w) = written w"
  by (simp_all add: fail_pending_def)

lemma fail_pending_Done: "futures w i = Some (Done m) \<Longrightarrow> futures (fail_pending e w) i = Some (Done m)"
  by (simp add: fail_pending_def)

lemma wire_inv_fresh: "wire_inv w \<Longrightarrow> futures w (msg_id w + 1) = None"
  unfolding wire_inv_def by force

lemma wire_inv_D:
  assumes "wire_inv w"
  shows "pending w k = Some i \<Longrightarrow> k = py_str i \<and> 1 \<le> i \<and> i \<le> msg_id w"
    and "futures w i \<noteq> None \<Longrightarrow> 1 \<le> i \<and> i \<le> msg_id w"
    and "futures w i = Some Waiting \<Longrightarrow> pending w (py_str i) = Some i"
    and "0 \<le> msg_id w"
  using assms unfolding wire_inv_def by blast+

lemma wire_inv_I:
  assumes "\<And>k i. pending w k = Some i \<Longrightarrow> k = py_str i \<and> 1 \<le> i \<and> i \<le> msg_id w"
    and "\<And>i. futures w i \<noteq> None \<Longrightarrow> 1 \<le> i \<and> i \<le> msg_id w"
    and "\<And>i. futures w i = Some Waiting \<Longrightarrow> pending w (py_str i) = Some i"
    and "0 \<le> msg_id w"
  shows "wire_inv w"
  unfolding wire_inv_def using assms by blast

lemma register_inv:
  assumes inv: "wire_inv w" and i: "i = msg_id w + 1"
  shows "wire_inv (w\<lparr>msg_id := i, futures := (futures w)(i \<mapsto> Waiting),
                     pending := (pending w)(py_str i \<mapsto> i)\<rparr>)" (is "wire_inv ?w")
proof (rule wire_inv_I)
  have z: "0 \<le> msg_id w" using inv by (rule wire_inv_D)
  then show "0 \<le> msg_id ?w" by (simp add: i)
  show "k = py_str j \<and> 1 \<le> j \<and> j \<le> msg_id ?w" if "pending ?w k = Some j" for k j
  proof (cases "k = py_str i")
    case True
    with that z i show ?thesis by simp
  next
    case False
    with that wire_inv_D(1) [OF inv, of k j] i show ?thesis by simp
  qed
  show "1 \<le> j \<and> j \<le> msg_id ?w" if "futures ?w j \<noteq> None" for j
  proof (cases "j = i")
    case True
    with z i show ?thesis by simp
  next
    case False
    with that wire_inv_D(2) [OF inv, of j] i show ?thesis by simp
  qed
  show "pending ?w (py_str j) = Some j" if "futures ?w j = Some Waiting" for j
  proof (cases "j = i")
    case False
    with that wire_inv_D(3) [OF inv, of j] show ?thesis by (simp add: py_str_inj)
  qed simp
qed

lemma drop_inv:
  assumes inv: "wire_inv w" and f: "futures w i \<noteq> None"
  shows "wire_inv (pop_pending i (w\<lparr>futures := (futures w)(i \<mapsto> Cancelled)\<rparr>))" (is "wire_inv ?w")
proof (rule wire_inv_I)
  show "0 \<le> msg_id ?w" using wire_inv_D(4) [OF inv] by (simp add: pop_pending_def)
  show "k = py_str j \<and> 1 \<le> j \<and> j \<le> msg_id ?w" if "pending ?w k = Some j" for k j
    using that wire_inv_D(1) [OF inv, of k j] by (simp add: pop_pending_def split: if_splits)
  show "1 \<le> j \<and> j \<le> msg_id ?w" if "futures ?w j \<noteq> None" for j
    using that wire_inv_D(2) [OF inv, of j] wire_inv_D(2) [OF inv f]
    by (simp add: pop_pending_def split: if_splits)
  show "pending ?w (py_str j) = Some j" if "futures ?w j = Some Waiting" for j
    using that wire_inv_D(3) [OF inv, of j] by (simp add: pop_pending_def py_str_inj split: if_splits)
qed

lemma send_begin_inv: "wire_inv w \<Longrightarrow> wire_inv (snd (send_begin cd now drain gate m w))"
proof -
  assume inv: "wire_inv w"
  define i where "i = msg_id w + 1"
  define w1 where "w1 = w\<lparr>msg_id := i, futures := (futures w)(i \<mapsto> Waiting),
                            pending := (pending w)(py_str i \<mapsto> i)\<rparr>"
  have inv1: "wire_inv w1" unfolding w1_def using inv i_def by (rule register_inv)
  obtain r w2 where w2: "send_message cd now drain gate m (py_str i) w1 = (r, w2)" by fastforce
  then have same: "same_requests w1 w2"
    using send_message_same [of w1 cd now drain gate m "py_str i"] by simp
  have inv2: "wire_inv w2" using same inv1 by (rule same_requests_inv)
  have "futures w2 i \<noteq> None" using same by (simp add: same_requests_def w1_def)
  with inv2 have "wire_inv (pop_pending i (w2\<lparr>futures := (futures w2)(i \<mapsto> Cancelled)\<rparr>))"
    by (rule drop_inv)
  with inv2 w2 show ?thesis
    by (cases r) (simp_all add: send_begin_def Let_def i_def [symmetric] w1_def [symmetric])
qed

lemma send_finish_inv: "wire_inv w \<Longrightarrow> send_finish i expired w = Some (r, w') \<Longrightarrow> wire_inv w'"
  by (auto simp: send_finish_def wire_inv_def pop_pending_def py_str_inj
      split: option.splits fut.splits if_splits)

lemma route_inv: "wire_inv w \<Longrightarrow> wire_inv (snd (route cd env w))"
  by (auto simp: route_def wire_inv_def Let_def split: option.splits if_splits)

lemma recv_step_inv: "wire_inv w \<Longrightarrow> wire_inv (snd (recv_step cd now drain buf w))"
proof -
  assume inv: "wire_inv w"
  have r: "wire_inv (snd (route cd env (w\<lparr>last_recv := now\<rparr>)))" for env
    using inv by (intro route_inv) (simp add: wire_inv_def)
  have h: "wire_inv (snd (send_message cd now drain None ProtoHeartbeatEvent []
       (w\<lparr>last_recv := now, inbound_heartbeats := k\<rparr>)))" for k
    by (rule same_requests_inv [OF send_message_same]) (use inv in \<open>simp add: wire_inv_def\<close>)
  have l: "wire_inv (w\<lparr>last_recv := now\<rparr>)" using inv by (simp add: wire_inv_def)
  show ?thesis
  proof (cases "length buf < 4 \<or> int (be32_val (take 4 buf)) > MAX_MESSAGE_LENGTH
                \<or> length (drop 4 buf) < be32_val (take 4 buf)")
    case True
    with inv show ?thesis by (auto simp: recv_step_def Let_def)
  next
    case False
    show ?thesis
    proof (cases "dec_env cd (take (be32_val (take 4 buf)) (drop 4 buf))")
      case None
      with False l show ?thesis by (simp add: recv_step_def Let_def)
    next
      case (Some env)
      with False r [of env] h [of "inbound_heartbeats w + 1"] show ?thesis
        by (auto simp: recv_step_def Let_def split: prod.splits sum.splits)
    qed
  qed
qed

lemma recv_end_inv: "wire_inv w \<Longrightarrow> wire_inv (snd (recv_end e w))"
proof -
  assume inv: "wire_inv w"
  then have "wire_inv (close_writer w)" by (rule same_requests_inv [rotated]) simp
  with inv show ?thesis by (simp add: recv_end_def Let_def fail_pending_inv)
qed

lemma wire_step_inv: "wire_step cd w w' \<Longrightarrow> wire_inv w \<Longrightarrow> wire_inv w'"
proof (induction rule: wire_step.induct)
  case (connected w peer now outcome)
  then show ?case
    by (cases outcome) (simp_all add: connect_def reset_telemetry_def wire_inv_def)
next
  case (begun w now drain gate m)
  then show ?case by (rule send_begin_inv)
next
  case (finished i expired w r w')
  then show ?case by (blast intro: send_finish_inv)
next
  case (sent w now drain m)
  then show ?case by (rule same_requests_inv [OF send_message_same])
next
  case (received now drain buf w rest w')
  then show ?case using recv_step_inv [of w cd now drain buf] by simp
next
  case (ended now drain buf w e w')
  then show ?case using recv_step_inv [of w cd now drain buf] by (simp add: recv_end_inv)
next
  case (ticked w now drain)
  then show ?case by (rule same_requests_inv [OF hb_tick_same])
next
  case (disconnected w recv_task)
  have c: "wire_inv ((close_writer u)\<lparr>sock := NoSock\<rparr>)" if "wire_inv u" for u
    using that by (simp add: wire_inv_def)
  with disconnected show ?case
    by (auto simp: disconnect_def Let_def fail_pending_inv split: task.splits option.splits)
qed

lemma wire_reach_inv: "wire_reach cd w \<Longrightarrow> wire_inv w"
proof (induction rule: wire_reach.induct)
  case start
  show ?case by (simp add: wire_inv_def init_wire_def)
next
  case (step w w')
  then show ?case by (blast intro: wire_step_inv)
qed

section \<open>Correlation\<close>

text \<open>
  C1: Correlation of responses. In every reachable state of the connection, under any
  interleaving of sends, responses, timeouts, heartbeats, losses and reconnects, an inbound message
  whose \<open>clientMsgId\<close> names a request still waiting resolves exactly that request and is not queued;
  every other message (no id, an unknown id, a request that already timed out) is appended to the
  event queue, once, and resolves nothing. No message of a known type is lost or delivered twice.
\<close>

theorem response_correlation:
  assumes "wire_reach cd w"
    and "class_of cd (payloadType env) = Some parse" and "parse (payload env) = Some m"
    and "route cd env w = (r, w')"
  shows "(\<forall>i. clientMsgId env = py_str i \<and> futures w i = Some Waiting \<longrightarrow>
            r = Inr () \<and> futures w' = (futures w)(i \<mapsto> Done m) \<and> events w' = events w)
     \<and> ((\<nexists>i. clientMsgId env = py_str i \<and> futures w i = Some Waiting) \<longrightarrow>
            r = Inr () \<and> futures w' = futures w \<and> events w' = events w @ [m])"
proof (rule conjI)
  have inv: "wire_inv w" using assms(1) by (rule wire_reach_inv)
  have run: "(r, w') =
      (case (if clientMsgId env \<noteq> [] then pending w (clientMsgId env) else None) of
         Some i \<Rightarrow> (if futures w i = Some Waiting
                    then (Inr (), (count_event m w)\<lparr>futures := (futures w)(i \<mapsto> Done m)\<rparr>)
                    else (Inr (), (count_event m w)\<lparr>events := events w @ [m]\<rparr>))
       | None \<Rightarrow> (Inr (), (count_event m w)\<lparr>events := events w @ [m]\<rparr>))"
    using assms(4) [symmetric] by (simp only: route_def Let_def assms(2,3) option.case count_event_fields)
  show "\<forall>i. clientMsgId env = py_str i \<and> futures w i = Some Waiting \<longrightarrow>
            r = Inr () \<and> futures w' = (futures w)(i \<mapsto> Done m) \<and> events w' = events w"
  proof (intro allI impI)
    fix i assume i: "clientMsgId env = py_str i \<and> futures w i = Some Waiting"
    with inv have "pending w (clientMsgId env) = Some i" by (simp add: wire_inv_def)
    with run i show "r = Inr () \<and> futures w' = (futures w)(i \<mapsto> Done m) \<and> events w' = events w" by simp
  qed
  show "(\<nexists>i. clientMsgId env = py_str i \<and> futures w i = Some Waiting) \<longrightarrow>
            r = Inr () \<and> futures w' = futures w \<and> events w' = events w @ [m]"
  proof
    assume none: "\<nexists>i. clientMsgId env = py_str i \<and> futures w i = Some Waiting"
    have "futures w i \<noteq> Some Waiting" if "pending w (clientMsgId env) = Some i" for i
      using inv that none unfolding wire_inv_def by blast
    then show "r = Inr () \<and> futures w' = futures w \<and> events w' = events w @ [m]"
      using run by (auto split: if_splits option.splits)
  qed
qed

text \<open>An answer, once there, is never replaced: no later step changes a resolved request.\<close>

lemma route_Done:
  "futures w i = Some (Done m) \<Longrightarrow> futures (snd (route cd env w)) i = Some (Done m)"
  by (auto simp: route_def Let_def split: option.splits if_splits)

lemma recv_step_Done:
  assumes "futures w i = Some (Done m)"
  shows "futures (snd (recv_step cd now drain buf w)) i = Some (Done m)"
proof -
  have r: "futures (snd (route cd env (w\<lparr>last_recv := now\<rparr>))) i = Some (Done m)" for env
    using assms by (intro route_Done) simp
  have h: "futures (snd (send_message cd now drain None ProtoHeartbeatEvent []
       (w\<lparr>last_recv := now, inbound_heartbeats := k\<rparr>))) i = Some (Done m)" for k
    using send_message_same [of "w\<lparr>last_recv := now, inbound_heartbeats := k\<rparr>" cd now drain None
        ProtoHeartbeatEvent "[]"] assms by (simp add: same_requests_def)
  show ?thesis
  proof (cases "dec_env cd (take (be32_val (take 4 buf)) (drop 4 buf))")
    case None
    with assms show ?thesis by (simp add: recv_step_def Let_def)
  next
    case (Some env)
    with assms r [of env] h [of "inbound_heartbeats w + 1"] show ?thesis
      by (auto simp: recv_step_def Let_def split: prod.splits sum.splits)
  qed
qed

lemma wire_step_Done:
  "wire_step cd w w' \<Longrightarrow> wire_inv w \<Longrightarrow> futures w i = Some (Done m) \<Longrightarrow> futures w' i = Some (Done m)"
proof (induction rule: wire_step.induct)
  case (connected w peer now outcome)
  then show ?case by (cases outcome) (simp_all add: connect_def reset_telemetry_def)
next
  case (begun w now drain gate m')
  then have ne: "i \<noteq> msg_id w + 1" using wire_inv_fresh by fastforce
  note s = send_message_same [of "w\<lparr>msg_id := msg_id w + 1, futures := (futures w)(msg_id w + 1 \<mapsto> Waiting),
     pending := (pending w)(py_str (msg_id w + 1) \<mapsto> msg_id w + 1)\<rparr>" cd now drain gate m' "py_str (msg_id w + 1)"]
  from begun ne s show ?case
    by (auto simp: send_begin_def Let_def same_requests_def pop_pending_def split: prod.splits sum.splits)
next
  case (finished j expired w r w')
  then show ?case
    by (auto simp: send_finish_def pop_pending_def split: option.splits fut.splits if_splits)
next
  case (sent w now drain m')
  then show ?case using send_message_same [of w cd now drain None m' "[]"] by (simp add: same_requests_def)
next
  case (received now drain buf w rest w')
  then show ?case using recv_step_Done [of w i m cd now drain buf] by simp
next
  case (ended now drain buf w e w')
  then have "futures w' i = Some (Done m)" using recv_step_Done [of w i m cd now drain buf] by simp
  then show ?case by (simp add: recv_end_def Let_def fail_pending_Done)
next
  case (ticked w now drain)
  then show ?case using hb_tick_same [of w cd now drain] by (simp add: same_requests_def)
next
  case (disconnected w recv_task)
  then show ?case
    by (auto simp: disconnect_def Let_def fail_pending_Done split: task.splits option.splits)
qed

end
