(* ===== verification/Wire_Properties.thy ===== *)
theory Wire_Properties
  imports Wire
begin

text \<open>
  Properties of the wire client: the byte stream against the sequence of messages, what an exception
  of \<open>send_request\<close> says about the bytes written, what the loss of the connection leaves behind, and the
  inbound watchdog. \<open>demo_codec\<close> is a concrete instance of the protobuf runtime for the witnesses.
\<close>

definition demo_codec :: codec where
  "demo_codec = \<lparr>
     enc_env = (\<lambda>e. word_of_int (payloadType e) # word_of_nat (length (clientMsgId e))
                     # map (\<lambda>c. word_of_nat (of_char c)) (clientMsgId e) @ payload e),
     dec_env = (\<lambda>bs. case bs of
                   t # n # r \<Rightarrow> Some \<lparr>payloadType = uint t, payload = drop (unat n) r,
                                      clientMsgId = map (\<lambda>b. char_of (unat b)) (take (unat n) r)\<rparr>
                 | _ \<Rightarrow> None),
     type_of = (\<lambda>m. case m of ProtoHeartbeatEvent \<Rightarrow> 51 | ProtoOAClientDisconnectEvent _ \<Rightarrow> 148
                             | ProtoOAAccountDisconnectEvent _ \<Rightarrow> 164 | _ \<Rightarrow> 0),
     enc_msg = (\<lambda>m. case m of ProtoOAClientDisconnectEvent r \<Rightarrow> map (\<lambda>c. word_of_nat (of_char c)) r
                             | ProtoOAAccountDisconnectEvent a \<Rightarrow> [word_of_int a] | _ \<Rightarrow> []),
     class_of = (\<lambda>t. if t = 51 then Some (\<lambda>_. Some ProtoHeartbeatEvent)
                     else if t = 148 then
                       Some (\<lambda>bs. Some (ProtoOAClientDisconnectEvent (map (\<lambda>b. char_of (unat b)) bs)))
                     else if t = 164 then
                       Some (\<lambda>bs. case bs of [b] \<Rightarrow> Some (ProtoOAAccountDisconnectEvent (uint b)) | _ \<Rightarrow> None)
                     else None)\<rparr>"

section \<open>The stream of frames\<close>

text \<open>The bytes of a list of messages with their \<open>clientMsgId\<close>s, as the peer writes them.\<close>

definition body_of :: "codec \<Rightarrow> msg \<Rightarrow> string \<Rightarrow> bytes" where
  "body_of cd m c =
     enc_env cd \<lparr>payloadType = type_of cd m, payload = enc_msg cd m, clientMsgId = c\<rparr>"

fun stream_of :: "codec \<Rightarrow> (msg \<times> string) list \<Rightarrow> bytes" where
  "stream_of cd [] = []"
| "stream_of cd ((m, c) # ms) = (case frame cd m c of Inr bs \<Rightarrow> bs | Inl _ \<Rightarrow> []) @ stream_of cd ms"

definition deliverable :: "codec \<Rightarrow> wire \<Rightarrow> msg \<times> string \<Rightarrow> bool" where
  "deliverable cd w mc \<longleftrightarrow>
     (case mc of (m, c) \<Rightarrow>
        m \<noteq> ProtoHeartbeatEvent \<and> carries cd m c
        \<and> int (length (body_of cd m c)) \<le> MAX_MESSAGE_LENGTH \<and> pending w c = None)"

lemma max_length_small: "int n \<le> MAX_MESSAGE_LENGTH \<Longrightarrow> n < 2 ^ 32"
  by (simp add: MAX_MESSAGE_LENGTH_def)

lemma route_orphan:
  assumes "carries cd m c" "pending w c = None"
  shows "route cd \<lparr>payloadType = type_of cd m, payload = enc_msg cd m, clientMsgId = c\<rparr> w
         = (Inr (), (count_event m w)\<lparr>events := events w @ [m]\<rparr>)"
  using assms by (auto simp: route_def carries_def Let_def split: option.splits)

lemma recv_step_delivers:
  assumes "deliverable cd w (m, c)"
  shows "recv_step cd now drain (stream_of cd ((m, c) # ms) @ tail) w
         = (More (stream_of cd ms @ tail),
            (count_event m (w\<lparr>last_recv := now\<rparr>))\<lparr>events := events w @ [m]\<rparr>)"
proof -
  have small: "length (body_of cd m c) < 2 ^ 32"
    using assms by (intro max_length_small) (simp add: deliverable_def)
  have fr: "frame cd m c = Inr (be32 (length (body_of cd m c)) @ body_of cd m c)"
    using small by (simp add: frame_def body_of_def Let_def)
  have dec: "dec_env cd (body_of cd m c)
             = Some \<lparr>payloadType = type_of cd m, payload = enc_msg cd m, clientMsgId = c\<rparr>"
    using assms by (simp add: deliverable_def carries_def body_of_def Let_def)
  have hb: "type_of cd m \<noteq> type_of cd ProtoHeartbeatEvent"
    using assms by (simp add: deliverable_def carries_def Let_def)
  have car: "carries cd m c" and no: "pending (w\<lparr>last_recv := now\<rparr>) c = None"
    and len: "int (length (body_of cd m c)) \<le> MAX_MESSAGE_LENGTH"
    using assms by (simp_all add: deliverable_def)
  show ?thesis
    using len hb by (simp add: recv_step_def fr Let_def be32_round_trip [OF small] dec
        route_orphan [OF car no])
qed

lemma recv_loop_delivers:
  assumes "\<forall>mc \<in> set ms. deliverable cd w mc" and "length tail < 4"
  shows "\<exists>w'. recv_loop cd clock drain k (stream_of cd ms @ tail) w = (None, w')
              \<and> events w' = events w @ map fst ms \<and> sock w' \<noteq> Open"
  using assms(1)
proof (induction ms arbitrary: w k)
  case Nil
  then show ?case using assms(2)
    by (simp add: recv_loop.simps recv_step_def recv_end_def Let_def)
next
  case (Cons mc ms)
  obtain m c where mc: "mc = (m, c)" by fastforce
  define u where "u = (count_event m (w\<lparr>last_recv := clock k\<rparr>))\<lparr>events := events w @ [m]\<rparr>"
  have u: "pending u = pending w" "events u = events w @ [m]" by (simp_all add: u_def)
  have step: "recv_step cd (clock k) (drain k) (stream_of cd (mc # ms) @ tail) w
              = (More (stream_of cd ms @ tail), u)"
    using Cons.prems recv_step_delivers [of cd w m c "clock k" "drain k" ms tail]
    by (simp add: mc u_def)
  have "\<forall>mc \<in> set ms. deliverable cd u mc"
    using Cons.prems by (auto simp: deliverable_def u)
  from Cons.IH [OF this, of "k + 1"] show ?case
    using step u by (subst recv_loop.simps) (simp add: mc)
qed

text \<open>
  C3: Framing. Whatever sequence of messages the peer frames and writes (each within the size bound,
  none of them a heartbeat or an answer to an outstanding request), the receive loop queues exactly
  these messages, in that order, whatever bytes of an unfinished frame header follow; at the end of
  the stream it stops without an exception and the socket is no longer open.
\<close>

theorem framed_stream_delivered:
  assumes "\<forall>mc \<in> set ms. deliverable cd w mc" and "length tail < 4"
  shows "fst (recv_loop cd clock drain k (stream_of cd ms @ tail) w) = None
       \<and> events (snd (recv_loop cd clock drain k (stream_of cd ms @ tail) w)) = events w @ map fst ms
       \<and> \<not> is_connected (snd (recv_loop cd clock drain k (stream_of cd ms @ tail) w))"
  using recv_loop_delivers [OF assms, of clock drain k] by (auto simp: is_connected_def)

lemma framed_stream_delivered_witness:
  "fst (recv_loop demo_codec (\<lambda>_. 1) (\<lambda>_. True) 0
      (stream_of demo_codec [(ProtoOAClientDisconnectEvent ''bye'', []),
                             (ProtoOAAccountDisconnectEvent 7, ''5'')] @ [0, 0]) init_wire) = None
   \<and> events (snd (recv_loop demo_codec (\<lambda>_. 1) (\<lambda>_. True) 0
      (stream_of demo_codec [(ProtoOAClientDisconnectEvent ''bye'', []),
                             (ProtoOAAccountDisconnectEvent 7, ''5'')] @ [0, 0]) init_wire))
     = [ProtoOAClientDisconnectEvent ''bye'', ProtoOAAccountDisconnectEvent 7]"
proof -
  have "deliverable demo_codec init_wire (ProtoOAClientDisconnectEvent ''bye'', [])"
    "deliverable demo_codec init_wire (ProtoOAAccountDisconnectEvent 7, ''5'')"
    by (simp_all add: deliverable_def carries_def body_of_def Let_def demo_codec_def init_wire_def
        MAX_MESSAGE_LENGTH_def take_bit_eq_mod of_char_def char_of_def bit_Suc_0_iff)
  then have d: "\<forall>mc \<in> set [(ProtoOAClientDisconnectEvent ''bye'', []),
                             (ProtoOAAccountDisconnectEvent 7, ''5'')].
                  deliverable demo_codec init_wire mc" by simp
  have e: "events init_wire = []" by (simp add: init_wire_def)
  show ?thesis
    using framed_stream_delivered [OF d, of "[0, 0]" "\<lambda>_. 1" "\<lambda>_. True" 0] unfolding e by simp
qed


section \<open>What an exception says about the bytes\<close>

lemma send_message_cases:
  "send_message cd now drain gate m c w = (r, w') \<Longrightarrow>
     (r = Inr () \<and> gate = None \<and> (\<exists>d. frame cd m c = Inr d \<and> written w' = written w @ [d]))
   \<or> (r = Inl (CTraderRequestSentConnectionError ''connection lost while sending'') \<and> gate = None
        \<and> (\<exists>d. frame cd m c = Inr d \<and> written w' = written w @ [d]))
   \<or> (r = Inl (CTraderConnectionError ''not connected'') \<and> written w' = written w)
   \<or> (r = Inl StructError \<and> written w' = written w)
   \<or> (\<exists>e. gate = Some e \<and> r = Inl e \<and> written w' = written w)"
  by (auto simp: send_message_def Let_def frame_def split: if_splits sum.splits option.splits)

lemma send_begin_cases:
  assumes "send_begin cd now drain gate m w = (r, w')"
  shows "(\<exists>i. r = Inr i \<and> gate = None
            \<and> (\<exists>d. frame cd m (py_str (msg_id w + 1)) = Inr d \<and> written w' = written w @ [d]))
   \<or> (r = Inl (CTraderRequestSentConnectionError ''connection lost while sending'') \<and> gate = None
        \<and> (\<exists>d. frame cd m (py_str (msg_id w + 1)) = Inr d \<and> written w' = written w @ [d]))
   \<or> (r = Inl (CTraderConnectionError ''not connected'') \<and> written w' = written w)
   \<or> (r = Inl StructError \<and> written w' = written w)
   \<or> (\<exists>e. gate = Some e \<and> r = Inl (as_wire_timeout e) \<and> written w' = written w)"
proof -
  define i where "i = msg_id w + 1"
  define w1 where "w1 = w\<lparr>msg_id := i, futures := (futures w)(i \<mapsto> Waiting),
                            pending := (pending w)(py_str i \<mapsto> i)\<rparr>"
  have w1: "written w1 = written w" by (simp add: w1_def)
  obtain q w2 where q: "send_message cd now drain gate m (py_str i) w1 = (q, w2)" by fastforce
  have "(r, w') = (case q of Inr _ \<Rightarrow> (Inr i, w2)
           | Inl e \<Rightarrow> (Inl (as_wire_timeout e), pop_pending i (w2\<lparr>futures := (futures w2)(i \<mapsto> Cancelled)\<rparr>)))"
    using assms q by (simp add: send_begin_def Let_def i_def [symmetric] w1_def [symmetric] split: sum.splits)
  with send_message_cases [OF q] w1 show ?thesis unfolding i_def [symmetric]
    by (elim disjE exE conjE) (simp_all add: pop_pending_def as_wire_timeout_def)
qed

definition send_request_certain :: "codec \<Rightarrow> msg \<Rightarrow> exn option \<Rightarrow> wire \<Rightarrow> (exn + int) \<Rightarrow> wire \<Rightarrow> bool" where
  "send_request_certain cd m gate w r w' \<longleftrightarrow>
     (case r of
        Inr _ \<Rightarrow> gate = None \<and> (\<exists>d. frame cd m (py_str (msg_id w + 1)) = Inr d \<and> written w' = written w @ [d])
      | Inl (CTraderRequestSentConnectionError _) \<Rightarrow>
          gate \<noteq> None \<and> written w' = written w
          \<or> (\<exists>d. frame cd m (py_str (msg_id w + 1)) = Inr d \<and> written w' = written w @ [d])
      | Inl _ \<Rightarrow> written w' = written w)"



section \<open>The end of a connection\<close>

lemma recv_end_settles:
  assumes "wire_inv w"
  shows "futures (snd (recv_end e w)) i =
           (if futures w i = Some Waiting then Some (Failed (CTraderConnectionError ''connection lost''))
            else futures w i)"
proof (cases "futures w i = Some Waiting")
  case True
  then have "i \<in> ran (pending w)" using wire_inv_D(3) [OF assms] by (auto simp: ran_def)
  with True show ?thesis by (simp add: recv_end_def Let_def fail_pending_def)
next
  case False
  then show ?thesis
    by (auto simp: recv_end_def Let_def fail_pending_def split: option.split fut.split)
qed

lemma recv_step_waiting:
  assumes "futures w i = Some Waiting" "recv_step cd now drain buf w = (t, w')"
  shows "futures w' i = Some Waiting \<or> (\<exists>m. futures w' i = Some (Done m))"
proof -
  have r: "futures (snd (route cd env (w\<lparr>last_recv := now\<rparr>))) i = Some Waiting
           \<or> (\<exists>m. futures (snd (route cd env (w\<lparr>last_recv := now\<rparr>))) i = Some (Done m))" for env
    using assms(1) by (auto simp: route_def Let_def split: option.splits if_splits)
  have h: "futures (snd (send_message cd now drain None ProtoHeartbeatEvent []
       (w\<lparr>last_recv := now, inbound_heartbeats := k\<rparr>))) i = Some Waiting" for k
    using send_message_same [of "w\<lparr>last_recv := now, inbound_heartbeats := k\<rparr>" cd now drain None
        ProtoHeartbeatEvent "[]"] assms(1) by (simp add: same_requests_def)
  show ?thesis
  proof (cases "dec_env cd (take (be32_val (take 4 buf)) (drop 4 buf))")
    case None
    with assms show ?thesis by (auto simp: recv_step_def Let_def split: if_splits)
  next
    case (Some env)
    with assms r [of env] h [of "inbound_heartbeats w + 1"] show ?thesis
      by (auto simp: recv_step_def Let_def split: prod.splits sum.splits if_splits)
  qed
qed

lemma recv_loop_settles:
  "wire_inv w \<Longrightarrow> futures w i = Some Waiting \<or> (\<exists>m. futures w i = Some (Done m)) \<Longrightarrow>
   (\<exists>m. futures (snd (recv_loop cd clock drain k buf w)) i = Some (Done m))
   \<or> futures (snd (recv_loop cd clock drain k buf w)) i
       = Some (Failed (CTraderConnectionError ''connection lost''))"
proof (induction cd clock drain k buf w rule: recv_loop.induct)
  case (1 cd clock drain k buf w)
  obtain t w' where t: "recv_step cd (clock k) (drain k) buf w = (t, w')" by fastforce
  have inv: "wire_inv w'" using recv_step_inv [OF "1.prems"(1), of cd "clock k" "drain k" buf] t by simp
  have alive: "futures w' i = Some Waiting \<or> (\<exists>m. futures w' i = Some (Done m))"
    using "1.prems"(2) recv_step_waiting [OF _ t] recv_step_Done [of w i _ cd "clock k" "drain k" buf] t
    by auto
  show ?case
  proof (cases t)
    case (More rest)
    with "1.IH" [of t w' rest] t inv alive show ?thesis by (subst (1 2) recv_loop.simps) simp
  next
    case (Stop e)
    with t inv alive show ?thesis by (subst (1 2) recv_loop.simps) (auto simp: recv_end_settles)
  qed
qed

text \<open>
  C4: No request is left hanging. From any reachable state, when the receive loop has ended - on
  whatever bytes and failures - every request that was outstanding has completed: its call now
  returns (or raises) without waiting for its timeout, with the response that arrived before the end
  or else with the request-sent connection error, and leaves nothing registered under its id.
\<close>

theorem loss_completes_requests:
  assumes "wire_reach cd w" and "futures w i = Some Waiting"
  shows "\<exists>r u. send_finish i False (snd (recv_loop cd clock drain k buf w)) = Some (r, u)
           \<and> pending u (py_str i) = None
           \<and> (r = Inl (CTraderRequestSentConnectionError ''connection lost'')
              \<or> (\<exists>m. futures (snd (recv_loop cd clock drain k buf w)) i = Some (Done m)
                     \<and> r = raise_on_error m))"
  using recv_loop_settles [OF wire_reach_inv [OF assms(1)], of i cd clock drain k buf] assms(2)
  by (auto simp: send_finish_def pop_pending_def)

definition demo_waiting :: wire where
  "demo_waiting = snd (send_begin demo_codec 5 True None (ProtoOAAccountDisconnectEvent 7)
                         (snd (connect ''demo:5035'' 1 Opened init_wire)))"

lemma demo_waiting_reach: "wire_reach demo_codec demo_waiting"
  unfolding demo_waiting_def
  by (intro wire_reach.step [OF _ wire_step.begun] wire_reach.step [OF _ wire_step.connected]
      wire_reach.start)

lemma demo_waiting_state: "futures demo_waiting 1 = Some Waiting" "msg_id demo_waiting = 1"
  by (simp_all add: demo_waiting_def send_begin_def Let_def connect_def init_wire_def reset_telemetry_def
      send_message_def frame_def demo_codec_def py_str_def nat_digits.simps)

lemma response_correlation_witness:
  "\<exists>w'. route demo_codec \<lparr>payloadType = 51, payload = [], clientMsgId = py_str 1\<rparr> demo_waiting = (Inr (), w')
        \<and> futures w' = (futures demo_waiting)(1 \<mapsto> Done ProtoHeartbeatEvent) \<and> events w' = events demo_waiting"
proof -
  let ?e = "\<lparr>payloadType = 51, payload = [], clientMsgId = py_str 1\<rparr>"
  obtain r w' where run: "route demo_codec ?e demo_waiting = (r, w')" by fastforce
  have "class_of demo_codec (payloadType ?e) = Some (\<lambda>_. Some ProtoHeartbeatEvent)" by (simp add: demo_codec_def)
  from response_correlation [OF demo_waiting_reach this _ run] demo_waiting_state(1) run show ?thesis by auto
qed

lemma loss_completes_requests_witness:
  "\<exists>r u. send_finish 1 False (snd (recv_loop demo_codec (\<lambda>_. 6) (\<lambda>_. True) 0 [0, 0] demo_waiting)) = Some (r, u)
        \<and> pending u (py_str 1) = None"
  using loss_completes_requests [OF demo_waiting_reach demo_waiting_state(1)] by blast

section \<open>The inbound watchdog\<close>

lemma hb_tick_alive:
  assumes "hb_tick cd now drain w = (HbContinue, w')"
  shows "now - last_recv w < INBOUND_IDLE_TIMEOUT \<and> last_recv w' = last_recv w \<and> sock w' = sock w
         \<and> now - last_send w' < HEARTBEAT_INTERVAL"
  using assms
  by (auto simp: hb_tick_def send_message_def Let_def HEARTBEAT_INTERVAL_def
      split: if_splits sum.splits prod.splits)

lemma hb_tick_stop:
  assumes "hb_tick cd now drain w = (HbStop, w')" "sock w = Open" "frame cd ProtoHeartbeatEvent [] = Inr d"
  shows "sock w' \<noteq> Open \<and> (INBOUND_IDLE_TIMEOUT \<le> now - last_recv w \<or> \<not> drain)"
  using assms
  by (auto simp: hb_tick_def send_message_def Let_def split: if_splits sum.splits prod.splits)

lemma heartbeat_loop_open:
  "sock w = Open \<Longrightarrow> frame cd ProtoHeartbeatEvent [] = Inr d \<Longrightarrow>
   (sock (heartbeat_loop cd ticks w) = Open \<longrightarrow>
      (\<forall>(t, ok) \<in> set ticks. t - last_recv w < INBOUND_IDLE_TIMEOUT))
   \<and> ((\<forall>(t, ok) \<in> set ticks. ok \<and> t - last_recv w < INBOUND_IDLE_TIMEOUT) \<longrightarrow>
        sock (heartbeat_loop cd ticks w) = Open
        \<and> (ticks \<noteq> [] \<longrightarrow> fst (last ticks) - last_send (heartbeat_loop cd ticks w) < HEARTBEAT_INTERVAL))"
proof (induction ticks arbitrary: w)
  case Nil
  then show ?case by simp
next
  case (Cons tick ticks)
  obtain t ok where tick: "tick = (t, ok)" by fastforce
  obtain r w' where run: "hb_tick cd t ok w = (r, w')" by fastforce
  show ?case
  proof (cases r)
    case HbStop
    with run have h: "hb_tick cd t ok w = (HbStop, w')" by simp
    then have "heartbeat_loop cd (tick # ticks) w = w'" by (simp add: tick)
    with hb_tick_stop [OF h Cons.prems] show ?thesis by (auto simp: tick simp del: heartbeat_loop.simps)
  next
    case HbContinue
    with run have h: "hb_tick cd t ok w = (HbContinue, w')" by simp
    then have "heartbeat_loop cd (tick # ticks) w = heartbeat_loop cd ticks w'" by (simp add: tick)
    with hb_tick_alive [OF h] Cons.IH [of w'] Cons.prems show ?thesis
      by (cases "ticks = []") (auto simp: tick simp del: heartbeat_loop.simps(2))
  qed
qed



section \<open>A heartbeat echo that fails\<close>

text \<open>
  C20: A failed heartbeat echo. When the drain of the echo of an inbound heartbeat fails, the receive task
  ends with the request-sent error as its exception (no \<open>except\<close> clause of the loop takes it); a later
  \<open>disconnect\<close> awaits the dead task and raises that exception itself, and the socket of the client is
  then never released (the writer stays set) although it is no longer connected.
\<close>

theorem failed_echo_escapes:
  assumes "is_connected w" and "frame cd ProtoHeartbeatEvent [] = Inr hb"
    and "carries cd ProtoHeartbeatEvent []"
    and "int (length (body_of cd ProtoHeartbeatEvent [])) \<le> MAX_MESSAGE_LENGTH"
    and "\<not> drain k"
  shows "\<exists>u. recv_loop cd clock drain k (hb @ rest) w
               = (Some (CTraderRequestSentConnectionError ''connection lost while sending''), u)
           \<and> \<not> is_connected u
           \<and> disconnect (Ended (fst (recv_loop cd clock drain k (hb @ rest) w))) u
               = (Inl (CTraderRequestSentConnectionError ''connection lost while sending''), u)
           \<and> sock u \<noteq> NoSock"
proof -
  let ?b = "body_of cd ProtoHeartbeatEvent []"
  have small: "length ?b < 2 ^ 32" using assms(4) by (rule max_length_small)
  have hb: "hb = be32 (length ?b) @ ?b"
    using assms(2) small by (simp add: frame_def body_of_def Let_def)
  have dec: "dec_env cd ?b = Some \<lparr>payloadType = type_of cd ProtoHeartbeatEvent,
                                  payload = enc_msg cd ProtoHeartbeatEvent, clientMsgId = []\<rparr>"
    using assms(3) by (simp add: carries_def body_of_def Let_def)
  define e where "e = CTraderRequestSentConnectionError ''connection lost while sending''"
  define w1 where "w1 = w\<lparr>last_recv := clock k, inbound_heartbeats := inbound_heartbeats w + 1,
                           written := written w @ [hb], sock := Closing\<rparr>"
  have "recv_step cd (clock k) (drain k) (hb @ rest) w = (Stop e, w1)"
    using assms(1,2,4,5)
    by (simp add: recv_step_def Let_def hb be32_round_trip [OF small] dec send_message_def
        is_connected_def close_writer_def e_def w1_def)
  then have loop: "recv_loop cd clock drain k (hb @ rest) w
                   = (Some e, fail_pending (CTraderConnectionError ''connection lost'') w1)"
    by (subst recv_loop.simps) (simp add: recv_end_def Let_def e_def)
  show ?thesis unfolding loop
    by (simp add: disconnect_def e_def [symmetric] w1_def is_connected_def) (simp add: e_def)
qed

lemma failed_echo_escapes_witness:
  "\<exists>u. recv_loop demo_codec (\<lambda>_. 6) (\<lambda>_. False) 0
          (be32 2 @ [51, 0]) (init_wire\<lparr>sock := Open\<rparr>)
       = (Some (CTraderRequestSentConnectionError ''connection lost while sending''), u)"
proof -
  have c: "is_connected (init_wire\<lparr>sock := Open\<rparr>)" by (simp add: is_connected_def)
  have f: "frame demo_codec ProtoHeartbeatEvent [] = Inr (be32 2 @ [51, 0])"
    by (simp add: frame_def demo_codec_def Let_def numeral_2_eq_2 [symmetric])
  have k: "carries demo_codec ProtoHeartbeatEvent []"
    by (simp add: carries_def demo_codec_def Let_def)
  have l: "int (length (body_of demo_codec ProtoHeartbeatEvent [])) \<le> MAX_MESSAGE_LENGTH"
    by (simp add: body_of_def demo_codec_def MAX_MESSAGE_LENGTH_def)
  show ?thesis
    using failed_echo_escapes [OF c f k l, of "\<lambda>_. False" 0 "\<lambda>_. 6" "[]"] by auto
qed

end
