(* ===== verification/Session.thy ===== *)
theory Session
  imports Errors
begin

text \<open>
  \<open>session.py\<close> and the token pair of \<open>auth.py\<close>: the session file, its atomic rewrite and the
  cross-process lock.

  The text of the file is identified with the JSON value it parses to (\<open>json.dumps\<close> and \<open>json.loads\<close>
  are inverse on what is written); \<open>NotJson\<close> and \<open>NotUtf8\<close> are texts that do not parse. \<open>repr_of\<close> is
  \<open>str\<close> on a JSON number with a fraction, a list or an object. A rewrite is a list of file-system
  operations, so that it can fail or be killed between any two of them. The lock is a step relation
  over threads of processes; the kernel's advisory lock is held by one open file description.
\<close>

section \<open>The stored tokens\<close>

record token_set =
  access_token :: string
  refresh_token :: string
  token_type :: string
  expires_in :: int

datatype json =
    JNull | JBool bool | JInt int | JReal rat | JStr string | JList "json list"
  | JObj "(string \<times> json) list"

fun truthy :: "json \<Rightarrow> bool" where
  "truthy JNull = False"
| "truthy (JBool b) = b"
| "truthy (JInt i) = (i \<noteq> 0)"
| "truthy (JReal r) = (r \<noteq> 0)"
| "truthy (JStr s) = (s \<noteq> [])"
| "truthy (JList xs) = (xs \<noteq> [])"
| "truthy (JObj kvs) = (kvs \<noteq> [])"

fun json_str :: "(json \<Rightarrow> string) \<Rightarrow> json \<Rightarrow> string" where
  "json_str repr_of JNull = ''None''"
| "json_str repr_of (JBool b) = (if b then ''True'' else ''False'')"
| "json_str repr_of (JInt i) = py_str i"
| "json_str repr_of (JStr s) = s"
| "json_str repr_of v = repr_of v"

fun json_int :: "json \<Rightarrow> exn + int" where
  "json_int (JInt i) = Inr i"
| "json_int (JBool b) = Inr (if b then 1 else 0)"
| "json_int (JReal r) = Inr (if 0 \<le> r then \<lfloor>r\<rfloor> else \<lceil>r\<rceil>)"
| "json_int (JStr s) = (case py_int_of_str s of None \<Rightarrow> Inl (ValueError ''invalid literal'') | Some i \<Rightarrow> Inr i)"
| "json_int v = Inl TypeError"

datatype file_text = Absent | NotUtf8 | NotJson | Json json

record stored_file =
  text_of :: file_text
  mode_of :: nat

type_synonym fs = "string \<rightharpoonup> stored_file"

text \<open>\<open>json.loads(path.read_text())\<close>: an \<open>OSError\<close> without the file, \<open>UnicodeDecodeError\<close> (a
  \<open>ValueError\<close>) or \<open>JSONDecodeError\<close> on a text that is neither.\<close>

datatype read_result = ReadValue json | ReadMissing | ReadBadText | ReadBadJson

definition read_json :: "fs \<Rightarrow> string \<Rightarrow> read_result" where
  "read_json files path =
     (case files path of
        None \<Rightarrow> ReadMissing
      | Some f \<Rightarrow> (case text_of f of Absent \<Rightarrow> ReadMissing | NotUtf8 \<Rightarrow> ReadBadText
                   | NotJson \<Rightarrow> ReadBadJson | Json v \<Rightarrow> ReadValue v))"

definition SESSION_PATH :: string where
  "SESSION_PATH = ''ctrader.json''"

definition env_key :: "bool \<Rightarrow> string" where
  "env_key demo = (if demo then ''demo'' else ''live'')"

definition get_or :: "(string \<times> json) list \<Rightarrow> string \<Rightarrow> json \<Rightarrow> json" where
  "get_or kvs k d = (case map_of kvs k of None \<Rightarrow> d | Some v \<Rightarrow> v)"

definition load_session :: "(json \<Rightarrow> string) \<Rightarrow> bool \<Rightarrow> fs \<Rightarrow> exn + token_set option" where
  "load_session repr_of demo files =
     (case read_json files SESSION_PATH of
        ReadMissing \<Rightarrow> Inr None
      | ReadBadJson \<Rightarrow> Inr None
      | ReadBadText \<Rightarrow> Inl (ValueError ''UnicodeDecodeError'')
      | ReadValue (JObj raw) \<Rightarrow>
          (case map_of raw (env_key demo) of
             Some (JObj section) \<Rightarrow>
               (if \<not> truthy (get_or section ''refresh_token'' JNull) then Inr None
                else case json_int (get_or section ''expires_in'' (JInt 0)) of
                       Inl e \<Rightarrow> Inl e
                     | Inr n \<Rightarrow>
                         Inr (Some \<lparr>access_token = json_str repr_of (get_or section ''access_token'' (JStr [])),
                                    refresh_token = json_str repr_of (get_or section ''refresh_token'' (JStr [])),
                                    token_type = json_str repr_of (get_or section ''token_type'' (JStr ''bearer'')),
                                    expires_in = n\<rparr>))
           | _ \<Rightarrow> Inr None)
      | ReadValue _ \<Rightarrow> Inr None)"

section \<open>Rewriting the file\<close>

datatype fs_op =
    Create string            \<comment> \<open>the temp file exists, its text not yet complete\<close>
  | Fill string json
  | Chmod string nat
  | Rename string string
  | Unlink string            \<comment> \<open>\<open>missing_ok\<close>\<close>

fun fs_do :: "fs_op \<Rightarrow> fs \<Rightarrow> fs" where
  "fs_do (Create p) files = files(p \<mapsto> \<lparr>text_of = NotJson, mode_of = 420\<rparr>)"
| "fs_do (Fill p v) files =
     (case files p of None \<Rightarrow> files | Some f \<Rightarrow> files(p \<mapsto> f\<lparr>text_of := Json v\<rparr>))"
| "fs_do (Chmod p m) files =
     (case files p of None \<Rightarrow> files | Some f \<Rightarrow> files(p \<mapsto> f\<lparr>mode_of := m\<rparr>))"
| "fs_do (Rename p q) files =
     (case files p of None \<Rightarrow> files | Some f \<Rightarrow> (files(q \<mapsto> f))(p := None))"
| "fs_do (Unlink p) files = files(p := None)"

definition session_section :: "token_set \<Rightarrow> json" where
  "session_section t =
     JObj [(''refresh_token'', JStr (refresh_token t)), (''access_token'', JStr (access_token t)),
           (''token_type'', JStr (token_type t)), (''expires_in'', JInt (expires_in t))]"

definition old_raw :: "fs \<Rightarrow> exn + (string \<times> json) list" where
  "old_raw files =
     (case read_json files SESSION_PATH of
        ReadMissing \<Rightarrow> Inr []
      | ReadBadJson \<Rightarrow> Inr []
      | ReadBadText \<Rightarrow> Inl (ValueError ''UnicodeDecodeError'')
      | ReadValue (JObj raw) \<Rightarrow> Inr raw
      | ReadValue _ \<Rightarrow> Inr [])"

definition save_ops :: "string \<Rightarrow> (string \<times> json) list \<Rightarrow> fs_op list" where
  "save_ops tmp raw =
     [Create tmp, Fill tmp (JObj raw), Chmod tmp 384, Rename tmp SESSION_PATH]"

text \<open>
  What happens to one call: it runs through, the operation with this number raises (the \<open>finally\<close>
  clause still unlinks the temp file), or the process is killed before it.
\<close>

datatype fault = NoFault | RaisesAt nat | KilledAt nat

definition save_session :: "token_set \<Rightarrow> bool \<Rightarrow> string \<Rightarrow> fault \<Rightarrow> (fs, exn, unit) eff" where
  "save_session tokens demo tmp fault files =
     (case old_raw files of
        Inl e \<Rightarrow> (Inl e, files)
      | Inr raw \<Rightarrow>
          let ops = save_ops tmp (AList.update (env_key demo) (session_section tokens) raw)
          in case fault of
               NoFault \<Rightarrow> (Inr (), fold fs_do (ops @ [Unlink tmp]) files)
             | RaisesAt k \<Rightarrow> (Inl (OSError ''session file''), fold fs_do (take k ops @ [Unlink tmp]) files)
             | KilledAt k \<Rightarrow> (Inl CancelledError, fold fs_do (take k ops) files))"

section \<open>Round trip and atomicity\<close>

lemma env_key_neq [simp]: "env_key demo \<noteq> env_key (\<not> demo)" "env_key (\<not> demo) \<noteq> env_key demo"
  by (simp_all add: env_key_def)

lemma save_session_ok:
  assumes "old_raw files = Inr raw" and "tmp \<noteq> SESSION_PATH"
  shows "save_session tokens demo tmp NoFault files =
           (Inr (), (files(SESSION_PATH \<mapsto>
              \<lparr>text_of = Json (JObj (AList.update (env_key demo) (session_section tokens) raw)),
               mode_of = 384\<rparr>))(tmp := None))"
  using assms by (auto simp: save_session_def save_ops_def Let_def)

lemma load_session_raw:
  assumes "old_raw files = Inr raw" and "map_of raw (env_key demo) = Some (JObj s)"
  shows "load_session repr_of demo files =
     (if \<not> truthy (get_or s ''refresh_token'' JNull) then Inr None
      else case json_int (get_or s ''expires_in'' (JInt 0)) of
             Inl e \<Rightarrow> Inl e
           | Inr n \<Rightarrow>
               Inr (Some \<lparr>access_token = json_str repr_of (get_or s ''access_token'' (JStr [])),
                          refresh_token = json_str repr_of (get_or s ''refresh_token'' (JStr [])),
                          token_type = json_str repr_of (get_or s ''token_type'' (JStr ''bearer'')),
                          expires_in = n\<rparr>))"
  using assms
  by (auto simp: load_session_def old_raw_def split: read_result.splits json.splits)

text \<open>What \<open>load_session\<close> sees of a file is the object \<open>save_session\<close> starts from.\<close>

lemma load_session_via_raw:
  assumes "old_raw files = Inr raw" "old_raw files' = Inr raw'"
    and "map_of raw (env_key demo) = map_of raw' (env_key demo)"
  shows "load_session repr_of demo files = load_session repr_of demo files'"
  using assms
  by (auto simp: load_session_def old_raw_def split: read_result.splits json.splits)

lemma old_raw_readable: "read_json files SESSION_PATH \<noteq> ReadBadText \<Longrightarrow> \<exists>raw. old_raw files = Inr raw"
  by (cases "read_json files SESSION_PATH") (auto simp: old_raw_def split: json.split)

text \<open>
  Saving and loading a session. A save that runs through, over any readable previous
  content (also none, or a text that is not JSON), makes \<open>load_session\<close> of that environment return
  exactly the saved tokens (given a refresh token), leaves what \<open>load_session\<close> returns for the other
  environment unchanged, leaves the file with mode \<open>0600\<close>, and no temp file.
\<close>

theorem session_round_trip:
  assumes "tmp \<noteq> SESSION_PATH" and "read_json files SESSION_PATH \<noteq> ReadBadText"
    and "refresh_token tokens \<noteq> []"
  shows "let (r, files') = save_session tokens demo tmp NoFault files in
           r = Inr ()
         \<and> load_session repr_of demo files' = Inr (Some tokens)
         \<and> load_session repr_of (\<not> demo) files' = load_session repr_of (\<not> demo) files
         \<and> map_option mode_of (files' SESSION_PATH) = Some 384 \<and> files' tmp = None"
proof -
  obtain raw where raw: "old_raw files = Inr raw"
    using old_raw_readable [OF assms(2)] by blast
  define raw' where "raw' = AList.update (env_key demo) (session_section tokens) raw"
  define files' where "files' = (files(SESSION_PATH \<mapsto>
              \<lparr>text_of = Json (JObj raw'), mode_of = 384\<rparr>))(tmp := None)"
  have run: "save_session tokens demo tmp NoFault files = (Inr (), files')"
    using save_session_ok [OF raw assms(1)] by (simp add: files'_def raw'_def)
  have path: "files' SESSION_PATH = Some \<lparr>text_of = Json (JObj raw'), mode_of = 384\<rparr>"
    using assms(1) by (simp add: files'_def)
  have raw'_read: "old_raw files' = Inr raw'"
    by (simp add: old_raw_def read_json_def path)
  have own: "map_of raw' (env_key demo) = Some (session_section tokens)"
    by (simp add: raw'_def update_conv)
  have other: "map_of raw' (env_key (\<not> demo)) = map_of raw (env_key (\<not> demo))"
    by (simp add: raw'_def update_conv)
  have "load_session repr_of demo files' = Inr (Some tokens)"
    using load_session_raw [OF raw'_read own [unfolded session_section_def]] assms(3)
    by (simp add: get_or_def)
  moreover have "load_session repr_of (\<not> demo) files' = load_session repr_of (\<not> demo) files"
    by (rule load_session_via_raw [OF raw'_read raw other])
  moreover have "files' tmp = None" by (simp add: files'_def)
  ultimately show ?thesis by (simp add: run path)
qed

lemma session_round_trip_witness:
  "let (r, files') = save_session \<lparr>access_token = ''at'', refresh_token = ''rt'',
                        token_type = ''bearer'', expires_in = 3600\<rparr> True ''ctrader.json.7.a.tmp'' NoFault
                        [SESSION_PATH \<mapsto> \<lparr>text_of = Json (JObj [(''live'', JNull)]), mode_of = 384\<rparr>] in
     r = Inr ()
   \<and> load_session (\<lambda>_. []) True files' = Inr (Some \<lparr>access_token = ''at'', refresh_token = ''rt'',
                        token_type = ''bearer'', expires_in = 3600\<rparr>)
   \<and> load_session (\<lambda>_. []) (\<not> True) files'
      = load_session (\<lambda>_. []) (\<not> True)
          [SESSION_PATH \<mapsto> \<lparr>text_of = Json (JObj [(''live'', JNull)]), mode_of = 384\<rparr>]
   \<and> map_option mode_of (files' SESSION_PATH) = Some 384 \<and> files' ''ctrader.json.7.a.tmp'' = None"
  by (rule session_round_trip) (simp_all add: SESSION_PATH_def read_json_def)

text \<open>
  Atomicity of a save. Whatever operation of a save fails, and wherever the process is killed, the
  session file is afterwards either untouched or the complete new file with mode \<open>0600\<close>; and after a
  failure that is not a kill the temp file is gone.
\<close>

theorem session_save_atomic:
  assumes "tmp \<noteq> SESSION_PATH" and "old_raw files = Inr raw"
  shows "snd (save_session tokens demo tmp fault files) SESSION_PATH \<in>
           {files SESSION_PATH,
            Some \<lparr>text_of = Json (JObj (AList.update (env_key demo) (session_section tokens) raw)),
                  mode_of = 384\<rparr>}
       \<and> ((\<forall>k. fault \<noteq> KilledAt k) \<longrightarrow> snd (save_session tokens demo tmp fault files) tmp = None)"
proof (cases fault)
  case NoFault
  with save_session_ok [OF assms(2,1)] assms(1) show ?thesis by simp
next
  case (RaisesAt k)
  consider "k = 0" | "k = 1" | "k = 2" | "k = 3" | "4 \<le> k" by linarith
  then show ?thesis
    using assms RaisesAt by cases (auto simp: save_session_def save_ops_def Let_def numeral_2_eq_2 numeral_3_eq_3)
next
  case (KilledAt k)
  consider "k = 0" | "k = 1" | "k = 2" | "k = 3" | "4 \<le> k" by linarith
  then show ?thesis
    using assms KilledAt by cases (auto simp: save_session_def save_ops_def Let_def numeral_2_eq_2 numeral_3_eq_3)
qed

lemma session_save_atomic_witness:
  "snd (save_session \<lparr>access_token = ''at'', refresh_token = ''rt'', token_type = ''bearer'',
          expires_in = 0\<rparr> False ''ctrader.json.7.a.tmp'' (RaisesAt 2) Map.empty) ''ctrader.json.7.a.tmp'' = None"
  using session_save_atomic [of "''ctrader.json.7.a.tmp''" Map.empty "[]" _ False "RaisesAt 2"]
  by (simp add: SESSION_PATH_def old_raw_def read_json_def)


section \<open>The cross-process lock\<close>

text \<open>
  A call of \<open>acquire_session_lock\<close> is a handle, a number; \<open>pid_of\<close> is its process. The phases are the
  points between its blocking calls; \<open>Out\<close> is a handle not acquired, released, or whose acquire
  raised (with \<open>spent\<close> telling a fresh handle from the others).
\<close>

datatype lock_phase = Fresh | HasLocal | HasFile | Holding | Out

record locks =
  local_lock :: "nat \<rightharpoonup> nat"
  flock :: "nat option"
  phase :: "nat \<Rightarrow> lock_phase"

definition init_locks :: locks where
  "init_locks = \<lparr>local_lock = Map.empty, flock = None, phase = (\<lambda>_. Fresh)\<rparr>"

text \<open>Before the advisory lock: the process-local lock, then the descriptor; an \<open>open\<close> or \<open>flock\<close>
  that raises gives everything back.\<close>

definition take_local :: "(nat \<Rightarrow> nat) \<Rightarrow> nat \<Rightarrow> locks \<Rightarrow> locks option" where
  "take_local pid_of h l =
     (if phase l h = Fresh \<and> local_lock l (pid_of h) = None
      then Some (l\<lparr>local_lock := (local_lock l)(pid_of h \<mapsto> h), phase := (phase l)(h := HasLocal)\<rparr>)
      else None)"

definition open_lock_file :: "(nat \<Rightarrow> nat) \<Rightarrow> bool \<Rightarrow> bool \<Rightarrow> nat \<Rightarrow> locks \<Rightarrow> locks option" where
  "open_lock_file pid_of has_fcntl ok h l =
     (if phase l h \<noteq> HasLocal then None
      else if \<not> has_fcntl then Some (l\<lparr>phase := (phase l)(h := Holding)\<rparr>)
      else if ok then Some (l\<lparr>phase := (phase l)(h := HasFile)\<rparr>)
      else Some (l\<lparr>local_lock := (local_lock l)(pid_of h := None), phase := (phase l)(h := Out)\<rparr>))"

definition take_flock :: "(nat \<Rightarrow> nat) \<Rightarrow> bool \<Rightarrow> nat \<Rightarrow> locks \<Rightarrow> locks option" where
  "take_flock pid_of ok h l =
     (if phase l h \<noteq> HasFile then None
      else if \<not> ok
      then Some (l\<lparr>local_lock := (local_lock l)(pid_of h := None), phase := (phase l)(h := Out)\<rparr>)
      else if flock l = None then Some (l\<lparr>flock := Some h, phase := (phase l)(h := Holding)\<rparr>)
      else None)"

text \<open>\<open>SessionLock.release\<close>: on a handle already released it does nothing. Closing the descriptor
  drops its advisory lock also when \<open>LOCK_UN\<close> raises.\<close>

definition release :: "(nat \<Rightarrow> nat) \<Rightarrow> nat \<Rightarrow> locks \<Rightarrow> locks" where
  "release pid_of h l =
     (if phase l h \<noteq> Holding then l
      else l\<lparr>flock := (if flock l = Some h then None else flock l),
             local_lock := (local_lock l)(pid_of h := None), phase := (phase l)(h := Out)\<rparr>)"

text \<open>A process that dies: its descriptors are closed and its memory is gone.\<close>

definition die :: "(nat \<Rightarrow> nat) \<Rightarrow> nat \<Rightarrow> locks \<Rightarrow> locks" where
  "die pid_of p l =
     l\<lparr>flock := (case flock l of Some h \<Rightarrow> if pid_of h = p then None else Some h | None \<Rightarrow> None),
       local_lock := (local_lock l)(p := None),
       phase := (\<lambda>h. if pid_of h = p then Out else phase l h)\<rparr>"

inductive lock_reach :: "(nat \<Rightarrow> nat) \<Rightarrow> bool \<Rightarrow> locks \<Rightarrow> bool"
  for pid_of :: "nat \<Rightarrow> nat" and has_fcntl :: bool where
  start: "lock_reach pid_of has_fcntl init_locks"
| taken: "lock_reach pid_of has_fcntl l \<Longrightarrow> take_local pid_of h l = Some l' \<Longrightarrow> lock_reach pid_of has_fcntl l'"
| opened: "lock_reach pid_of has_fcntl l \<Longrightarrow> open_lock_file pid_of has_fcntl ok h l = Some l' \<Longrightarrow>
    lock_reach pid_of has_fcntl l'"
| locked: "lock_reach pid_of has_fcntl l \<Longrightarrow> take_flock pid_of ok h l = Some l' \<Longrightarrow> lock_reach pid_of has_fcntl l'"
| released: "lock_reach pid_of has_fcntl l \<Longrightarrow> lock_reach pid_of has_fcntl (release pid_of h l)"
| died: "lock_reach pid_of has_fcntl l \<Longrightarrow> lock_reach pid_of has_fcntl (die pid_of p l)"

definition inside :: "lock_phase \<Rightarrow> bool" where
  "inside ph \<longleftrightarrow> ph = HasLocal \<or> ph = HasFile \<or> ph = Holding"

lemma inside_simps [simp]:
  "inside HasLocal" "inside HasFile" "inside Holding" "\<not> inside Fresh" "\<not> inside Out"
  by (simp_all add: inside_def)

definition lock_inv :: "(nat \<Rightarrow> nat) \<Rightarrow> bool \<Rightarrow> locks \<Rightarrow> bool" where
  "lock_inv pid_of has_fcntl l \<longleftrightarrow>
     (\<forall>h. inside (phase l h) \<longleftrightarrow> local_lock l (pid_of h) = Some h)
     \<and> (\<forall>p h. local_lock l p = Some h \<longrightarrow> pid_of h = p)
     \<and> (\<forall>h. flock l = Some h \<longrightarrow> phase l h = Holding)
     \<and> (has_fcntl \<longrightarrow> (\<forall>h. phase l h = Holding \<longrightarrow> flock l = Some h))
     \<and> (\<forall>h. phase l h = HasFile \<longrightarrow> has_fcntl)"

lemma lock_inv_D:
  assumes "lock_inv pid_of has_fcntl l"
  shows "inside (phase l h) \<Longrightarrow> local_lock l (pid_of h) = Some h"
    and "local_lock l p = Some h \<Longrightarrow> pid_of h = p \<and> inside (phase l h)"
    and "flock l = Some h \<Longrightarrow> phase l h = Holding"
    and "has_fcntl \<Longrightarrow> phase l h = Holding \<Longrightarrow> flock l = Some h"
    and "phase l h = HasFile \<Longrightarrow> has_fcntl"
  using assms unfolding lock_inv_def by blast+

lemma lock_inv_I:
  assumes "\<And>h. inside (phase l h) \<Longrightarrow> local_lock l (pid_of h) = Some h"
    and "\<And>p h. local_lock l p = Some h \<Longrightarrow> pid_of h = p \<and> inside (phase l h)"
    and "\<And>h. flock l = Some h \<Longrightarrow> phase l h = Holding"
    and "\<And>h. has_fcntl \<Longrightarrow> phase l h = Holding \<Longrightarrow> flock l = Some h"
    and "\<And>h. phase l h = HasFile \<Longrightarrow> has_fcntl"
  shows "lock_inv pid_of has_fcntl l"
  unfolding lock_inv_def using assms by blast

text \<open>A step of one handle that owns its process's lock slot, or finds it empty.\<close>

lemma lock_inv_step:
  assumes inv: "lock_inv pid_of has_fcntl l"
    and own: "inside (phase l h) \<or> local_lock l (pid_of h) = None"
    and ph: "phase l' = (phase l)(h := ph)"
    and loc: "local_lock l' = (local_lock l)(pid_of h := if inside ph then Some h else None)"
    and fl: "flock l' = (if ph = Holding \<and> has_fcntl then Some h
                         else if flock l = Some h then None else flock l)"
    and free: "ph = Holding \<and> has_fcntl \<Longrightarrow> flock l = None \<or> flock l = Some h"
    and fc: "ph = HasFile \<Longrightarrow> has_fcntl"
  shows "lock_inv pid_of has_fcntl l'"
proof (rule lock_inv_I)
  show "has_fcntl" if "phase l' k = HasFile" for k
    using that fc lock_inv_D(5) [OF inv, of k] by (cases "k = h") (auto simp: ph)
  have alone: "\<not> inside (phase l k)" if "pid_of k = pid_of h" "k \<noteq> h" for k
    using own lock_inv_D(1) [OF inv, of k] lock_inv_D(1) [OF inv, of h] that by auto
  show "local_lock l' (pid_of k) = Some k" if "inside (phase l' k)" for k
    using that alone [of k] lock_inv_D(1) [OF inv, of k] by (cases "k = h") (auto simp: ph loc)
  show "pid_of k = p \<and> inside (phase l' k)" if "local_lock l' p = Some k" for p k
  proof (cases "p = pid_of h")
    case True
    with that show ?thesis by (auto simp: ph loc split: if_splits)
  next
    case False
    with that have "local_lock l p = Some k" by (simp add: loc)
    with lock_inv_D(2) [OF inv this] False show ?thesis by (auto simp: ph)
  qed
  show "phase l' k = Holding" if "flock l' = Some k" for k
    using that lock_inv_D(3) [OF inv, of k] by (auto simp: ph fl split: if_splits)
  show "flock l' = Some k" if "has_fcntl" "phase l' k = Holding" for k
  proof (cases "k = h")
    case True
    with that show ?thesis by (simp add: ph fl)
  next
    case False
    with that have "flock l = Some k" using lock_inv_D(4) [OF inv] by (simp add: ph)
    with False free show ?thesis by (auto simp: fl)
  qed
qed

lemma die_inv:
  assumes inv: "lock_inv pid_of has_fcntl l"
  shows "lock_inv pid_of has_fcntl (die pid_of p l)"
proof (rule lock_inv_I)
  show "has_fcntl" if "phase (die pid_of p l) k = HasFile" for k
    using that lock_inv_D(5) [OF inv, of k] by (auto simp: die_def split: if_splits)
  show "local_lock (die pid_of p l) (pid_of k) = Some k" if "inside (phase (die pid_of p l) k)" for k
    using that lock_inv_D(1) [OF inv, of k] by (auto simp: die_def split: if_splits)
  show "pid_of k = q \<and> inside (phase (die pid_of p l) k)" if "local_lock (die pid_of p l) q = Some k" for q k
    using that lock_inv_D(2) [OF inv, of q k] by (auto simp: die_def split: if_splits)
  show "phase (die pid_of p l) k = Holding" if "flock (die pid_of p l) = Some k" for k
    using that lock_inv_D(3) [OF inv, of k] by (auto simp: die_def split: if_splits option.splits)
  show "flock (die pid_of p l) = Some k" if "has_fcntl" "phase (die pid_of p l) k = Holding" for k
    using that lock_inv_D(4) [OF inv, of k] by (auto simp: die_def split: if_splits)
qed

lemma lock_reach_inv: "lock_reach pid_of has_fcntl l \<Longrightarrow> lock_inv pid_of has_fcntl l"
proof (induction rule: lock_reach.induct)
  case start
  show ?case by (rule lock_inv_I) (simp_all add: init_locks_def)
next
  case (taken l h l')
  then have run: "phase l h = Fresh" "local_lock l (pid_of h) = None"
    "l' = l\<lparr>local_lock := (local_lock l)(pid_of h \<mapsto> h), phase := (phase l)(h := HasLocal)\<rparr>"
    by (auto simp: take_local_def split: if_splits)
  have "flock l \<noteq> Some h" using lock_inv_D(3) [OF taken.IH, of h] run(1) by auto
  with run show ?case by (intro lock_inv_step [OF taken.IH, where h = h and ph = HasLocal]) auto
next
  case (opened l ok h l')
  define ph where "ph = (if \<not> has_fcntl then Holding else if ok then HasFile else Out)"
  have was: "phase l h = HasLocal" using opened by (auto simp: open_lock_file_def split: if_splits)
  then have slot: "local_lock l (pid_of h) = Some h" using lock_inv_D(1) [OF opened.IH, of h] by simp
  have "flock l \<noteq> Some h" using lock_inv_D(3) [OF opened.IH, of h] was by auto
  with opened was slot show ?case
    by (intro lock_inv_step [OF opened.IH, where h = h and ph = ph])
      (auto simp: open_lock_file_def ph_def split: if_splits)
next
  case (locked l ok h l')
  define ph where "ph = (if ok then Holding else Out)"
  have was: "phase l h = HasFile" using locked by (auto simp: take_flock_def split: if_splits)
  then have slot: "local_lock l (pid_of h) = Some h" using lock_inv_D(1) [OF locked.IH, of h] by simp
  have "flock l \<noteq> Some h" using lock_inv_D(3) [OF locked.IH, of h] was by auto
  moreover have "has_fcntl" using lock_inv_D(5) [OF locked.IH was] .
  ultimately show ?case
    using locked was slot
    by (intro lock_inv_step [OF locked.IH, where h = h and ph = ph])
      (auto simp: take_flock_def ph_def split: if_splits)
next
  case (released l h)
  show ?case
  proof (cases "phase l h = Holding")
    case True
    then show ?thesis
      by (intro lock_inv_step [OF released.IH, where h = h and ph = Out]) (simp_all add: release_def)
  next
    case False
    with released.IH show ?thesis by (simp add: release_def)
  qed
next
  case (died l p)
  then show ?case by (intro die_inv)
qed

text \<open>
  C19: The session lock. In every reachable interleaving of threads and processes - with failed
  acquires, repeated releases and processes that die - at most one unreleased handle exists in a
  process, and at most one over all processes where \<open>flock\<close> exists; and neither lock is ever leaked: each
  is held only by a handle that is still inside its acquire or not released.
\<close>

theorem session_lock_exclusive:
  assumes "lock_reach pid_of has_fcntl l"
  shows "(\<forall>h k. phase l h = Holding \<and> phase l k = Holding \<and> (has_fcntl \<or> pid_of h = pid_of k) \<longrightarrow> h = k)
       \<and> (\<forall>p h. local_lock l p = Some h \<longrightarrow> inside (phase l h))
       \<and> (\<forall>h. flock l = Some h \<longrightarrow> phase l h = Holding)"
proof (intro conjI allI impI)
  note inv = lock_reach_inv [OF assms]
  fix h k assume a: "phase l h = Holding \<and> phase l k = Holding \<and> (has_fcntl \<or> pid_of h = pid_of k)"
  have here: "local_lock l (pid_of h) = Some h" and there: "local_lock l (pid_of k) = Some k"
    by (rule lock_inv_D(1) [OF inv]; simp only: a inside_simps)+
  from a consider "has_fcntl" | "pid_of h = pid_of k" by blast
  then have "Some h = Some k"
  proof cases
    case 1
    have "flock l = Some h" "flock l = Some k"
      using lock_inv_D(4) [OF inv 1] a by blast+
    then show ?thesis by simp
  next
    case 2
    show ?thesis using here there unfolding 2 by simp
  qed
  then show "h = k" by simp
next
  note inv = lock_reach_inv [OF assms]
  show "inside (phase l h)" if "local_lock l p = Some h" for p h
    using lock_inv_D(2) [OF inv that] by blast
  show "phase l h = Holding" if "flock l = Some h" for h
    using lock_inv_D(3) [OF inv that] .
qed

lemma session_lock_exclusive_witness:
  "\<exists>l. lock_reach (\<lambda>h. h mod 2) True l \<and> phase l 0 = Holding \<and> phase l 1 = HasFile
     \<and> (\<forall>h k. phase l h = Holding \<and> phase l k = Holding \<longrightarrow> h = k)"
proof -
  let ?p = "\<lambda>h::nat. h mod 2"
  define l1 where "l1 = the (take_local ?p 0 init_locks)"
  define l2 where "l2 = the (open_lock_file ?p True True 0 l1)"
  define l3 where "l3 = the (take_flock ?p True 0 l2)"
  define l4 where "l4 = the (take_local ?p 1 l3)"
  define l5 where "l5 = the (open_lock_file ?p True True 1 l4)"
  note defs = l1_def l2_def l3_def l4_def l5_def init_locks_def take_local_def open_lock_file_def take_flock_def
  have steps: "take_local ?p 0 init_locks = Some l1" "open_lock_file ?p True True 0 l1 = Some l2"
    "take_flock ?p True 0 l2 = Some l3" "take_local ?p 1 l3 = Some l4"
    "open_lock_file ?p True True 1 l4 = Some l5"
    by (simp_all add: defs)
  have r: "lock_reach ?p True l5"
    by (rule lock_reach.opened [OF lock_reach.taken [OF lock_reach.locked [OF lock_reach.opened
          [OF lock_reach.taken [OF lock_reach.start steps(1)] steps(2)] steps(3)] steps(4)] steps(5)])
  have "phase l5 0 = Holding" "phase l5 1 = HasFile" by (simp_all add: defs)
  with r conjunct1 [OF session_lock_exclusive [OF r]] show ?thesis by auto
qed

end
