(* ===== verification/Auth.thy ===== *)
theory Auth
  imports Messages Session
begin

text \<open>
  The shared state of \<open>_CTraderBase\<close>, how a coroutine of it runs, and the socket functions of
  \<open>auth.py\<close>.

  \<open>base\<close> holds the attributes other coroutines can change; \<open>run\<close> adds the clock, the deadline of the
  enclosing \<open>wait_for\<close>, the number of suspensions so far and the log of requests this coroutine wrote.
  Everything outside is the record \<open>outside\<close>, indexed by the suspension at which it is asked: the
  answer of the venue, how long it took, what the other tasks and processes did to \<open>base\<close> meanwhile,
  and the verdict of the venue-write gate. A suspension that would end after the deadline raises
  \<open>CancelledError\<close> at the deadline, as the cancellation by \<open>wait_for\<close> does.
\<close>

section \<open>State and environment\<close>

record config =
  client_id :: string
  client_secret :: string
  demo :: bool
  broker_title :: "string option"
  account_selector :: "int option"

record base =
  tokens :: token_set
  session_pair :: "string \<times> string"
  wire_now :: "nat option"
  up :: "nat \<Rightarrow> bool"
  live_account :: "int option"
  generation :: int
  store :: fs
  identity :: string

record run =
  base :: base
  now :: rat
  deadline :: "rat option"
  waits :: nat
  sent :: "(rat \<times> nat \<times> msg) list"

record outside =
  answer :: "nat \<Rightarrow> msg \<Rightarrow> exn + msg"
  latency :: "nat \<Rightarrow> rat"
  meanwhile :: "nat \<Rightarrow> base \<Rightarrow> base"
  gate :: "nat \<Rightarrow> exn option"
  lock_error :: "nat \<Rightarrow> exn option"
  save_fault :: "nat \<Rightarrow> fault"
  tmp_name :: "nat \<Rightarrow> string"

type_synonym 'a coro = "(run, exn, 'a) eff"

definition on_base :: "(base \<Rightarrow> base) \<Rightarrow> unit coro" where
  "on_base f = modify (\<lambda>s. s\<lparr>base := f (base s)\<rparr>)"

text \<open>One suspension that lasts \<open>secs\<close>, and one whose length the outside decides.\<close>

definition pause :: "outside \<Rightarrow> rat \<Rightarrow> unit coro" where
  "pause E secs s =
     (let k = waits s; t = now s + max 0 secs;
          s1 = s\<lparr>base := meanwhile E k (base s), waits := k + 1\<rparr>
      in case deadline s of
           None \<Rightarrow> (Inr (), s1\<lparr>now := t\<rparr>)
         | Some d \<Rightarrow> (if d < t then (Inl CancelledError, s1\<lparr>now := max d (now s)\<rparr>)
                     else (Inr (), s1\<lparr>now := t\<rparr>)))"

definition suspend :: "outside \<Rightarrow> unit coro" where
  "suspend E s = pause E (latency E (waits s)) s"

text \<open>
  \<open>WireClient.send_request\<close> as theory Wire describes it: nothing is written on a connection that is
  down or when the gate raises; otherwise the request is written and the response (or the exception)
  is awaited.
\<close>

definition send_request :: "outside \<Rightarrow> nat \<Rightarrow> bool \<Rightarrow> msg \<Rightarrow> msg coro" where
  "send_request E w gated m s =
     (if \<not> up (base s) w then (Inl (CTraderConnectionError ''not connected''), s)
      else case (if gated then gate E (waits s) else None) of
             Some e \<Rightarrow> (Inl e, s)
           | None \<Rightarrow>
               seq (modify (\<lambda>s. s\<lparr>sent := sent s @ [(now s, w, m)]\<rparr>)) (\<lambda>_.
               seq (suspend E) (\<lambda>_.
               (case answer E (waits s) m of Inl e \<Rightarrow> throw e | Inr r \<Rightarrow> ret r))) s)"

text \<open>\<open>asyncio.wait_for(m, timeout)\<close>: an enclosing deadline that comes first stays in force.\<close>

definition wait_for :: "rat \<Rightarrow> 'a coro \<Rightarrow> 'a coro" where
  "wait_for timeout m s =
     (let d = now s + timeout;
          mine = (case deadline s of None \<Rightarrow> True | Some outer \<Rightarrow> d < outer)
      in if mine
         then (case m (s\<lparr>deadline := Some d\<rparr>) of
                 (Inl e, t) \<Rightarrow> (Inl (if e = CancelledError then AsyncTimeoutError else e),
                               t\<lparr>deadline := deadline s\<rparr>)
               | (Inr x, t) \<Rightarrow> (Inr x, t\<lparr>deadline := deadline s\<rparr>))
         else m s)"

text \<open>
  \<open>asyncio.shield\<close> of a task: the task itself never sees the deadline; if it ends after it, the caller
  is cancelled at the deadline while the task's effects happen all the same.
\<close>

definition shield :: "'a coro \<Rightarrow> 'a coro" where
  "shield m s =
     (case m (s\<lparr>deadline := None\<rparr>) of
        (r, t) \<Rightarrow>
          (case deadline s of
             None \<Rightarrow> (r, t\<lparr>deadline := None\<rparr>)
           | Some d \<Rightarrow> (if d < now t then (Inl CancelledError, t\<lparr>deadline := Some d, now := max d (now s)\<rparr>)
                       else (r, t\<lparr>deadline := Some d\<rparr>))))"

section \<open>The token endpoint and the socket handshake\<close>

text \<open>The fields of the token endpoint's JSON body that the code reads; \<open>code_field\<close> and
  \<open>description_field\<close> go through \<open>str\<close>, \<open>expires_field\<close> through \<open>int\<close>.\<close>

record token_body =
  status :: int
  error_field :: "json option"
  description_field :: "json option"
  access_field :: "string option"
  refresh_field :: "string option"
  type_field :: "string option"
  expires_field :: "json option"

definition token_set_of_body :: "token_body \<Rightarrow> exn + token_set" where
  "token_set_of_body body =
     (case access_field body of
        None \<Rightarrow> Inl (KeyError ''accessToken'')
      | Some a \<Rightarrow>
          (case json_int (case expires_field body of None \<Rightarrow> JInt 0 | Some v \<Rightarrow> v) of
             Inl e \<Rightarrow> Inl e
           | Inr n \<Rightarrow>
               Inr \<lparr>access_token = a,
                    refresh_token = (case refresh_field body of None \<Rightarrow> [] | Some t \<Rightarrow> t),
                    token_type = (case type_field body of None \<Rightarrow> ''bearer'' | Some t \<Rightarrow> t),
                    expires_in = n\<rparr>))"

definition token_set_from_http :: "(json \<Rightarrow> string) \<Rightarrow> token_body \<Rightarrow> exn + token_set" where
  "token_set_from_http repr_of body =
     (if status body < 200 \<or> 300 \<le> status body
      then Inl (CTraderAuthError ''HTTP_ERROR'' (py_str (status body) @ '' from token endpoint''))
      else case error_field body of
             None \<Rightarrow> token_set_of_body body
           | Some c \<Rightarrow>
               (if truthy c
                then Inl (CTraderAuthError (json_str repr_of c)
                            (case description_field body of None \<Rightarrow> [] | Some d \<Rightarrow> json_str repr_of d))
                else token_set_of_body body))"

definition refresh_via_socket :: "outside \<Rightarrow> nat \<Rightarrow> string \<Rightarrow> token_set coro" where
  "refresh_via_socket E w old =
     seq (send_request E w False (ProtoOARefreshTokenReq old)) (\<lambda>response.
     case response of
       ProtoOARefreshTokenRes a r ty n \<Rightarrow>
         ret \<lparr>access_token = a, refresh_token = (if r \<noteq> [] then r else old),
              token_type = (if ty \<noteq> [] then ty else ''bearer''), expires_in = n\<rparr>
     | _ \<Rightarrow> throw (AttributeError ''accessToken''))"

definition accounts_of :: "msg \<Rightarrow> trading_account list coro" where
  "accounts_of response =
     (case response of
        ProtoOAGetAccountListByAccessTokenRes xs \<Rightarrow> ret xs
      | _ \<Rightarrow> throw (AttributeError ''ctidTraderAccount''))"

definition get_accounts :: "outside \<Rightarrow> nat \<Rightarrow> string \<Rightarrow> trading_account list coro" where
  "get_accounts E w token =
     seq (send_request E w False (ProtoOAGetAccountListByAccessTokenReq token)) accounts_of"

fun join :: "string \<Rightarrow> string list \<Rightarrow> string" where
  "join sep [] = []"
| "join sep [x] = x"
| "join sep (x # y # ys) = x @ sep @ join sep (y # ys)"

definition id_text :: "trading_account list \<Rightarrow> string" where
  "id_text accounts = join '', '' (map (\<lambda>a. py_str (a_id a)) accounts)"

definition select_sole_account :: "trading_account list \<Rightarrow> exn + int" where
  "select_sole_account accounts =
     (case accounts of
        [] \<Rightarrow> Inl (CTraderAuthError ''NO_TRADING_ACCOUNTS'' ''the access token grants no trading accounts'')
      | [a] \<Rightarrow> Inr (a_id a)
      | _ \<Rightarrow> Inl (CTraderAuthError ''ACCOUNT_AMBIGUOUS''
                  (''set account_id; the token grants multiple accounts: '' @ id_text accounts)))"

definition lift_result :: "exn + 'a \<Rightarrow> 'a coro" where
  "lift_result r = (case r of Inl e \<Rightarrow> throw e | Inr x \<Rightarrow> ret x)"

definition token_phase :: "outside \<Rightarrow> nat \<Rightarrow> int option \<Rightarrow> token_set \<Rightarrow> int coro" where
  "token_phase E w account_id ts =
     seq (case account_id of
            Some a \<Rightarrow> ret a
          | None \<Rightarrow> seq (get_accounts E w (access_token ts)) (\<lambda>xs. lift_result (select_sole_account xs)))
       (\<lambda>resolved.
     seq (send_request E w False (ProtoOAAccountAuthReq resolved (access_token ts))) (\<lambda>_.
     ret resolved))"

definition authenticate ::
    "outside \<Rightarrow> nat \<Rightarrow> config \<Rightarrow> token_set \<Rightarrow> int option \<Rightarrow> (int \<times> token_set) coro" where
  "authenticate E w cfg ts account_id =
     seq (send_request E w False (ProtoOAApplicationAuthReq (client_id cfg) (client_secret cfg))) (\<lambda>_.
     catch (seq (token_phase E w account_id ts) (\<lambda>a. ret (a, ts)))
       (\<lambda>e. if is_protocol_error e \<and> refresh_token ts \<noteq> []
            then seq (refresh_via_socket E w (refresh_token ts)) (\<lambda>fresh.
                 seq (token_phase E w account_id fresh) (\<lambda>a. ret (a, fresh)))
            else throw e))"

section \<open>Reasoning about coroutines\<close>

lemma pause_fields [simp]:
  "sent (snd (pause E secs s)) = sent s" "deadline (snd (pause E secs s)) = deadline s"
  by (auto simp: pause_def Let_def split: option.split)

lemma suspend_fields [simp]:
  "sent (snd (suspend E s)) = sent s" "deadline (snd (suspend E s)) = deadline s"
  by (simp_all add: suspend_def)

lemma pause_waits: "waits (snd (pause E secs s)) = Suc (waits s)"
  by (auto simp: pause_def Let_def split: option.split)

lemma pause_now_mono: "now s \<le> now (snd (pause E secs s))"
  by (auto simp: pause_def Let_def split: option.split)

text \<open>The three ways a request ends.\<close>

lemma send_request_cases:
  assumes "send_request E w gated m s = (r, t)"
  shows "(t = s \<and> \<not> up (base s) w \<and> r = Inl (CTraderConnectionError ''not connected''))
   \<or> (t = s \<and> up (base s) w \<and> gated \<and> (\<exists>e. gate E (waits s) = Some e \<and> r = Inl e))
   \<or> (up (base s) w \<and> (gated \<longrightarrow> gate E (waits s) = None)
      \<and> sent t = sent s @ [(now s, w, m)] \<and> now s \<le> now t \<and> waits t = Suc (waits s)
      \<and> deadline t = deadline s \<and> base t = meanwhile E (waits s) (base s)
      \<and> ((\<exists>d. deadline s = Some d \<and> r = Inl CancelledError) \<or> r = answer E (waits s) m))"
  using assms
  by (auto simp: send_request_def suspend_def pause_def seq_def modify_def ret_def throw_def Let_def
      split: if_splits option.splits sum.splits)

end
