(* ===== verification/Account.thy ===== *)
theory Account
  imports Auth
begin

text \<open>
  The account layer of \<open>_base.py\<close>: rate-limit retries, the refresh of the token pair shared with other
  processes, the recovery of a lost account session on the live wire, account requests, and the
  choice of the trading account.

  \<open>self._reauth_lock\<close> is one suspension: it is free again when its turn comes. A task that is shielded
  runs with \<open>shield\<close> of theory Auth. Awaits that only wait (the lock, the closing handshake of a socket)
  are \<open>suspend\<close>.
\<close>

section \<open>Rate-limit retries\<close>

definition REAUTH_TIMEOUT :: rat where "REAUTH_TIMEOUT = 20"
definition RATE_LIMIT_REQUEST_ATTEMPTS :: nat where "RATE_LIMIT_REQUEST_ATTEMPTS = 5"
definition RATE_LIMIT_RETRY_BUDGET_SECONDS :: rat where "RATE_LIMIT_RETRY_BUDGET_SECONDS = 120"
definition RATE_LIMIT_FALLBACK_SECONDS :: rat where "RATE_LIMIT_FALLBACK_SECONDS = 1"
definition RATE_LIMIT_BACKOFF_CAP_SECONDS :: rat where "RATE_LIMIT_BACKOFF_CAP_SECONDS = 120"
definition RATE_LIMIT_HISTORY_ATTEMPTS :: nat where "RATE_LIMIT_HISTORY_ATTEMPTS = 12"
definition RATE_LIMIT_HISTORY_BUDGET_SECONDS :: rat where "RATE_LIMIT_HISTORY_BUDGET_SECONDS = 900"

definition retry_delay :: "nat \<Rightarrow> rat option \<Rightarrow> rat" where
  "retry_delay attempt hint =
     (let backoff = min (RATE_LIMIT_FALLBACK_SECONDS * 2 ^ attempt) RATE_LIMIT_BACKOFF_CAP_SECONDS;
          venue_hint = (case hint of None \<Rightarrow> 0 | Some r \<Rightarrow> max 0 r)
      in max backoff venue_hint)"

text \<open>The loop from attempt number \<open>attempt\<close> with \<open>left\<close> attempts to go, until \<open>dl\<close>.\<close>

fun retry_loop :: "outside \<Rightarrow> 'a coro \<Rightarrow> rat \<Rightarrow> nat \<Rightarrow> nat \<Rightarrow> 'a coro" where
  "retry_loop E call dl attempt 0 = throw (AssertionError ''rate-limit retry loop did not terminate'')"
| "retry_loop E call dl attempt (Suc left) =
     catch call (\<lambda>e.
       case e of
         CTraderProtocolError code desc hint \<Rightarrow>
           (if \<not> is_rate_limited code then throw e
            else seq (asks now) (\<lambda>t.
              if left = 0 \<or> dl - t < retry_delay attempt hint then throw e
              else seq (pause E (retry_delay attempt hint)) (\<lambda>_.
                   retry_loop E call dl (attempt + 1) left)))
       | _ \<Rightarrow> throw e)"

definition retry_rate_limited :: "outside \<Rightarrow> nat \<Rightarrow> rat \<Rightarrow> 'a coro \<Rightarrow> 'a coro" where
  "retry_rate_limited E attempts budget call s = retry_loop E call (now s + budget) 0 attempts s"

definition retry_default :: "outside \<Rightarrow> 'a coro \<Rightarrow> 'a coro" where
  "retry_default E = retry_rate_limited E RATE_LIMIT_REQUEST_ATTEMPTS RATE_LIMIT_RETRY_BUDGET_SECONDS"

section \<open>Token pair\<close>

definition credentials :: "config \<Rightarrow> base \<Rightarrow> exn + (string \<times> string)" where
  "credentials cfg b =
     (if client_id cfg = [] \<or> client_secret cfg = []
      then Inl (CTraderAuthError ''MISSING_CREDENTIALS''
                  ''set client_id/client_secret in config/plugins/ctrader.toml'')
      else if access_token (tokens b) = [] \<and> refresh_token (tokens b) = []
      then Inl (CTraderAuthError ''MISSING_TOKEN'' ''no access/refresh token; run `pyne ctrader auth` first'')
      else Inr (client_id cfg, client_secret cfg))"

definition app_auth :: "outside \<Rightarrow> config \<Rightarrow> nat \<Rightarrow> unit coro" where
  "app_auth E cfg w =
     seq (asks (\<lambda>s. credentials cfg (base s))) (\<lambda>c.
     case c of
       Inl e \<Rightarrow> throw e
     | Inr (cid, secret) \<Rightarrow>
         seq (retry_default E (send_request E w False (ProtoOAApplicationAuthReq cid secret)))
             (\<lambda>_. ret ()))"

definition pair_of :: "token_set \<Rightarrow> string \<times> string" where
  "pair_of t = (access_token t, refresh_token t)"

definition adopt_rotated_session :: "(json \<Rightarrow> string) \<Rightarrow> config \<Rightarrow> bool coro" where
  "adopt_rotated_session repr_of cfg =
     seq (asks (\<lambda>s. load_session repr_of (demo cfg) (store (base s)))) (\<lambda>r.
     seq (lift_result r) (\<lambda>stored.
     case stored of
       None \<Rightarrow> ret False
     | Some st \<Rightarrow>
         if refresh_token st = [] then ret False
         else seq (asks (\<lambda>s. session_pair (base s))) (\<lambda>pair.
              if pair_of st = pair then ret False
              else seq (on_base (\<lambda>b. b\<lparr>tokens := st, session_pair := pair_of st\<rparr>)) (\<lambda>_.
                   ret True))))"

text \<open>Saving the current pair: the file changes as \<open>save_session\<close> of theory Session says.\<close>

definition save_current :: "outside \<Rightarrow> config \<Rightarrow> unit coro" where
  "save_current E cfg s =
     (case save_session (tokens (base s)) (demo cfg) (tmp_name E (waits s)) (save_fault E (waits s))
             (store (base s)) of
        (r, files) \<Rightarrow> (r, s\<lparr>base := (base s)\<lparr>store := files\<rparr>\<rparr>))"

text \<open>The body of the refresh task. The lock is released on every path, which changes nothing here.\<close>

definition refresh_task :: "outside \<Rightarrow> (json \<Rightarrow> string) \<Rightarrow> config \<Rightarrow> nat \<Rightarrow> unit coro" where
  "refresh_task E repr_of cfg w =
     seq (asks (\<lambda>s. lock_error E (waits s))) (\<lambda>le.
     seq (suspend E) (\<lambda>_.
     case le of
       Some e \<Rightarrow> throw e
     | None \<Rightarrow>
         seq (adopt_rotated_session repr_of cfg) (\<lambda>adopted.
         if adopted then ret ()
         else seq (asks (\<lambda>s. refresh_token (tokens (base s)))) (\<lambda>old.
              seq (refresh_via_socket E w old) (\<lambda>fresh.
              seq (on_base (\<lambda>b. b\<lparr>tokens := fresh\<rparr>)) (\<lambda>_.
              seq (save_current E cfg) (\<lambda>_.
              on_base (\<lambda>b. b\<lparr>session_pair := pair_of (tokens b)\<rparr>))))))))"

definition refresh_and_persist :: "outside \<Rightarrow> (json \<Rightarrow> string) \<Rightarrow> config \<Rightarrow> nat \<Rightarrow> unit coro" where
  "refresh_and_persist E repr_of cfg w = shield (refresh_task E repr_of cfg w)"

definition token_call ::
    "outside \<Rightarrow> (json \<Rightarrow> string) \<Rightarrow> config \<Rightarrow> nat \<Rightarrow> (string \<Rightarrow> msg coro) \<Rightarrow> msg coro" where
  "token_call E repr_of cfg w call =
     (let attempt = retry_default E (seq (asks (\<lambda>s. access_token (tokens (base s)))) call)
      in catch attempt (\<lambda>e.
           case e of
             CTraderProtocolError code desc r \<Rightarrow>
               seq (asks (\<lambda>s. refresh_token (tokens (base s)))) (\<lambda>rt.
               if is_rate_limited code \<or> rt = [] then throw e
               else seq (refresh_and_persist E repr_of cfg w) (\<lambda>_. attempt))
           | _ \<Rightarrow> throw e))"

definition list_accounts :: "outside \<Rightarrow> (json \<Rightarrow> string) \<Rightarrow> config \<Rightarrow> nat \<Rightarrow> trading_account list coro" where
  "list_accounts E repr_of cfg w =
     seq (token_call E repr_of cfg w
            (\<lambda>token. send_request E w False (ProtoOAGetAccountListByAccessTokenReq token))) accounts_of"

definition account_auth :: "outside \<Rightarrow> (json \<Rightarrow> string) \<Rightarrow> config \<Rightarrow> nat \<Rightarrow> int \<Rightarrow> unit coro" where
  "account_auth E repr_of cfg w account_id =
     seq (token_call E repr_of cfg w
            (\<lambda>token. send_request E w False (ProtoOAAccountAuthReq account_id token))) (\<lambda>_. ret ())"

section \<open>Recovery of the account session\<close>

text \<open>An unset live account serialises as the field's default; the callers exclude it.\<close>

definition send_account_auth :: "outside \<Rightarrow> nat \<Rightarrow> unit coro" where
  "send_account_auth E w =
     seq (asks (\<lambda>s. ProtoOAAccountAuthReq (case live_account (base s) of None \<Rightarrow> 0 | Some a \<Rightarrow> a)
                      (access_token (tokens (base s))))) (\<lambda>request.
     catch (seq (retry_default E (send_request E w False request)) (\<lambda>_. ret ()))
       (\<lambda>e. case e of
              CTraderProtocolError code desc r \<Rightarrow>
                (if code = ''ALREADY_LOGGED_IN'' then ret () else throw e)
            | _ \<Rightarrow> throw e))"

text \<open>The steps of \<open>_reauth_account\<close> under its lock: the forced refresh, which may first have to
  authenticate the application, and the account auth with its two fallbacks.\<close>

definition forced_refresh ::
    "outside \<Rightarrow> (json \<Rightarrow> string) \<Rightarrow> config \<Rightarrow> nat \<Rightarrow> bool \<Rightarrow> bool coro" where
  "forced_refresh E repr_of cfg w reauth_app =
     catch (seq (refresh_and_persist E repr_of cfg w) (\<lambda>_. ret reauth_app))
       (\<lambda>e. case e of
              CTraderProtocolError code desc r \<Rightarrow>
                (if \<not> reauth_app \<and> is_client_auth_lost code
                 then seq (app_auth E cfg w) (\<lambda>_.
                      seq (refresh_and_persist E repr_of cfg w) (\<lambda>_. ret True))
                 else throw e)
            | _ \<Rightarrow> throw e)"

definition auth_with_fallbacks ::
    "outside \<Rightarrow> (json \<Rightarrow> string) \<Rightarrow> config \<Rightarrow> nat \<Rightarrow> bool \<Rightarrow> bool \<Rightarrow> unit coro" where
  "auth_with_fallbacks E repr_of cfg w force_refresh reauth_app =
     catch (send_account_auth E w)
       (\<lambda>e. case e of
              CTraderProtocolError code desc r \<Rightarrow>
                seq (asks (\<lambda>s. refresh_token (tokens (base s)))) (\<lambda>rt.
                if \<not> force_refresh \<and> rt \<noteq> [] \<and> is_token_invalid code
                then seq (refresh_and_persist E repr_of cfg w) (\<lambda>_. send_account_auth E w)
                else if \<not> reauth_app \<and> is_client_auth_lost code
                then seq (app_auth E cfg w) (\<lambda>_. send_account_auth E w)
                else throw e)
            | _ \<Rightarrow> throw e)"

definition reauth_account ::
    "outside \<Rightarrow> (json \<Rightarrow> string) \<Rightarrow> config \<Rightarrow> bool \<Rightarrow> bool \<Rightarrow> int option \<Rightarrow> unit coro" where
  "reauth_account E repr_of cfg force_refresh reauth_app seen =
     seq (suspend E) (\<lambda>_.
     seq (asks base) (\<lambda>b.
     if seen \<noteq> None \<and> seen \<noteq> Some (generation b) then ret ()
     else case (wire_now b, live_account b) of
            (Some w, Some _) \<Rightarrow>
              seq (if reauth_app then app_auth E cfg w else ret ()) (\<lambda>_.
              seq (asks (\<lambda>s. refresh_token (tokens (base s)))) (\<lambda>rt.
              seq (if force_refresh \<and> rt \<noteq> [] then forced_refresh E repr_of cfg w reauth_app
                   else ret reauth_app) (\<lambda>app_done.
              seq (auth_with_fallbacks E repr_of cfg w force_refresh app_done) (\<lambda>_.
              on_base (\<lambda>b. b\<lparr>generation := generation b + 1\<rparr>)))))
          | _ \<Rightarrow> throw (CTraderConnectionError ''live connection not established'')))"

text \<open>\<open>wire.disconnect()\<close> on a wire whose socket is open does not raise (theory Wire); it suspends and
  leaves the socket down.\<close>

definition drop_live_wire :: "outside \<Rightarrow> unit coro" where
  "drop_live_wire E =
     seq (asks (\<lambda>s. (wire_now (base s), base s))) (\<lambda>(w, b).
     case w of
       None \<Rightarrow> ret ()
     | Some n \<Rightarrow>
         if \<not> up b n then ret ()
         else seq (on_base (\<lambda>b. b\<lparr>up := (up b)(n := False)\<rparr>)) (\<lambda>_. suspend E))"

definition recover_account_session ::
    "outside \<Rightarrow> (json \<Rightarrow> string) \<Rightarrow> config \<Rightarrow> string \<Rightarrow> int \<Rightarrow> unit coro" where
  "recover_account_session E repr_of cfg code seen =
     catch (wait_for REAUTH_TIMEOUT
              (reauth_account E repr_of cfg (is_token_invalid code) (is_client_auth_lost code) (Some seen)))
       (\<lambda>e. if is_protocol_error e \<or> is_connection_error e \<or> is_timeout_error e \<or> e = AsyncTimeoutError
            then seq (drop_live_wire E) (\<lambda>_.
                 throw (ExchangeConnectionError
                   ''cTrader account authorization was lost and could not be restored''))
            else throw e)"

definition proactive_reauth ::
    "outside \<Rightarrow> (json \<Rightarrow> string) \<Rightarrow> config \<Rightarrow> bool \<Rightarrow> bool \<Rightarrow> unit coro" where
  "proactive_reauth E repr_of cfg force_refresh reauth_app =
     catch (wait_for REAUTH_TIMEOUT (reauth_account E repr_of cfg force_refresh reauth_app None))
       (\<lambda>e. if is_protocol_error e \<or> is_connection_error e \<or> is_timeout_error e \<or> e = AsyncTimeoutError
               \<or> is_os_error e
            then drop_live_wire E
            else throw e)"

section \<open>Account requests\<close>

definition account_auth_loss :: "msg \<Rightarrow> exn option" where
  "account_auth_loss m =
     (let check = (\<lambda>code desc. if is_account_auth_lost code desc
                               then Some (CTraderProtocolError code desc None) else None)
      in case m of
           ProtoOAOrderErrorEvent e \<Rightarrow> check (e_errorCode e) (e_description e)
         | ProtoOAExecutionEvent x \<Rightarrow> (if x_errorCode x \<noteq> [] then check (x_errorCode x) [] else None)
         | _ \<Rightarrow> None)"

definition loss_code :: "exn \<Rightarrow> string option" where
  "loss_code e =
     (case e of CTraderProtocolError code desc _ \<Rightarrow>
        (if is_account_auth_lost code desc then Some code else None) | _ \<Rightarrow> None)"

text \<open>The first send: the response, or the code of the auth loss it reported or was rejected with.\<close>

definition first_send :: "outside \<Rightarrow> nat \<Rightarrow> bool \<Rightarrow> msg \<Rightarrow> (msg + string) coro" where
  "first_send E w venue_write req =
     catch (seq (send_request E w venue_write req) (\<lambda>response.
              case account_auth_loss response of
                None \<Rightarrow> ret (Inl response)
              | Some (CTraderProtocolError code _ _) \<Rightarrow> ret (Inr code)
              | Some _ \<Rightarrow> ret (Inl response)))
       (\<lambda>e. case loss_code e of None \<Rightarrow> throw e | Some code \<Rightarrow> ret (Inr code))"

definition second_send :: "outside \<Rightarrow> nat \<Rightarrow> bool \<Rightarrow> msg \<Rightarrow> msg coro" where
  "second_send E w venue_write req =
     seq (catch (send_request E w venue_write req)
            (\<lambda>e. if loss_code e \<noteq> None
                 then throw (ExchangeConnectionError ''cTrader account authorization could not be restored'')
                 else throw e)) (\<lambda>response.
     if account_auth_loss response \<noteq> None
     then throw (ExchangeConnectionError ''cTrader account authorization could not be restored'')
     else ret response)"

definition account_request_raw ::
    "outside \<Rightarrow> (json \<Rightarrow> string) \<Rightarrow> config \<Rightarrow> bool \<Rightarrow> msg \<Rightarrow> msg coro" where
  "account_request_raw E repr_of cfg venue_write req =
     seq (asks (\<lambda>s. (wire_now (base s), generation (base s)))) (\<lambda>(w, seen).
     case w of
       None \<Rightarrow> throw (CTraderConnectionError ''live connection not established'')
     | Some n \<Rightarrow>
         seq (first_send E n venue_write req) (\<lambda>first.
         case first of
           Inl response \<Rightarrow> ret response
         | Inr code \<Rightarrow>
             seq (recover_account_session E repr_of cfg code seen) (\<lambda>_.
             seq (asks (\<lambda>s. wire_now (base s))) (\<lambda>w2.
             case w2 of
               None \<Rightarrow> throw (ExchangeConnectionError ''cTrader live connection not established'')
             | Some n2 \<Rightarrow> second_send E n2 venue_write req))))"

definition or_lost :: "string \<Rightarrow> string" where
  "or_lost m = (if m \<noteq> [] then m else ''connection lost'')"

definition account_request ::
    "outside \<Rightarrow> (json \<Rightarrow> string) \<Rightarrow> config \<Rightarrow> msg \<Rightarrow> msg coro" where
  "account_request E repr_of cfg req =
     catch (retry_default E (account_request_raw E repr_of cfg False req))
       (\<lambda>e. case e of
              CTraderProtocolError code desc r \<Rightarrow>
                (case map_error_code code desc r of
                   ExchangeRateLimitError m t \<Rightarrow> throw (ExchangeRateLimitError m t)
                 | _ \<Rightarrow> throw e)
            | CTraderConnectionError m \<Rightarrow> throw (ExchangeConnectionError (or_lost m))
            | CTraderRequestSentConnectionError m \<Rightarrow> throw (ExchangeConnectionError (or_lost m))
            | CTraderTimeoutError m \<Rightarrow> throw (ExchangeConnectionError (or_lost m))
            | _ \<Rightarrow> throw e)"

end
