(* ===== verification/Account_Properties.thy ===== *)
theory Account_Properties
  imports Account
begin

text \<open>
  Properties of the account layer. \<open>logs P m\<close> says that the coroutine \<open>m\<close> writes only requests that
  satisfy \<open>P\<close>; \<open>keeps\<close> of the prelude carries assertions about the shared state.
\<close>

section \<open>What a coroutine writes\<close>

text \<open>\<open>later P s t\<close>: from \<open>s\<close> to \<open>t\<close> only requests with \<open>P\<close> were written, and neither the clock nor
  the count of suspensions went back.\<close>

definition later :: "(msg \<Rightarrow> bool) \<Rightarrow> run \<Rightarrow> run \<Rightarrow> bool" where
  "later P s t \<longleftrightarrow> now s \<le> now t \<and> waits s \<le> waits t
     \<and> (\<exists>l. sent t = sent s @ l \<and> (\<forall>(u, w, q) \<in> set l. P q))"

definition logs :: "(msg \<Rightarrow> bool) \<Rightarrow> 'a coro \<Rightarrow> bool" where
  "logs P m \<longleftrightarrow> (\<forall>s. later P s (snd (m s)))"

lemma later_refl [simp]: "later P s s"
  by (simp add: later_def)

lemma later_trans: "later P s t \<Longrightarrow> later P t u \<Longrightarrow> later P s u"
  by (auto simp: later_def)

lemma later_deadline [simp]:
  "later P (s\<lparr>deadline := d\<rparr>) t \<longleftrightarrow> later P s t" "later P s (t\<lparr>deadline := d\<rparr>) \<longleftrightarrow> later P s t"
  by (simp_all add: later_def)

lemma later_base [simp]: "later P s (s\<lparr>base := b\<rparr>)"
  by (simp add: later_def)

lemma logsD: "logs P m \<Longrightarrow> m s = (r, t) \<Longrightarrow> later P s t"
  unfolding logs_def by (metis snd_conv)

lemma logs_ret [intro!, simp]: "logs P (ret x)"
  and logs_throw [intro!, simp]: "logs P (throw e)"
  and logs_asks [intro!, simp]: "logs P (asks f)"
  and logs_on_base [intro!, simp]: "logs P (on_base g)"
  by (simp_all add: logs_def on_base_def)

lemma logs_pause [intro!, simp]: "logs P (pause E secs)"
  using pause_now_mono pause_waits by (simp add: logs_def later_def)

lemma logs_suspend [intro!, simp]: "logs P (suspend E)"
  using logs_pause by (simp add: logs_def suspend_def)

lemma logs_seq [intro]:
  assumes "logs P m" and "\<And>x. logs P (f x)"
  shows "logs P (seq m f)"
  unfolding logs_def
proof
  fix s
  obtain r t where m: "m s = (r, t)" by fastforce
  have st: "later P s t" using logsD [OF assms(1) m] .
  show "later P s (snd (seq m f s))"
  proof (cases r)
    case (Inl e)
    with m st show ?thesis by (simp add: seq_def)
  next
    case (Inr x)
    have "later P t (snd (f x t))" using assms(2) [of x] by (simp add: logs_def)
    with m st Inr show ?thesis by (simp add: seq_def later_trans)
  qed
qed

lemma logs_catch [intro]:
  assumes "logs P m" and "\<And>e. logs P (h e)"
  shows "logs P (catch m h)"
  unfolding logs_def
proof
  fix s
  obtain r t where m: "m s = (r, t)" by fastforce
  have st: "later P s t" using logsD [OF assms(1) m] .
  show "later P s (snd (catch m h s))"
  proof (cases r)
    case (Inr x)
    with m st show ?thesis by (simp add: catch_def)
  next
    case (Inl e)
    have "later P t (snd (h e t))" using assms(2) [of e] by (simp add: logs_def)
    with m st Inl show ?thesis by (simp add: catch_def later_trans)
  qed
qed

lemma logs_seq_asks [intro]: "(\<And>s. logs P (f (g s))) \<Longrightarrow> logs P (seq (asks g) f)"
  by (simp add: logs_def)

lemma logs_send [intro]: "P m \<Longrightarrow> logs P (send_request E w gated m)"
  unfolding logs_def
proof
  fix s assume "P m"
  then show "later P s (snd (send_request E w gated m s))"
    using send_request_cases [of E w gated m s "fst (send_request E w gated m s)"
        "snd (send_request E w gated m s)", OF prod.collapse [symmetric]]
    by (elim disjE) (auto simp: later_def)
qed

lemma logs_wait_for [intro]:
  assumes "logs P m" shows "logs P (wait_for d m)"
  unfolding logs_def
proof
  fix s
  have "later P s (snd (m (s\<lparr>deadline := x\<rparr>)))" for x
    using assms unfolding logs_def by (metis later_deadline(1))
  moreover have "later P s (snd (m s))" using assms by (simp add: logs_def)
  ultimately show "later P s (snd (wait_for d m s))"
    by (simp add: wait_for_def Let_def case_prod_unfold split: sum.split option.split)
qed

lemma logs_shield [intro]:
  assumes "logs P m" shows "logs P (shield m)"
  unfolding logs_def
proof
  fix s
  have "later P s (snd (m (s\<lparr>deadline := None\<rparr>)))"
    using assms unfolding logs_def by (metis later_deadline(1))
  moreover have "later P s (u\<lparr>deadline := x, now := max y (now s)\<rparr>)" if "later P s u" for u x y
    using that by (simp add: later_def)
  ultimately show "later P s (snd (shield m s))"
    by (simp add: shield_def case_prod_unfold split: option.split)
qed

lemma logs_retry_loop [intro]: "logs P call \<Longrightarrow> logs P (retry_loop E call dl a left)"
proof (induction left arbitrary: a)
  case 0
  show ?case by (simp only: retry_loop.simps logs_throw)
next
  case (Suc left)
  then show ?case by (auto intro!: logs_catch logs_seq split: exn.split)
qed

lemma logs_retry [intro]: "logs P call \<Longrightarrow> logs P (retry_rate_limited E n budget call)"
  using logs_retry_loop unfolding logs_def retry_rate_limited_def by blast

lemma logs_retry_default [intro]: "logs P call \<Longrightarrow> logs P (retry_default E call)"
  by (simp add: retry_default_def logs_retry)

definition is_handshake :: "msg \<Rightarrow> bool" where
  "is_handshake m \<longleftrightarrow>
     (case m of ProtoOAApplicationAuthReq _ _ \<Rightarrow> True | ProtoOAAccountAuthReq _ _ \<Rightarrow> True
              | ProtoOARefreshTokenReq _ \<Rightarrow> True | _ \<Rightarrow> False)"

lemma is_handshake_simps [simp]:
  "is_handshake (ProtoOAApplicationAuthReq a b)" "is_handshake (ProtoOAAccountAuthReq i t)"
  "is_handshake (ProtoOARefreshTokenReq r)"
  by (simp_all add: is_handshake_def)

lemma logs_app_auth [intro!, simp]: "logs is_handshake (app_auth E cfg w)"
  by (auto simp: app_auth_def split: sum.split prod.split intro!: logs_seq logs_retry_default logs_send)

lemma logs_lift [intro!, simp]: "logs P (lift_result r)"
  by (cases r) (simp_all add: lift_result_def)

lemma logs_adopt [intro!, simp]: "logs P (adopt_rotated_session repr_of cfg)"
  by (auto simp: adopt_rotated_session_def split: option.split intro!: logs_seq)

lemma logs_save [intro!, simp]: "logs P (save_current E cfg)"
  by (simp add: logs_def save_current_def split: prod.split)

lemma logs_refresh [intro!, simp]: "logs is_handshake (refresh_and_persist E repr_of cfg w)"
  by (auto simp: refresh_and_persist_def refresh_task_def refresh_via_socket_def
      split: option.split msg.split intro!: logs_shield logs_seq logs_send)

lemma logs_send_account_auth [intro!, simp]: "logs is_handshake (send_account_auth E w)"
  unfolding send_account_auth_def
  by (intro logs_seq_asks logs_catch logs_seq logs_retry_default logs_send) (auto split: exn.split)

lemma logs_forced_refresh [intro!, simp]: "logs is_handshake (forced_refresh E repr_of cfg w b)"
  unfolding forced_refresh_def
  by (intro logs_catch logs_seq) (auto split: exn.split intro!: logs_seq)

lemma logs_auth_with_fallbacks [intro!, simp]:
  "logs is_handshake (auth_with_fallbacks E repr_of cfg w a b)"
  unfolding auth_with_fallbacks_def
  by (intro logs_catch logs_seq) (auto split: exn.split intro!: logs_seq)

lemma logs_reauth [intro!, simp]: "logs is_handshake (reauth_account E repr_of cfg a b seen)"
  unfolding reauth_account_def
  by (intro logs_seq) (auto split: option.split intro!: logs_seq)

lemma logs_drop [intro!, simp]: "logs P (drop_live_wire E)"
  unfolding drop_live_wire_def
  by (intro logs_seq) (auto split: option.split prod.split intro!: logs_seq)

lemma logs_recover [intro!, simp]: "logs is_handshake (recover_account_session E repr_of cfg code seen)"
  unfolding recover_account_session_def by (intro logs_catch logs_wait_for) (auto intro!: logs_seq)


section \<open>Rate-limit retries\<close>

definition rate_limit_error :: "exn \<Rightarrow> bool" where
  "rate_limit_error e \<longleftrightarrow> (case e of CTraderProtocolError c d r \<Rightarrow> is_rate_limited c | _ \<Rightarrow> False)"

text \<open>A log of sends of one request on one wire: within a time span, and spaced by the backoff that
  starts with attempt \<open>a\<close>.\<close>

definition backoff :: "nat \<Rightarrow> rat" where
  "backoff a = min (RATE_LIMIT_FALLBACK_SECONDS * 2 ^ a) RATE_LIMIT_BACKOFF_CAP_SECONDS"

fun spaced :: "nat \<Rightarrow> rat list \<Rightarrow> bool" where
  "spaced a (t # u # ts) \<longleftrightarrow> t + backoff a \<le> u \<and> spaced (a + 1) (u # ts)"
| "spaced a _ \<longleftrightarrow> True"

definition retry_log :: "nat \<Rightarrow> msg \<Rightarrow> rat \<Rightarrow> rat \<Rightarrow> nat \<Rightarrow> nat \<Rightarrow> (rat \<times> nat \<times> msg) list \<Rightarrow> bool" where
  "retry_log w m from until a n l \<longleftrightarrow>
     length l \<le> n \<and> (\<forall>(t, w', m') \<in> set l. w' = w \<and> m' = m \<and> from \<le> t \<and> t \<le> until)
     \<and> spaced a (map fst l)"

lemma retry_log_Cons:
  assumes "retry_log w m u until (a + 1) n l" "from + backoff a \<le> u" "from \<le> until" "0 \<le> backoff a"
  shows "retry_log w m from until a (Suc n) ((from, w, m) # l)"
proof -
  have "from \<le> u" using assms(2,4) by linarith
  then have "\<forall>(t, w', m') \<in> set l. w' = w \<and> m' = m \<and> from \<le> t \<and> t \<le> until"
    using assms(1) by (auto simp: retry_log_def)
  moreover have "spaced a (from # map fst l)"
  proof (cases l)
    case (Cons x xs)
    with assms(1,2) show ?thesis by (auto simp: retry_log_def)
  qed simp
  ultimately show ?thesis using assms(1,3) by (auto simp: retry_log_def)
qed

lemma retry_delay_backoff: "backoff a \<le> retry_delay a r"
  by (simp add: retry_delay_def backoff_def Let_def)

lemma backoff_nonneg: "0 \<le> backoff a"
  by (simp add: backoff_def RATE_LIMIT_FALLBACK_SECONDS_def RATE_LIMIT_BACKOFF_CAP_SECONDS_def)

lemma pause_cases:
  assumes "pause E secs s = (r, t)"
  shows "sent t = sent s \<and> (r = Inl CancelledError \<or> (r = Inr () \<and> now t = now s + max 0 secs))"
  using assms by (auto simp: pause_def Let_def split: option.splits if_splits)

lemma rate_limit_error_iff:
  "rate_limit_error e \<longleftrightarrow> (\<exists>c d h. e = CTraderProtocolError c d h \<and> is_rate_limited c)"
  by (cases e) (simp_all add: rate_limit_error_def)

definition gave_up :: "rat \<Rightarrow> nat \<Rightarrow> nat \<Rightarrow> (exn + msg) \<Rightarrow> run \<Rightarrow> (rat \<times> nat \<times> msg) list \<Rightarrow> bool" where
  "gave_up dl a n r t l \<longleftrightarrow>
     (\<exists>c d h. r = Inl (CTraderProtocolError c d h) \<and> is_rate_limited c) \<longrightarrow>
       length l = n
       \<or> (\<exists>c d h. r = Inl (CTraderProtocolError c d h) \<and> dl - now t < retry_delay (a + length l - 1) h)"

lemma ungated_send_cases:
  assumes "send_request E w False m s = (q, u)"
  shows "(u = s \<and> q = Inl (CTraderConnectionError ''not connected''))
         \<or> (sent u = sent s @ [(now s, w, m)] \<and> now s \<le> now u
            \<and> (q = Inl CancelledError \<or> q = answer E (waits s) m))"
  using send_request_cases [OF assms] by auto

lemma retry_loop_once:
  assumes "send_request E w False m s = (q, u)"
    and "\<nexists>c d h. q = Inl (CTraderProtocolError c d h) \<and> is_rate_limited c"
  shows "retry_loop E (send_request E w False m) dl a (Suc left) s = (q, u)"
  using assms by (auto simp: catch_def split: sum.splits exn.splits)

lemma retry_loop_again:
  assumes "send_request E w False m s = (Inl (CTraderProtocolError c d h), u)" "is_rate_limited c"
  shows "retry_loop E (send_request E w False m) dl a (Suc left) s =
     (if left = 0 \<or> dl - now u < retry_delay a h then (Inl (CTraderProtocolError c d h), u)
      else seq (pause E (retry_delay a h)) (\<lambda>_. retry_loop E (send_request E w False m) dl (a + 1) left) u)"
  using assms by (simp add: catch_def)

lemma retry_loop_send:
  "retry_loop E (send_request E w False m) dl a left s = (r, t) \<Longrightarrow> now s \<le> dl \<Longrightarrow> 0 < left \<Longrightarrow>
   \<exists>l. sent t = sent s @ l \<and> retry_log w m (now s) dl a left l \<and> gave_up dl a left r t l"
proof (induction left arbitrary: s a)
  case (Suc left)
  obtain q u where first: "send_request E w False m s = (q, u)" by fastforce
  note cases = ungated_send_cases [OF first]
  have log1: "retry_log w m (now s) dl a (Suc left) [(now s, w, m)]"
    using Suc.prems(2) by (simp add: retry_log_def)
  have log0: "retry_log w m (now s) dl a (Suc left) []" by (simp add: retry_log_def)
  show ?case
  proof (cases "\<exists>c d h. q = Inl (CTraderProtocolError c d h) \<and> is_rate_limited c")
    case False
    then have "r = q" "t = u"
      using Suc.prems(1) retry_loop_once [OF first False, of dl a left] by simp_all
    moreover have "gave_up dl a (Suc left) q u l" for l using False unfolding gave_up_def by blast
    ultimately show ?thesis using cases log0 log1 by (elim disjE) auto
  next
    case True
    then obtain c d h where q: "q = Inl (CTraderProtocolError c d h)" and lim: "is_rate_limited c" by blast
    have sent_u: "sent u = sent s @ [(now s, w, m)]" and nu: "now s \<le> now u" using cases q by auto
    note again = retry_loop_again [OF first [unfolded q] lim, of dl a left]
    show ?thesis
    proof (cases "left = 0 \<or> dl - now u < retry_delay a h")
      case stop: True
      then have "r = q" "t = u" using Suc.prems(1) again q by simp_all
      with sent_u log1 stop q show ?thesis
        by (intro exI [of _ "[(now s, w, m)]"]) (auto simp: gave_up_def)
    next
      case go: False
      obtain p v where p: "pause E (retry_delay a h) u = (p, v)" by fastforce
      have nonneg: "0 \<le> retry_delay a h"
        using retry_delay_backoff [of a h] backoff_nonneg [of a] by linarith
      have same: "sent v = sent u" using pause_cases [OF p] by simp
      consider "p = Inl CancelledError" | "p = Inr ()" "now v = now u + retry_delay a h"
        using pause_cases [OF p] nonneg by auto
      then show ?thesis
      proof cases
        case 1
        then have "r = Inl CancelledError" "t = v"
          using Suc.prems(1) again go p by (simp_all add: seq_def)
        with same sent_u log1 show ?thesis
          by (intro exI [of _ "[(now s, w, m)]"]) (simp add: gave_up_def)
      next
        case 2
        then have run: "retry_loop E (send_request E w False m) dl (a + 1) left v = (r, t)"
          using Suc.prems(1) again go p by (simp add: seq_def)
        have "now v \<le> dl" using 2 go by linarith
        moreover have "0 < left" using go by simp
        ultimately obtain l where l: "sent t = sent v @ l" "retry_log w m (now v) dl (a + 1) left l"
          "gave_up dl (a + 1) left r t l" using Suc.IH [OF run] by blast
        have gap: "now s + backoff a \<le> now v" using 2 nu retry_delay_backoff [of a h] by linarith
        have "sent t = sent s @ ((now s, w, m) # l)" using l(1) same sent_u by simp
        moreover have "retry_log w m (now s) dl a (Suc left) ((now s, w, m) # l)"
          by (rule retry_log_Cons [OF l(2) gap Suc.prems(2) backoff_nonneg])
        moreover have "gave_up dl a (Suc left) r t ((now s, w, m) # l)"
        proof -
          have "a + 1 + length l - 1 = a + length ((now s, w, m) # l) - 1" by simp
          with l(3) show ?thesis unfolding gave_up_def by auto
        qed
        ultimately show ?thesis by blast
      qed
    qed
  qed
qed simp

text \<open>
  Bounded retries. A request under \<open>_retry_rate_limited\<close> is written at most \<open>attempts\<close>
  times, only as the same message on the same wire, never later than the budget allows, each time
  at least the geometric backoff (1, 2, 4 ... at most 120 seconds) after the send before; and a rate-limit
  error reaches the caller only when the attempts are used up or when the next wait - never shorter than
  the backoff - would overrun the budget.
\<close>

theorem retry_rate_limited_bounded:
  assumes "retry_rate_limited E attempts budget (send_request E w False m) s = (r, t)"
    and "0 \<le> budget" and "0 < attempts"
  shows "\<exists>l. sent t = sent s @ l \<and> retry_log w m (now s) (now s + budget) 0 attempts l
             \<and> gave_up (now s + budget) 0 attempts r t l"
  using retry_loop_send [OF assms(1) [unfolded retry_rate_limited_def]] assms(2,3) by simp

definition demo_tokens :: token_set where
  "demo_tokens = \<lparr>access_token = ''at'', refresh_token = ''rt'', token_type = ''bearer'', expires_in = 0\<rparr>"

definition demo_base :: base where
  "demo_base = \<lparr>tokens = demo_tokens, session_pair = (''at'', ''rt''), wire_now = Some 1, up = (\<lambda>_. True),
     live_account = Some 7, generation = 0, store = Map.empty, identity = []\<rparr>"

definition demo_run :: run where
  "demo_run = \<lparr>base = demo_base, now = 100, deadline = None, waits = 0, sent = []\<rparr>"

definition demo_outside :: "(nat \<Rightarrow> msg \<Rightarrow> exn + msg) \<Rightarrow> outside" where
  "demo_outside ans = \<lparr>answer = ans, latency = (\<lambda>_. 1), meanwhile = (\<lambda>_ b. b), gate = (\<lambda>_. None),
     lock_error = (\<lambda>_. None), save_fault = (\<lambda>_. NoFault), tmp_name = (\<lambda>_. ''t.tmp'')\<rparr>"

lemma retry_rate_limited_bounded_witness:
  "\<exists>r t l. retry_rate_limited
      (demo_outside (\<lambda>k q. Inl (CTraderProtocolError ''BLOCKED_PAYLOAD_TYPE'' [] None)))
      3 60 (send_request (demo_outside (\<lambda>k q. Inl (CTraderProtocolError ''BLOCKED_PAYLOAD_TYPE'' [] None)))
              1 False (ProtoOATraderReq 7)) demo_run = (r, t)
     \<and> sent t = l \<and> retry_log 1 (ProtoOATraderReq 7) 100 160 0 3 l"
proof -
  let ?E = "demo_outside (\<lambda>k q. Inl (CTraderProtocolError ''BLOCKED_PAYLOAD_TYPE'' [] None))"
  obtain r t where run: "retry_rate_limited ?E 3 60 (send_request ?E 1 False (ProtoOATraderReq 7)) demo_run = (r, t)"
    by fastforce
  have "now demo_run = 100" "sent demo_run = []" by (simp_all add: demo_run_def)
  with retry_rate_limited_bounded [OF run] run show ?thesis by auto
qed


section \<open>Account requests\<close>

definition lost_answer :: "exn + msg \<Rightarrow> bool" where
  "lost_answer a \<longleftrightarrow>
     (case a of Inl e \<Rightarrow> loss_code e \<noteq> None | Inr m \<Rightarrow> account_auth_loss m \<noteq> None)"

definition sends_of :: "msg \<Rightarrow> (rat \<times> nat \<times> msg) list \<Rightarrow> nat" where
  "sends_of req l = length (filter (\<lambda>(u, w, q). q = req) l)"

lemma sends_of_append [simp]: "sends_of req (l @ l') = sends_of req l + sends_of req l'"
  by (simp add: sends_of_def)

lemma sends_of_Nil [simp]: "sends_of req [] = 0"
  by (simp add: sends_of_def)

lemma sends_of_Cons [simp]:
  "sends_of req ((u, w, q) # l) = (if q = req then Suc (sends_of req l) else sends_of req l)"
  by (simp add: sends_of_def)

lemma sends_of_handshake: "\<not> is_handshake req \<Longrightarrow> \<forall>(u, w, q) \<in> set l. is_handshake q \<Longrightarrow> sends_of req l = 0"
  by (auto simp: sends_of_def filter_empty_conv)

lemma account_auth_loss_code:
  "account_auth_loss m = Some e \<Longrightarrow> \<exists>code d. e = CTraderProtocolError code d None \<and> loss_code e = Some code"
  by (auto simp: account_auth_loss_def loss_code_def Let_def split: msg.splits if_splits)

lemma first_send_cases:
  assumes "first_send E w vw req s = (r, t)"
  shows "(t = s \<and> (\<exists>e. r = Inl e \<and> loss_code e = None) \<or> t = s \<and> vw \<and> gate E (waits s) \<noteq> None \<and> (\<exists>c. r = Inr (Inr c)))
   \<or> (sent t = sent s @ [(now s, w, req)] \<and> waits t = Suc (waits s) \<and> (vw \<longrightarrow> gate E (waits s) = None)
      \<and> ((\<exists>e. r = Inl e \<and> loss_code e = None)
         \<or> (\<exists>m. r = Inr (Inl m) \<and> account_auth_loss m = None)
         \<or> (\<exists>c. r = Inr (Inr c) \<and> lost_answer (answer E (waits s) req))))"
proof -
  obtain q u where q: "send_request E w vw req s = (q, u)" by fastforce
  have run: "(r, t) = (case q of
       Inl e \<Rightarrow> (case loss_code e of None \<Rightarrow> (Inl e, u) | Some c \<Rightarrow> (Inr (Inr c), u))
     | Inr m \<Rightarrow> (case account_auth_loss m of None \<Rightarrow> (Inr (Inl m), u)
                | Some (CTraderProtocolError c d h) \<Rightarrow> (Inr (Inr c), u) | Some _ \<Rightarrow> (Inr (Inl m), u)))"
    using assms q by (auto simp: first_send_def seq_def catch_def split: sum.splits option.splits exn.splits)
  have canc: "loss_code CancelledError = None" "\<And>x. loss_code (CTraderConnectionError x) = None"
    by (simp_all add: loss_code_def)
  from send_request_cases [OF q] run canc show ?thesis
    by (elim disjE conjE exE)
      (auto simp: lost_answer_def split: sum.splits option.splits dest!: account_auth_loss_code)
qed


definition gate_ok :: "outside \<Rightarrow> bool" where
  "gate_ok E \<longleftrightarrow> (\<forall>k. case gate E k of None \<Rightarrow> True | Some e \<Rightarrow> loss_code e = None)"

lemma loss_code_simps [simp]:
  "loss_code (CTraderConnectionError m) = None" "loss_code CancelledError = None"
  "loss_code (ExchangeConnectionError m) = None"
  by (simp_all add: loss_code_def)

lemma first_send_ok:
  assumes "first_send E w vw req s = (r, t)" and "gate_ok E"
  shows "(t = s \<and> (\<exists>e. r = Inl e \<and> loss_code e = None))
   \<or> (sent t = sent s @ [(now s, w, req)] \<and> waits t = Suc (waits s) \<and> (vw \<longrightarrow> gate E (waits s) = None)
      \<and> ((\<exists>e. r = Inl e \<and> loss_code e = None)
         \<or> (\<exists>m. r = Inr (Inl m) \<and> account_auth_loss m = None)
         \<or> (\<exists>c. r = Inr (Inr c) \<and> lost_answer (answer E (waits s) req))))"
proof -
  have no: False if c: "r = Inr (Inr c)" and g: "vw" "gate E (waits s) = Some e" for c e
  proof (cases "up (base s) w")
    case True
    with g have "send_request E w vw req s = (Inl e, s)" by (simp add: send_request_def)
    moreover have "loss_code e = None"
    proof -
      have "case gate E (waits s) of None \<Rightarrow> True | Some e \<Rightarrow> loss_code e = None"
        using assms(2) unfolding gate_ok_def by (rule spec)
      with g(2) show ?thesis by simp
    qed
    ultimately show False using assms(1) c by (simp add: first_send_def seq_def catch_def)
  next
    case False
    then have "send_request E w vw req s = (Inl (CTraderConnectionError ''not connected''), s)"
      by (simp add: send_request_def)
    then show False using assms(1) c by (simp add: first_send_def seq_def catch_def)
  qed
  from first_send_cases [OF assms(1)] show ?thesis
  proof (elim disjE)
    assume "t = s \<and> vw \<and> gate E (waits s) \<noteq> None \<and> (\<exists>c. r = Inr (Inr c))"
    then obtain c e where "r = Inr (Inr c)" "vw" "gate E (waits s) = Some e" by blast
    then have False by (rule no)
    then show ?thesis ..
  next
    assume "t = s \<and> (\<exists>e. r = Inl e \<and> loss_code e = None)"
    then show ?thesis by (rule disjI1)
  next
    assume "sent t = sent s @ [(now s, w, req)] \<and> waits t = Suc (waits s) \<and> (vw \<longrightarrow> gate E (waits s) = None)
      \<and> ((\<exists>e. r = Inl e \<and> loss_code e = None)
         \<or> (\<exists>m. r = Inr (Inl m) \<and> account_auth_loss m = None)
         \<or> (\<exists>c. r = Inr (Inr c) \<and> lost_answer (answer E (waits s) req)))"
    then show ?thesis by (rule disjI2)
  qed
qed

lemma second_send_cases:
  assumes "second_send E w vw req s = (r, t)"
  shows "(t = s \<or> (sent t = sent s @ [(now s, w, req)] \<and> (vw \<longrightarrow> gate E (waits s) = None)))
     \<and> (\<forall>m. r = Inr m \<longrightarrow> account_auth_loss m = None) \<and> (\<forall>e. r = Inl e \<longrightarrow> loss_code e = None)"
proof -
  obtain q u where q: "send_request E w vw req s = (q, u)" by fastforce
  have run: "(r, t) = (case q of
       Inl e \<Rightarrow> (Inl (if loss_code e \<noteq> None
                      then ExchangeConnectionError ''cTrader account authorization could not be restored'' else e), u)
     | Inr m \<Rightarrow> (if account_auth_loss m \<noteq> None
                then (Inl (ExchangeConnectionError ''cTrader account authorization could not be restored''), u)
                else (Inr m, u)))"
    using assms q by (auto simp: second_send_def seq_def catch_def split: sum.splits if_splits)
  have "u = s \<or> (sent u = sent s @ [(now s, w, req)] \<and> (vw \<longrightarrow> gate E (waits s) = None))"
    using send_request_cases [OF q] by auto
  with run show ?thesis by (auto split: sum.splits if_splits)
qed

lemma drop_live_wire_exn:
  assumes "drop_live_wire E s = (Inl e, t)" shows "e = CancelledError"
proof -
  obtain u where "suspend E u = (Inl e, t)"
    using assms by (auto simp: drop_live_wire_def on_base_def split: option.splits if_splits)
  then show ?thesis unfolding suspend_def by (auto dest: pause_cases)
qed

lemma wire_failure_kinds:
  "is_protocol_error e \<or> is_connection_error e \<or> is_timeout_error e \<or> e = AsyncTimeoutError \<Longrightarrow>
   \<not> (is_protocol_error e' \<or> is_connection_error e' \<or> is_timeout_error e' \<or> e' = AsyncTimeoutError) \<Longrightarrow>
   e \<noteq> e'"
  by auto

lemma recover_exn:
  assumes "recover_account_session E repr_of cfg code seen s = (Inl e, t)"
  shows "\<not> is_protocol_error e \<and> \<not> is_connection_error e \<and> \<not> is_timeout_error e \<and> e \<noteq> AsyncTimeoutError"
proof -
  let ?wire = "\<lambda>e. is_protocol_error e \<or> is_connection_error e \<or> is_timeout_error e \<or> e = AsyncTimeoutError"
  let ?m = "wait_for REAUTH_TIMEOUT
      (reauth_account E repr_of cfg (is_token_invalid code) (is_client_auth_lost code) (Some seen))"
  let ?lost = "ExchangeConnectionError ''cTrader account authorization was lost and could not be restored''"
  obtain q u where q: "?m s = (q, u)" by fastforce
  have benign: "\<not> ?wire CancelledError" "\<not> ?wire ?lost"
    by (simp_all add: is_protocol_error_def is_connection_error_def is_timeout_error_def)
  show ?thesis
  proof (cases q)
    case (Inr x)
    with assms q show ?thesis by (simp add: recover_account_session_def catch_def)
  next
    case (Inl e0)
    show ?thesis
    proof (cases "?wire e0")
      case False
      with assms q Inl have "e = e0" by (auto simp: recover_account_session_def catch_def)
      with False show ?thesis by simp
    next
      case True
      obtain d v where d: "drop_live_wire E u = (d, v)" by fastforce
      have "e = CancelledError \<or> e = ?lost"
        using assms q Inl True d drop_live_wire_exn
        by (auto simp: recover_account_session_def catch_def seq_def split: sum.splits)
      with benign show ?thesis by auto
    qed
  qed
qed

lemma not_protocol_no_loss: "\<not> is_protocol_error e \<Longrightarrow> loss_code e = None"
  by (auto simp: loss_code_def is_protocol_error_def split: exn.splits)

lemma account_request_raw_sends:
  assumes run: "account_request_raw E repr_of cfg vw req s = (r, t)"
    and req: "\<not> is_handshake req" and gate: "gate_ok E"
  shows "\<exists>l. sent t = sent s @ l \<and> sends_of req l \<le> 2
     \<and> (sends_of req l = 2 \<longrightarrow> lost_answer (answer E (waits s) req))
     \<and> (vw \<and> (\<forall>k \<ge> waits s. gate E k \<noteq> None) \<longrightarrow> sends_of req l = 0)
     \<and> (vw \<and> (\<forall>k > waits s. gate E k \<noteq> None) \<longrightarrow> sends_of req l \<le> 1)
     \<and> (\<forall>m. r = Inr m \<longrightarrow> account_auth_loss m = None) \<and> (\<forall>e. r = Inl e \<longrightarrow> loss_code e = None)"
proof (cases "wire_now (base s)")
  case None
  with run have "t = s" "r = Inl (CTraderConnectionError ''live connection not established'')"
    by (simp_all add: account_request_raw_def)
  then show ?thesis by simp
next
  case (Some n)
  obtain q u where first: "first_send E n vw req s = (q, u)" by fastforce
  note fc = first_send_ok [OF first gate]
  show ?thesis
  proof (cases "\<exists>c. q = Inr (Inr c)")
    case False
    then have "t = u" and r: "(\<exists>e. q = Inl e \<and> r = Inl e) \<or> (\<exists>m. q = Inr (Inl m) \<and> r = Inr m)"
      using run first Some by (auto simp: account_request_raw_def seq_def split: sum.splits)
    with fc show ?thesis by (elim disjE conjE exE) auto
  next
    case True
    then obtain c where c: "q = Inr (Inr c)" by blast
    then have u: "sent u = sent s @ [(now s, n, req)]" "waits u = Suc (waits s)"
      "vw \<longrightarrow> gate E (waits s) = None" "lost_answer (answer E (waits s) req)"
      using fc by auto
    define seen where "seen = generation (base s)"
    obtain p v where p: "recover_account_session E repr_of cfg c seen u = (p, v)" by fastforce
    have lv: "later is_handshake u v" by (rule logsD [OF logs_recover p])
    obtain h where h: "sent v = sent u @ h" "sends_of req h = 0" "waits u \<le> waits v"
      using lv sends_of_handshake [OF req] by (auto simp: later_def)
    have rest: "(r, t) = (case p of Inl e \<Rightarrow> (Inl e, v)
         | Inr _ \<Rightarrow> (case wire_now (base v) of
               None \<Rightarrow> (Inl (ExchangeConnectionError ''cTrader live connection not established''), v)
             | Some n2 \<Rightarrow> second_send E n2 vw req v))"
      using run first Some c p
      by (auto simp: account_request_raw_def seq_def seen_def split: sum.splits option.splits)
    have sv: "sent v = sent s @ ([(now s, n, req)] @ h)" using u(1) h(1) by simp
    have one: "sends_of req ([(now s, n, req)] @ h) = 1" using h(2) by simp
    show ?thesis
    proof (cases "(\<exists>e. p = Inl e) \<or> wire_now (base v) = None")
      case True
      have "\<not> is_protocol_error e" if "p = Inl e" for e using recover_exn [of E repr_of cfg c seen u e v] p that by simp
      with rest True have tv: "t = v" and r: "\<exists>e. r = Inl e \<and> loss_code e = None"
        by (auto split: sum.splits option.splits intro: not_protocol_no_loss)
      show ?thesis
        using tv sv one r u(3,4)
        by (intro exI [of _ "[(now s, n, req)] @ h"]) auto
    next
      case False
      then obtain n2 x where n2: "wire_now (base v) = Some n2" "p = Inr x" by (cases p) auto
      with rest have second: "second_send E n2 vw req v = (r, t)" by simp
      note sc = second_send_cases [OF second]
      have st: "sent t = sent v \<or> sent t = sent v @ [(now v, n2, req)] \<and> (vw \<longrightarrow> gate E (waits v) = None)"
        using sc by auto
      have wv: "waits s < waits v" using u(2) h(3) by simp
      from st show ?thesis
      proof
        assume "sent t = sent v"
        with sv one sc u(3,4) show ?thesis by (intro exI [of _ "[(now s, n, req)] @ h"]) auto
      next
        assume two: "sent t = sent v @ [(now v, n2, req)] \<and> (vw \<longrightarrow> gate E (waits v) = None)"
        then have "sent t = sent s @ ([(now s, n, req)] @ h @ [(now v, n2, req)])" using sv by simp
        moreover have "sends_of req ([(now s, n, req)] @ h @ [(now v, n2, req)]) = 2" using h(2) by simp
        moreover have "\<not> (\<forall>k > waits s. gate E k \<noteq> None)" if vw using two wv that by auto
        moreover have "\<not> (\<forall>k \<ge> waits s. gate E k \<noteq> None)" if vw using u(3) that by auto
        ultimately show ?thesis using sc u(4) by (metis order_refl)
      qed
    qed
  qed
qed

text \<open>
  C16: Account requests. Whatever the venue answers and whatever other tasks do meanwhile,
  \<open>_account_request_raw\<close> writes its request at most twice, and a second time only when the first send was
  answered or rejected with a lost account session; an order write is never written while the
  write gate is latched - latched from the start: not at all; latched after the first send: not
  again; and neither the response it returns nor the exception it raises is ever a lost session.
\<close>

theorem account_request_at_most_twice:
  assumes "account_request_raw E repr_of cfg vw req s = (r, t)"
    and "\<not> is_handshake req" and "gate_ok E"
  shows "\<exists>l. sent t = sent s @ l \<and> sends_of req l \<le> 2
     \<and> (sends_of req l = 2 \<longrightarrow> lost_answer (answer E (waits s) req))
     \<and> (vw \<and> (\<forall>k \<ge> waits s. gate E k \<noteq> None) \<longrightarrow> sends_of req l = 0)
     \<and> (vw \<and> (\<forall>k > waits s. gate E k \<noteq> None) \<longrightarrow> sends_of req l \<le> 1)
     \<and> (\<forall>m. r = Inr m \<longrightarrow> account_auth_loss m = None) \<and> (\<forall>e. r = Inl e \<longrightarrow> loss_code e = None)"
  by (rule account_request_raw_sends [OF assms])

definition demo_config :: config where
  "demo_config = \<lparr>client_id = ''id'', client_secret = ''s'', demo = True, broker_title = None,
     account_selector = None\<rparr>"

definition demo_lossy :: outside where
  "demo_lossy = demo_outside (\<lambda>k q. if k = 0 then Inl (CTraderProtocolError ''ACCOUNT_NOT_AUTHORIZED'' [] None)
                                   else Inr (ProtoOAOther 1 []))"

lemma account_request_at_most_twice_witness:
  "\<exists>r t l. account_request_raw demo_lossy (\<lambda>_. []) demo_config True (ProtoOACancelOrderReq 7 5) demo_run = (r, t)
     \<and> sent t = l \<and> sends_of (ProtoOACancelOrderReq 7 5) l \<le> 2"
proof -
  obtain r t where run: "account_request_raw demo_lossy (\<lambda>_. []) demo_config True
      (ProtoOACancelOrderReq 7 5) demo_run = (r, t)" by fastforce
  have "\<not> is_handshake (ProtoOACancelOrderReq 7 5)" "gate_ok demo_lossy" "sent demo_run = []"
    by (simp_all add: is_handshake_def gate_ok_def demo_lossy_def demo_outside_def demo_run_def)
  with account_request_at_most_twice [OF run] run show ?thesis by auto
qed

end
