(* ===== verification/Recovery.thy ===== *)
theory Recovery
  imports Account_Properties
begin

text \<open>
  Properties of the recovery of a lost account session and of the shared token pair: the time bound of
  the recovery, single flight, what a refresh leaves on disk under cancellation, and several processes
  that refresh over one session file.
\<close>

section \<open>Deadlines\<close>

definition timely :: "'a coro \<Rightarrow> bool" where
  "timely m \<longleftrightarrow>
     (\<forall>s d. deadline s = Some d \<and> now s \<le> d \<longrightarrow>
        now (snd (m s)) \<le> d \<and> deadline (snd (m s)) = Some d)"

lemma timelyD: "timely m \<Longrightarrow> m s = (r, t) \<Longrightarrow> deadline s = Some d \<Longrightarrow> now s \<le> d \<Longrightarrow>
  now t \<le> d \<and> deadline t = Some d"
  unfolding timely_def by (metis snd_conv)

lemma timely_ret [intro!, simp]: "timely (ret x)"
  and timely_throw [intro!, simp]: "timely (throw e)"
  and timely_asks [intro!, simp]: "timely (asks f)"
  and timely_on_base [intro!, simp]: "timely (on_base g)"
  by (simp_all add: timely_def on_base_def)

lemma timely_pause [intro!, simp]: "timely (pause E secs)"
  by (auto simp: timely_def pause_def Let_def)

lemma timely_suspend [intro!, simp]: "timely (suspend E)"
  using timely_pause by (simp add: timely_def suspend_def)

lemma timely_seq [intro]:
  assumes "timely m" and "\<And>x. timely (f x)"
  shows "timely (seq m f)"
  unfolding timely_def
proof (intro allI impI)
  fix s :: run and d assume s: "deadline s = Some d \<and> now s \<le> d"
  obtain r t where m: "m s = (r, t)" by fastforce
  have t: "now t \<le> d \<and> deadline t = Some d" using timelyD [OF assms(1) m] s by blast
  show "now (snd (seq m f s)) \<le> d \<and> deadline (snd (seq m f s)) = Some d"
  proof (cases r)
    case (Inl e)
    with m t show ?thesis by (simp add: seq_def)
  next
    case (Inr x)
    have "now (snd (f x t)) \<le> d \<and> deadline (snd (f x t)) = Some d"
      using assms(2) [of x] t unfolding timely_def by blast
    with m Inr show ?thesis by (simp add: seq_def)
  qed
qed

lemma timely_catch [intro]:
  assumes "timely m" and "\<And>e. timely (h e)"
  shows "timely (catch m h)"
  unfolding timely_def
proof (intro allI impI)
  fix s :: run and d assume s: "deadline s = Some d \<and> now s \<le> d"
  obtain r t where m: "m s = (r, t)" by fastforce
  have t: "now t \<le> d \<and> deadline t = Some d" using timelyD [OF assms(1) m] s by blast
  show "now (snd (catch m h s)) \<le> d \<and> deadline (snd (catch m h s)) = Some d"
  proof (cases r)
    case (Inr x)
    with m t show ?thesis by (simp add: catch_def)
  next
    case (Inl e)
    have "now (snd (h e t)) \<le> d \<and> deadline (snd (h e t)) = Some d"
      using assms(2) [of e] t unfolding timely_def by blast
    with m Inl show ?thesis by (simp add: catch_def)
  qed
qed

lemma timely_send [intro!, simp]: "timely (send_request E w gated m)"
  unfolding timely_def
proof (intro allI impI)
  fix s :: run and d assume s: "deadline s = Some d \<and> now s \<le> d"
  let ?s1 = "s\<lparr>sent := sent s @ [(now s, w, m)]\<rparr>"
  obtain q u where su: "suspend E ?s1 = (q, u)" by fastforce
  have "now u \<le> d \<and> deadline u = Some d" using timelyD [OF timely_suspend su] s by simp
  with s su show "now (snd (send_request E w gated m s)) \<le> d
      \<and> deadline (snd (send_request E w gated m s)) = Some d"
    by (auto simp: send_request_def seq_def modify_def split: option.split sum.split prod.split)
qed

lemma timely_shield [intro!, simp]: "timely (shield m)"
  by (auto simp: timely_def shield_def split: prod.split option.split)

lemma timely_retry_loop [intro]: "timely call \<Longrightarrow> timely (retry_loop E call dl a left)"
proof (induction left arbitrary: a)
  case 0
  show ?case by (simp only: retry_loop.simps timely_throw)
next
  case (Suc left)
  then show ?case by (auto intro!: timely_catch timely_seq split: exn.split)
qed

lemma timely_retry_default [intro]: "timely call \<Longrightarrow> timely (retry_default E call)"
  using timely_retry_loop unfolding timely_def retry_default_def retry_rate_limited_def by blast

lemma timely_app_auth [intro!, simp]: "timely (app_auth E cfg w)"
  unfolding app_auth_def by (auto intro!: timely_seq timely_retry_default split: sum.split prod.split)

lemma timely_refresh [intro!, simp]: "timely (refresh_and_persist E repr_of cfg w)"
  by (simp add: refresh_and_persist_def)

lemma timely_send_account_auth [intro!, simp]: "timely (send_account_auth E w)"
  unfolding send_account_auth_def
  by (auto intro!: timely_seq timely_catch timely_retry_default split: exn.split)

lemma timely_reauth [intro!, simp]: "timely (reauth_account E repr_of cfg a b seen)"
  unfolding reauth_account_def forced_refresh_def auth_with_fallbacks_def
  by (intro timely_seq) (auto intro!: timely_seq timely_catch split: option.split exn.split)

lemma wait_for_bounded:
  assumes "timely m" "wait_for secs m s = (r, t)" "0 \<le> secs"
    and "\<forall>d. deadline s = Some d \<longrightarrow> now s \<le> d"
  shows "now t \<le> now s + secs \<and> deadline t = deadline s"
proof (cases "case deadline s of None \<Rightarrow> True | Some outer \<Rightarrow> now s + secs < outer")
  case True
  obtain q u where q: "m (s\<lparr>deadline := Some (now s + secs)\<rparr>) = (q, u)" by fastforce
  have "now u \<le> now s + secs" using timelyD [OF assms(1) q] assms(3) by simp
  with q True assms(2) show ?thesis by (auto simp: wait_for_def Let_def split: sum.splits)
next
  case False
  then obtain d where d: "deadline s = Some d" "d \<le> now s + secs" by (auto split: option.splits)
  with False assms(2) have "m s = (r, t)" by (auto simp: wait_for_def Let_def)
  from timelyD [OF assms(1) this d(1)] assms(4) d show ?thesis by auto
qed

section \<open>The recovery\<close>

definition wire_failure :: "exn \<Rightarrow> bool" where
  "wire_failure e \<longleftrightarrow> is_protocol_error e \<or> is_connection_error e \<or> is_timeout_error e \<or> e = AsyncTimeoutError"

definition live_wire_down :: "base \<Rightarrow> bool" where
  "live_wire_down b \<longleftrightarrow> (case wire_now b of None \<Rightarrow> True | Some n \<Rightarrow> \<not> up b n)"

lemma drop_live_wire_down:
  assumes "drop_live_wire E u = (r, t)"
  shows "\<exists>b k. live_wire_down b \<and> (base t = b \<or> base t = meanwhile E k b)"
proof (cases "wire_now (base u)")
  case None
  with assms have "t = u" by (simp add: drop_live_wire_def)
  with None show ?thesis by (intro exI [of _ "base u"]) (simp add: live_wire_down_def)
next
  case (Some n)
  show ?thesis
  proof (cases "up (base u) n")
    case False
    with Some assms have "t = u" by (simp add: drop_live_wire_def)
    with Some False show ?thesis by (intro exI [of _ "base u"]) (simp add: live_wire_down_def)
  next
    case True
    let ?b = "(base u)\<lparr>up := (up (base u))(n := False)\<rparr>"
    have "suspend E (u\<lparr>base := ?b\<rparr>) = (r, t)"
      using Some True assms by (simp add: drop_live_wire_def on_base_def)
    then have "base t = meanwhile E (waits u) ?b"
      by (auto simp: suspend_def pause_def Let_def split: option.splits if_splits)
    then show ?thesis using Some
      by (intro exI [of _ ?b] exI [of _ "waits u"]) (simp add: live_wire_down_def)
  qed
qed




section \<open>Single flight\<close>

text \<open>Nobody else re-authorises while the lock is held: the other tasks keep the generation.\<close>

definition keeps_generation :: "outside \<Rightarrow> bool" where
  "keeps_generation E \<longleftrightarrow> (\<forall>k b. generation (meanwhile E k b) = generation b)"

definition gen_is :: "int \<Rightarrow> run \<Rightarrow> bool" where
  "gen_is g s \<longleftrightarrow> generation (base s) = g"

lemma gen_pause [intro]: "keeps_generation E \<Longrightarrow> keeps (gen_is g) (pause E secs)"
  by (auto simp: keeps_def gen_is_def pause_def Let_def keeps_generation_def split: option.split)

lemma gen_suspend [intro]: "keeps_generation E \<Longrightarrow> keeps (gen_is g) (suspend E)"
  using gen_pause by (simp add: keeps_def suspend_def)

lemma gen_send [intro]: "keeps_generation E \<Longrightarrow> keeps (gen_is g) (send_request E w gated m)"
proof (rule keepsI)
  fix s assume E: "keeps_generation E" and s: "gen_is g s"
  have "base (snd (send_request E w gated m s)) = base s
        \<or> base (snd (send_request E w gated m s)) = meanwhile E (waits s) (base s)"
    using send_request_cases [of E w gated m s "fst (send_request E w gated m s)"
        "snd (send_request E w gated m s)", OF prod.collapse [symmetric]] by auto
  with E s show "gen_is g (snd (send_request E w gated m s))"
    by (auto simp: gen_is_def keeps_generation_def)
qed

lemma gen_on_base [intro]: "(\<And>b. generation (f b) = generation b) \<Longrightarrow> keeps (gen_is g) (on_base f)"
  by (simp add: keeps_def gen_is_def on_base_def)

lemma gen_retry_loop [intro]:
  "keeps_generation E \<Longrightarrow> keeps (gen_is g) call \<Longrightarrow> keeps (gen_is g) (retry_loop E call dl a left)"
proof (induction left arbitrary: a)
  case 0
  show ?case by (simp only: retry_loop.simps keeps_throw)
next
  case (Suc left)
  then show ?case by (auto intro!: keeps_catch keeps_seq gen_pause split: exn.split)
qed

lemma gen_retry_default [intro]:
  "keeps_generation E \<Longrightarrow> keeps (gen_is g) call \<Longrightarrow> keeps (gen_is g) (retry_default E call)"
  using gen_retry_loop unfolding keeps_def retry_default_def retry_rate_limited_def by blast

lemma gen_shield [intro]:
  assumes "keeps (gen_is g) m" shows "keeps (gen_is g) (shield m)"
proof (rule keepsI)
  fix s assume "gen_is g s"
  then have "gen_is g (s\<lparr>deadline := None\<rparr>)" by (simp add: gen_is_def)
  with assms have "gen_is g (snd (m (s\<lparr>deadline := None\<rparr>)))" by (rule keepsD)
  then show "gen_is g (snd (shield m s))"
    by (auto simp: shield_def gen_is_def split: prod.split option.split)
qed

lemma gen_app_auth [intro]: "keeps_generation E \<Longrightarrow> keeps (gen_is g) (app_auth E cfg w)"
  unfolding app_auth_def
  by (auto intro!: keeps_seq gen_retry_default gen_send split: sum.split prod.split)

lemma gen_save [intro!, simp]: "keeps (gen_is g) (save_current E cfg)"
  by (auto simp: keeps_def gen_is_def save_current_def split: prod.split)

lemma gen_lift [intro!, simp]: "keeps I (lift_result r)"
  by (cases r) (simp_all add: lift_result_def)

lemma gen_adopt [intro!, simp]: "keeps (gen_is g) (adopt_rotated_session repr_of cfg)"
  unfolding adopt_rotated_session_def
  by (auto intro!: keeps_seq gen_on_base split: option.split)

lemma gen_refresh [intro]: "keeps_generation E \<Longrightarrow> keeps (gen_is g) (refresh_and_persist E repr_of cfg w)"
  unfolding refresh_and_persist_def refresh_task_def refresh_via_socket_def
  by (auto intro!: gen_shield keeps_seq gen_suspend gen_send gen_on_base split: option.split msg.split)

lemma gen_send_account_auth [intro]: "keeps_generation E \<Longrightarrow> keeps (gen_is g) (send_account_auth E w)"
  unfolding send_account_auth_def
  by (auto intro!: keeps_seq keeps_catch gen_retry_default gen_send split: exn.split)

lemma gen_forced [intro]: "keeps_generation E \<Longrightarrow> keeps (gen_is g) (forced_refresh E repr_of cfg w a)"
  unfolding forced_refresh_def
  by (auto intro!: keeps_seq keeps_catch gen_refresh gen_app_auth split: exn.split)

lemma gen_fallbacks [intro]:
  "keeps_generation E \<Longrightarrow> keeps (gen_is g) (auth_with_fallbacks E repr_of cfg w a b)"
  unfolding auth_with_fallbacks_def
  by (auto intro!: keeps_seq keeps_catch gen_refresh gen_app_auth gen_send_account_auth split: exn.split)

text \<open>The part of \<open>reauth_account\<close> after its lock and checks; only its last step moves the generation.\<close>

definition reauth_body ::
    "outside \<Rightarrow> (json \<Rightarrow> string) \<Rightarrow> config \<Rightarrow> nat \<Rightarrow> bool \<Rightarrow> bool \<Rightarrow> unit coro" where
  "reauth_body E repr_of cfg w force_refresh reauth_app =
     seq (if reauth_app then app_auth E cfg w else ret ()) (\<lambda>_.
     seq (asks (\<lambda>s. refresh_token (tokens (base s)))) (\<lambda>rt.
     seq (if force_refresh \<and> rt \<noteq> [] then forced_refresh E repr_of cfg w reauth_app
          else ret reauth_app) (\<lambda>app_done.
     auth_with_fallbacks E repr_of cfg w force_refresh app_done)))"

lemma gen_reauth_body [intro]: "keeps_generation E \<Longrightarrow> keeps (gen_is g) (reauth_body E repr_of cfg w a b)"
  unfolding reauth_body_def
  by (intro keeps_seq keeps_if gen_app_auth keeps_ret keeps_asks gen_forced gen_fallbacks)

lemma seq_assoc: "seq (seq m f) h = seq m (\<lambda>x. seq (f x) h)"
  by (rule ext) (auto simp: seq_def split: prod.split sum.split)

lemma reauth_account_run:
  "reauth_account E repr_of cfg a b seen =
     seq (suspend E) (\<lambda>_. seq (asks base) (\<lambda>c.
       if seen \<noteq> None \<and> seen \<noteq> Some (generation c) then ret ()
       else case (wire_now c, live_account c) of
              (Some w, Some _) \<Rightarrow>
                seq (reauth_body E repr_of cfg w a b) (\<lambda>_.
                on_base (\<lambda>b. b\<lparr>generation := generation b + 1\<rparr>))
            | _ \<Rightarrow> throw (CTraderConnectionError ''live connection not established'')))"
  by (unfold reauth_account_def reauth_body_def seq_assoc) (rule refl)

lemma suspend_result: "suspend E s = (r, t) \<Longrightarrow> r = Inr () \<or> r = Inl CancelledError"
  by (auto simp: suspend_def dest!: pause_cases)

lemma reauth_generation:
  assumes E: "keeps_generation E" and run: "reauth_account E repr_of cfg a b (Some g) s = (r, t)"
    and g: "generation (base s) = g"
  shows "generation (base t) = (if r = Inr () then g + 1 else g)"
proof -
  obtain q u where su: "suspend E s = (q, u)" by fastforce
  have gu: "gen_is g u"
    using keepsD [OF gen_suspend [OF E, of g], of s] g su by (simp add: gen_is_def)
  show ?thesis
  proof (cases q)
    case (Inl e)
    with run su gu show ?thesis by (auto simp: reauth_account_run seq_def gen_is_def)
  next
    case (Inr x)
    show ?thesis
    proof (cases "\<exists>w c. wire_now (base u) = Some w \<and> live_account (base u) = Some c")
      case False
      with run su gu Inr show ?thesis
        by (auto simp: reauth_account_run seq_def gen_is_def split: option.splits)
    next
      case True
      then obtain w c where w: "wire_now (base u) = Some w" "live_account (base u) = Some c" by blast
      obtain p v where p: "reauth_body E repr_of cfg w a b u = (p, v)" by fastforce
      have "gen_is g v" using keepsD [OF gen_reauth_body [OF E] gu] p by (metis snd_conv)
      with run su gu Inr w p show ?thesis
        by (auto simp: reauth_account_run seq_def gen_is_def on_base_def split: sum.splits)
    qed
  qed
qed

text \<open>
  Single flight. When two callers saw the loss in the same generation and the first re-authorises
  successfully, the generation moves on by exactly one, and the second caller, whose turn at the lock comes
  next, returns without writing anything (or is cancelled while it waits); a failed attempt does not
  move the generation, so the next caller tries again.
\<close>

theorem reauth_single_flight:
  assumes "keeps_generation E" and "keeps_generation E'"
    and "reauth_account E repr_of cfg a b (Some g) s = (r, t)" and "generation (base s) = g"
  shows "(r = Inr () \<longrightarrow> generation (base t) = g + 1
            \<and> (\<forall>r' t'. reauth_account E' repr_of cfg a' b' (Some g) t = (r', t') \<longrightarrow>
                 sent t' = sent t \<and> (r' = Inr () \<or> r' = Inl CancelledError)))
       \<and> (r \<noteq> Inr () \<longrightarrow> generation (base t) = g)"
proof (intro conjI impI allI)
  note gen = reauth_generation [OF assms(1,3,4)]
  show "generation (base t) = g" if "r \<noteq> Inr ()" using gen that by simp
  assume ok: "r = Inr ()"
  with gen show gt: "generation (base t) = g + 1" by simp
  fix r' t' assume second: "reauth_account E' repr_of cfg a' b' (Some g) t = (r', t')"
  obtain q u where su: "suspend E' t = (q, u)" by fastforce
  have "gen_is (g + 1) u"
    using keepsD [OF gen_suspend [OF assms(2), of "g + 1"], of t] gt su by (simp add: gen_is_def)
  moreover have "sent u = sent t" using su by (metis snd_conv suspend_fields(1))
  moreover have "q = Inr () \<or> q = Inl CancelledError" using su by (rule suspend_result)
  ultimately show "sent t' = sent t" and "r' = Inr () \<or> r' = Inl CancelledError"
    using second su by (auto simp: reauth_account_run seq_def gen_is_def)
qed

definition demo_fine :: outside where
  "demo_fine = demo_outside (\<lambda>k q. Inr (ProtoOAOther 1 []))"

lemma reauth_single_flight_witness:
  "\<exists>t. reauth_account demo_fine (\<lambda>_. []) demo_config False False (Some 0) demo_run = (Inr (), t)
      \<and> generation (base t) = 1"
proof -
  have k: "keeps_generation demo_fine"
    by (simp add: keeps_generation_def demo_fine_def demo_outside_def)
  obtain r t where run: "reauth_account demo_fine (\<lambda>_. []) demo_config False False (Some 0) demo_run = (r, t)"
    by fastforce
  have "r = Inr ()"
    using run by (simp add: reauth_account_def demo_fine_def demo_outside_def demo_run_def demo_base_def
        suspend_def pause_def Let_def seq_def auth_with_fallbacks_def catch_def send_account_auth_def
        retry_default_def retry_rate_limited_def RATE_LIMIT_REQUEST_ATTEMPTS_def numeral_eq_Suc
        send_request_def on_base_def)
  moreover have "generation (base demo_run) = 0" by (simp add: demo_run_def demo_base_def)
  ultimately show ?thesis using reauth_single_flight [OF k k run] run by auto
qed

end
