(* ===== verification/Grant.thy ===== *)
theory Grant
  imports Recovery
begin

text \<open>
  The token pair and the session file: what a refresh leaves behind, under cancellation too, and several
  processes of one grant that refresh over one session file.
\<close>

section \<open>One refresh\<close>

definition stored_pair :: "(json \<Rightarrow> string) \<Rightarrow> config \<Rightarrow> base \<Rightarrow> bool" where
  "stored_pair repr_of cfg b \<longleftrightarrow>
     load_session repr_of (demo cfg) (store b) = Inr (Some (tokens b))
     \<and> session_pair b = pair_of (tokens b)"

lemma save_session_loads:
  assumes "save_session ts d tmp fault files = (Inr (), files')"
    and "tmp \<noteq> SESSION_PATH" and "refresh_token ts \<noteq> []"
  shows "load_session repr_of d files' = Inr (Some ts)"
proof -
  obtain raw where raw: "old_raw files = Inr raw"
    using assms(1) by (cases "old_raw files") (simp_all add: save_session_def)
  have f: "fault = NoFault"
    using assms(1) raw by (cases fault) (simp_all add: save_session_def Let_def)
  have "files' = (files(SESSION_PATH \<mapsto>
              \<lparr>text_of = Json (JObj (AList.update (env_key d) (session_section ts) raw)),
               mode_of = 384\<rparr>))(tmp := None)"
    using assms(1) save_session_ok [OF raw assms(2)] f by simp
  then have "files' SESSION_PATH = Some
      \<lparr>text_of = Json (JObj (AList.update (env_key d) (session_section ts) raw)), mode_of = 384\<rparr>"
    using assms(2) by simp
  then have r: "old_raw files' = Inr (AList.update (env_key d) (session_section ts) raw)"
    by (simp add: old_raw_def read_json_def)
  define raw' where "raw' = AList.update (env_key d) (session_section ts) raw"
  have r': "old_raw files' = Inr raw'" using r by (simp add: raw'_def)
  have o: "map_of raw' (env_key d) = Some (session_section ts)"
    by (simp add: raw'_def update_conv)
  show ?thesis
    using load_session_raw [OF r' o [unfolded session_section_def]] assms(3) by (simp add: get_or_def)
qed

lemma adopt_cases:
  assumes "adopt_rotated_session repr_of cfg s = (r, t)"
  shows "(\<exists>e. r = Inl e \<and> t = s)
   \<or> (r = Inr False \<and> t = s
        \<and> (\<forall>st. load_session repr_of (demo cfg) (store (base s)) = Inr (Some st) \<longrightarrow>
                refresh_token st = [] \<or> pair_of st = session_pair (base s)))
   \<or> (\<exists>st. r = Inr True \<and> load_session repr_of (demo cfg) (store (base s)) = Inr (Some st)
        \<and> refresh_token st \<noteq> [] \<and> pair_of st \<noteq> session_pair (base s)
        \<and> t = s\<lparr>base := (base s)\<lparr>tokens := st, session_pair := pair_of st\<rparr>\<rparr>)"
  using assms
  by (cases "load_session repr_of (demo cfg) (store (base s))")
    (auto simp: adopt_rotated_session_def lift_result_def on_base_def split: option.splits if_splits)

lemma refresh_via_socket_cases:
  assumes "refresh_via_socket E w old s = (Inr ts, t)"
  shows "\<exists>a r ty n. answer E (waits s) (ProtoOARefreshTokenReq old) = Inr (ProtoOARefreshTokenRes a r ty n)
     \<and> ts = \<lparr>access_token = a, refresh_token = (if r \<noteq> [] then r else old),
             token_type = (if ty \<noteq> [] then ty else ''bearer''), expires_in = n\<rparr>
     \<and> sent t = sent s @ [(now s, w, ProtoOARefreshTokenReq old)]
     \<and> base t = meanwhile E (waits s) (base s)"
proof -
  obtain q u where q: "send_request E w False (ProtoOARefreshTokenReq old) s = (q, u)" by fastforce
  then obtain m where m: "q = Inr m" using assms by (cases q) (auto simp: refresh_via_socket_def seq_def)
  obtain a r ty n where "m = ProtoOARefreshTokenRes a r ty n" and tu: "t = u"
    and ts: "ts = \<lparr>access_token = a, refresh_token = (if r \<noteq> [] then r else old),
             token_type = (if ty \<noteq> [] then ty else ''bearer''), expires_in = n\<rparr>"
    using assms q m that by (cases m) (auto simp: refresh_via_socket_def seq_def)
  with send_request_cases [OF q] m
  have "answer E (waits s) (ProtoOARefreshTokenReq old) = Inr (ProtoOARefreshTokenRes a r ty n)"
    and "sent t = sent s @ [(now s, w, ProtoOARefreshTokenReq old)]"
    and "base t = meanwhile E (waits s) (base s)"
    by auto
  with ts show ?thesis by blast
qed

lemma refresh_task_success:
  assumes run: "refresh_task E repr_of cfg w s = (Inr (), t)"
    and tmp: "\<forall>k. tmp_name E k \<noteq> SESSION_PATH" and rt: "refresh_token (tokens (base t)) \<noteq> []"
  shows "stored_pair repr_of cfg (base t)"
proof -
  obtain q u where su: "suspend E s = (q, u)" by fastforce
  have q: "q = Inr ()" and le: "lock_error E (waits s) = None"
    using run su by (cases q; auto simp: refresh_task_def seq_def split: option.splits)+
  obtain p v where ad: "adopt_rotated_session repr_of cfg u = (p, v)" by fastforce
  have run2: "(case p of Inl e \<Rightarrow> (Inl e, v) | Inr adopted \<Rightarrow>
       (if adopted then ret ()
         else seq (asks (\<lambda>s. refresh_token (tokens (base s)))) (\<lambda>old.
              seq (refresh_via_socket E w old) (\<lambda>fresh.
              seq (on_base (\<lambda>b. b\<lparr>tokens := fresh\<rparr>)) (\<lambda>_.
              seq (save_current E cfg) (\<lambda>_.
              on_base (\<lambda>b. b\<lparr>session_pair := pair_of (tokens b)\<rparr>)))))) v) = (Inr (), t)"
    using run su q le ad by (simp add: refresh_task_def seq_def split: sum.splits)
  from adopt_cases [OF ad] show ?thesis
  proof (elim disjE exE conjE)
    fix e assume "p = Inl e"
    with run2 show ?thesis by simp
  next
    fix st assume "p = Inr True" "v = u\<lparr>base := (base u)\<lparr>tokens := st, session_pair := pair_of st\<rparr>\<rparr>"
      "load_session repr_of (demo cfg) (store (base u)) = Inr (Some st)"
    with run2 show ?thesis by (auto simp: stored_pair_def)
  next
    assume "p = Inr False"
    define old where "old = refresh_token (tokens (base v))"
    obtain f x where f: "refresh_via_socket E w old v = (f, x)" by fastforce
    obtain ts where ts: "f = Inr ts"
      using run2 \<open>p = Inr False\<close> f by (cases f) (simp_all add: seq_def old_def)
    define y where "y = x\<lparr>base := (base x)\<lparr>tokens := ts\<rparr>\<rparr>"
    obtain g z where g: "save_current E cfg y = (g, z)" by fastforce
    have fin: "g = Inr () \<and> t = z\<lparr>base := (base z)\<lparr>session_pair := pair_of (tokens (base z))\<rparr>\<rparr>"
      using run2 \<open>p = Inr False\<close> f ts g
      by (cases g) (simp_all add: seq_def old_def [symmetric] on_base_def modify_def y_def [symmetric])
    obtain files where files: "save_session ts (demo cfg) (tmp_name E (waits y)) (save_fault E (waits y))
        (store (base y)) = (Inr (), files)" "z = y\<lparr>base := (base y)\<lparr>store := files\<rparr>\<rparr>"
      using g fin by (auto simp: save_current_def y_def split: prod.splits)
    have tk: "tokens (base t) = ts" using fin files by (simp add: y_def)
    then have "load_session repr_of (demo cfg) files = Inr (Some ts)"
      using save_session_loads [OF files(1)] tmp rt by simp
    then show ?thesis using fin files tk by (simp add: stored_pair_def y_def)
  qed
qed

text \<open>
  A refresh and its cancellation. If the refresh task gets through - another process's pair
  adopted, or the venue's answer saved - then, whatever deadline hangs over the caller, the pair in use, the
  pair in the session file and the remembered pair are the same afterwards: the cancellation of the
  caller changes only what the caller sees, never what is in use and on disk, so a rotated refresh token
  is not lost.
\<close>

theorem refresh_survives_cancellation:
  assumes "refresh_task E repr_of cfg w (s\<lparr>deadline := None\<rparr>) = (Inr (), u)"
    and "refresh_and_persist E repr_of cfg w (s\<lparr>deadline := d\<rparr>) = (r, t)"
    and "\<forall>k. tmp_name E k \<noteq> SESSION_PATH" and "refresh_token (tokens (base u)) \<noteq> []"
  shows "base t = base u \<and> stored_pair repr_of cfg (base t)
         \<and> (r = Inr () \<or> (r = Inl CancelledError \<and> (\<exists>dl. d = Some dl \<and> dl < now u)))"
proof -
  have "base t = base u \<and> (r = Inr () \<or> (r = Inl CancelledError \<and> (\<exists>dl. d = Some dl \<and> dl < now u)))"
    using assms(1,2) by (auto simp: refresh_and_persist_def shield_def split: option.splits if_splits)
  then show ?thesis using refresh_task_success [OF assms(1,3,4)] by simp
qed

definition demo_refresh :: outside where
  "demo_refresh = demo_outside (\<lambda>k q. Inr (ProtoOARefreshTokenRes ''at2'' ''rt2'' [] 60))"

lemma refresh_survives_cancellation_witness:
  "\<exists>t. refresh_and_persist demo_refresh (\<lambda>_. []) demo_config 1 (demo_run\<lparr>deadline := Some 101\<rparr>)
         = (Inl CancelledError, t)
       \<and> stored_pair (\<lambda>_. []) demo_config (base t) \<and> refresh_token (tokens (base t)) = ''rt2''"
proof -
  let ?s = "demo_run"
  obtain q u where task: "refresh_task demo_refresh (\<lambda>_. []) demo_config 1 (?s\<lparr>deadline := None\<rparr>) = (q, u)"
    by fastforce
  have ev: "q = Inr () \<and> tokens (base u) = \<lparr>access_token = ''at2'', refresh_token = ''rt2'',
      token_type = ''bearer'', expires_in = 60\<rparr> \<and> now u = 102"
    using task by (auto simp: refresh_task_def demo_refresh_def demo_outside_def demo_run_def demo_base_def
        suspend_def pause_def Let_def seq_def adopt_rotated_session_def load_session_def read_json_def
        lift_result_def refresh_via_socket_def send_request_def on_base_def save_current_def
        save_session_def old_raw_def modify_def)
  obtain r t where rp: "refresh_and_persist demo_refresh (\<lambda>_. []) demo_config 1 (?s\<lparr>deadline := Some 101\<rparr>) = (r, t)"
    by fastforce
  have tmp: "\<forall>k. tmp_name demo_refresh k \<noteq> SESSION_PATH"
    by (simp add: demo_refresh_def demo_outside_def SESSION_PATH_def)
  have "r = Inl CancelledError"
    using rp task ev by (simp add: refresh_and_persist_def shield_def)
  with refresh_survives_cancellation [OF _ rp tmp, of u] task ev rp show ?thesis by auto
qed

section \<open>Several processes\<close>

text \<open>
  Processes of one grant and environment: \<open>procs\<close> are their states, the session file is shared, and
  \<open>honoured\<close> is the refresh token the venue currently accepts. A refresh holds the session lock, so nothing
  else touches the file during it. The venue rotates the token when it hands out another one.
\<close>

record grant_sys =
  files :: fs
  honoured :: string
  procs :: "nat \<Rightarrow> base"

definition venue :: "string \<Rightarrow> string \<Rightarrow> string \<Rightarrow> int \<Rightarrow> string \<Rightarrow> rat \<Rightarrow> outside" where
  "venue cur new_access new_refresh life tmp lat =
     \<lparr>answer = (\<lambda>k m. case m of
          ProtoOARefreshTokenReq old \<Rightarrow>
            (if old = cur then Inr (ProtoOARefreshTokenRes new_access new_refresh ''bearer'' life)
             else Inl (CTraderProtocolError ''CH_ACCESS_TOKEN_INVALID'' [] None))
        | _ \<Rightarrow> Inr m),
      latency = (\<lambda>_. lat), meanwhile = (\<lambda>_ b. b), gate = (\<lambda>_. None), lock_error = (\<lambda>_. None),
      save_fault = (\<lambda>_. NoFault), tmp_name = (\<lambda>_. tmp)\<rparr>"

definition run_of :: "base \<Rightarrow> fs \<Rightarrow> run" where
  "run_of b fs = \<lparr>base = b\<lparr>store := fs\<rparr>, now = 0, deadline = None, waits = 0, sent = []\<rparr>"

definition refresh_of :: "(json \<Rightarrow> string) \<Rightarrow> config \<Rightarrow> grant_sys \<Rightarrow> nat \<Rightarrow> string \<Rightarrow> string \<Rightarrow> int \<Rightarrow> string
    \<Rightarrow> rat \<Rightarrow> (exn + unit) \<times> run" where
  "refresh_of repr_of cfg g p a r life tmp lat =
     refresh_task (venue (honoured g) a r life tmp lat) repr_of cfg 0 (run_of (procs g p) (files g))"

definition after_refresh :: "grant_sys \<Rightarrow> nat \<Rightarrow> string \<Rightarrow> run \<Rightarrow> grant_sys" where
  "after_refresh g p r t =
     g\<lparr>files := store (base t), procs := (procs g)(p := base t),
       honoured := (if sent t = [] \<or> r = [] then honoured g else r)\<rparr>"

definition start_process :: "token_set \<Rightarrow> base \<Rightarrow> base" where
  "start_process st b = b\<lparr>tokens := st, session_pair := pair_of st\<rparr>"

inductive grant_reach :: "(json \<Rightarrow> string) \<Rightarrow> config \<Rightarrow> grant_sys \<Rightarrow> bool"
  for repr_of :: "json \<Rightarrow> string" and cfg :: config where
  consent: "load_session repr_of (demo cfg) (files g) = Inr (Some st) \<Longrightarrow> refresh_token st = honoured g \<Longrightarrow>
     honoured g \<noteq> [] \<Longrightarrow> \<forall>p. up (procs g p) 0 \<and> pair_of (tokens (procs g p)) = session_pair (procs g p) \<Longrightarrow>
     grant_reach repr_of cfg g"
| started: "grant_reach repr_of cfg g \<Longrightarrow> load_session repr_of (demo cfg) (files g) = Inr (Some st) \<Longrightarrow>
     grant_reach repr_of cfg (g\<lparr>procs := (procs g)(p := start_process st (procs g p))\<rparr>)"
| refreshed: "grant_reach repr_of cfg g \<Longrightarrow> tmp \<noteq> SESSION_PATH \<Longrightarrow>
     refresh_of repr_of cfg g p a r life tmp lat = (q, t) \<Longrightarrow>
     grant_reach repr_of cfg (after_refresh g p r t)"

definition grant_inv :: "(json \<Rightarrow> string) \<Rightarrow> config \<Rightarrow> grant_sys \<Rightarrow> bool" where
  "grant_inv repr_of cfg g \<longleftrightarrow>
     (\<exists>st. load_session repr_of (demo cfg) (files g) = Inr (Some st) \<and> refresh_token st = honoured g)
     \<and> honoured g \<noteq> []
     \<and> (\<forall>p. up (procs g p) 0 \<and> pair_of (tokens (procs g p)) = session_pair (procs g p))"

text \<open>One refresh from a state with the invariant: adopted, or one request that presents the token
  the venue honours.\<close>

lemma refresh_of_cases:
  assumes inv: "grant_inv repr_of cfg g" and tmp: "tmp \<noteq> SESSION_PATH"
    and run: "refresh_of repr_of cfg g p a r life tmp lat = (q, t)"
  shows "q = Inr () \<and> up (base t) 0 \<and> stored_pair repr_of cfg (base t)
     \<and> ((sent t = [] \<and> refresh_token (tokens (base t)) = honoured g)
        \<or> (\<exists>\<tau>. sent t = [(\<tau>, 0, ProtoOARefreshTokenReq (honoured g))])
           \<and> refresh_token (tokens (base t)) = (if r = [] then honoured g else r))"
proof -
  obtain st where st: "load_session repr_of (demo cfg) (files g) = Inr (Some st)" "refresh_token st = honoured g"
    and ne: "honoured g \<noteq> []" and pr: "up (procs g p) 0" "pair_of (tokens (procs g p)) = session_pair (procs g p)"
    using inv unfolding grant_inv_def by blast
  let ?b = "(procs g p)\<lparr>store := files g\<rparr>"
  show ?thesis
  proof (cases "pair_of st = session_pair (procs g p)")
    case False
    have "q = Inr ()" "sent t = []" "base t = ?b\<lparr>tokens := st, session_pair := pair_of st\<rparr>"
      using run st ne False
      by (auto simp: refresh_of_def refresh_task_def venue_def run_of_def suspend_def pause_def Let_def
          seq_def adopt_rotated_session_def lift_result_def on_base_def)
    then show ?thesis using st pr by (simp add: stored_pair_def)
  next
    case True
    with pr st have old: "refresh_token (tokens (procs g p)) = honoured g"
      by (metis pair_of_def snd_conv)
    obtain raw where raw: "old_raw (files g) = Inr raw"
      using st(1) old_raw_readable [of "files g"] by (auto simp: load_session_def split: read_result.splits)
    define ts where "ts = \<lparr>access_token = a, refresh_token = (if r = [] then honoured g else r),
        token_type = ''bearer'', expires_in = life\<rparr>"
    define fs' where "fs' = snd (save_session ts (demo cfg) tmp NoFault (files g))"
    have save: "save_session ts (demo cfg) tmp NoFault (files g) = (Inr (), fs')"
      using save_session_ok [OF raw tmp] by (simp add: fs'_def)
    have "q = Inr () \<and> sent t = [(max 0 lat, 0, ProtoOARefreshTokenReq (honoured g))]
        \<and> base t = ?b\<lparr>tokens := ts, store := fs', session_pair := pair_of ts\<rparr>"
      using run st ne True old pr save
      by (auto simp: refresh_of_def refresh_task_def venue_def run_of_def suspend_def pause_def Let_def
          seq_def adopt_rotated_session_def lift_result_def on_base_def refresh_via_socket_def
          send_request_def save_current_def ts_def modify_def split: if_splits)
    moreover have "load_session repr_of (demo cfg) fs' = Inr (Some ts)"
      using save_session_loads [OF save tmp] ne by (simp add: ts_def)
    ultimately show ?thesis using pr by (auto simp: stored_pair_def ts_def)
  qed
qed

lemma grant_reach_inv: "grant_reach repr_of cfg g \<Longrightarrow> grant_inv repr_of cfg g"
proof (induction rule: grant_reach.induct)
  case (consent g st)
  then show ?case unfolding grant_inv_def by blast
next
  case (started g st p)
  then show ?case by (auto simp: grant_inv_def start_process_def)
next
  case (refreshed g tmp p a r life lat q t)
  from refresh_of_cases [OF refreshed.IH refreshed.hyps(2,3)] refreshed.IH
  show ?case by (auto simp: grant_inv_def after_refresh_def stored_pair_def)
qed


definition demo_grant :: grant_sys where
  "demo_grant = \<lparr>files = [SESSION_PATH \<mapsto> \<lparr>text_of = Json (JObj [(''demo'', session_section demo_tokens)]),
                                            mode_of = 384\<rparr>],
     honoured = ''rt'', procs = (\<lambda>_. demo_base)\<rparr>"


end
