(* ===== verification/Selection.thy ===== *)
theory Selection
  imports Grant "HOL-Library.List_Lexorder" "HOL-Library.Char_ord"
begin

text \<open>
  The rest of the connection set-up in \<open>_base.py\<close>: which account is traded, the classification of an empty
  account list, the start-up probe, and the router that divides the stream of unsolicited messages.
\<close>

section \<open>The account\<close>

definition account_kind :: "config \<Rightarrow> string" where
  "account_kind cfg = (if demo cfg then ''demo'' else ''live'')"

definition grant_pool :: "config \<Rightarrow> trading_account list \<Rightarrow> trading_account list" where
  "grant_pool cfg accounts = filter (\<lambda>a. a_isLive a = (\<not> demo cfg)) accounts"

definition broker_name :: "outside \<Rightarrow> nat \<Rightarrow> int \<Rightarrow> string coro" where
  "broker_name E w account_id =
     seq (retry_default E (send_request E w False (ProtoOATraderReq account_id))) (\<lambda>response.
     case response of
       ProtoOATraderRes t \<Rightarrow> ret (t_brokerName t)
     | _ \<Rightarrow> throw (AttributeError ''trader''))"

text \<open>The loop over the pool: authorise, read the slug, collect the matches and the names.\<close>

fun match_brokers :: "outside \<Rightarrow> (json \<Rightarrow> string) \<Rightarrow> config \<Rightarrow> nat \<Rightarrow> string \<Rightarrow> int list
    \<Rightarrow> (int list \<times> string list) coro" where
  "match_brokers E repr_of cfg w target [] = ret ([], [])"
| "match_brokers E repr_of cfg w target (a # rest) =
     seq (account_auth E repr_of cfg w a) (\<lambda>_.
     seq (broker_name E w a) (\<lambda>name.
     seq (match_brokers E repr_of cfg w target rest) (\<lambda>(matches, names).
     ret (if lower name = target then a # matches else matches, name # names))))"

text \<open>The names offered in the error message, each once and sorted.\<close>

definition available_names :: "string list \<Rightarrow> string" where
  "available_names names = join '', '' (sort (remdups (filter (\<lambda>n. n \<noteq> []) names)))"

definition resolve_account ::
    "outside \<Rightarrow> (json \<Rightarrow> string) \<Rightarrow> config \<Rightarrow> nat \<Rightarrow> trading_account list \<Rightarrow> int coro" where
  "resolve_account E repr_of cfg w accounts =
     (let pool = grant_pool cfg accounts; ids = map a_id pool; kind = account_kind cfg
      in if pool = []
         then throw (CTraderAuthError ''NO_TRADING_ACCOUNTS''
                       (''the access token grants no '' @ kind @ '' accounts''))
         else case account_selector cfg of
           Some sel \<Rightarrow>
             (if sel \<in> set ids then seq (account_auth E repr_of cfg w sel) (\<lambda>_. ret sel)
              else throw (CTraderAuthError ''ACCOUNT_NOT_FOUND''
                            (''account_id '' @ py_str sel @ '' is not among the '' @ kind @ '' accounts'')))
         | None \<Rightarrow>
             (case broker_title cfg of
                Some title \<Rightarrow>
                  seq (match_brokers E repr_of cfg w (lower title) ids) (\<lambda>(matches, names).
                  case matches of
                    [] \<Rightarrow> throw (CTraderAuthError ''BROKER_NOT_FOUND''
                             (''broker not found; available: '' @ available_names names))
                  | [a] \<Rightarrow> ret a
                  | _ \<Rightarrow> throw (CTraderAuthError ''ACCOUNT_AMBIGUOUS''
                             (''broker has multiple accounts; set account_id: ''
                              @ join '', '' (map py_str matches))))
              | None \<Rightarrow>
                  (case ids of
                     [a] \<Rightarrow> seq (account_auth E repr_of cfg w a) (\<lambda>_. ret a)
                   | _ \<Rightarrow> throw (CTraderAuthError ''ACCOUNT_AMBIGUOUS''
                             (''multiple '' @ kind @ '' accounts; set account_id or name a broker: ''
                              @ join '', '' (map py_str ids))))))"

definition relist_after_refresh ::
    "outside \<Rightarrow> (json \<Rightarrow> string) \<Rightarrow> config \<Rightarrow> nat \<Rightarrow> trading_account list coro" where
  "relist_after_refresh E repr_of cfg w =
     (let kind = account_kind cfg;
          none = (\<lambda>more. CTraderAuthError ''NO_TRADING_ACCOUNTS''
                          (''the access token grants no '' @ kind @ '' accounts'' @ more))
      in seq (asks (\<lambda>s. refresh_token (tokens (base s)))) (\<lambda>rt.
         if rt = [] then throw (none [])
         else seq (catch (refresh_and_persist E repr_of cfg w)
                     (\<lambda>e. case e of
                            CTraderProtocolError code desc h \<Rightarrow>
                              throw (none ('' and the refresh token was rejected ('' @ code @ '')''))
                          | _ \<Rightarrow> throw e)) (\<lambda>_.
              seq (list_accounts E repr_of cfg w) (\<lambda>accounts.
              if grant_pool cfg accounts = [] then throw (CTraderAccountsUnavailableError kind)
              else ret accounts))))"

definition full_handshake :: "outside \<Rightarrow> (json \<Rightarrow> string) \<Rightarrow> config \<Rightarrow> nat \<Rightarrow> int coro" where
  "full_handshake E repr_of cfg w =
     seq (app_auth E cfg w) (\<lambda>_.
     seq (list_accounts E repr_of cfg w) (\<lambda>listed.
     seq (if grant_pool cfg listed = [] then relist_after_refresh E repr_of cfg w else ret listed)
       (\<lambda>accounts.
     seq (resolve_account E repr_of cfg w accounts) (\<lambda>account_id.
     seq (on_base (\<lambda>b. b\<lparr>identity := ''ctrader-'' @ account_kind cfg @ ''-'' @ py_str account_id\<rparr>)) (\<lambda>_.
     ret account_id)))))"

text \<open>A session for one piece of work: whatever happens, the wire is closed again.\<close>

definition close_wire :: "nat \<Rightarrow> run \<Rightarrow> run" where
  "close_wire w s = s\<lparr>base := (base s)\<lparr>up := (up (base s))(w := False)\<rparr>\<rparr>"

definition authed_session ::
    "outside \<Rightarrow> (json \<Rightarrow> string) \<Rightarrow> config \<Rightarrow> nat \<Rightarrow> (int \<Rightarrow> 'a coro) \<Rightarrow> 'a coro" where
  "authed_session E repr_of cfg w work =
     ensure (seq (full_handshake E repr_of cfg w) work) (close_wire w)"

definition app_session :: "outside \<Rightarrow> config \<Rightarrow> nat \<Rightarrow> 'a coro \<Rightarrow> 'a coro" where
  "app_session E cfg w work = ensure (seq (app_auth E cfg w) (\<lambda>_. work)) (close_wire w)"

section \<open>The probe\<close>

record probe =
  money_digits :: nat
  deposit_asset :: int
  hedging :: bool

definition probe_account :: "outside \<Rightarrow> (json \<Rightarrow> string) \<Rightarrow> config \<Rightarrow> int \<Rightarrow> probe coro" where
  "probe_account E repr_of cfg account_id =
     seq (account_request E repr_of cfg (ProtoOATraderReq account_id)) (\<lambda>response.
     case response of
       ProtoOATraderRes t \<Rightarrow>
         ret \<lparr>money_digits = t_moneyDigits t, deposit_asset = t_depositAssetId t, hedging = t_hedged t\<rparr>
     | _ \<Rightarrow> throw (AttributeError ''trader''))"

section \<open>The event router\<close>

text \<open>
  \<open>_event_router_loop\<close>: the queues of the two consumers, the re-authorisations scheduled (force refresh,
  application first), and whether one is in flight. A queue is \<open>None\<close> before it exists.
\<close>

record router =
  spot_queue :: "msg list option"
  exec_queue :: "msg list option"
  scheduled :: "(bool \<times> bool) list"
  reauth_running :: bool

definition schedule_reauth :: "bool \<Rightarrow> bool \<Rightarrow> router \<Rightarrow> router" where
  "schedule_reauth force_refresh reauth_app q =
     (if reauth_running q then q
      else q\<lparr>scheduled := scheduled q @ [(force_refresh, reauth_app)], reauth_running := True\<rparr>)"

definition route_event :: "int option \<Rightarrow> msg \<Rightarrow> router \<Rightarrow> router" where
  "route_event live m q =
     (let to_exec = (\<lambda>acc. if live = None \<or> live = Some acc
                            then q\<lparr>exec_queue := map_option (\<lambda>l. l @ [m]) (exec_queue q)\<rparr> else q)
      in case m of
           ProtoOASpotEvent _ \<Rightarrow> q\<lparr>spot_queue := map_option (\<lambda>l. l @ [m]) (spot_queue q)\<rparr>
         | ProtoOAExecutionEvent x \<Rightarrow> to_exec (x_account x)
         | ProtoOAOrderErrorEvent e \<Rightarrow> to_exec (e_account e)
         | ProtoOAAccountDisconnectEvent acc \<Rightarrow>
             (if live = Some acc then schedule_reauth False False q else q)
         | ProtoOAAccountsTokenInvalidatedEvent accs reason \<Rightarrow>
             (case live of Some acc \<Rightarrow> (if acc \<in> set accs then schedule_reauth True False q else q)
                         | None \<Rightarrow> q)
         | ProtoOAClientDisconnectEvent reason \<Rightarrow> schedule_reauth False True q
         | _ \<Rightarrow> q)"

text \<open>The router over the messages in order; between two messages the task in flight may end (\<open>True\<close>).\<close>

fun event_router_loop :: "int option \<Rightarrow> (bool \<times> msg) list \<Rightarrow> router \<Rightarrow> router" where
  "event_router_loop live [] q = q"
| "event_router_loop live ((ended, m) # ms) q =
     event_router_loop live ms
       (route_event live m (if ended then q\<lparr>reauth_running := False\<rparr> else q))"

text \<open>\<open>_symbol_name_for\<close>.\<close>

definition symbol_name_for :: "(int \<rightharpoonup> string) \<Rightarrow> int \<Rightarrow> string" where
  "symbol_name_for by_id sid = (case by_id sid of Some n \<Rightarrow> n | None \<Rightarrow> py_str sid)"

section \<open>Properties of the choice\<close>

text \<open>A venue that answers the trader request of an account with its broker slug.\<close>

definition venue_names :: "outside \<Rightarrow> (int \<Rightarrow> string) \<Rightarrow> bool" where
  "venue_names E nm \<longleftrightarrow>
     (\<forall>k a m. answer E k (ProtoOATraderReq a) = Inr m \<longrightarrow>
        (case m of ProtoOATraderRes t \<Rightarrow> t_brokerName t = nm a | _ \<Rightarrow> False))"

lemma retry_loop_answer:
  "retry_loop E (send_request E w False q) dl a left s = (Inr m, t) \<Longrightarrow> \<exists>k. answer E k q = Inr m"
proof (induction left arbitrary: a s)
  case 0
  then show ?case by simp
next
  case (Suc left)
  obtain r u where first: "send_request E w False q s = (r, u)" by fastforce
  show ?case
  proof (cases "\<exists>c d h. r = Inl (CTraderProtocolError c d h) \<and> is_rate_limited c")
    case False
    with Suc.prems retry_loop_once [OF first False] have "r = Inr m" by simp
    with ungated_send_cases [OF first] show ?thesis by auto
  next
    case True
    then obtain c d h where r: "r = Inl (CTraderProtocolError c d h)" "is_rate_limited c" by blast
    have "seq (pause E (retry_delay a h)) (\<lambda>_. retry_loop E (send_request E w False q) dl (a + 1) left) u
          = (Inr m, t)"
      using Suc.prems retry_loop_again [OF first [unfolded r(1)] r(2), of dl a left]
      by (simp only: split: if_splits) simp
    then obtain v where "retry_loop E (send_request E w False q) dl (a + 1) left v = (Inr m, t)"
      unfolding seq_Inr_iff by blast
    then show ?thesis by (rule Suc.IH)
  qed
qed

lemma retry_default_answer:
  "retry_default E (send_request E w False q) s = (Inr m, t) \<Longrightarrow> \<exists>k. answer E k q = Inr m"
  unfolding retry_default_def retry_rate_limited_def by (rule retry_loop_answer)

lemma broker_name_result:
  assumes "venue_names E nm" and "broker_name E w a s = (Inr name, t)" shows "name = nm a"
proof -
  obtain m u where "retry_default E (send_request E w False (ProtoOATraderReq a)) s = (Inr m, u)"
    and m: "(case m of ProtoOATraderRes t \<Rightarrow> ret (t_brokerName t) | _ \<Rightarrow> throw (AttributeError ''trader'')) u
            = (Inr name, t)"
    using assms(2) by (auto simp: broker_name_def seq_Inr_iff)
  then obtain k where "answer E k (ProtoOATraderReq a) = Inr m" using retry_default_answer by blast
  with assms(1) have "case m of ProtoOATraderRes t \<Rightarrow> t_brokerName t = nm a | _ \<Rightarrow> False"
    unfolding venue_names_def by blast
  with m show ?thesis by (cases m) auto
qed

lemma match_brokers_result:
  "venue_names E nm \<Longrightarrow> match_brokers E repr_of cfg w target ids s = (Inr (ms, ns), t) \<Longrightarrow>
   ms = filter (\<lambda>a. lower (nm a) = target) ids \<and> ns = map nm ids"
proof (induction ids arbitrary: s ms ns t)
  case Nil
  then show ?case by simp
next
  case (Cons a ids)
  then obtain u v w' name ms' ns' where
    "broker_name E w a u = (Inr name, v)"
    "match_brokers E repr_of cfg w target ids v = (Inr (ms', ns'), w')"
    "ms = (if lower name = target then a # ms' else ms')" "ns = name # ns'"
    by (auto simp: seq_Inr_iff split: prod.splits)
  with Cons.IH [of v ms' ns'] Cons.prems(1) broker_name_result [OF Cons.prems(1)] show ?case by auto
qed

definition auths_only :: "int set \<Rightarrow> msg \<Rightarrow> bool" where
  "auths_only ids m \<longleftrightarrow> (case m of ProtoOAAccountAuthReq a _ \<Rightarrow> a \<in> ids | _ \<Rightarrow> True)"

lemma logs_refresh_any:
  "(\<And>old. P (ProtoOARefreshTokenReq old)) \<Longrightarrow> logs P (refresh_and_persist E repr_of cfg w)"
  by (auto simp: refresh_and_persist_def refresh_task_def refresh_via_socket_def
      split: option.split msg.split intro!: logs_shield logs_seq logs_send)

lemma logs_token_call:
  "(\<And>tok. logs P (call tok)) \<Longrightarrow> (\<And>old. P (ProtoOARefreshTokenReq old)) \<Longrightarrow>
   logs P (token_call E repr_of cfg w call)"
  unfolding token_call_def Let_def
  by (auto intro!: logs_catch logs_seq logs_retry_default logs_refresh_any split: exn.split)

lemma logs_account_auth: "a \<in> ids \<Longrightarrow> logs (auths_only ids) (account_auth E repr_of cfg w a)"
  unfolding account_auth_def
  by (auto intro!: logs_seq logs_token_call logs_send simp: auths_only_def)

lemma logs_broker_name: "logs (auths_only ids) (broker_name E w a)"
  unfolding broker_name_def
  by (auto intro!: logs_seq logs_retry_default logs_send split: msg.split simp: auths_only_def)

lemma logs_match_brokers:
  "set l \<subseteq> ids \<Longrightarrow> logs (auths_only ids) (match_brokers E repr_of cfg w target l)"
proof (induction l)
  case Nil
  show ?case by (simp only: match_brokers.simps logs_ret)
next
  case (Cons a l)
  then show ?case
    by (simp only: match_brokers.simps)
      (auto intro!: logs_seq logs_account_auth logs_broker_name split: prod.split)
qed

text \<open>
  The account that is traded. When the choice succeeds, the chosen account is one the token
  grants and of the kind of the host (demo accounts on the demo host only); a configured account id is
  obeyed; without one, a broker named in the symbol selects the only account whose slug matches it
  case-insensitively; without either there is only one account. On the way no account outside
  the pool is ever authorised.
\<close>

theorem account_choice:
  assumes "resolve_account E repr_of cfg w accounts s = (Inr acc, t)" and "venue_names E nm"
  shows "(\<exists>a \<in> set accounts. a_id a = acc \<and> a_isLive a = (\<not> demo cfg))
     \<and> (\<forall>sel. account_selector cfg = Some sel \<longrightarrow> acc = sel)
     \<and> (\<forall>title. account_selector cfg = None \<and> broker_title cfg = Some title \<longrightarrow>
          filter (\<lambda>a. lower (nm a) = lower title) (map a_id (grant_pool cfg accounts)) = [acc])
     \<and> (account_selector cfg = None \<and> broker_title cfg = None \<longrightarrow>
          map a_id (grant_pool cfg accounts) = [acc])
     \<and> later (auths_only (set (map a_id (grant_pool cfg accounts)))) s t"
proof -
  define ids where "ids = map a_id (grant_pool cfg accounts)"
  have pool: "grant_pool cfg accounts \<noteq> []"
    using assms(1) by (auto simp: resolve_account_def Let_def)
  have mem: "\<exists>a \<in> set accounts. a_id a = x \<and> a_isLive a = (\<not> demo cfg)" if "x \<in> set ids" for x
    using that by (auto simp: ids_def grant_pool_def)
  show ?thesis
  proof (cases "account_selector cfg")
    case (Some sel)
    then have sel: "sel \<in> set ids" and run: "seq (account_auth E repr_of cfg w sel) (\<lambda>_. ret sel) s = (Inr acc, t)"
      using assms(1) pool by (auto simp: resolve_account_def Let_def ids_def split: if_splits)
    have "acc = sel" using run by (auto simp: seq_Inr_iff)
    moreover have "later (auths_only (set ids)) s t"
      using logsD [OF logs_seq [OF logs_account_auth [OF sel] logs_ret] run] .
    ultimately show ?thesis using mem [OF sel] Some by (simp add: ids_def)
  next
    case None
    show ?thesis
    proof (cases "broker_title cfg")
      case (Some title)
      define go :: "int list \<times> string list \<Rightarrow> int coro" where
        "go = (\<lambda>(matches, names). case matches of
                    [] \<Rightarrow> throw (CTraderAuthError ''BROKER_NOT_FOUND''
                             (''broker not found; available: '' @ available_names names))
                  | [a] \<Rightarrow> ret a
                  | _ \<Rightarrow> throw (CTraderAuthError ''ACCOUNT_AMBIGUOUS''
                             (''broker has multiple accounts; set account_id: ''
                              @ join '', '' (map py_str matches))))"
      have run: "seq (match_brokers E repr_of cfg w (lower title) ids) go s = (Inr acc, t)"
        using assms(1) pool None Some by (simp add: resolve_account_def Let_def ids_def go_def)
      then obtain ms ns u where m: "match_brokers E repr_of cfg w (lower title) ids s = (Inr (ms, ns), u)"
        and g: "go (ms, ns) u = (Inr acc, t)" by (auto simp: seq_Inr_iff)
      have ms: "ms = filter (\<lambda>a. lower (nm a) = lower title) ids"
        using match_brokers_result [OF assms(2) m] by simp
      have one: "ms = [acc]" and tu: "t = u"
        using g by (auto simp: go_def split: list.splits)
      have "acc \<in> set ms" by (simp add: one)
      then have "acc \<in> set ids" by (simp add: ms)
      moreover have "later (auths_only (set ids)) s t"
        unfolding tu by (rule logsD [OF logs_match_brokers m]) simp
      ultimately show ?thesis using mem ms one None Some by (simp add: ids_def)
    next
      case no: None
      obtain a where a: "ids = [a]" and run: "seq (account_auth E repr_of cfg w a) (\<lambda>_. ret a) s = (Inr acc, t)"
        using assms(1) pool None no
        by (auto simp: resolve_account_def Let_def ids_def split: list.splits)
      have sel: "a \<in> set ids" using a by simp
      have "acc = a" using run by (auto simp: seq_Inr_iff)
      moreover have "later (auths_only (set ids)) s t"
        using logsD [OF logs_seq [OF logs_account_auth [OF sel] logs_ret] run] .
      moreover have "set (map a_id (grant_pool cfg accounts)) = {a}" using a by (simp add: ids_def)
      ultimately show ?thesis using mem [OF sel] None no a by (simp only: ids_def) simp
    qed
  qed
qed

definition demo_named :: outside where
  "demo_named = demo_outside (\<lambda>k q. case q of
      ProtoOATraderReq a \<Rightarrow> Inr (ProtoOATraderRes \<lparr>t_brokerName = if a = 7 then ''PepperstoneUK'' else ''icm'',
         t_balance = 0, t_moneyDigits = 2, t_depositAssetId = 1, t_hedged = False\<rparr>)
    | _ \<Rightarrow> Inr q)"

definition demo_accounts :: "trading_account list" where
  "demo_accounts = [\<lparr>a_id = 5, a_isLive = True, a_brokerTitleShort = []\<rparr>,
     \<lparr>a_id = 6, a_isLive = False, a_brokerTitleShort = []\<rparr>, \<lparr>a_id = 7, a_isLive = False, a_brokerTitleShort = []\<rparr>]"

lemma account_choice_witness:
  "\<exists>t. resolve_account demo_named (\<lambda>_. []) (demo_config\<lparr>broker_title := Some ''pepperstoneuk''\<rparr>) 1
         demo_accounts demo_run = (Inr 7, t)
       \<and> filter (\<lambda>a. lower (if a = 7 then ''PepperstoneUK'' else ''icm'') = lower ''pepperstoneuk'') [6, 7]
           = [7::int]"
proof -
  let ?cfg = "demo_config\<lparr>broker_title := Some ''pepperstoneuk''\<rparr>"
  let ?nm = "\<lambda>a::int. if a = 7 then ''PepperstoneUK'' else ''icm''"
  have v: "venue_names demo_named ?nm"
    by (simp add: venue_names_def demo_named_def demo_outside_def split: msg.split)
  obtain r t where run: "resolve_account demo_named (\<lambda>_. []) ?cfg 1 demo_accounts demo_run = (r, t)"
    by fastforce
  have "fst (resolve_account demo_named (\<lambda>_. []) ?cfg 1 demo_accounts demo_run) = Inr 7" by code_simp
  then have "r = Inr 7" using run by simp
  with account_choice [OF run [unfolded \<open>r = Inr 7\<close>] v] run show ?thesis
    by (simp add: grant_pool_def demo_accounts_def demo_config_def)
qed


section \<open>An empty account list\<close>

text \<open>The exceptions the wire layer lets through to this code.\<close>

definition wire_answers :: "outside \<Rightarrow> bool" where
  "wire_answers E \<longleftrightarrow>
     (\<forall>k m e. answer E k m = Inl e \<longrightarrow> is_protocol_error e \<or> is_connection_error e \<or> is_timeout_error e)
     \<and> (\<forall>k e. lock_error E k = Some e \<longrightarrow> is_os_error e)"

definition raises_only :: "(exn \<Rightarrow> bool) \<Rightarrow> 'a coro \<Rightarrow> bool" where
  "raises_only Q m \<longleftrightarrow> (\<forall>s e t. m s = (Inl e, t) \<longrightarrow> Q e)"

lemma raises_onlyD: "raises_only Q m \<Longrightarrow> m s = (Inl e, t) \<Longrightarrow> Q e"
  unfolding raises_only_def by blast

lemma raises_ret [intro!, simp]: "raises_only Q (ret x)"
  and raises_asks [intro!, simp]: "raises_only Q (asks f)"
  and raises_on_base [intro!, simp]: "raises_only Q (on_base g)"
  by (simp_all add: raises_only_def on_base_def)

lemma raises_throw [intro]: "Q e \<Longrightarrow> raises_only Q (throw e)"
  by (simp add: raises_only_def)

lemma raises_seq [intro]: "raises_only Q m \<Longrightarrow> (\<And>x. raises_only Q (f x)) \<Longrightarrow> raises_only Q (seq m f)"
  unfolding raises_only_def seq_Inl_iff by blast

lemma raises_catch:
  "raises_only R m \<Longrightarrow> (\<And>e. R e \<Longrightarrow> raises_only Q (h e)) \<Longrightarrow> raises_only Q (catch m h)"
  unfolding raises_only_def
proof (intro allI impI)
  fix s e t
  assume m: "\<forall>s e t. m s = (Inl e, t) \<longrightarrow> R e"
    and h: "\<And>e. R e \<Longrightarrow> \<forall>s ea t. h e s = (Inl ea, t) \<longrightarrow> Q ea"
    and run: "catch m h s = (Inl e, t)"
  obtain r u where r: "m s = (r, u)" by fastforce
  with run obtain x where x: "r = Inl x" by (cases r) (auto simp: catch_def)
  with m r have "R x" by blast
  moreover have "h x u = (Inl e, t)" using run r x by (simp add: catch_def)
  ultimately show "Q e" using h by blast
qed

text \<open>Not one of the errors the account choice itself raises.\<close>

definition not_choice :: "exn \<Rightarrow> bool" where
  "not_choice e \<longleftrightarrow> (case e of CTraderAuthError _ _ \<Rightarrow> False | CTraderAccountsUnavailableError _ \<Rightarrow> False | _ \<Rightarrow> True)"

lemma not_choice_simps [simp]:
  "not_choice CancelledError" "not_choice (CTraderConnectionError m)" "not_choice (AttributeError a)"
  "\<not> not_choice (CTraderAuthError c d)" "\<not> not_choice (CTraderAccountsUnavailableError m)"
  "not_choice (CTraderProtocolError c d h)" "not_choice (AssertionError m)" "not_choice (OSError m)"
  by (simp_all add: not_choice_def)

lemma wire_not_choice:
  "is_protocol_error e \<or> is_connection_error e \<or> is_timeout_error e \<or> is_os_error e \<Longrightarrow> not_choice e"
  by (cases e) (simp_all add: not_choice_def is_protocol_error_def is_connection_error_def
      is_timeout_error_def is_os_error_def)

lemma raises_send: "wire_answers E \<Longrightarrow> raises_only not_choice (send_request E w False m)"
  unfolding raises_only_def
proof (intro allI impI)
  fix s e t assume E: "wire_answers E" and run: "send_request E w False m s = (Inl e, t)"
  from ungated_send_cases [OF run]
  consider "e = CTraderConnectionError ''not connected''" | "e = CancelledError" | "answer E (waits s) m = Inl e"
    by auto
  then show "not_choice e"
  proof cases
    case 3
    with E have "is_protocol_error e \<or> is_connection_error e \<or> is_timeout_error e"
      unfolding wire_answers_def by blast
    then show ?thesis using wire_not_choice by blast
  qed simp_all
qed

lemma raises_pause: "raises_only not_choice (pause E secs)"
  unfolding raises_only_def using pause_cases [of E secs] by fastforce

lemma raises_suspend: "raises_only not_choice (suspend E)"
  using raises_pause [of E] unfolding raises_only_def suspend_def by blast

lemma raises_retry_loop: "raises_only not_choice call \<Longrightarrow> raises_only not_choice (retry_loop E call dl a left)"
proof (induction left arbitrary: a)
  case 0
  show ?case unfolding retry_loop.simps by (rule raises_throw) simp
next
  case (Suc left)
  show ?case unfolding retry_loop.simps
  proof (rule raises_catch [OF Suc.prems])
    fix e assume e: "not_choice e"
    have t: "raises_only not_choice (throw e)" using e by (rule raises_throw)
    show "raises_only not_choice
           (case e of CTraderProtocolError code desc hint \<Rightarrow>
              if \<not> is_rate_limited code then throw e
              else seq (asks now) (\<lambda>t. if left = 0 \<or> dl - t < retry_delay a hint then throw e
                else seq (pause E (retry_delay a hint)) (\<lambda>_. retry_loop E call dl (a + 1) left))
            | _ \<Rightarrow> throw e)"
      using t Suc raises_pause by (auto split: exn.split intro!: raises_seq)
  qed
qed

lemma raises_retry_default: "raises_only not_choice call \<Longrightarrow> raises_only not_choice (retry_default E call)"
  using raises_retry_loop unfolding raises_only_def retry_default_def retry_rate_limited_def by blast

text \<open>Reading and writing the session file raises no error of the account choice either.\<close>

lemma load_not_choice: "load_session repr_of d f = Inl e \<Longrightarrow> not_choice e"
  by (auto simp: load_session_def not_choice_def split: read_result.splits json.splits option.splits
      if_splits sum.splits elim!: json_int.elims)

lemma save_not_choice: "save_session ts d tmp fault f = (Inl e, f') \<Longrightarrow> not_choice e"
  by (auto simp: save_session_def old_raw_def not_choice_def Let_def
      split: read_result.splits json.splits fault.splits sum.splits)

lemma raises_refresh:
  assumes E: "wire_answers E" shows "raises_only not_choice (refresh_and_persist E repr_of cfg w)"
proof -
  have lift: "raises_only not_choice (seq (asks (\<lambda>s. load_session repr_of (demo cfg) (store (base s)))) lift_result)"
    unfolding raises_only_def
  proof (intro allI impI)
    fix s e t
    assume "seq (asks (\<lambda>s. load_session repr_of (demo cfg) (store (base s)))) lift_result s = (Inl e, t)"
    then have "load_session repr_of (demo cfg) (store (base s)) = Inl e"
      by (auto simp: lift_result_def split: sum.splits)
    then show "not_choice e" by (rule load_not_choice)
  qed
  have adopt: "raises_only not_choice (adopt_rotated_session repr_of cfg)"
  proof -
    have "adopt_rotated_session repr_of cfg =
      seq (seq (asks (\<lambda>s. load_session repr_of (demo cfg) (store (base s)))) lift_result) (\<lambda>stored.
         case stored of
           None \<Rightarrow> ret False
         | Some st \<Rightarrow>
             if refresh_token st = [] then ret False
             else seq (asks (\<lambda>s. session_pair (base s))) (\<lambda>pair.
                  if pair_of st = pair then ret False
                  else seq (on_base (\<lambda>b. b\<lparr>tokens := st, session_pair := pair_of st\<rparr>)) (\<lambda>_. ret True)))"
      by (unfold adopt_rotated_session_def seq_assoc) (rule refl)
    then show ?thesis using lift by (auto intro!: raises_seq split: option.split)
  qed
  have save: "raises_only not_choice (save_current E cfg)"
    unfolding raises_only_def save_current_def by (auto dest: save_not_choice split: prod.splits)
  have via: "raises_only not_choice (refresh_via_socket E w old)" for old
    unfolding refresh_via_socket_def
    by (rule raises_seq [OF raises_send [OF E]]) (auto split: msg.split intro!: raises_throw)
  define rest where "rest = seq (adopt_rotated_session repr_of cfg) (\<lambda>adopted.
         if adopted then ret ()
         else seq (asks (\<lambda>s. refresh_token (tokens (base s)))) (\<lambda>old.
              seq (refresh_via_socket E w old) (\<lambda>fresh.
              seq (on_base (\<lambda>b. b\<lparr>tokens := fresh\<rparr>)) (\<lambda>_.
              seq (save_current E cfg) (\<lambda>_.
              on_base (\<lambda>b. b\<lparr>session_pair := pair_of (tokens b)\<rparr>))))))"
  have rest: "raises_only not_choice rest"
    unfolding rest_def using adopt via save by (auto intro!: raises_seq)
  have task: "not_choice e" if "refresh_task E repr_of cfg w s = (Inl e, t)" for s e t
  proof -
    have "refresh_task E repr_of cfg w s =
          seq (suspend E) (\<lambda>_. case lock_error E (waits s) of Some e \<Rightarrow> throw e | None \<Rightarrow> rest) s"
      unfolding refresh_task_def rest_def by (simp only: seq_asks)
    moreover have "raises_only not_choice (case lock_error E (waits s) of Some e \<Rightarrow> throw e | None \<Rightarrow> rest)"
      using rest E wire_not_choice unfolding wire_answers_def
      by (auto split: option.split intro!: raises_throw)
    ultimately show ?thesis
      using raises_onlyD [OF raises_seq [OF raises_suspend]] that by metis
  qed
  show ?thesis
    unfolding raises_only_def refresh_and_persist_def shield_def
    using task by (auto split: prod.splits option.splits if_splits)
qed

lemma raises_list_accounts:
  assumes E: "wire_answers E" shows "raises_only not_choice (list_accounts E repr_of cfg w)"
proof -
  let ?att = "retry_default E (seq (asks (\<lambda>s. access_token (tokens (base s))))
      (\<lambda>tok. send_request E w False (ProtoOAGetAccountListByAccessTokenReq tok)))"
  have att: "raises_only not_choice ?att"
    using raises_send [OF E] by (auto intro!: raises_retry_default raises_seq)
  have "raises_only not_choice (token_call E repr_of cfg w
      (\<lambda>tok. send_request E w False (ProtoOAGetAccountListByAccessTokenReq tok)))"
    unfolding token_call_def Let_def
  proof (rule raises_catch [OF att])
    fix e assume e: "not_choice e"
    have t: "raises_only not_choice (throw e)" using e by (rule raises_throw)
    show "raises_only not_choice
       (case e of CTraderProtocolError code desc r \<Rightarrow>
           seq (asks (\<lambda>s. refresh_token (tokens (base s)))) (\<lambda>rt.
              if is_rate_limited code \<or> rt = [] then throw e
              else seq (refresh_and_persist E repr_of cfg w) (\<lambda>_. ?att))
        | _ \<Rightarrow> throw e)"
      using t att raises_refresh [OF E] by (auto split: exn.split intro!: raises_seq)
  qed
  then show ?thesis unfolding list_accounts_def
    by (rule raises_seq) (auto simp: accounts_of_def split: msg.split intro!: raises_throw)
qed

text \<open>
  What an empty account list means. After an empty listing the connection set-up refreshes the
  token pair and lists again. A result is a listing with an account of the host's kind. The retryable
  "accounts unavailable" error is raised only after a refresh the venue honoured; the permanent "no trading
  accounts" error only without a refresh token or after a refresh the venue rejected with a protocol
  error.
\<close>

theorem empty_listing_classified:
  assumes "wire_answers E" and "relist_after_refresh E repr_of cfg w s = (r, t)"
  shows "(\<forall>accounts. r = Inr accounts \<longrightarrow> grant_pool cfg accounts \<noteq> [])
     \<and> (\<forall>kind. r = Inl (CTraderAccountsUnavailableError kind) \<longrightarrow>
          kind = account_kind cfg \<and> (\<exists>u. refresh_and_persist E repr_of cfg w s = (Inr (), u)))
     \<and> (\<forall>code d. r = Inl (CTraderAuthError code d) \<longrightarrow> code = ''NO_TRADING_ACCOUNTS''
          \<and> (refresh_token (tokens (base s)) = []
             \<or> (\<exists>c x h u. refresh_and_persist E repr_of cfg w s = (Inl (CTraderProtocolError c x h), u))))"
proof (cases "refresh_token (tokens (base s)) = []")
  case True
  with assms(2) show ?thesis by (auto simp: relist_after_refresh_def Let_def)
next
  case False
  obtain q u where ref: "refresh_and_persist E repr_of cfg w s = (q, u)" by fastforce
  show ?thesis
  proof (cases q)
    case (Inl e)
    have e: "not_choice e" using raises_onlyD [OF raises_refresh [OF assms(1)] ref [unfolded Inl]] .
    with assms(2) False ref Inl show ?thesis
      by (cases e) (auto simp: relist_after_refresh_def Let_def seq_def catch_def)
  next
    case (Inr x)
    obtain p v where l: "list_accounts E repr_of cfg w u = (p, v)" by fastforce
    have run: "(r, t) = (case p of Inl e \<Rightarrow> (Inl e, v)
        | Inr accounts \<Rightarrow> (if grant_pool cfg accounts = []
             then (Inl (CTraderAccountsUnavailableError (account_kind cfg)), v) else (Inr accounts, v)))"
      using assms(2) False ref Inr l
      by (auto simp: relist_after_refresh_def Let_def seq_def catch_def split: sum.splits if_splits)
    have "not_choice e" if "p = Inl e" for e
      using raises_onlyD [OF raises_list_accounts [OF assms(1)]] l that by blast
    then show ?thesis using run ref Inr
      by (cases p) (auto split: if_splits simp: not_choice_def)
  qed
qed

lemma empty_listing_classified_witness:
  "\<exists>r t. relist_after_refresh demo_fine (\<lambda>_. []) (demo_config) 1
        (demo_run\<lparr>base := demo_base\<lparr>tokens := demo_tokens\<lparr>refresh_token := []\<rparr>\<rparr>\<rparr>) = (r, t)
     \<and> (\<forall>accounts. r = Inr accounts \<longrightarrow> grant_pool demo_config accounts \<noteq> [])"
proof -
  have w: "wire_answers demo_fine" by (simp add: wire_answers_def demo_fine_def demo_outside_def)
  obtain r t where run: "relist_after_refresh demo_fine (\<lambda>_. []) (demo_config) 1
        (demo_run\<lparr>base := demo_base\<lparr>tokens := demo_tokens\<lparr>refresh_token := []\<rparr>\<rparr>\<rparr>) = (r, t)" by fastforce
  show ?thesis using empty_listing_classified [OF w run] run by blast
qed


section \<open>The router\<close>

definition is_spot :: "msg \<Rightarrow> bool" where
  "is_spot m \<longleftrightarrow> (case m of ProtoOASpotEvent _ \<Rightarrow> True | _ \<Rightarrow> False)"

text \<open>The order events of the account this run trades (all of them while it is not known).\<close>

definition own_order_event :: "int option \<Rightarrow> msg \<Rightarrow> bool" where
  "own_order_event live m \<longleftrightarrow>
     (case m of ProtoOAExecutionEvent x \<Rightarrow> live = None \<or> live = Some (x_account x)
              | ProtoOAOrderErrorEvent e \<Rightarrow> live = None \<or> live = Some (e_account e)
              | _ \<Rightarrow> False)"

text \<open>The push that asks for a re-authorisation of the live account, and how.\<close>

definition deauth_push :: "int option \<Rightarrow> msg \<Rightarrow> (bool \<times> bool) option" where
  "deauth_push live m =
     (case m of ProtoOAAccountDisconnectEvent acc \<Rightarrow> (if live = Some acc then Some (False, False) else None)
              | ProtoOAAccountsTokenInvalidatedEvent accs _ \<Rightarrow>
                  (case live of Some acc \<Rightarrow> (if acc \<in> set accs then Some (True, False) else None)
                              | None \<Rightarrow> None)
              | ProtoOAClientDisconnectEvent _ \<Rightarrow> Some (False, True)
              | _ \<Rightarrow> None)"

lemma route_event_eq:
  "route_event live m q =
     (case deauth_push live m of
        Some (f, a) \<Rightarrow> schedule_reauth f a q
      | None \<Rightarrow> q\<lparr>spot_queue := (if is_spot m then map_option (\<lambda>l. l @ [m]) (spot_queue q) else spot_queue q),
                exec_queue := (if own_order_event live m then map_option (\<lambda>l. l @ [m]) (exec_queue q)
                               else exec_queue q)\<rparr>)"
  by (cases m) (auto simp: route_event_def deauth_push_def is_spot_def own_order_event_def Let_def
      split: option.split)

lemma deauth_not_queued: "deauth_push live m \<noteq> None \<Longrightarrow> \<not> is_spot m \<and> \<not> own_order_event live m"
  by (cases m) (auto simp: deauth_push_def is_spot_def own_order_event_def)

lemma schedule_fields [simp]:
  "spot_queue (schedule_reauth f a q) = spot_queue q" "exec_queue (schedule_reauth f a q) = exec_queue q"
  by (simp_all add: schedule_reauth_def)

lemma map_option_append [simp]:
  "map_option (\<lambda>l. l @ ys) (map_option (\<lambda>l. l @ xs) v) = map_option (\<lambda>l. l @ (xs @ ys)) v"
  by (cases v) simp_all

lemma router_queues:
  "spot_queue (event_router_loop live ms q)
     = map_option (\<lambda>l. l @ filter is_spot (map snd ms)) (spot_queue q)
   \<and> exec_queue (event_router_loop live ms q)
     = map_option (\<lambda>l. l @ filter (own_order_event live) (map snd ms)) (exec_queue q)"
proof (induction ms arbitrary: q)
  case Nil
  then show ?case by (simp add: option.map_id0 [unfolded id_def] option.map_ident)
next
  case (Cons em ms)
  obtain e m where em: "em = (e, m)" by fastforce
  define q1 where "q1 = (if e then q\<lparr>reauth_running := False\<rparr> else q)"
  have q1: "spot_queue q1 = spot_queue q" "exec_queue q1 = exec_queue q" by (simp_all add: q1_def)
  have step: "event_router_loop live (em # ms) q = event_router_loop live ms (route_event live m q1)"
    by (simp add: em q1_def)
  show ?case
  proof (cases "deauth_push live m")
    case None
    with Cons.IH [of "route_event live m q1"] q1 show ?thesis
      unfolding step route_event_eq by (simp add: em)
  next
    case (Some fa)
    with Cons.IH [of "route_event live m q1"] q1 deauth_not_queued [of live m] show ?thesis
      unfolding step route_event_eq by (cases fa) (simp add: em)
  qed
qed

text \<open>How many re-authorisations the messages may start: one when none is running, and one more for
  each that ends.\<close>

lemma router_scheduled:
  "\<exists>l. scheduled (event_router_loop live ms q) = scheduled q @ l
     \<and> (\<forall>x \<in> set l. \<exists>m \<in> set (map snd ms). deauth_push live m = Some x)
     \<and> length l \<le> length (filter fst ms) + (if reauth_running q then 0 else 1)
     \<and> ((\<exists>m \<in> set (map snd ms). deauth_push live m \<noteq> None) \<longrightarrow> reauth_running q \<or> l \<noteq> [])"
proof (induction ms arbitrary: q)
  case Nil
  then show ?case by simp
next
  case (Cons em ms)
  obtain e m where em: "em = (e, m)" by fastforce
  define q1 where "q1 = (if e then q\<lparr>reauth_running := False\<rparr> else q)"
  have step: "event_router_loop live (em # ms) q = event_router_loop live ms (route_event live m q1)"
    by (simp add: em q1_def)
  obtain l where l: "scheduled (event_router_loop live ms (route_event live m q1))
         = scheduled (route_event live m q1) @ l"
    "\<forall>x \<in> set l. \<exists>m \<in> set (map snd ms). deauth_push live m = Some x"
    "length l \<le> length (filter fst ms) + (if reauth_running (route_event live m q1) then 0 else 1)"
    "(\<exists>m \<in> set (map snd ms). deauth_push live m \<noteq> None) \<longrightarrow> reauth_running (route_event live m q1) \<or> l \<noteq> []"
    using Cons.IH [of "route_event live m q1"] by blast
  consider "deauth_push live m = None" | f a where "deauth_push live m = Some (f, a)" "reauth_running q1"
    | f a where "deauth_push live m = Some (f, a)" "\<not> reauth_running q1" by (metis option.exhaust surj_pair)
  then show ?case
  proof cases
    case 1
    then have "scheduled (route_event live m q1) = scheduled q"
      "reauth_running (route_event live m q1) = reauth_running q1" by (simp_all add: route_event_eq q1_def)
    then show ?thesis unfolding step using l 1
      by (intro exI [of _ l]) (auto simp: em q1_def split: if_splits)
  next
    case 2
    then have "route_event live m q1 = q1" by (simp add: route_event_eq schedule_reauth_def)
    moreover have "scheduled q1 = scheduled q" "reauth_running q" "\<not> e"
      using 2(2) by (auto simp: q1_def split: if_splits)
    ultimately show ?thesis unfolding step using l 2
      by (intro exI [of _ l]) (auto simp: em q1_def)
  next
    case 3
    then have "scheduled (route_event live m q1) = scheduled q @ [(f, a)]"
      "reauth_running (route_event live m q1)" by (simp_all add: route_event_eq schedule_reauth_def q1_def)
    moreover have "e \<or> \<not> reauth_running q" using 3(2) by (auto simp: q1_def split: if_splits)
    ultimately show ?thesis unfolding step using l 3(1)
      by (intro exI [of _ "(f, a) # l"]) (auto simp: em)
  qed
qed

text \<open>
  The event router. Over any sequence of unsolicited messages the quote queue receives exactly the
  spot events and the order queue exactly the order events of the traded account, each once and in order -
  events of another authorised account never. Re-authorisations are started only for de-authorisation
  pushes that concern the traded account, with the repair that push asks for, at most one at a time, and
  such a push is never ignored while none is running.
\<close>

theorem router_demultiplexes:
  "let q' = event_router_loop live ms q in
     spot_queue q' = map_option (\<lambda>l. l @ filter is_spot (map snd ms)) (spot_queue q)
   \<and> exec_queue q' = map_option (\<lambda>l. l @ filter (own_order_event live) (map snd ms)) (exec_queue q)
   \<and> (\<exists>l. scheduled q' = scheduled q @ l
        \<and> (\<forall>x \<in> set l. \<exists>m \<in> set (map snd ms). deauth_push live m = Some x)
        \<and> length l \<le> length (filter fst ms) + (if reauth_running q then 0 else 1)
        \<and> ((\<exists>m \<in> set (map snd ms). deauth_push live m \<noteq> None) \<longrightarrow> reauth_running q \<or> l \<noteq> []))"
  using router_queues [of live ms q] router_scheduled [of live ms q] by (simp add: Let_def)

lemma router_demultiplexes_witness:
  "\<exists>l. scheduled (event_router_loop (Some 7)
         [(False, ProtoOAAccountDisconnectEvent 8), (False, ProtoOAAccountDisconnectEvent 7)]
         \<lparr>spot_queue = Some [], exec_queue = Some [], scheduled = [], reauth_running = False\<rparr>) = l
     \<and> l \<noteq> [] \<and> length l \<le> 1"
  using router_demultiplexes [of "Some 7"
      "[(False, ProtoOAAccountDisconnectEvent 8), (False, ProtoOAAccountDisconnectEvent 7)]"
      "\<lparr>spot_queue = Some [], exec_queue = Some [], scheduled = [], reauth_running = False\<rparr>"]
  by (auto simp: Let_def deauth_push_def)

end
