(* ===== verification/Bars.thy ===== *)
theory Bars
  imports Messages
begin

text \<open>
  Bars of \<open>provider.py\<close>: timeframe names, the decoding of trendbars and ticks, the ask side, and the live
  feed - how spot events become the stream of forming and closed bars that \<open>watch_ohlcv\<close> returns.

  A pending bar carries whether its identity is in \<open>_live_history_bar_ids\<close>. The grid of openings is a
  function \<open>following\<close>: a whole period later, or the next monthly opening (\<open>None\<close> when the zone is
  invalid), which the provider computes with the zone database. The history collection a repair asks for
  is an argument.
\<close>

section \<open>Timeframes\<close>

definition TV_TO_PERIOD :: "(string \<times> period) list" where
  "TV_TO_PERIOD =
     [(''1'', M1), (''2'', M2), (''3'', M3), (''4'', M4), (''5'', M5), (''10'', M10), (''15'', M15),
      (''30'', M30), (''60'', H1), (''240'', H4), (''720'', H12), (''1D'', D1), (''1W'', W1), (''1M'', MN1)]"

fun period_name :: "period \<Rightarrow> string" where
  "period_name M1 = ''M1''" | "period_name M2 = ''M2''" | "period_name M3 = ''M3''"
| "period_name M4 = ''M4''" | "period_name M5 = ''M5''" | "period_name M10 = ''M10''"
| "period_name M15 = ''M15''" | "period_name M30 = ''M30''" | "period_name H1 = ''H1''"
| "period_name H4 = ''H4''" | "period_name H12 = ''H12''" | "period_name D1 = ''D1''"
| "period_name W1 = ''W1''" | "period_name MN1 = ''MN1''"

definition upper_char :: "char \<Rightarrow> char" where
  "upper_char c = (let n = (of_char c :: nat) in if 97 \<le> n \<and> n \<le> 122 then char_of (n - 32) else c)"

definition to_tradingview_timeframe :: "string \<Rightarrow> exn + string" where
  "to_tradingview_timeframe tf =
     (case map_of (map (\<lambda>(tv, p). (period_name p, tv)) TV_TO_PERIOD) (map upper_char tf) of
        Some tv \<Rightarrow> Inr tv
      | None \<Rightarrow> Inl (ValueError (''Invalid cTrader timeframe: '' @ tf)))"

definition to_exchange_timeframe :: "string \<Rightarrow> exn + period" where
  "to_exchange_timeframe tf =
     (case map_of TV_TO_PERIOD tf of
        Some p \<Rightarrow> Inr p
      | None \<Rightarrow> Inl (ValueError (''Unsupported timeframe for cTrader: '' @ tf)))"

section \<open>Decoding\<close>

definition PRICE_SCALE :: rat where "PRICE_SCALE = 100000"

record ohlcv =
  b_time :: int
  b_open :: rat
  b_high :: rat
  b_low :: rat
  b_close :: rat
  b_volume :: rat
  b_closed :: bool
  b_ask :: "(rat \<times> rat \<times> rat \<times> rat \<times> rat) option"   \<comment> \<open>ask open, high, low, close and the spread\<close>

definition opening_of :: "trendbar \<Rightarrow> int" where
  "opening_of bar = tb_minutes bar * 60000"

definition price_of :: "int \<Rightarrow> rat" where
  "price_of raw = fdiv (of_int raw) PRICE_SCALE"

definition decode_trendbar :: "bool \<Rightarrow> trendbar \<Rightarrow> ohlcv" where
  "decode_trendbar fin bar =
     (let low = tb_low bar in
      \<lparr>b_time = opening_of bar,
       b_open = price_of (low + tb_deltaOpen bar),
       b_high = price_of (low + tb_deltaHigh bar),
       b_low = price_of low,
       b_close = price_of (low + tb_deltaClose bar),
       b_volume = fl (of_int (tb_volume bar)),
       b_closed = fin, b_ask = None\<rparr>)"

fun decode_ticks_from :: "int \<Rightarrow> int \<Rightarrow> (int \<times> int) list \<Rightarrow> (int \<times> rat) list" where
  "decode_ticks_from ts raw [] = []"
| "decode_ticks_from ts raw ((dt, dp) # ticks) =
     (ts + dt, price_of (raw + dp)) # decode_ticks_from (ts + dt) (raw + dp) ticks"

definition decode_ticks :: "(int \<times> int) list \<Rightarrow> (int \<times> rat) list" where
  "decode_ticks ticks = decode_ticks_from 0 0 ticks"

definition attach_ask :: "ohlcv \<Rightarrow> (rat \<times> rat \<times> rat \<times> rat) option \<Rightarrow> ohlcv" where
  "attach_ask candle ask =
     (case ask of
        None \<Rightarrow> candle
      | Some (ao, ah, al, ac) \<Rightarrow> candle\<lparr>b_ask := Some (ao, ah, al, ac, fsub ac (b_close candle))\<rparr>)"

section \<open>The live feed\<close>

record feed =
  pending_bars :: "(bool \<times> ohlcv) list"
  current_ts :: "int option"
  current_bar :: "ohlcv option"
  last_closed :: "ohlcv option"
  gap_cursor :: "int option"
  last_bid :: "rat option"
  ask_bar :: "(rat \<times> rat \<times> rat \<times> rat) option"

definition init_feed :: feed where
  "init_feed = \<lparr>pending_bars = [], current_ts = None, current_bar = None, last_closed = None,
     gap_cursor = None, last_bid = None, ask_bar = None\<rparr>"

text \<open>What \<open>connect\<close> drops before it opens a fresh connection.\<close>

definition reset_feed :: "feed \<Rightarrow> feed" where
  "reset_feed f = f\<lparr>pending_bars := [], current_ts := None, current_bar := None, last_bid := None,
     ask_bar := None\<rparr>"

definition track_ask :: "rat \<Rightarrow> feed \<Rightarrow> feed" where
  "track_ask ask f =
     f\<lparr>ask_bar := (case ask_bar f of
          None \<Rightarrow> Some (ask, ask, ask, ask)
        | Some (ao, ah, al, ac) \<Rightarrow> Some (ao, max ah ask, min al ask, ask))\<rparr>"

definition reset_quotes :: "feed \<Rightarrow> feed" where
  "reset_quotes f = f\<lparr>last_bid := None, ask_bar := None\<rparr>"

definition finalize_bar :: "ohlcv \<Rightarrow> bool \<Rightarrow> feed \<Rightarrow> ohlcv" where
  "finalize_bar candle fin f =
     (let (high, low, close) =
            (case last_bid f of
               None \<Rightarrow> (b_high candle, b_low candle, b_close candle)
             | Some bid \<Rightarrow> (max (b_high candle) bid, min (b_low candle) bid, bid));
          candle1 = candle\<lparr>b_high := high, b_low := low, b_close := close, b_closed := fin\<rparr>
      in case ask_bar f of
           None \<Rightarrow> candle1
         | Some (ao, ah, al, ac) \<Rightarrow> candle1\<lparr>b_ask := Some (ao, ah, al, ac, fsub ac close)\<rparr>)"

definition ingest_live_bar :: "trendbar \<Rightarrow> feed \<Rightarrow> bool \<times> feed" where
  "ingest_live_bar bar f =
     (let candle = decode_trendbar False bar; t = b_time candle
      in if (case last_closed f of None \<Rightarrow> False | Some b \<Rightarrow> t \<le> b_time b) then (False, f)
         else if (case current_ts f of None \<Rightarrow> False | Some c \<Rightarrow> t < c) then (False, f)
         else
           let f1 = (if gap_cursor f = None then f\<lparr>gap_cursor := Some t\<rparr> else f);
               f2 = (if (case current_ts f1 of None \<Rightarrow> False | Some c \<Rightarrow> c < t)
                     then reset_quotes
                            (case current_bar f1 of
                               None \<Rightarrow> f1
                             | Some cur \<Rightarrow> f1\<lparr>pending_bars := pending_bars f1
                                             @ [(False, finalize_bar cur True f1)]\<rparr>)
                     else f1)
           in (True, f2\<lparr>current_ts := Some t, current_bar := Some candle\<rparr>))"

text \<open>One spot event. The trendbars of the subscribed period, the last one of each opening, in order of
  the openings.\<close>

definition dedup_trendbars :: "period \<Rightarrow> trendbar list \<Rightarrow> trendbar list" where
  "dedup_trendbars expected bars =
     (let kept = filter (\<lambda>b. tb_period b = expected) bars;
          last_of = map_of (map (\<lambda>b. (opening_of b, b)) (rev kept))
      in map (\<lambda>t. the (last_of t)) (sort (remdups (map opening_of kept))))"

fun ingest_all :: "trendbar list \<Rightarrow> bool \<Rightarrow> feed \<Rightarrow> bool \<times> feed" where
  "ingest_all [] accepted f = (accepted, f)"
| "ingest_all (b # bs) accepted f =
     (case ingest_live_bar b f of (ok, f') \<Rightarrow> ingest_all bs (ok \<or> accepted) f')"

definition handle_spot :: "period \<Rightarrow> int \<Rightarrow> spot_event \<Rightarrow> feed \<Rightarrow> feed" where
  "handle_spot expected watched ev f =
     (if sp_symbolId ev \<noteq> watched then f
      else case ingest_all (dedup_trendbars expected (sp_trendbars ev)) False f of
        (accepted, f1) \<Rightarrow>
          (if sp_trendbars ev \<noteq> [] \<and> \<not> accepted then f1
           else
             let f2 = (if sp_bid ev \<noteq> 0 then f1\<lparr>last_bid := Some (price_of (sp_bid ev))\<rparr> else f1);
                 f3 = (if sp_ask ev \<noteq> 0 then track_ask (price_of (sp_ask ev)) f2 else f2)
             in case current_bar f3 of
                  Some cur \<Rightarrow> (if accepted
                              then f3\<lparr>pending_bars := pending_bars f3 @ [(False, finalize_bar cur False f3)]\<rparr>
                              else f3)
                | None \<Rightarrow> f3))"

section \<open>Delivery\<close>

text \<open>The outcome of one turn of the outer loop of \<open>watch_ohlcv\<close> on a non-empty queue: a bar is
  returned, a stale closed bar is dropped, or the turn raises.\<close>

datatype delivery = Delivered ohlcv | Dropped | Failed_delivery exn

record collection =
  c_bars :: "ohlcv list"
  c_complete :: bool

text \<open>The end of \<open>_repair_connected_gap\<close>, after the collection; \<open>changed\<close> is its check that the wire, the
  subscription, the anchor, the generation and the front of the queue are still the ones it started with.\<close>

definition repair_gap :: "bool \<Rightarrow> int \<Rightarrow> int \<Rightarrow> collection \<Rightarrow> feed \<Rightarrow> exn + feed" where
  "repair_gap changed anchor candidate coll f =
     (let recovered = filter (\<lambda>b. anchor < b_time b \<and> b_time b < candidate) (c_bars coll)
      in if changed
         then Inl (CTraderConnectionError ''connected gap state changed during history repair'')
         else if \<not> c_complete coll
         then Inl (CTraderConnectionError ''connected gap history coverage remained incomplete'')
         else Inr (f\<lparr>pending_bars := map (Pair True) recovered @ pending_bars f\<rparr>))"

definition pop_delivery :: "feed \<Rightarrow> delivery \<times> feed" where
  "pop_delivery f =
     (case pending_bars f of
        [] \<Rightarrow> (Dropped, f)
      | (h, b) # rest \<Rightarrow>
          (Delivered b, (if b_closed b then f\<lparr>pending_bars := rest, last_closed := Some b\<rparr>
                         else f\<lparr>pending_bars := rest\<rparr>)))"

text \<open>\<open>collect anchor candidate\<close> is what \<open>_collect_live_gap_history\<close> returns for that gap, or raises.\<close>

definition watch_turn ::
    "(int \<Rightarrow> int option) \<Rightarrow> (int \<Rightarrow> int \<Rightarrow> exn + collection) \<Rightarrow> bool \<Rightarrow> feed \<Rightarrow> delivery \<times> feed" where
  "watch_turn following collect changed f =
     (case pending_bars f of
        [] \<Rightarrow> (Dropped, f)
      | (hist, cand) # rest \<Rightarrow>
          (case last_closed f of
             Some anchor \<Rightarrow>
               (if b_closed cand \<and> \<not> hist then
                  if b_time cand \<le> b_time anchor then (Dropped, f\<lparr>pending_bars := rest\<rparr>)
                  else case following (b_time anchor) of
                         None \<Rightarrow> (Failed_delivery (CTraderConnectionError ''monthly live cursor timezone is invalid''), f)
                       | Some expected \<Rightarrow>
                           (if expected < b_time cand then
                              case collect (b_time anchor) (b_time cand) of
                                Inl e \<Rightarrow> (Failed_delivery e, f)
                              | Inr coll \<Rightarrow>
                                  (case repair_gap changed (b_time anchor) (b_time cand) coll f of
                                     Inl e \<Rightarrow> (Failed_delivery e, f)
                                   | Inr f1 \<Rightarrow> pop_delivery f1)
                            else pop_delivery f)
                else pop_delivery f)
           | None \<Rightarrow> pop_delivery f))"

text \<open>The reconnect backfill queues the bars of a complete collection; the feed was reset before it.\<close>

definition queue_backfill :: "collection \<Rightarrow> feed \<Rightarrow> exn + feed" where
  "queue_backfill coll f =
     (if \<not> c_complete coll then Inl (CTraderConnectionError ''reconnect history coverage remained incomplete'')
      else Inr (f\<lparr>pending_bars := pending_bars f @ map (Pair True) (c_bars coll)\<rparr>))"

definition backfill_cursor :: "(int \<Rightarrow> int option) \<Rightarrow> feed \<Rightarrow> int option" where
  "backfill_cursor following f =
     (case last_closed f of None \<Rightarrow> gap_cursor f | Some b \<Rightarrow> following (b_time b))"

end
