(* ===== verification/History.thy ===== *)
theory History
  imports Bars
begin

text \<open>
  The history downloads of \<open>provider.py\<close>: reading one window of trendbars from a venue that caps its
  responses, the ask side rebuilt from ticks, and the download loop over the windows.

  A dictionary that is filled key by key is the list of its entries in insertion order. \<open>ask\<close> is the
  history read under \<open>_retry_rate_limited\<close>, indexed by the number of the read: the trendbars of the
  response with its \<open>hasMore\<close>, or the exception.
\<close>

type_synonym opened = "(int \<times> trendbar) list"
type_synonym history = "nat \<Rightarrow> int \<Rightarrow> int \<Rightarrow> exn + trendbar list \<times> bool"

section \<open>One window\<close>

text \<open>The bars of one response: the dictionary, the oldest opening and whether anything was new.\<close>

fun take_bars :: "trendbar list \<Rightarrow> opened \<times> int \<times> bool \<Rightarrow> opened \<times> int \<times> bool" where
  "take_bars [] acc = acc"
| "take_bars (b # bs) (bars, oldest, added) =
     take_bars bs
       (if map_of bars (opening_of b) = None
        then (bars @ [(opening_of b, b)], min oldest (opening_of b), True)
        else (bars, min oldest (opening_of b), added))"

text \<open>The loop from read number \<open>k\<close> on; \<open>None\<close> when the fuel, one unit per read, is used up.\<close>

fun fetch_loop ::
    "nat \<Rightarrow> history \<Rightarrow> int \<Rightarrow> int \<Rightarrow> bool \<Rightarrow> opened \<Rightarrow> nat \<Rightarrow> ((exn + opened \<times> bool) \<times> nat) option" where
  "fetch_loop 0 ask from_ms upper narrowed bars k =
     (if from_ms < upper then None else Some (Inr (bars, False), k))"
| "fetch_loop (Suc fuel) ask from_ms upper narrowed bars k =
     (if from_ms < upper then
        (case ask k from_ms upper of
           Inl e \<Rightarrow> Some (Inl e, Suc k)
         | Inr (rows, has_more) \<Rightarrow>
             (case take_bars rows (bars, upper, False) of
                (bars', oldest, added) \<Rightarrow>
                  (if narrowed \<and> \<not> added then Some (Inr (bars', False), Suc k)
                   else if \<not> has_more then Some (Inr (bars', True), Suc k)
                   else if \<not> added \<or> oldest \<le> from_ms then Some (Inr (bars', False), Suc k)
                   else fetch_loop fuel ask from_ms oldest True bars' (Suc k))))
      else Some (Inr (bars, False), k))"

definition fetch_trendbar_window ::
    "nat \<Rightarrow> history \<Rightarrow> int \<Rightarrow> int \<Rightarrow> nat \<Rightarrow> ((exn + opened \<times> bool) \<times> nat) option" where
  "fetch_trendbar_window fuel ask from_ms to_ms k = fetch_loop fuel ask from_ms to_ms False [] k"

section \<open>The ask side\<close>

text \<open>\<open>bisect_right\<close> on an ascending list, and a bucket with its earliest and latest tick.\<close>

definition bisect_right :: "int list \<Rightarrow> int \<Rightarrow> nat" where
  "bisect_right xs x = length (takeWhile (\<lambda>y. y \<le> x) xs)"

record bucket =
  k_min_ts :: int
  k_open :: rat
  k_max_ts :: int
  k_close :: rat
  k_high :: rat
  k_low :: rat

definition bucket_tick :: "int \<times> rat \<Rightarrow> bucket option \<Rightarrow> bucket" where
  "bucket_tick tick b =
     (case tick of (t, p) \<Rightarrow>
        (case b of
           None \<Rightarrow> \<lparr>k_min_ts = t, k_open = p, k_max_ts = t, k_close = p, k_high = p, k_low = p\<rparr>
         | Some b \<Rightarrow>
             let b1 = (if k_high b < p then b\<lparr>k_high := p\<rparr> else b);
                 b2 = (if p < k_low b1 then b1\<lparr>k_low := p\<rparr> else b1);
                 b3 = (if t < k_min_ts b2 then b2\<lparr>k_min_ts := t, k_open := p\<rparr> else b2)
             in if k_max_ts b3 < t then b3\<lparr>k_max_ts := t, k_close := p\<rparr> else b3))"

type_synonym buckets = "int \<rightharpoonup> bucket"

definition add_tick :: "int list \<Rightarrow> int \<Rightarrow> int \<times> rat \<Rightarrow> buckets \<Rightarrow> buckets" where
  "add_tick bar_opens to_ms tick bs =
     (let index = bisect_right bar_opens (fst tick) in
      if to_ms \<le> fst tick \<or> index = 0 then bs
      else let key = bar_opens ! (index - 1) in bs(key \<mapsto> bucket_tick tick (bs key)))"

type_synonym tick_history = "nat \<Rightarrow> int \<Rightarrow> int \<Rightarrow> exn + (int \<times> int) list \<times> bool"

fun ask_loop ::
    "nat \<Rightarrow> tick_history \<Rightarrow> int list \<Rightarrow> int \<Rightarrow> int \<Rightarrow> int \<Rightarrow> buckets \<Rightarrow> nat \<Rightarrow> ((exn + buckets) \<times> nat) option"
  where
  "ask_loop 0 ask bar_opens from_ms to_ms upper bs k =
     (if from_ms < upper then None else Some (Inr bs, k))"
| "ask_loop (Suc fuel) ask bar_opens from_ms to_ms upper bs k =
     (if from_ms < upper then
        (case ask k from_ms upper of
           Inl e \<Rightarrow> Some (Inl e, Suc k)
         | Inr (raw, has_more) \<Rightarrow>
             (let ticks = decode_ticks raw in
              if ticks = [] then Some (Inr bs, Suc k)
              else let bs' = fold (add_tick bar_opens to_ms) ticks bs in
                   if \<not> has_more then Some (Inr bs', Suc k)
                   else ask_loop fuel ask bar_opens from_ms to_ms (fst (last ticks) - 1) bs' (Suc k)))
      else Some (Inr bs, k))"

definition quotes_of :: "buckets \<Rightarrow> int \<Rightarrow> (rat \<times> rat \<times> rat \<times> rat) option" where
  "quotes_of bs key = map_option (\<lambda>b. (k_open b, k_high b, k_low b, k_close b)) (bs key)"

definition fetch_ask_bars ::
    "nat \<Rightarrow> tick_history \<Rightarrow> int \<Rightarrow> int \<Rightarrow> int list \<Rightarrow> nat
     \<Rightarrow> ((exn + (int \<Rightarrow> (rat \<times> rat \<times> rat \<times> rat) option)) \<times> nat) option" where
  "fetch_ask_bars fuel ask from_ms to_ms bar_opens k =
     (if bar_opens = [] then Some (Inr (\<lambda>_. None), k)
      else case ask_loop fuel ask bar_opens from_ms to_ms to_ms Map.empty k of
             None \<Rightarrow> None
           | Some (Inl e, k') \<Rightarrow> Some (Inl e, k')
           | Some (Inr bs, k') \<Rightarrow> Some (Inr (quotes_of bs), k'))"

section \<open>The download\<close>

text \<open>Saving the bars of one page in order, those inside the range and newer than the last saved.\<close>

fun save_bars ::
    "int \<Rightarrow> int \<Rightarrow> (int \<Rightarrow> (rat \<times> rat \<times> rat \<times> rat) option) \<Rightarrow> trendbar list \<Rightarrow> int option \<Rightarrow> ohlcv list
     \<Rightarrow> int option \<times> ohlcv list" where
  "save_bars from_ms to_ms ask_of [] last_saved saved = (last_saved, saved)"
| "save_bars from_ms to_ms ask_of (b # bs) last_saved saved =
     (let candle = decode_trendbar True b; t = b_time candle
      in if from_ms \<le> t \<and> t < to_ms \<and> (case last_saved of None \<Rightarrow> True | Some l \<Rightarrow> l < t)
         then save_bars from_ms to_ms ask_of bs (Some t) (saved @ [attach_ask candle (ask_of t)])
         else save_bars from_ms to_ms ask_of bs last_saved saved)"

text \<open>The state of the loop over the windows: the cursor, the last saved opening, what was saved, and the
  numbers of the next trendbar and tick reads.\<close>

record download =
  cursor :: int
  last_saved :: "int option"
  saved :: "ohlcv list"
  reads_done :: nat
  ticks_done :: nat

text \<open>One window: the next state, or the exception a read raised. \<open>reads\<close> bounds the reads of the window,
  \<open>None\<close> says it did not suffice.\<close>

definition download_page ::
    "nat \<Rightarrow> history \<Rightarrow> tick_history \<Rightarrow> bool \<Rightarrow> int \<Rightarrow> int \<Rightarrow> int \<Rightarrow> download \<Rightarrow> (exn + download) option" where
  "download_page reads ask tick_ask extra window from_ms to_ms d =
     (let end_ms = min (cursor d + window * 1000) to_ms in
      case fetch_trendbar_window reads ask (cursor d) end_ms (reads_done d) of
        None \<Rightarrow> None
      | Some (Inl e, _) \<Rightarrow> Some (Inl e)
      | Some (Inr (all_bars, covered), k) \<Rightarrow>
          (let by_open = filter (\<lambda>ob. cursor d \<le> fst ob) all_bars in
           if by_open = [] then Some (Inr (d\<lparr>cursor := end_ms, reads_done := k\<rparr>))
           else
             let opens = sort (map fst by_open);
                 newest = last opens;
                 hand_back = (\<not> covered \<and> 1 < length opens);
                 resume_from = (if hand_back then newest else newest + 1);
                 ask_end = (if hand_back then newest else end_ms);
                 bar_opens = (if hand_back then butlast opens else opens);
                 bars = map (\<lambda>t. the (map_of by_open t)) bar_opens
             in case (if extra then fetch_ask_bars reads tick_ask (cursor d) ask_end bar_opens (ticks_done d)
                      else Some (Inr (\<lambda>_. None), ticks_done d)) of
                  None \<Rightarrow> None
                | Some (Inl e, _) \<Rightarrow> Some (Inl e)
                | Some (Inr ask_of, j) \<Rightarrow>
                    (case save_bars from_ms to_ms ask_of bars (last_saved d) (saved d) of
                       (last', saved') \<Rightarrow>
                         Some (Inr \<lparr>cursor = max resume_from (cursor d + 1), last_saved = last',
                                    saved = saved', reads_done = k, ticks_done = j\<rparr>))))"

text \<open>The loop; the bars saved before a read raises stay saved.\<close>

fun download_loop ::
    "nat \<Rightarrow> nat \<Rightarrow> history \<Rightarrow> tick_history \<Rightarrow> bool \<Rightarrow> int \<Rightarrow> int \<Rightarrow> int \<Rightarrow> download
     \<Rightarrow> (exn option \<times> ohlcv list) option" where
  "download_loop fuel reads ask tick_ask extra window from_ms to_ms d =
     (if cursor d < to_ms then
        (case fuel of
           0 \<Rightarrow> None
         | Suc fuel' \<Rightarrow>
             (case download_page reads ask tick_ask extra window from_ms to_ms d of
                None \<Rightarrow> None
              | Some (Inl e) \<Rightarrow> Some (Some e, saved d)
              | Some (Inr d') \<Rightarrow> download_loop fuel' reads ask tick_ask extra window from_ms to_ms d'))
      else Some (None, saved d))"

declare download_loop.simps [simp del]

definition window_seconds :: "rat option \<Rightarrow> int option \<Rightarrow> int" where
  "window_seconds seconds limit =
     (let period_seconds = (case seconds of
            None \<Rightarrow> 60
          | Some s \<Rightarrow> max 1 (if 0 \<le> s then \<lfloor>s\<rfloor> else \<lceil>s\<rceil>));
          chunk = (case limit of None \<Rightarrow> 2000 | Some l \<Rightarrow> (if l = 0 then 2000 else l))
      in period_seconds * chunk)"

definition download_ohlcv ::
    "nat \<Rightarrow> nat \<Rightarrow> history \<Rightarrow> tick_history \<Rightarrow> bool \<Rightarrow> rat option \<Rightarrow> int \<Rightarrow> int \<Rightarrow> int option
     \<Rightarrow> (exn option \<times> ohlcv list) option" where
  "download_ohlcv fuel reads ask tick_ask extra seconds from_ms to_ms limit =
     download_loop fuel reads ask tick_ask extra (window_seconds seconds limit) from_ms to_ms
       \<lparr>cursor = from_ms, last_saved = None, saved = [], reads_done = 0, ticks_done = 0\<rparr>"

end
