(* ===== verification/Calendar.thy ===== *)
theory Calendar
  imports Bars
begin

text \<open>
  The calendar of \<open>provider.py\<close>: the venue's weekly schedule and holidays rendered as sessions in the
  provider's zone, the classification of a slot of history against them, and the monthly grid.

  Instants are milliseconds since the epoch and a local date and time is its wall-clock millisecond
  count; instants and offsets of whole seconds are meant, for which the float arithmetic of
  \<open>datetime.timestamp\<close> is exact. A zone of \<open>zoneinfo\<close> is a record of its offsets: at an instant, with the
  fold of the local time there, and at a wall time with a given fold. Two local times of the same zone
  compare and subtract by their wall clocks, as \<open>datetime\<close> does.
\<close>

section \<open>Dates\<close>

definition DAY :: int where "DAY = 86400000"

record zone =
  utc_offset :: "int \<Rightarrow> int"
  utc_fold :: "int \<Rightarrow> nat"
  wall_offset :: "int \<Rightarrow> nat \<Rightarrow> int"

definition to_wall :: "zone \<Rightarrow> int \<Rightarrow> int" where
  "to_wall z t = t + utc_offset z t"

definition to_instant :: "zone \<Rightarrow> int \<Rightarrow> nat \<Rightarrow> int" where
  "to_instant z w fld = w - wall_offset z w fld"

definition date_of :: "int \<Rightarrow> int" where "date_of w = w div DAY"
definition time_of :: "int \<Rightarrow> int" where "time_of w = w mod DAY"
definition combine :: "int \<Rightarrow> int \<Rightarrow> int" where "combine day tod = day * DAY + tod"

text \<open>Monday is 0; day 0 is Thursday, 1 January 1970.\<close>

definition weekday :: "int \<Rightarrow> int" where "weekday day = (day + 3) mod 7"

text \<open>The proleptic Gregorian calendar: the day number of 1 January, the days before each month.\<close>

definition first_day :: "int \<Rightarrow> int" where
  "first_day y = 365 * (y - 1) + (y - 1) div 4 - (y - 1) div 100 + (y - 1) div 400 - 719162"

definition leap :: "int \<Rightarrow> bool" where
  "leap y \<longleftrightarrow> y mod 4 = 0 \<and> (y mod 100 \<noteq> 0 \<or> y mod 400 = 0)"

definition month_starts :: "bool \<Rightarrow> int list" where
  "month_starts l = map (\<lambda>d. if l \<and> 59 \<le> d then d + 1 else d) [0, 31, 59, 90, 120, 151, 181, 212, 243, 273, 304, 334]"

definition day_number :: "int \<Rightarrow> nat \<Rightarrow> int \<Rightarrow> int" where
  "day_number y m d = first_day y + month_starts (leap y) ! (m - 1) + d - 1"

definition year_of :: "int \<Rightarrow> int" where
  "year_of day =
     (let y = (day + 719162) * 400 div 146097 + 1
      in if day < first_day y then y - 1 else if first_day (y + 1) \<le> day then y + 1 else y)"

definition month_of :: "int \<Rightarrow> nat" where
  "month_of day = (let y = year_of day in length (takeWhile (\<lambda>s. s \<le> day - first_day y) (month_starts (leap y))))"

definition month_day_of :: "int \<Rightarrow> int" where
  "month_day_of day = (let y = year_of day in day - first_day y - month_starts (leap y) ! (month_of day - 1) + 1)"

text \<open>\<open>date.replace(year=...)\<close>: \<open>None\<close> where it raises, for 29 February in a common year.\<close>

definition replace_year :: "int \<Rightarrow> int \<Rightarrow> int option" where
  "replace_year day y =
     (if month_of day = 2 \<and> month_day_of day = 29 \<and> \<not> leap y then None
      else Some (day_number y (month_of day) (month_day_of day)))"

section \<open>The weekly schedule\<close>

record session =
  s_day :: int
  s_start :: int
  s_end :: int

text \<open>The part of one interval of the schedule from \<open>cursor\<close> on, split at local midnight; a part that
  reaches midnight ends at 23:59:59.\<close>

function split_days :: "int \<Rightarrow> int \<Rightarrow> session list" where
  "split_days cur end_w =
     (if cur < end_w
      then let seg_end = min end_w (combine (date_of cur) 86399000)
           in \<lparr>s_day = weekday (date_of cur), s_start = time_of cur, s_end = time_of seg_end\<rparr>
              # split_days (combine (date_of cur + 1) 0) end_w
      else [])"
  by auto
termination
proof (relation "measure (\<lambda>(cur, end_w). nat (end_w - cur))")
  fix cur end_w :: int
  assume "cur < end_w"
  moreover have "cur < combine (date_of cur + 1) 0"
    using pos_mod_bound [of DAY cur] div_mult_mod_eq [of cur DAY]
    by (simp add: combine_def date_of_def DAY_def algebra_simps)
  ultimately show "((combine (date_of cur + 1) 0, end_w), (cur, end_w)) \<in> measure (\<lambda>(cur, end_w). nat (end_w - cur))"
    by simp
qed simp

declare split_days.simps [simp del]

text \<open>One week from the Sunday \<open>sunday\<close> of the schedule's zone: the opening hours, the starts and the
  ends (weekday and time). An interval is a pair of seconds from that Sunday's midnight.\<close>

definition anchored :: "zone \<Rightarrow> zone \<Rightarrow> int \<Rightarrow> int \<Rightarrow> int" where
  "anchored src dst day secs = to_wall dst (to_instant src (combine day (secs * 1000)) 0)"

type_synonym rendering = "session list \<times> (int \<times> int) list \<times> (int \<times> int) list"

fun render_week :: "zone \<Rightarrow> zone \<Rightarrow> (int \<times> int) list \<Rightarrow> int \<Rightarrow> rendering" where
  "render_week src dst [] sunday = ([], [], [])"
| "render_week src dst ((a, b) # schedule) sunday =
     (let start_w = anchored src dst sunday a; end_w = anchored src dst sunday b;
          rest = render_week src dst schedule sunday
      in if end_w \<le> start_w then rest
         else (split_days start_w end_w @ fst rest,
               (weekday (date_of start_w), time_of start_w) # fst (snd rest),
               (weekday (date_of end_w), time_of end_w) # snd (snd rest)))"

text \<open>The weeks from the oldest to the current one: a variant where the rendering changes.\<close>

fun variants_from :: "zone \<Rightarrow> zone \<Rightarrow> (int \<Rightarrow> rendering) \<Rightarrow> int list \<Rightarrow> rendering option \<Rightarrow> (int \<times> rendering) list" where
  "variants_from src dst render [] prev = []"
| "variants_from src dst render (w # ws) prev =
     (if prev = Some (render w) then variants_from src dst render ws prev
      else (date_of (anchored src dst w 0), render w) # variants_from src dst render ws (Some (render w)))"

definition SCHEDULE_HISTORY_YEARS :: nat where "SCHEDULE_HISTORY_YEARS = 5"

definition week_sundays :: "int \<Rightarrow> int list" where
  "week_sundays this_sunday = map (\<lambda>back. this_sunday - 7 * int back) (rev [0..<SCHEDULE_HISTORY_YEARS * 52 + 1])"

text \<open>\<open>zones\<close> is \<open>zoneinfo.ZoneInfo\<close>, \<open>None\<close> where it raises; \<open>today\<close> is the date in the schedule's zone.\<close>

definition schedule_to_sessions ::
    "(string \<Rightarrow> zone option) \<Rightarrow> zone \<Rightarrow> (zone \<Rightarrow> int) \<Rightarrow> (int \<times> int) list \<Rightarrow> string
     \<Rightarrow> exn + rendering \<times> (int \<times> rendering) list" where
  "schedule_to_sessions zones dst today schedule schedule_tz =
     (case zones (if schedule_tz \<noteq> [] then schedule_tz else ''UTC'') of
        None \<Rightarrow> Inl (ValueError (''Invalid cTrader schedule timezone: '' @ schedule_tz))
      | Some src \<Rightarrow>
          (let this_sunday = today src - (weekday (today src) + 1) mod 7;
               variants = variants_from src dst (render_week src dst schedule) (week_sundays this_sunday) None
           in Inr (snd (last variants), if 1 < length variants then variants else [])))"

section \<open>Holidays\<close>

record holiday =
  h_date :: int
  h_start :: int
  h_end :: int
  h_recurring :: bool
  h_zone :: string

text \<open>One day's intervals without the closed window; both are wall times of the provider's zone.\<close>

definition cut_session :: "int \<Rightarrow> int \<Rightarrow> int \<Rightarrow> session \<Rightarrow> session list" where
  "cut_session day closed_from closed_to iv =
     (let start = combine day (s_start iv); end_w = combine day (s_end iv)
      in if end_w \<le> closed_from \<or> closed_to \<le> start then [iv]
         else (if start < closed_from then [iv\<lparr>s_end := time_of closed_from\<rparr>] else [])
              @ (if closed_to < end_w then [iv\<lparr>s_start := time_of closed_to\<rparr>] else []))"

type_synonym corrections = "int \<rightharpoonup> session list"

definition cut_day :: "session list \<Rightarrow> int \<Rightarrow> int \<Rightarrow> int \<Rightarrow> corrections \<Rightarrow> corrections" where
  "cut_day hours closed_from closed_to day corr =
     corr(day \<mapsto> concat (map (cut_session day closed_from closed_to)
       (case corr day of Some base \<Rightarrow> base | None \<Rightarrow> filter (\<lambda>iv. s_day iv = weekday day) hours)))"

definition holiday_dates :: "int \<Rightarrow> holiday \<Rightarrow> int list" where
  "holiday_dates current_year h =
     (if h_recurring h
      then List.map_filter (replace_year (h_date h)) [current_year - int SCHEDULE_HISTORY_YEARS .. current_year + 1]
      else [h_date h])"

definition close_window :: "zone \<Rightarrow> zone \<Rightarrow> session list \<Rightarrow> holiday \<Rightarrow> int \<Rightarrow> corrections \<Rightarrow> corrections" where
  "close_window src dst hours h day corr =
     (let closed_from = anchored src dst day (h_start h); closed_to = anchored src dst day (h_end h)
      in if closed_to \<le> closed_from then corr
         else fold (cut_day hours closed_from closed_to) [date_of closed_from .. date_of (closed_to - 1)] corr)"

fun holidays_to_corrections ::
    "(string \<Rightarrow> zone option) \<Rightarrow> zone \<Rightarrow> int \<Rightarrow> string \<Rightarrow> session list \<Rightarrow> holiday list \<Rightarrow> corrections
     \<Rightarrow> exn + corrections" where
  "holidays_to_corrections zones dst current_year schedule_tz hours [] corr = Inr corr"
| "holidays_to_corrections zones dst current_year schedule_tz hours (h # hs) corr =
     (let name = (if h_zone h \<noteq> [] then h_zone h else schedule_tz)
      in case zones (if name \<noteq> [] then name else ''UTC'') of
           None \<Rightarrow> Inl (ValueError (''Invalid cTrader holiday timezone: '' @ name))
         | Some src \<Rightarrow>
             holidays_to_corrections zones dst current_year schedule_tz hours hs
               (fold (close_window src dst hours h) (holiday_dates current_year h) corr))"

section \<open>Classifying history\<close>

text \<open>What the provider's \<open>SymInfo\<close> holds of the calendar. \<open>weekly\<close> is \<open>SymInfo.schedule_for\<close> of the core: the
  opening hours in effect on a date.\<close>

record syminfo =
  corrections_of :: corrections
  weekly :: "int \<Rightarrow> session list"
  has_schedules :: bool

definition resolve_hours :: "syminfo \<Rightarrow> int \<Rightarrow> session list \<times> bool" where
  "resolve_hours info day =
     (case corrections_of info day of
        Some hs \<Rightarrow> (hs, True)
      | None \<Rightarrow> let hs = weekly info day in (hs, hs \<noteq> [] \<or> has_schedules info))"

definition opening_hours_for_date :: "syminfo \<Rightarrow> int \<Rightarrow> session list \<times> bool" where
  "opening_hours_for_date info day =
     (let (today, today_known) = resolve_hours info day;
          (previous, previous_known) = resolve_hours info (day - 1)
      in (filter (\<lambda>iv. s_day iv = weekday day) today
            @ filter (\<lambda>iv. s_day iv = weekday (day - 1) \<and> s_end iv < s_start iv) previous,
          today_known \<and> previous_known))"

text \<open>The instants at which a wall clock shows a time on a date; none in a gap, two in a fold.\<close>

definition boundary_timestamps :: "zone \<Rightarrow> int \<Rightarrow> int \<Rightarrow> int list" where
  "boundary_timestamps z day tod =
     (let w = combine day tod;
          shows_it = (\<lambda>fld. let t = to_instant z w fld in to_wall z t = w \<and> utc_fold z t = fld)
      in sort (remdups (map (to_instant z w) (filter shows_it [0, 1]))))"

fun overlaps_sessions :: "zone \<Rightarrow> int \<Rightarrow> int \<Rightarrow> int \<Rightarrow> session list \<Rightarrow> bool \<Rightarrow> bool option" where
  "overlaps_sessions z seg_start seg_end day [] known = (if known then Some False else None)"
| "overlaps_sessions z seg_start seg_end day (iv # ivs) known =
     (let overnight = s_end iv < s_start iv;
          dates = (if s_day iv = weekday day then Some (day, if overnight then day + 1 else day)
                   else if s_day iv = weekday (day - 1) \<and> overnight then Some (day - 1, day)
                   else None)
      in case dates of
           None \<Rightarrow> overlaps_sessions z seg_start seg_end day ivs known
         | Some (start_date, end_date) \<Rightarrow>
             (let starts = boundary_timestamps z start_date (s_start iv);
                  ends = boundary_timestamps z end_date (s_end iv)
              in if starts = [] \<or> ends = [] then overlaps_sessions z seg_start seg_end day ivs False
                 else if \<exists>a \<in> set starts. \<exists>b \<in> set ends. a < b \<and> a < seg_end \<and> seg_start < b then Some True
                 else overlaps_sessions z seg_start seg_end day ivs known))"

text \<open>The local dates of an interval, one after the other.\<close>

fun days_open :: "zone \<Rightarrow> syminfo \<Rightarrow> int \<Rightarrow> int \<Rightarrow> int list \<Rightarrow> bool \<Rightarrow> bool option" where
  "days_open z info t u [] known = (if known then Some False else None)"
| "days_open z info t u (day # days) known =
     (let seg_start = max t (to_instant z (combine day 0) 0);
          seg_end = min u (to_instant z (combine (day + 1) 0) 0)
      in if seg_start < seg_end
         then (case opening_hours_for_date info day of
                 (hours, day_known) \<Rightarrow>
                   (case overlaps_sessions z seg_start seg_end day hours True of
                      Some True \<Rightarrow> Some True
                    | overlap \<Rightarrow> days_open z info t u days (known \<and> day_known \<and> overlap = Some False)))
         else days_open z info t u days known)"

text \<open>\<open>z\<close> is the symbol's zone, \<open>None\<close> when there is no symbol metadata or the zone name is unknown.\<close>

definition interval_is_open :: "(zone \<times> syminfo) option \<Rightarrow> int \<Rightarrow> int \<Rightarrow> bool option" where
  "interval_is_open info t u =
     (case info of
        None \<Rightarrow> None
      | Some (z, i) \<Rightarrow> days_open z i t u [date_of (to_wall z t) .. date_of (to_wall z u)] True)"

definition slot_is_open :: "(zone \<times> syminfo) option \<Rightarrow> int \<Rightarrow> int \<Rightarrow> bool option" where
  "slot_is_open info period t = interval_is_open info t (t + period)"

definition month_is_open :: "(zone \<times> syminfo) option \<Rightarrow> int \<Rightarrow> int \<Rightarrow> bool option" where
  "month_is_open info t u = interval_is_open info t u"

section \<open>The monthly grid\<close>

definition next_month_opening :: "zone option \<Rightarrow> int \<Rightarrow> int option" where
  "next_month_opening zo t =
     (case zo of
        None \<Rightarrow> None
      | Some z \<Rightarrow>
          (let w = to_wall z t; day = date_of w;
               year = (if month_of day = 12 then year_of day + 1 else year_of day);
               month = (if month_of day = 12 then 1 else month_of day + 1)
           in Some (to_instant z (combine (day_number year month 1) (time_of w)) 0)))"

end
