(* ===== verification/Collection.thy ===== *)
theory Collection
  imports History Calendar "HOL-Library.AList"
begin

text \<open>
  Recovering the closed bars of a live gap (\<open>provider.py\<close>): \<open>_collect_live_gap_history\<close> with its passes over
  the window, the ledger of missing slots and the wait for publication, and the two callers that use a
  collection.
\<close>

definition LIVE_HISTORY_SETTLE_ATTEMPTS :: nat where "LIVE_HISTORY_SETTLE_ATTEMPTS = 5"
definition LIVE_HISTORY_SETTLE_DELAY :: int where "LIVE_HISTORY_SETTLE_DELAY = 1000000000"
definition LIVE_HISTORY_PUBLICATION_LAG_MS :: int where "LIVE_HISTORY_PUBLICATION_LAG_MS = 90000"
definition LIVE_HISTORY_PUBLICATION_POLL :: int where "LIVE_HISTORY_PUBLICATION_POLL = 5000000000"
definition LIVE_HISTORY_HOLE_EVIDENCE :: int where "LIVE_HISTORY_HOLE_EVIDENCE = 120000000000"

definition history_failure_is_transient :: "exn \<Rightarrow> bool" where
  "history_failure_is_transient e =
     (case e of CTraderProtocolError c d r \<Rightarrow> retryable c \<or> is_rate_limited c | _ \<Rightarrow> True)"

text \<open>What a collection depends on besides the window: the venue's history reads and how long each took
  (nanoseconds), the symbol lookup, the calendar, the provider's zone, the period, the wall clock at the
  start, and the bounds used for the reads of one window and for the months of one window.\<close>

record gap_env =
  g_ask :: history
  g_latency :: "nat \<Rightarrow> int"
  g_symbol :: "exn + int"
  g_calendar :: "(zone \<times> syminfo) option"
  g_zone :: "zone option"
  g_monthly :: bool
  g_period :: int
  g_wall_start :: int
  g_reads :: nat
  g_months :: nat

text \<open>The state of a collection: recovered bars by opening, the last failure, whether the last pass was
  fully served, the slots proven empty, the ledger of first-missing times, the number of reads so far,
  and the monotonic clock in nanoseconds.\<close>

record gather =
  g_bars :: "(int \<times> ohlcv) list"
  g_failure :: "exn option"
  g_coverage :: bool
  g_empty :: "int list"
  g_ledger :: "(int \<times> int) list"
  g_k :: nat
  g_clock :: int

definition slots :: "int \<Rightarrow> int \<Rightarrow> int \<Rightarrow> int list" where
  "slots cur limit period = map (\<lambda>i. cur + i * period) [0..(limit - cur - 1) div period]"

definition gap_windows :: "int \<Rightarrow> int \<Rightarrow> int \<Rightarrow> (int \<times> int) list" where
  "gap_windows cur limit window = map (\<lambda>q. (q, min (q + window) limit)) (slots cur limit window)"

section \<open>One pass\<close>

definition store_bar :: "int \<Rightarrow> int \<Rightarrow> int \<times> trendbar \<Rightarrow> (int \<times> ohlcv) list \<Rightarrow> (int \<times> ohlcv) list" where
  "store_bar cur window_end ob bars =
     (case ob of (t, b) \<Rightarrow> if cur \<le> t \<and> t < window_end then AList.update t (decode_trendbar True b) bars else bars)"

definition waited :: "gap_env \<Rightarrow> nat \<Rightarrow> gather \<Rightarrow> gather" where
  "waited E k g = g\<lparr>g_k := k, g_clock := g_clock g + sum_list (map (g_latency E) [g_k g..<k])\<rparr>"

fun gather_windows :: "gap_env \<Rightarrow> int \<Rightarrow> (int \<times> int) list \<Rightarrow> bool \<Rightarrow> gather \<Rightarrow> ((exn + bool) \<times> gather) option" where
  "gather_windows E cur [] whole g = Some (Inr whole, g)"
| "gather_windows E cur ((q, e) # ws) whole g =
     (case fetch_trendbar_window (g_reads E) (g_ask E) q e (g_k g) of
        None \<Rightarrow> None
      | Some (Inl x, k) \<Rightarrow> Some (Inl x, waited E k g)
      | Some (Inr (bars, covered), k) \<Rightarrow>
          gather_windows E cur ws (whole \<and> covered)
            ((waited E k g)\<lparr>g_bars := fold (store_bar cur e) bars (g_bars g)\<rparr>))"

definition missing_slots :: "gap_env \<Rightarrow> int \<Rightarrow> int \<Rightarrow> gather \<Rightarrow> int list" where
  "missing_slots E cur limit g = filter (\<lambda>s. map_of (g_bars g) s = None) (slots cur limit (g_period E))"

text \<open>The ledger after a fully served pass: slots no longer missing are forgotten, new ones are dated, and
  those missing for long enough are proven empty.\<close>

definition age_ledger :: "gap_env \<Rightarrow> int \<Rightarrow> int \<Rightarrow> gather \<Rightarrow> gather" where
  "age_ledger E cur limit g =
     (let missing = missing_slots E cur limit g;
          kept = filter (\<lambda>(s, _). s \<in> set missing) (g_ledger g);
          ledger = fold (\<lambda>s l. if map_of l s = None then l @ [(s, g_clock g)] else l) missing kept;
          proven = filter (\<lambda>s. LIVE_HISTORY_HOLE_EVIDENCE \<le> g_clock g - the (map_of ledger s)) missing
      in g\<lparr>g_ledger := ledger, g_empty := g_empty g @ proven\<rparr>)"

section \<open>When a collection is settled\<close>

text \<open>The months from \<open>expected\<close> on; \<open>None\<close> when the bound is used up.\<close>

fun months_settled :: "nat \<Rightarrow> gap_env \<Rightarrow> int \<Rightarrow> gather \<Rightarrow> int \<Rightarrow> bool option" where
  "months_settled 0 E limit g expected = (if expected < limit then None else Some True)"
| "months_settled (Suc fuel) E limit g expected =
     (if expected < limit
      then (case next_month_opening (g_zone E) expected of
              None \<Rightarrow> Some False
            | Some following \<Rightarrow>
                (if map_of (g_bars g) expected = None
                    \<and> (limit < following \<or> month_is_open (g_calendar E) expected following \<noteq> Some False)
                 then Some False else months_settled fuel E limit g following))
      else Some True)"

definition slots_settled :: "gap_env \<Rightarrow> int \<Rightarrow> int \<Rightarrow> gather \<Rightarrow> bool" where
  "slots_settled E cur limit g \<longleftrightarrow>
     (\<forall>s \<in> set (slots cur limit (g_period E)).
        map_of (g_bars g) s \<noteq> None \<or> s \<in> set (g_empty g) \<or> slot_is_open (g_calendar E) (g_period E) s = Some False)"

definition settled :: "gap_env \<Rightarrow> int \<Rightarrow> int \<Rightarrow> gather \<Rightarrow> bool option" where
  "settled E cur limit g =
     (if g_monthly E then months_settled (g_months E) E limit g cur
      else Some (slots_settled E cur limit g))"

definition awaiting_publication :: "gap_env \<Rightarrow> int \<Rightarrow> int \<Rightarrow> int \<Rightarrow> gather \<Rightarrow> bool" where
  "awaiting_publication E start cur limit g \<longleftrightarrow>
     (let elapsed = (g_clock g - start) div 1000000;
          published_before = g_wall_start E + elapsed - LIVE_HISTORY_PUBLICATION_LAG_MS
      in \<not> g_monthly E \<and> elapsed < LIVE_HISTORY_PUBLICATION_LAG_MS
         \<and> (\<exists>s \<in> set (slots cur limit (g_period E)).
              map_of (g_bars g) s = None \<and> s \<notin> set (g_empty g) \<and> published_before < s + g_period E
              \<and> slot_is_open (g_calendar E) (g_period E) s \<noteq> Some False))"

section \<open>The passes\<close>

datatype pass = Again gather | Done_passes gather | Raised exn gather

text \<open>Pass number \<open>attempt\<close> (from 0): what follows a failed read, and what follows reads that all answered,
  \<open>whole\<close> saying whether every window was fully covered.\<close>

definition after_failure :: "nat \<Rightarrow> exn \<Rightarrow> gather \<Rightarrow> pass" where
  "after_failure attempt x g =
     (if is_connection_error x \<or> \<not> is_wire_error x then Raised x g
      else let g2 = g\<lparr>g_failure := Some x, g_coverage := False\<rparr>
           in if history_failure_is_transient x \<and> attempt + 1 < LIVE_HISTORY_SETTLE_ATTEMPTS
              then Again (g2\<lparr>g_clock := g_clock g2 + LIVE_HISTORY_SETTLE_DELAY\<rparr>)
              else Done_passes g2)"

definition served :: "gap_env \<Rightarrow> int \<Rightarrow> int \<Rightarrow> bool \<Rightarrow> gather \<Rightarrow> gather" where
  "served E cur limit whole g =
     (let g2 = g\<lparr>g_failure := None, g_coverage := whole\<rparr>
      in if whole \<and> \<not> g_monthly E then age_ledger E cur limit g2 else g2)"

definition after_served :: "gap_env \<Rightarrow> int \<Rightarrow> int \<Rightarrow> int \<Rightarrow> nat \<Rightarrow> gather \<Rightarrow> pass option" where
  "after_served E start cur limit attempt g =
     (case (if g_coverage g then settled E cur limit g else Some False) of
        None \<Rightarrow> None
      | Some done_now \<Rightarrow>
          Some (if done_now then Done_passes g
                else if attempt + 1 < LIVE_HISTORY_SETTLE_ATTEMPTS
                then Again (g\<lparr>g_clock := g_clock g + LIVE_HISTORY_SETTLE_DELAY\<rparr>)
                else if g_coverage g \<and> awaiting_publication E start cur limit g
                then Again (g\<lparr>g_clock := g_clock g + LIVE_HISTORY_PUBLICATION_POLL\<rparr>)
                else Done_passes g))"

definition gather_pass :: "gap_env \<Rightarrow> int \<Rightarrow> int \<Rightarrow> int \<Rightarrow> nat \<Rightarrow> gather \<Rightarrow> pass option" where
  "gather_pass E start cur limit attempt g =
     (case gather_windows E cur (gap_windows cur limit (g_period E * 2000)) True g of
        None \<Rightarrow> None
      | Some (Inl x, g1) \<Rightarrow> Some (after_failure attempt x g1)
      | Some (Inr whole, g1) \<Rightarrow> after_served E start cur limit attempt (served E cur limit whole g1))"

fun gather_passes :: "nat \<Rightarrow> gap_env \<Rightarrow> int \<Rightarrow> int \<Rightarrow> int \<Rightarrow> nat \<Rightarrow> gather \<Rightarrow> (exn option \<times> gather) option" where
  "gather_passes 0 E start cur limit attempt g = None"
| "gather_passes (Suc fuel) E start cur limit attempt g =
     (case gather_pass E start cur limit attempt g of
        None \<Rightarrow> None
      | Some (Raised x g') \<Rightarrow> Some (Some x, g')
      | Some (Done_passes g') \<Rightarrow> Some (None, g')
      | Some (Again g') \<Rightarrow> gather_passes fuel E start cur limit (attempt + 1) g')"

text \<open>The collection at the end: sorted, without a month that may still be forming.\<close>

definition sorted_bars :: "(int \<times> ohlcv) list \<Rightarrow> ohlcv list" where
  "sorted_bars bars = map (\<lambda>t. the (map_of bars t)) (sort (map fst bars))"

definition finish_collection :: "gap_env \<Rightarrow> int \<Rightarrow> bool \<Rightarrow> gather \<Rightarrow> collection" where
  "finish_collection E limit whole g =
     (if g_monthly E \<and> g_bars g \<noteq> []
      then let newest = last (sort (map fst (g_bars g)))
           in case next_month_opening (g_zone E) newest of
                None \<Rightarrow> \<lparr>c_bars = sorted_bars (g_bars g), c_complete = False\<rparr>
              | Some next_open \<Rightarrow>
                  \<lparr>c_bars = sorted_bars (if limit < next_open then AList.delete newest (g_bars g) else g_bars g),
                   c_complete = whole\<rparr>
      else \<lparr>c_bars = sorted_bars (g_bars g), c_complete = whole\<rparr>)"

definition fresh_gather :: "(int \<times> int) list \<Rightarrow> nat \<Rightarrow> int \<Rightarrow> gather" where
  "fresh_gather ledger k clock =
     \<lparr>g_bars = [], g_failure = None, g_coverage = False, g_empty = [], g_ledger = ledger, g_k = k, g_clock = clock\<rparr>"

text \<open>\<open>ledger\<close> is the provider's record of first-missing times, kept over collections.\<close>

definition collect_live_gap_history ::
    "nat \<Rightarrow> gap_env \<Rightarrow> int \<Rightarrow> int \<Rightarrow> gather \<Rightarrow> ((exn + collection) \<times> gather) option" where
  "collect_live_gap_history fuel E cur limit g0 =
     (let g = fresh_gather (g_ledger g0) (g_k g0) (g_clock g0)
      in if limit \<le> cur then Some (Inr \<lparr>c_bars = [], c_complete = True\<rparr>, g)
         else case g_symbol E of
                Inl x \<Rightarrow> (if is_connection_error x \<or> \<not> is_wire_error x then Some (Inl x, g)
                          else Some (Inr \<lparr>c_bars = [], c_complete = False\<rparr>, g))
              | Inr _ \<Rightarrow>
                  (case gather_passes fuel E (g_clock g) cur limit 0 g of
                     None \<Rightarrow> None
                   | Some (Some x, g') \<Rightarrow> Some (Inl x, g')
                   | Some (None, g') \<Rightarrow>
                       (case (if g_coverage g' then settled E cur limit g' else Some False) of
                          None \<Rightarrow> None
                        | Some whole \<Rightarrow> Some (Inr (finish_collection E limit whole g'), g'))))"

section \<open>The callers\<close>

definition following_of :: "gap_env \<Rightarrow> int \<Rightarrow> int option" where
  "following_of E t = (if g_monthly E then next_month_opening (g_zone E) t else Some (t + g_period E))"

text \<open>\<open>_backfill_live_gap\<close> on a connected provider; \<open>now_ms\<close> is the wall clock.\<close>

definition query_ceiling :: "gap_env \<Rightarrow> int \<Rightarrow> int \<Rightarrow> int" where
  "query_ceiling E now_ms cur =
     (if g_monthly E then now_ms else cur + (now_ms - cur) div g_period E * g_period E)"

definition backfill_live_gap :: "nat \<Rightarrow> gap_env \<Rightarrow> int \<Rightarrow> gather \<Rightarrow> feed \<Rightarrow> ((exn + feed) \<times> gather) option" where
  "backfill_live_gap fuel E now_ms g f =
     (case backfill_cursor (following_of E) f of
        None \<Rightarrow> Some (Inr f, g)
      | Some cur \<Rightarrow>
          (if query_ceiling E now_ms cur \<le> cur then Some (Inr f, g)
           else case collect_live_gap_history fuel E cur (query_ceiling E now_ms cur) g of
                  None \<Rightarrow> None
                | Some (Inl x, g') \<Rightarrow> Some (Inl x, g')
                | Some (Inr coll, g') \<Rightarrow> Some (queue_backfill coll f, g')))"

text \<open>\<open>backfill_closed_bars\<close>: the bars between the warm-up history and the stream, and the feed with the
  opening the run would be missing from.\<close>

definition backfill_closed_bars ::
    "nat \<Rightarrow> gap_env \<Rightarrow> int \<Rightarrow> int \<Rightarrow> gather \<Rightarrow> feed \<Rightarrow> ((exn + ohlcv list \<times> feed) \<times> gather) option" where
  "backfill_closed_bars fuel E now_ms since_ms g f =
     (case following_of E since_ms of
        None \<Rightarrow> Some (Inr ([], f), g)
      | Some cur \<Rightarrow>
          (case collect_live_gap_history fuel E cur (query_ceiling E now_ms since_ms) g of
             None \<Rightarrow> None
           | Some (Inl x, g') \<Rightarrow> Some (Inl x, g')
           | Some (Inr coll, g') \<Rightarrow>
               (if \<not> c_complete coll then Some (Inr ([], f), g')
                else let newest = (if c_bars coll = [] then since_ms else b_time (last (c_bars coll)))
                     in Some (Inr (c_bars coll, f\<lparr>gap_cursor := following_of E newest\<rparr>), g'))))"

end
