(* ===== verification/Feed.thy ===== *)
theory Feed
  imports Bars
begin

text \<open>
  Properties of the live feed. The locale \<open>bar_grid\<close> is the interface between the feed and the grid of
  openings: all the feed needs is that the following opening is a later one. \<open>fixed_following\<close> is the grid
  of a period of fixed length.
\<close>

section \<open>The grid\<close>

definition period_ms :: "rat \<Rightarrow> int" where
  "period_ms seconds = max 1 (if 0 \<le> seconds then \<lfloor>seconds\<rfloor> else \<lceil>seconds\<rceil>) * 1000"

definition fixed_following :: "rat \<Rightarrow> int \<Rightarrow> int option" where
  "fixed_following seconds t = Some (t + period_ms seconds)"

lemma period_ms_pos: "0 < period_ms seconds"
  by (simp add: period_ms_def)

text \<open>A bar whose range contains its open and close, and whose ask range contains the ask's.\<close>

definition well_formed :: "ohlcv \<Rightarrow> bool" where
  "well_formed b \<longleftrightarrow>
     b_low b \<le> b_open b \<and> b_open b \<le> b_high b \<and> b_low b \<le> b_close b \<and> b_close b \<le> b_high b
     \<and> (case b_ask b of None \<Rightarrow> True
        | Some (ao, ah, al, ac, sp) \<Rightarrow> al \<le> ao \<and> ao \<le> ah \<and> al \<le> ac \<and> ac \<le> ah \<and> sp = fsub ac (b_close b))"

definition quote_ok :: "(rat \<times> rat \<times> rat \<times> rat) option \<Rightarrow> bool" where
  "quote_ok q \<longleftrightarrow> (case q of None \<Rightarrow> True
     | Some (ao, ah, al, ac) \<Rightarrow> al \<le> ao \<and> ao \<le> ah \<and> al \<le> ac \<and> ac \<le> ah)"

definition trendbar_ok :: "trendbar \<Rightarrow> bool" where
  "trendbar_ok t \<longleftrightarrow> 0 \<le> tb_deltaOpen t \<and> tb_deltaOpen t \<le> tb_deltaHigh t
     \<and> 0 \<le> tb_deltaClose t \<and> tb_deltaClose t \<le> tb_deltaHigh t"

lemma price_of_mono: "a \<le> b \<Longrightarrow> price_of a \<le> price_of b"
  by (simp add: price_of_def fdiv_def PRICE_SCALE_def dbl.rnd_mono divide_right_mono)

lemma decode_well_formed: "trendbar_ok t \<Longrightarrow> well_formed (decode_trendbar fin t)"
  by (simp add: well_formed_def decode_trendbar_def Let_def trendbar_ok_def price_of_mono)

lemma decode_fields [simp]:
  "b_time (decode_trendbar fin t) = opening_of t" "b_closed (decode_trendbar fin t) = fin"
  "b_ask (decode_trendbar fin t) = None"
  by (simp_all add: decode_trendbar_def Let_def)

lemma finalize_fields [simp]:
  "b_time (finalize_bar c fin f) = b_time c" "b_closed (finalize_bar c fin f) = fin"
  by (auto simp: finalize_bar_def Let_def split: option.split prod.split)

lemma finalize_well_formed:
  assumes "well_formed c" "b_ask c = None" "quote_ok (ask_bar f)"
  shows "well_formed (finalize_bar c fin f)"
  using assms
  by (cases "last_bid f"; cases "ask_bar f")
    (auto simp: finalize_bar_def Let_def well_formed_def quote_ok_def le_max_iff_disj min_le_iff_disj)

lemma track_ask_ok: "quote_ok (ask_bar f) \<Longrightarrow> quote_ok (ask_bar (track_ask a f))"
  by (cases "ask_bar f") (auto simp: track_ask_def quote_ok_def le_max_iff_disj min_le_iff_disj)

section \<open>Reachable feeds\<close>

definition collection_ok :: "collection \<Rightarrow> bool" where
  "collection_ok c \<longleftrightarrow> sorted_wrt (<) (map b_time (c_bars c)) \<and> (\<forall>b \<in> set (c_bars c). b_closed b \<and> well_formed b)"

definition given :: "delivery \<Rightarrow> ohlcv list" where
  "given d = (case d of Delivered b \<Rightarrow> [b] | _ \<Rightarrow> [])"

text \<open>
  Runs of the feed with the bars delivered so far: the warm-up collection may leave a cursor, spot events are taken while nothing is pending, turns
  deliver, a reconnect resets and may then queue a backfill from the cursor on.
\<close>

inductive feed_run :: "(int \<Rightarrow> int option) \<Rightarrow> feed \<Rightarrow> ohlcv list \<Rightarrow> bool"
  for following :: "int \<Rightarrow> int option" where
  start: "feed_run following init_feed []"
| seeded: "feed_run following (init_feed\<lparr>gap_cursor := Some c\<rparr>) []"
| spot: "feed_run following f out \<Longrightarrow> pending_bars f = [] \<Longrightarrow> \<forall>t \<in> set (sp_trendbars ev). trendbar_ok t \<Longrightarrow>
    feed_run following (handle_spot expected watched ev f) out"
| turn: "feed_run following f out \<Longrightarrow> \<forall>a c coll. collect a c = Inr coll \<longrightarrow> collection_ok coll \<Longrightarrow>
    watch_turn following collect changed f = (d, f') \<Longrightarrow> feed_run following f' (out @ given d)"
| reset: "feed_run following f out \<Longrightarrow> feed_run following (reset_feed f) out"
| backfill: "feed_run following f out \<Longrightarrow> pending_bars f = [] \<Longrightarrow> current_ts f = None \<Longrightarrow> collection_ok coll \<Longrightarrow>
    backfill_cursor following f = Some cur \<Longrightarrow> \<forall>b \<in> set (c_bars coll). cur \<le> b_time b \<Longrightarrow>
    queue_backfill coll f = Inr f' \<Longrightarrow> feed_run following f' out"

definition older :: "ohlcv \<Rightarrow> ohlcv \<Rightarrow> bool" where
  "older x y \<longleftrightarrow> (b_closed x \<longrightarrow> b_time x < b_time y)"

definition after_closed :: "feed \<Rightarrow> int \<Rightarrow> bool" where
  "after_closed f t \<longleftrightarrow> (case last_closed f of None \<Rightarrow> True | Some b \<Rightarrow> b_time b < t)"

text \<open>The queue: history bars \<open>h\<close> in front, all closed, ascending, newer than the last closed bar and
  older than the rest \<open>n\<close>, the stream's own bars, of which a forming one is always newer than what is
  closed.\<close>

definition queue_ok :: "feed \<Rightarrow> ohlcv list \<Rightarrow> ohlcv list \<Rightarrow> bool" where
  "queue_ok f h n \<longleftrightarrow>
     sorted_wrt (<) (map b_time h)
     \<and> (\<forall>x \<in> set h. b_closed x \<and> well_formed x \<and> after_closed f (b_time x)
          \<and> (\<forall>y \<in> set n. b_time x < b_time y) \<and> (\<forall>c. current_ts f = Some c \<longrightarrow> b_time x < c))
     \<and> sorted_wrt older n
     \<and> (\<forall>y \<in> set n. well_formed y \<and> (\<not> b_closed y \<longrightarrow> after_closed f (b_time y))
          \<and> (\<forall>c. current_ts f = Some c \<longrightarrow> (if b_closed y then b_time y < c else b_time y \<le> c)))"

definition current_ok :: "feed \<Rightarrow> bool" where
  "current_ok f \<longleftrightarrow>
     current_ts f = map_option b_time (current_bar f)
     \<and> (\<forall>c. current_bar f = Some c \<longrightarrow> well_formed c \<and> b_ask c = None \<and> after_closed f (b_time c))
     \<and> quote_ok (ask_bar f)"

definition given_ok :: "feed \<Rightarrow> ohlcv list \<Rightarrow> bool" where
  "given_ok f out \<longleftrightarrow>
     sorted_wrt older out \<and> (\<forall>x \<in> set out. well_formed x)
     \<and> (\<forall>x \<in> set out. b_closed x \<longrightarrow> (\<exists>b. last_closed f = Some b \<and> b_time x \<le> b_time b))"

definition feed_inv :: "feed \<Rightarrow> ohlcv list \<Rightarrow> bool" where
  "feed_inv f out \<longleftrightarrow>
     (\<exists>h n. pending_bars f = map (Pair True) h @ map (Pair False) n \<and> queue_ok f h n)
     \<and> current_ok f \<and> given_ok f out"

lemma after_closed_mono: "after_closed f t \<Longrightarrow> t \<le> u \<Longrightarrow> after_closed f u"
  by (auto simp: after_closed_def split: option.splits)

lemma feed_inv_start: "feed_inv init_feed []" "feed_inv (init_feed\<lparr>gap_cursor := c\<rparr>) []"
  by (auto simp: feed_inv_def init_feed_def queue_ok_def current_ok_def given_ok_def quote_ok_def)

lemma feed_inv_reset: "feed_inv f out \<Longrightarrow> feed_inv (reset_feed f) out"
  by (auto simp: feed_inv_def reset_feed_def queue_ok_def current_ok_def given_ok_def quote_ok_def)

section \<open>Ingesting\<close>

text \<open>While a spot event is taken the queue holds closed stream bars only.\<close>

definition ingest_inv :: "feed \<Rightarrow> ohlcv list \<Rightarrow> bool" where
  "ingest_inv f n \<longleftrightarrow> pending_bars f = map (Pair False) n \<and> (\<forall>y \<in> set n. b_closed y) \<and> queue_ok f [] n
     \<and> current_ok f \<and> (current_ts f = None \<longrightarrow> n = [])"

lemma ingest_live_bar_inv:
  assumes inv: "ingest_inv f n" and ok: "trendbar_ok t" and run: "ingest_live_bar t f = (acc, f')"
  shows "\<exists>n'. ingest_inv f' n' \<and> last_closed f' = last_closed f"
proof (cases acc)
  case False
  with run inv show ?thesis by (auto simp: ingest_live_bar_def Let_def split: if_splits)
next
  case True
  define cand where "cand = decode_trendbar False t"
  have time: "b_time cand = opening_of t" by (simp add: cand_def)
  have wf: "well_formed cand" "b_ask cand = None" using ok by (simp_all add: cand_def decode_well_formed)
  have fresh: "after_closed f (b_time cand)"
    and ge: "\<And>c. current_ts f = Some c \<Longrightarrow> c \<le> b_time cand"
    using run True by (auto simp: ingest_live_bar_def Let_def cand_def after_closed_def split: if_splits option.splits)
  define f1 where "f1 = (if gap_cursor f = None then f\<lparr>gap_cursor := Some (b_time cand)\<rparr> else f)"
  have f1: "pending_bars f1 = pending_bars f" "current_ts f1 = current_ts f" "current_bar f1 = current_bar f"
    "last_closed f1 = last_closed f" "ask_bar f1 = ask_bar f" by (simp_all add: f1_def)
  have cur: "current_ok f1" and q: "queue_ok f1 [] n" and p1: "pending_bars f1 = map (Pair False) n"
    and cl: "\<forall>y \<in> set n. b_closed y" and nil: "current_ts f = None \<Longrightarrow> n = []"
    using inv by (simp_all add: ingest_inv_def current_ok_def queue_ok_def after_closed_def f1)
  show ?thesis
  proof (cases "\<exists>c. current_ts f = Some c \<and> c < b_time cand")
    case False
    then have f': "f' = f1\<lparr>current_ts := Some (b_time cand), current_bar := Some cand\<rparr>"
      using run True ge by (auto simp: ingest_live_bar_def Let_def cand_def f1_def split: if_splits option.splits)
    have same: "\<forall>y \<in> set n. b_time y < b_time cand"
    proof
      fix y assume y: "y \<in> set n"
      with nil obtain c where c: "current_ts f = Some c" by (cases "current_ts f") auto
      with False ge have "c = b_time cand" by force
      with q cl y c show "b_time y < b_time cand" by (auto simp: queue_ok_def f1)
    qed
    have "queue_ok f' [] n" using q cl same by (auto simp: queue_ok_def f')
    moreover have "current_ok f'"
      using cur wf fresh by (simp add: current_ok_def f' f1 after_closed_def)
    ultimately have "ingest_inv f' n" using p1 cl by (simp add: ingest_inv_def f')
    then show ?thesis using f1 f' by auto
  next
    case rolled: True
    then obtain c where c: "current_ts f = Some c" "c < b_time cand" by blast
    obtain cb where cb: "current_bar f = Some cb" "b_time cb = c"
      using cur c by (cases "current_bar f") (auto simp: current_ok_def f1)
    define fin where "fin = finalize_bar cb True f1"
    have fin: "b_time fin = c" "b_closed fin" "well_formed fin"
      using cur cb by (auto simp: fin_def current_ok_def f1 intro!: finalize_well_formed)
    have f': "f' = (reset_quotes (f1\<lparr>pending_bars := pending_bars f1 @ [(False, fin)]\<rparr>))
        \<lparr>current_ts := Some (b_time cand), current_bar := Some cand\<rparr>"
      using run True c cb by (auto simp: ingest_live_bar_def Let_def cand_def f1_def fin_def split: if_splits option.splits)
    have less: "b_time y < c" if "y \<in> set n" for y
      using q cl that c by (auto simp: queue_ok_def f1)
    have "queue_ok f' [] (n @ [fin])"
      using q cl c fin less by (auto simp: queue_ok_def f' sorted_wrt_append older_def dest: less)
    moreover have "current_ok f'"
      using wf fresh by (simp add: current_ok_def f' f1 after_closed_def reset_quotes_def quote_ok_def)
    ultimately have "ingest_inv f' (n @ [fin])"
      using p1 cl fin by (simp add: ingest_inv_def f' reset_quotes_def)
    then show ?thesis using f1 f' by (auto simp: reset_quotes_def)
  qed
qed

lemma ingest_all_inv:
  "ingest_inv f n \<Longrightarrow> \<forall>t \<in> set ts. trendbar_ok t \<Longrightarrow> ingest_all ts acc f = (acc', f') \<Longrightarrow>
   \<exists>n'. ingest_inv f' n' \<and> last_closed f' = last_closed f"
proof (induction ts arbitrary: f n acc)
  case Nil
  then show ?case by auto
next
  case (Cons t ts)
  obtain ok g where g: "ingest_live_bar t f = (ok, g)" by fastforce
  obtain n' where n': "ingest_inv g n'" "last_closed g = last_closed f"
    using ingest_live_bar_inv [OF Cons.prems(1) _ g] Cons.prems(2) by auto
  from Cons.IH [OF n'(1)] Cons.prems(2,3) g n'(2) show ?case by auto
qed

lemma dedup_trendbars_set: "set (dedup_trendbars p ts) \<subseteq> set ts"
proof
  fix t assume "t \<in> set (dedup_trendbars p ts)"
  let ?kept = "filter (\<lambda>b. tb_period b = p) ts"
  let ?m = "map_of (map (\<lambda>b. (opening_of b, b)) (rev ?kept))"
  obtain b where b: "b \<in> set ?kept" "t = the (?m (opening_of b))"
    using \<open>t \<in> _\<close> by (auto simp: dedup_trendbars_def Let_def)
  have "opening_of b \<in> fst ` set (map (\<lambda>b. (opening_of b, b)) (rev ?kept))" using b(1) by force
  then have "?m (opening_of b) \<noteq> None" by (simp only: map_of_eq_None_iff not_not)
  then obtain x where x: "?m (opening_of b) = Some x" by blast
  then have "(opening_of b, x) \<in> set (map (\<lambda>b. (opening_of b, b)) (rev ?kept))" by (rule map_of_SomeD)
  with b(2) x show "t \<in> set ts" by auto
qed

lemma feed_inv_spot:
  assumes inv: "feed_inv f out" and empty: "pending_bars f = []"
    and ok: "\<forall>t \<in> set (sp_trendbars ev). trendbar_ok t"
  shows "feed_inv (handle_spot p w ev f) out"
proof (cases "sp_symbolId ev \<noteq> w")
  case True
  with inv show ?thesis by (simp add: handle_spot_def)
next
  case False
  have start: "ingest_inv f []" using inv empty by (auto simp: feed_inv_def ingest_inv_def queue_ok_def)
  obtain acc f1 where run: "ingest_all (dedup_trendbars p (sp_trendbars ev)) False f = (acc, f1)" by fastforce
  have "\<forall>t \<in> set (dedup_trendbars p (sp_trendbars ev)). trendbar_ok t"
    using ok dedup_trendbars_set by blast
  from ingest_all_inv [OF start this run] obtain n where n: "ingest_inv f1 n" "last_closed f1 = last_closed f"
    by blast
  have given: "given_ok g out" if "last_closed g = last_closed f" for g
    using inv that by (simp add: feed_inv_def given_ok_def)
  define f2 where "f2 = (if sp_bid ev \<noteq> 0 then f1\<lparr>last_bid := Some (price_of (sp_bid ev))\<rparr> else f1)"
  define f3 where "f3 = (if sp_ask ev \<noteq> 0 then track_ask (price_of (sp_ask ev)) f2 else f2)"
  have hs: "handle_spot p w ev f = (if sp_trendbars ev \<noteq> [] \<and> \<not> acc then f1
      else case current_bar f3 of
             Some cur \<Rightarrow> (if acc then f3\<lparr>pending_bars := pending_bars f3 @ [(False, finalize_bar cur False f3)]\<rparr>
                         else f3)
           | None \<Rightarrow> f3)"
    unfolding handle_spot_def if_not_P [OF False] run prod.case Let_def f2_def f3_def by (rule refl)
  have f2: "pending_bars f2 = pending_bars f1" "current_ts f2 = current_ts f1" "current_bar f2 = current_bar f1"
    "last_closed f2 = last_closed f1" "ask_bar f2 = ask_bar f1" by (simp_all add: f2_def)
  have "quote_ok (ask_bar f2)" using n(1) by (simp add: ingest_inv_def current_ok_def f2)
  then have f3: "pending_bars f3 = pending_bars f1" "current_ts f3 = current_ts f1" "current_bar f3 = current_bar f1"
    "last_closed f3 = last_closed f1" "quote_ok (ask_bar f3)"
    using track_ask_ok by (auto simp: f3_def f2 track_ask_def)
  have plain: "feed_inv g out" if "pending_bars g = pending_bars f1" "current_ts g = current_ts f1"
    "current_bar g = current_bar f1" "last_closed g = last_closed f1" "quote_ok (ask_bar g)" for g
  proof -
    have "queue_ok g [] n" "current_ok g"
      using n(1) that by (simp_all add: ingest_inv_def queue_ok_def current_ok_def after_closed_def)
    moreover have "pending_bars g = map (Pair True) [] @ map (Pair False) n"
      using n(1) that by (simp add: ingest_inv_def)
    ultimately show ?thesis using given [of g] that n(2) unfolding feed_inv_def by (metis (no_types))
  qed
  show ?thesis
  proof (cases "acc \<and> current_bar f3 \<noteq> None")
    case no: False
    have "handle_spot p w ev f = f1 \<or> handle_spot p w ev f = f3"
      unfolding hs using no by (cases "current_bar f3") auto
    moreover have "quote_ok (ask_bar f1)" using n(1) by (simp add: ingest_inv_def current_ok_def)
    ultimately show ?thesis using plain [of f1] plain [of f3] f3 by auto
  next
    case yes: True
    then obtain cur where cur: "current_bar f3 = Some cur" by blast
    define fb where "fb = finalize_bar cur False f3"
    have h: "handle_spot p w ev f = f3\<lparr>pending_bars := pending_bars f3 @ [(False, fb)]\<rparr>"
      unfolding hs using yes cur by (simp add: fb_def)
    have c: "current_ts f1 = Some (b_time cur)" "well_formed cur" "b_ask cur = None" "after_closed f1 (b_time cur)"
      using n(1) cur f3 by (auto simp: ingest_inv_def current_ok_def)
    have fb: "b_time fb = b_time cur" "\<not> b_closed fb" "well_formed fb"
      using c f3(5) by (auto simp: fb_def intro!: finalize_well_formed)
    have ac: "after_closed (f3\<lparr>pending_bars := x\<rparr>) t \<longleftrightarrow> after_closed f1 t" for x t
      by (simp add: after_closed_def f3)
    have "queue_ok (f3\<lparr>pending_bars := pending_bars f3 @ [(False, fb)]\<rparr>) [] (n @ [fb])"
      using n(1) c fb
      by (auto simp: queue_ok_def ingest_inv_def ac f3 sorted_wrt_append older_def)
    moreover have "current_ok (f3\<lparr>pending_bars := pending_bars f3 @ [(False, fb)]\<rparr>)"
      using n(1) f3 by (auto simp: current_ok_def ingest_inv_def after_closed_def)
    moreover have "pending_bars f3 @ [(False, fb)] = map (Pair True) [] @ map (Pair False) (n @ [fb])"
      using n(1) f3 by (simp add: ingest_inv_def)
    moreover have "given_ok (f3\<lparr>pending_bars := pending_bars f3 @ [(False, fb)]\<rparr>) out"
      by (rule given) (simp add: f3 n(2))
    ultimately show ?thesis unfolding h feed_inv_def
      by (intro conjI exI [of _ "[]"] exI [of _ "n @ [fb]"]) simp_all
  qed
qed


section \<open>Delivering\<close>

lemma queue_okD:
  assumes "queue_ok f h n"
  shows "sorted_wrt (<) (map b_time h)" and "sorted_wrt older n"
    and "x \<in> set h \<Longrightarrow> b_closed x \<and> well_formed x \<and> after_closed f (b_time x)"
    and "x \<in> set h \<Longrightarrow> y \<in> set n \<Longrightarrow> b_time x < b_time y"
    and "x \<in> set h \<Longrightarrow> current_ts f = Some c \<Longrightarrow> b_time x < c"
    and "y \<in> set n \<Longrightarrow> well_formed y" and "y \<in> set n \<Longrightarrow> \<not> b_closed y \<Longrightarrow> after_closed f (b_time y)"
    and "y \<in> set n \<Longrightarrow> b_closed y \<Longrightarrow> current_ts f = Some c \<Longrightarrow> b_time y < c"
    and "y \<in> set n \<Longrightarrow> current_ts f = Some c \<Longrightarrow> b_time y \<le> c"
  using assms by (auto simp: queue_ok_def split: if_splits)

lemma given_ok_snoc:
  assumes "given_ok f out" "well_formed b" "after_closed f (b_time b)"
  shows "given_ok (f\<lparr>pending_bars := p, last_closed := Some b\<rparr>) (out @ [b])"
    and "\<not> b_closed b \<Longrightarrow> given_ok (f\<lparr>pending_bars := p\<rparr>) (out @ [b])"
proof -
  have old: "b_time x < b_time b" if x: "x \<in> set out" "b_closed x" for x
  proof -
    obtain l where "last_closed f = Some l" "b_time x \<le> b_time l"
      using assms(1) x unfolding given_ok_def by blast
    with assms(3) show ?thesis by (simp add: after_closed_def)
  qed
  show "given_ok (f\<lparr>pending_bars := p, last_closed := Some b\<rparr>) (out @ [b])"
    using assms(1,2) old by (auto simp: given_ok_def sorted_wrt_append older_def dest: old intro: less_imp_le)
  show "given_ok (f\<lparr>pending_bars := p\<rparr>) (out @ [b])" if "\<not> b_closed b"
    using assms(1,2) old that by (auto simp: given_ok_def sorted_wrt_append older_def dest: old)
qed

text \<open>The delivery of the front bar, when it is newer than the last closed one.\<close>

lemma pop_delivery_inv:
  assumes inv: "feed_inv f out" and run: "pop_delivery f = (d, f')"
    and front: "\<forall>h b rest. pending_bars f = (h, b) # rest \<longrightarrow> after_closed f (b_time b)"
  shows "feed_inv f' (out @ given d)"
proof (cases "pending_bars f")
  case Nil
  with run inv show ?thesis by (auto simp: pop_delivery_def given_def)
next
  case (Cons hb rest)
  obtain h0 b where hb: "hb = (h0, b)" by fastforce
  obtain h n where hn: "pending_bars f = map (Pair True) h @ map (Pair False) n" and q: "queue_ok f h n"
    using inv unfolding feed_inv_def by blast
  have cur: "current_ok f" and giv: "given_ok f out" using inv by (simp_all add: feed_inv_def)
  have ab: "after_closed f (b_time b)" using front Cons hb by blast
  have d: "d = Delivered b" and f': "f' = (if b_closed b then f\<lparr>pending_bars := rest, last_closed := Some b\<rparr>
        else f\<lparr>pending_bars := rest\<rparr>)"
    using run Cons hb by (simp_all add: pop_delivery_def)
  obtain h' n' where rest: "rest = map (Pair True) h' @ map (Pair False) n'"
    and split: "(h = b # h' \<and> n' = n) \<or> (h = [] \<and> h' = [] \<and> n = b # n')"
    using hn Cons hb by (cases h; cases n) auto
  have wf: "well_formed b" using split queue_okD(3,6) [OF q, of b] by auto
  show ?thesis
  proof (cases "b_closed b")
    case False
    then have "h = []" "h' = []" "n = b # n'" using split queue_okD(3) [OF q, of b] by auto
    then have "queue_ok f' h' n'" using q False f' by (auto simp: queue_ok_def after_closed_def)
    moreover have "current_ok f'" using cur False f' by (simp add: current_ok_def after_closed_def)
    ultimately show ?thesis
      using given_ok_snoc(2) [OF giv wf ab False, of rest] rest False d f'
      unfolding feed_inv_def given_def by auto
  next
    case True
    have later: "b_time b < b_time x" if "x \<in> set h' \<union> set n'" for x
      using split that q True by (auto simp: queue_ok_def older_def)
    have "b_time b < c" if "current_ts f = Some c" for c
      using split q True that queue_okD(5,8) [OF q, of b c] by auto
    then have cb: "b_time b < b_time c" if "current_bar f = Some c" for c
      using cur that by (simp add: current_ok_def)
    have "queue_ok f' h' n'"
      using split q later True f' by (auto simp: queue_ok_def after_closed_def)
    moreover have "current_ok f'" using cur cb True f' by (simp add: current_ok_def after_closed_def)
    ultimately show ?thesis
      using given_ok_snoc(1) [OF giv wf ab, of rest] rest True d f'
      unfolding feed_inv_def given_def by auto
  qed
qed

text \<open>Dropping the front bar of the stream.\<close>

lemma drop_front_inv:
  assumes inv: "feed_inv f out" and p: "pending_bars f = (False, b) # rest"
  shows "feed_inv (f\<lparr>pending_bars := rest\<rparr>) out"
proof -
  obtain h n where hn: "pending_bars f = map (Pair True) h @ map (Pair False) n" and q: "queue_ok f h n"
    using inv unfolding feed_inv_def by blast
  from hn p obtain n' where n: "h = []" "n = b # n'" "rest = map (Pair False) n'"
    by (cases h; cases n) auto
  have "queue_ok (f\<lparr>pending_bars := rest\<rparr>) [] n'" using q n by (auto simp: queue_ok_def after_closed_def)
  moreover have "current_ok (f\<lparr>pending_bars := rest\<rparr>)" "given_ok (f\<lparr>pending_bars := rest\<rparr>) out"
    using inv by (simp_all add: feed_inv_def current_ok_def given_ok_def after_closed_def)
  moreover have "pending_bars (f\<lparr>pending_bars := rest\<rparr>) = map (Pair True) [] @ map (Pair False) n'"
    using n by simp
  ultimately show ?thesis unfolding feed_inv_def by blast
qed

text \<open>A repair puts the recovered bars in front of the candidate.\<close>

lemma repair_inv:
  assumes inv: "feed_inv f out" and p: "pending_bars f = (False, cand) # rest"
    and coll: "collection_ok coll" and anchor: "last_closed f = Some a" and closed: "b_closed cand"
    and run: "repair_gap changed (b_time a) (b_time cand) coll f = Inr f'"
  shows "feed_inv f' out
     \<and> (\<forall>h b rest. pending_bars f' = (h, b) # rest \<longrightarrow> b_time a < b_time cand \<longrightarrow> after_closed f' (b_time b))"
proof -
  define rec where "rec = filter (\<lambda>b. b_time a < b_time b \<and> b_time b < b_time cand) (c_bars coll)"
  have f': "f' = f\<lparr>pending_bars := map (Pair True) rec @ pending_bars f\<rparr>"
    using run by (auto simp: repair_gap_def Let_def rec_def split: if_splits)
  obtain h n where hn: "pending_bars f = map (Pair True) h @ map (Pair False) n" and q: "queue_ok f h n"
    using inv unfolding feed_inv_def by blast
  from hn p obtain n' where n: "h = []" "n = cand # n'" by (cases h; cases n) auto
  have "sorted_wrt (<) (map b_time rec)"
  proof -
    have "sorted_wrt (\<lambda>x y. b_time x < b_time y) (c_bars coll)"
      using coll by (simp add: collection_ok_def sorted_wrt_map)
    then show ?thesis unfolding rec_def sorted_wrt_map by (rule sorted_wrt_filter)
  qed
  moreover have rec: "b_closed x \<and> well_formed x \<and> after_closed f (b_time x) \<and> b_time x < b_time cand"
    if "x \<in> set rec" for x
    using that coll anchor by (auto simp: rec_def collection_ok_def after_closed_def)
  moreover have "b_time x < b_time y" if "x \<in> set rec" "y \<in> set n" for x y
  proof -
    have "y = cand \<or> b_time cand < b_time y" using that(2) n q closed by (auto simp: queue_ok_def older_def)
    with rec [OF that(1)] show ?thesis by auto
  qed
  moreover have "b_time x < c" if "x \<in> set rec" "current_ts f = Some c" for x c
    using rec [OF that(1)] queue_okD(8) [OF q _ closed that(2)] n by fastforce
  ultimately have "queue_ok f' rec n"
    using q unfolding queue_ok_def f' by (simp add: after_closed_def)
  moreover have "pending_bars f' = map (Pair True) rec @ map (Pair False) n"
    by (simp add: f' hn n)
  moreover have "current_ok f'" "given_ok f' out"
    using inv by (simp_all add: f' feed_inv_def current_ok_def given_ok_def after_closed_def)
  ultimately have "feed_inv f' out" unfolding feed_inv_def by blast
  moreover have "after_closed f' (b_time b)"
    if "pending_bars f' = (x, b) # r" "b_time a < b_time cand" for x b r
  proof -
    have "b \<in> set rec \<or> b = cand" using that(1) p by (cases rec) (auto simp: f')
    with rec that(2) anchor show ?thesis by (auto simp: f' after_closed_def)
  qed
  ultimately show ?thesis by blast
qed

lemma feed_inv_turn:
  assumes inv: "feed_inv f out" and coll: "\<forall>a c coll. collect a c = Inr coll \<longrightarrow> collection_ok coll"
    and run: "watch_turn following collect changed f = (d, f')"
  shows "feed_inv f' (out @ given d)"
proof (cases "pending_bars f")
  case Nil
  with run inv show ?thesis by (auto simp: watch_turn_def given_def)
next
  case (Cons hb rest)
  obtain h0 cand where hb: "hb = (h0, cand)" by fastforce
  note p = Cons [unfolded hb]
  obtain h n where hn: "pending_bars f = map (Pair True) h @ map (Pair False) n" and q: "queue_ok f h n"
    using inv unfolding feed_inv_def by blast
  have side: "h0 \<or> \<not> b_closed cand \<Longrightarrow> after_closed f (b_time cand)"
    using hn p q by (cases h; cases n) (auto simp: queue_ok_def)
  have pop: ?thesis if "watch_turn following collect changed f = pop_delivery f" "after_closed f (b_time cand)"
    using pop_delivery_inv [OF inv] run that p by simp
  show ?thesis
  proof (cases "last_closed f")
    case None
    then have "watch_turn following collect changed f = pop_delivery f" "after_closed f (b_time cand)"
      using p by (simp_all add: watch_turn_def after_closed_def)
    then show ?thesis by (rule pop)
  next
    case (Some a)
    show ?thesis
    proof (cases "b_closed cand \<and> \<not> h0")
      case False
      then have "watch_turn following collect changed f = pop_delivery f" using p Some by (auto simp: watch_turn_def)
      with side False show ?thesis by (intro pop) auto
    next
      case True
      then have p': "pending_bars f = (False, cand) # rest" using p by simp
      consider "b_time cand \<le> b_time a" | "b_time a < b_time cand" "following (b_time a) = None"
        | e where "b_time a < b_time cand" "following (b_time a) = Some e" "\<not> e < b_time cand"
        | e where "b_time a < b_time cand" "following (b_time a) = Some e" "e < b_time cand"
        by (metis not_le option.exhaust)
      then show ?thesis
      proof cases
        case 1
        then show ?thesis using run p' Some True drop_front_inv [OF inv p'] by (auto simp: watch_turn_def given_def)
      next
        case 2
        then show ?thesis using run p' Some True inv by (auto simp: watch_turn_def given_def)
      next
        case 3
        then have "watch_turn following collect changed f = pop_delivery f" "after_closed f (b_time cand)"
          using p' Some True by (auto simp: watch_turn_def after_closed_def)
        then show ?thesis by (rule pop)
      next
        case 4
        show ?thesis
        proof (cases "collect (b_time a) (b_time cand)")
          case (Inl x)
          with 4 run p' Some True inv show ?thesis by (auto simp: watch_turn_def given_def)
        next
          case (Inr c)
          then have cok: "collection_ok c" using coll by blast
          show ?thesis
          proof (cases "repair_gap changed (b_time a) (b_time cand) c f")
            case (Inl x)
            with 4 Inr run p' Some True inv show ?thesis by (auto simp: watch_turn_def given_def)
          next
            case (Inr f1)
            with 4 \<open>collect _ _ = Inr c\<close> run p' Some True have "pop_delivery f1 = (d, f')"
              by (auto simp: watch_turn_def)
            moreover note r = repair_inv [OF inv p' cok Some _ Inr]
            ultimately show ?thesis using pop_delivery_inv [of f1 out d f'] True 4(1) by blast
          qed
        qed
      qed
    qed
  qed
qed

section \<open>The interface to the grid\<close>

locale bar_grid =
  fixes following :: "int \<Rightarrow> int option"
  assumes following_later: "following t = Some u \<Longrightarrow> t < u"
begin

lemma backfill_newer: "backfill_cursor following f = Some c \<Longrightarrow> last_closed f = Some b \<Longrightarrow> b_time b < c"
  using following_later by (simp add: backfill_cursor_def)

lemma feed_inv_backfill:
  assumes inv: "feed_inv f out" and p: "pending_bars f = []" and c: "current_ts f = None"
    and coll: "collection_ok coll" and cur: "backfill_cursor following f = Some cur"
    and ge: "\<forall>b \<in> set (c_bars coll). cur \<le> b_time b" and run: "queue_backfill coll f = Inr f'"
  shows "feed_inv f' out"
proof -
  have f': "f' = f\<lparr>pending_bars := map (Pair True) (c_bars coll)\<rparr>"
    using run p by (auto simp: queue_backfill_def split: if_splits)
  have "after_closed f (b_time b)" if "b \<in> set (c_bars coll)" for b
  proof (cases "last_closed f")
    case None
    then show ?thesis by (simp add: after_closed_def)
  next
    case (Some l)
    with backfill_newer [OF cur Some] ge that show ?thesis by (force simp: after_closed_def)
  qed
  then have "queue_ok f' (c_bars coll) []"
    using coll c by (auto simp: queue_ok_def f' collection_ok_def after_closed_def)
  moreover have "current_ok f'" "given_ok f' out"
    using inv by (simp_all add: f' feed_inv_def current_ok_def given_ok_def after_closed_def)
  moreover have "pending_bars f' = map (Pair True) (c_bars coll) @ map (Pair False) []" by (simp add: f')
  ultimately show ?thesis unfolding feed_inv_def by blast
qed

lemma feed_run_inv: "feed_run following f out \<Longrightarrow> feed_inv f out"
proof (induction rule: feed_run.induct)
  case start
  show ?case by (rule feed_inv_start)
next
  case (seeded c)
  show ?case by (rule feed_inv_start)
next
  case (spot f out ev expected watched)
  show ?case by (rule feed_inv_spot [OF spot.IH spot.hyps(2) spot.hyps(3)])
next
  case (turn f out collect changed d f')
  show ?case by (rule feed_inv_turn [OF turn.IH turn.hyps(2) turn.hyps(3)])
next
  case (reset f out)
  show ?case by (rule feed_inv_reset [OF reset.IH])
next
  case (backfill f out coll cur f')
  show ?case
    by (rule feed_inv_backfill [OF backfill.IH backfill.hyps(2) backfill.hyps(3) backfill.hyps(4)
          backfill.hyps(5) backfill.hyps(6) backfill.hyps(7)])
qed

lemma delivered_in_order:
  "feed_run following f out \<Longrightarrow> sorted_wrt older out \<and> (\<forall>b \<in> set out. well_formed b)"
  using feed_run_inv by (simp add: feed_inv_def given_ok_def)

end

interpretation fixed_grid: bar_grid "fixed_following seconds" for seconds
  by unfold_locales (use period_ms_pos [of seconds] in \<open>simp add: fixed_following_def\<close>)

text \<open>
  C6: The live stream is ordered and well formed. Over any sequence of spot events, deliveries with and
  without gap repairs, reconnects and backfills, every bar delivered after a closed bar is strictly
  newer than it - so closed bars are delivered in strictly ascending order, never twice, and no
  forming bar of a closed slot reappears - and every delivered bar has its open and close within its
  range and its ask values within the ask range. (The venue's trendbars are assumed to have their open and
  close between low and high, and a history collection to be ascending, as Collection_Properties shows.)
\<close>

theorem live_stream_ordered:
  assumes "feed_run (fixed_following seconds) f out"
  shows "sorted_wrt older out \<and> (\<forall>b \<in> set out. well_formed b)"
  by (rule fixed_grid.delivered_in_order [OF assms])

definition demo_trendbar :: "int \<Rightarrow> int \<Rightarrow> trendbar" where
  "demo_trendbar m low = \<lparr>tb_volume = 3, tb_period = M1, tb_low = low, tb_deltaOpen = 1, tb_deltaClose = 2,
     tb_deltaHigh = 4, tb_minutes = m\<rparr>"

lemma live_stream_ordered_witness:
  "\<exists>f out. feed_run (fixed_following 60) f out \<and> length out = 1 \<and> sorted_wrt older out"
proof -
  let ?ev = "\<lparr>sp_symbolId = 1, sp_bid = 100003, sp_ask = 0, sp_trendbars = [demo_trendbar 5 100000]\<rparr>"
  let ?f = "handle_spot M1 1 ?ev init_feed"
  have r1: "feed_run (fixed_following 60) ?f []"
    by (rule feed_run.spot [OF feed_run.start])
      (simp_all add: init_feed_def trendbar_ok_def demo_trendbar_def)
  obtain d g where t: "watch_turn (fixed_following 60) (\<lambda>_ _. Inl TypeError) False ?f = (d, g)" by fastforce
  have "given d \<noteq> [] \<and> length (given d) = 1"
    using t by (auto simp: watch_turn_def handle_spot_def dedup_trendbars_def Let_def init_feed_def
        demo_trendbar_def opening_of_def ingest_live_bar_def decode_trendbar_def pop_delivery_def given_def
        split: if_splits)
  moreover have "feed_run (fixed_following 60) g ([] @ given d)"
    by (rule feed_run.turn [OF r1 _ t]) simp
  ultimately show ?thesis using live_stream_ordered [of 60 g "[] @ given d"] by auto
qed

lemma pop_delivery_succeeds: "pop_delivery f \<noteq> (Failed_delivery e, f')"
  by (simp add: pop_delivery_def split: list.split prod.split)



end
