(* ===== verification/History_Properties.thy ===== *)
theory History_Properties
  imports History Feed
begin

text \<open>
  What the history reads return, for a venue that answers a window it cannot serve whole with its newest
  or with its oldest part.
\<close>

section \<open>Taking a response\<close>

lemma take_bars_step:
  "take_bars (b # rows) (bars, oldest, added) =
   take_bars rows (if map_of bars (opening_of b) = None then bars @ [(opening_of b, b)] else bars,
                   min oldest (opening_of b), added \<or> map_of bars (opening_of b) = None)"
  by (cases "map_of bars (opening_of b)") simp_all

declare take_bars.simps(2) [simp del]

lemma take_bars_sub: "take_bars rows (bars, oldest, added) = (bars', oldest', added') \<Longrightarrow> set bars \<subseteq> set bars'"
proof (induction rows arbitrary: bars oldest added)
  case (Cons b rows)
  from Cons.IH [OF Cons.prems [unfolded take_bars_step]] show ?case by (auto split: if_splits)
qed simp

lemma take_bars_dom:
  "take_bars rows (bars, oldest, added) = (bars', oldest', added') \<Longrightarrow>
   fst ` set bars' = fst ` set bars \<union> opening_of ` set rows"
proof (induction rows arbitrary: bars oldest added)
  case (Cons b rows)
  then show ?case by (cases "map_of bars (opening_of b) = None") (auto simp: take_bars_step map_of_eq_None_iff)
qed simp

lemma take_bars_from:
  "take_bars rows (bars, oldest, added) = (bars', oldest', added') \<Longrightarrow>
   set bars' \<subseteq> set bars \<union> (\<lambda>b. (opening_of b, b)) ` set rows"
proof (induction rows arbitrary: bars oldest added)
  case (Cons b rows)
  from Cons.IH [OF Cons.prems [unfolded take_bars_step]] show ?case by (auto split: if_splits)
qed simp

lemma take_bars_distinct:
  "take_bars rows (bars, oldest, added) = (bars', oldest', added') \<Longrightarrow> distinct (map fst bars) \<Longrightarrow>
   distinct (map fst bars')"
proof (induction rows arbitrary: bars oldest added)
  case (Cons b rows)
  then show ?case by (cases "map_of bars (opening_of b) = None") (auto simp: take_bars_step map_of_eq_None_iff)
qed simp

lemma take_bars_added:
  "take_bars rows (bars, oldest, added) = (bars', oldest', added') \<Longrightarrow>
   added' \<longleftrightarrow> added \<or> \<not> opening_of ` set rows \<subseteq> fst ` set bars"
proof (induction rows arbitrary: bars oldest added)
  case (Cons b rows)
  then show ?case by (cases "map_of bars (opening_of b) = None") (auto simp: take_bars_step map_of_eq_None_iff)
qed simp

lemma take_bars_oldest:
  "take_bars rows (bars, oldest, added) = (bars', oldest', added') \<Longrightarrow>
   oldest' = Min (insert oldest (opening_of ` set rows))"
proof (induction rows arbitrary: bars oldest added)
  case (Cons b rows)
  then have "oldest' = Min (insert (min oldest (opening_of b)) (opening_of ` set rows))"
    by (cases "map_of bars (opening_of b) = None") (auto simp: take_bars_step)
  then show ?case by (cases "rows = []") (simp_all add: min.assoc)
qed simp

lemmas take_bars_facts = take_bars_sub take_bars_dom take_bars_from take_bars_distinct take_bars_added take_bars_oldest

section \<open>One window, whatever the venue answers\<close>

text \<open>Bars keyed by their own opening, each opening once.\<close>

definition keyed :: "opened \<Rightarrow> bool" where
  "keyed bars \<longleftrightarrow> distinct (map fst bars) \<and> (\<forall>(t, b) \<in> set bars. t = opening_of b)"

lemma keyedD: "keyed bars \<Longrightarrow> (t, b) \<in> set bars \<Longrightarrow> opening_of b = t"
  by (auto simp: keyed_def dest!: bspec)

lemma take_bars_keyed:
  "take_bars rows (bars, oldest, added) = (bars', oldest', added') \<Longrightarrow> keyed bars \<Longrightarrow> keyed bars'"
  using take_bars_distinct take_bars_from unfolding keyed_def by fastforce

lemma fetch_loop_keyed:
  "fetch_loop fuel ask f u narrowed bars k = Some (Inr (res, cov), k') \<Longrightarrow> keyed bars \<Longrightarrow> keyed res"
proof (induction fuel arbitrary: u narrowed bars k)
  case (Suc fuel)
  show ?case
  proof (cases "f < u \<and> (\<exists>rows more. ask k f u = Inr (rows, more))")
    case True
    then obtain rows more where a: "f < u" "ask k f u = Inr (rows, more)" by blast
    obtain bars' oldest added where t: "take_bars rows (bars, u, False) = (bars', oldest, added)"
      using prod_cases3 by blast
    have "keyed bars'" using take_bars_keyed [OF t Suc.prems(2)] .
    with Suc.IH [of oldest True bars' "Suc k"] Suc.prems(1) a t show ?thesis by (auto split: if_splits)
  next
    case False
    with Suc.prems show ?thesis by (cases "ask k f u") (auto split: if_splits)
  qed
qed (auto split: if_splits)

lemma fetch_window_keyed:
  "fetch_trendbar_window fuel ask f u k = Some (Inr (res, cov), k') \<Longrightarrow> keyed res"
  using fetch_loop_keyed by (fastforce simp: fetch_trendbar_window_def keyed_def)

lemma Min_insert_lower:
  fixes u :: int
  assumes "finite A" "x \<in> A" "x < u"
  shows "Min (insert u A) \<in> A" and "Min (insert u A) < u"
proof -
  have "Min (insert u A) \<le> x" using assms by (intro Min_le) auto
  with assms(3) show "Min (insert u A) < u" by simp
  moreover have "Min (insert u A) \<in> insert u A" using assms(1) by (intro Min_in) auto
  ultimately show "Min (insert u A) \<in> A" by auto
qed

text \<open>A venue that serves no opening past the end of the request: the reads end. After the first read the
  upper end is an opening already held, so each further read that continues lowers it.\<close>

definition within_request :: "history \<Rightarrow> bool" where
  "within_request ask \<longleftrightarrow> (\<forall>k f u rows more. ask k f u = Inr (rows, more) \<longrightarrow> (\<forall>b \<in> set rows. opening_of b \<le> u))"

lemma fetch_loop_ends:
  assumes within: "within_request ask"
  shows "narrowed \<Longrightarrow> u \<in> fst ` set bars \<Longrightarrow> nat (u - f) \<le> fuel \<Longrightarrow>
         fetch_loop fuel ask f u narrowed bars k \<noteq> None"
proof (induction fuel arbitrary: u bars k narrowed)
  case (Suc fuel)
  show ?case
  proof (cases "f < u \<and> (\<exists>rows more. ask k f u = Inr (rows, more))")
    case True
    then obtain rows more where a: "f < u" "ask k f u = Inr (rows, more)" by blast
    obtain bars' oldest added where t: "take_bars rows (bars, u, False) = (bars', oldest, added)"
      using prod_cases3 by blast
    show ?thesis
    proof (cases "added \<and> more \<and> f < oldest")
      case go: True
      have "\<not> opening_of ` set rows \<subseteq> fst ` set bars" using take_bars_added [OF t] go by simp
      then obtain x where x: "x \<in> opening_of ` set rows" "x \<notin> fst ` set bars" by blast
      then have "x \<noteq> u" using Suc.prems(2) by blast
      moreover have "x \<le> u" using x(1) within a(2) unfolding within_request_def by blast
      ultimately have "x < u" by simp
      from Min_insert_lower [OF _ x(1) this] have lower: "oldest < u" and inrows: "oldest \<in> opening_of ` set rows"
        using take_bars_oldest [OF t] by simp_all
      have "oldest \<in> fst ` set bars'" using take_bars_dom [OF t] inrows by blast
      moreover have "nat (oldest - f) \<le> fuel" using lower Suc.prems(3) a(1) go by linarith
      ultimately show ?thesis using Suc.IH [of True oldest bars' "Suc k"] a t go by auto
    next
      case False
      then show ?thesis using a t by auto
    qed
  next
    case False
    then show ?thesis by (cases "ask k f u") auto
  qed
qed auto

section \<open>A venue that caps its answers\<close>

text \<open>What the venue holds of a request: the bars opening in it and the one that contains its start.\<close>

definition in_window :: "trendbar list \<Rightarrow> int \<Rightarrow> int \<Rightarrow> trendbar set" where
  "in_window B f u = {b \<in> set B. opening_of b \<le> u
     \<and> (f \<le> opening_of b \<or> \<not> (\<exists>c \<in> set B. opening_of b < opening_of c \<and> opening_of c \<le> f))}"

text \<open>It answers with all of it, or, past its cap, with the newest or with the oldest \<open>cap\<close> bars.\<close>

definition serves :: "bool \<Rightarrow> nat \<Rightarrow> trendbar list \<Rightarrow> history \<Rightarrow> bool" where
  "serves newest cap B ask \<longleftrightarrow> inj_on opening_of (set B) \<and>
     (\<forall>k f u. \<exists>rows more. ask k f u = Inr (rows, more) \<and> set rows \<subseteq> in_window B f u
        \<and> more = (cap < card (in_window B f u))
        \<and> (\<not> more \<longrightarrow> set rows = in_window B f u)
        \<and> (more \<longrightarrow> card (set rows) = cap
             \<and> (\<forall>r \<in> set rows. \<forall>b \<in> in_window B f u - set rows.
                  if newest then opening_of b < opening_of r else opening_of r < opening_of b)))"

abbreviation key :: "trendbar \<Rightarrow> int \<times> trendbar" where
  "key b \<equiv> (opening_of b, b)"

lemma servesE:
  assumes "serves newest cap B ask"
  obtains rows more where "ask k f u = Inr (rows, more)" "set rows \<subseteq> in_window B f u"
    "more = (cap < card (in_window B f u))" "\<not> more \<Longrightarrow> set rows = in_window B f u"
    "more \<Longrightarrow> card (set rows) = cap"
    "\<And>r b. more \<Longrightarrow> r \<in> set rows \<Longrightarrow> b \<in> in_window B f u \<Longrightarrow> b \<notin> set rows \<Longrightarrow>
       if newest then opening_of b < opening_of r else opening_of r < opening_of b"
proof -
  from assms have "\<exists>rows more. ask k f u = Inr (rows, more) \<and> set rows \<subseteq> in_window B f u
        \<and> more = (cap < card (in_window B f u)) \<and> (\<not> more \<longrightarrow> set rows = in_window B f u)
        \<and> (more \<longrightarrow> card (set rows) = cap
             \<and> (\<forall>r \<in> set rows. \<forall>b \<in> in_window B f u - set rows.
                  if newest then opening_of b < opening_of r else opening_of r < opening_of b))"
    unfolding serves_def by (elim conjE allE)
  then show ?thesis using that by blast
qed

lemma serves_inj: "serves newest cap B ask \<Longrightarrow> inj_on opening_of (set B)"
  by (simp add: serves_def)

lemma serves_within: "serves newest cap B ask \<Longrightarrow> within_request ask"
  unfolding within_request_def
proof (intro allI impI ballI)
  fix k f u rows more b
  assume s: "serves newest cap B ask" and a: "ask k f u = Inr (rows, more)" and b: "b \<in> set rows"
  from s obtain rows' more' where "ask k f u = Inr (rows', more')" "set rows' \<subseteq> in_window B f u"
    by (rule servesE [of _ _ _ _ k f u])
  with a b show "opening_of b \<le> u" by (auto simp: in_window_def)
qed

lemma in_window_finite [simp]: "finite (in_window B f u)"
  by (simp add: in_window_def)

lemma in_window_B: "b \<in> in_window B f u \<Longrightarrow> b \<in> set B"
  by (simp add: in_window_def)

lemma in_window_shrink: "u \<le> t \<Longrightarrow> in_window B f u = {b \<in> in_window B f t. opening_of b \<le> u}"
  by (auto simp: in_window_def)

text \<open>Nothing of a window is older than a bar that opens at its start or before.\<close>

lemma in_window_start:
  "b \<in> in_window B f u \<Longrightarrow> c \<in> in_window B f u \<Longrightarrow> opening_of c \<le> f \<Longrightarrow> opening_of c \<le> opening_of b"
  by (force simp: in_window_def)

lemma take_bars_set:
  assumes t: "take_bars rows (bars, oldest, added) = (bars', oldest', added')"
    and S: "set bars = key ` S" "S \<subseteq> set B" and R: "set rows \<subseteq> set B" and inj: "inj_on opening_of (set B)"
  shows "set bars' = key ` (S \<union> set rows)"
proof
  show "set bars' \<subseteq> key ` (S \<union> set rows)" using take_bars_from [OF t] unfolding S(1) image_Un .
  show "key ` (S \<union> set rows) \<subseteq> set bars'"
  proof
    fix x assume "x \<in> key ` (S \<union> set rows)"
    then obtain b where b: "x = key b" "b \<in> S \<union> set rows" by (rule imageE)
    have "fst ` set bars = opening_of ` S" unfolding S(1) image_image by simp
    then have "opening_of b \<in> fst ` set bars'" unfolding take_bars_dom [OF t] using b(2) by blast
    then obtain y where y: "y \<in> set bars'" "opening_of b = fst y" by (rule imageE)
    from y(1) take_bars_from [OF t] have "y \<in> key ` (S \<union> set rows)" unfolding S(1) image_Un by (rule subsetD [rotated])
    then obtain c where c: "y = key c" "c \<in> S \<union> set rows" by (rule imageE)
    have "opening_of c = opening_of b" using y(2) c(1) by simp
    moreover have "c \<in> set B" "b \<in> set B" using b(2) c(2) S(2) R by blast+
    ultimately have "c = b" by (rule inj_onD [OF inj])
    then show "x \<in> set bars'" using y(1) c(1) b(1) by simp
  qed
qed

text \<open>A capped answer of at least two bars reaches below the newest of the window.\<close>

lemma two_reach_below:
  assumes "card (set rows) = cap" "2 \<le> cap" "set rows \<subseteq> in_window B f u" "inj_on opening_of (set B)"
  obtains b where "b \<in> set rows" "opening_of b < u"
proof -
  have "\<not> set rows \<subseteq> {b \<in> set B. opening_of b = u}"
  proof
    assume sub: "set rows \<subseteq> {b \<in> set B. opening_of b = u}"
    have "card (set rows) \<le> 1"
    proof (rule card_le_Suc0_iff_eq [THEN iffD2, unfolded One_nat_def [symmetric]])
      show "\<forall>x \<in> set rows. \<forall>y \<in> set rows. x = y" using sub assms(4) by (auto simp: inj_on_def subset_iff)
    qed simp
    with assms(1,2) show False by simp
  qed
  then obtain b where "b \<in> set rows" "b \<notin> {b \<in> set B. opening_of b = u}" by blast
  moreover have "b \<in> set B" "opening_of b \<le> u" using calculation(1) assms(3) by (auto simp: in_window_def)
  ultimately show ?thesis using that by force
qed

text \<open>Draining a window from a venue that caps to the newest bars. What is held is the part of the window
  from \<open>u\<close> on; there is more below it.\<close>

definition drained :: "trendbar list \<Rightarrow> int \<Rightarrow> int \<Rightarrow> bool \<Rightarrow> int \<Rightarrow> trendbar set" where
  "drained B f t narrowed u = {b \<in> in_window B f t. narrowed \<and> u \<le> opening_of b}"

lemma newest_drain:
  assumes serves: "serves True cap B ask" and cap: "2 \<le> cap"
  shows "f < u \<Longrightarrow> u \<le> t \<Longrightarrow> (narrowed \<or> u = t) \<Longrightarrow> set bars = key ` drained B f t narrowed u \<Longrightarrow>
     (narrowed \<Longrightarrow> u \<in> opening_of ` in_window B f t \<and> (\<exists>b \<in> in_window B f t. opening_of b < u)) \<Longrightarrow>
     fetch_loop fuel ask f u narrowed bars k = Some (Inr (res, cov), k') \<Longrightarrow>
     cov \<and> set res = key ` in_window B f t"
proof (induction fuel arbitrary: u narrowed bars k)
  case (Suc fuel)
  note inj = serves_inj [OF serves]
  have W: "in_window B f u = {b \<in> in_window B f t. opening_of b \<le> u}" by (rule in_window_shrink [OF Suc.prems(2)])
  obtain rows more where a: "ask k f u = Inr (rows, more)" and sub: "set rows \<subseteq> in_window B f u"
    and more: "more = (cap < card (in_window B f u))" and all: "\<not> more \<Longrightarrow> set rows = in_window B f u"
    and card: "more \<Longrightarrow> card (set rows) = cap"
    and part: "\<And>r b. more \<Longrightarrow> r \<in> set rows \<Longrightarrow> b \<in> in_window B f u \<Longrightarrow> b \<notin> set rows \<Longrightarrow> opening_of b < opening_of r"
    using servesE [OF serves, of k f u] by (metis (full_types))
  obtain bars' oldest added where tb: "take_bars rows (bars, u, False) = (bars', oldest, added)"
    using prod_cases3 by blast
  have inB: "drained B f t narrowed u \<subseteq> set B" "set rows \<subseteq> set B"
    using sub in_window_B by (auto simp: drained_def)
  have bars': "set bars' = key ` (drained B f t narrowed u \<union> set rows)"
    by (rule take_bars_set [OF tb Suc.prems(4) inB inj])
  have held: "fst ` set bars = opening_of ` drained B f t narrowed u" unfolding Suc.prems(4) image_image by simp
  have fresh: "added" if "b \<in> set rows" "opening_of b < u" for b
  proof -
    have "opening_of b \<notin> opening_of ` drained B f t narrowed u"
      using that(2) by (auto simp: drained_def)
    then show ?thesis unfolding take_bars_added [OF tb] held using that(1) by blast
  qed
  have step: "fetch_loop (Suc fuel) ask f u narrowed bars k =
      (if narrowed \<and> \<not> added then Some (Inr (bars', False), Suc k)
       else if \<not> more then Some (Inr (bars', True), Suc k)
       else if \<not> added \<or> oldest \<le> f then Some (Inr (bars', False), Suc k)
       else fetch_loop fuel ask f oldest True bars' (Suc k))"
    using Suc.prems(1) a tb by simp
  show ?case
  proof (cases more)
    case False
    have "drained B f t narrowed u \<union> set rows = in_window B f t"
      unfolding all [OF False] W using Suc.prems(2,3) by (auto simp: drained_def in_window_def)
    moreover have "narrowed \<Longrightarrow> added" using Suc.prems(5) fresh all [OF False] W by auto
    ultimately show ?thesis using Suc.prems(6) [unfolded step] bars' False by (auto split: if_splits)
  next
    case True
    obtain b where b: "b \<in> set rows" "opening_of b < u" using two_reach_below [OF card [OF True] cap sub inj] .
    have old: "oldest \<in> opening_of ` set rows" "oldest < u"
      using Min_insert_lower [of "opening_of ` set rows" "opening_of b" u] b take_bars_oldest [OF tb] by auto
    then obtain r where r: "r \<in> set rows" "opening_of r = oldest" by blast
    have low: "oldest \<le> opening_of c" if "c \<in> set rows" for c
      using take_bars_oldest [OF tb] that by simp
    have "added" using b by (rule fresh)
    have "\<exists>c \<in> in_window B f u. c \<notin> set rows"
      using more True card [OF True] sub by (metis less_irrefl subset_antisym subsetI)
    then obtain c where c: "c \<in> in_window B f u" "c \<notin> set rows" by blast
    have below: "opening_of c < oldest" using part [OF True r(1) c] r(2) by simp
    have "f < oldest"
    proof (rule ccontr)
      assume "\<not> f < oldest"
      then have "opening_of r \<le> f" using r(2) by simp
      from in_window_start [OF c(1) subsetD [OF sub r(1)] this] below r(2) show False by simp
    qed
    have "drained B f t narrowed u \<union> set rows = drained B f t True oldest"
    proof (rule set_eqI, rule iffI)
      fix x assume "x \<in> drained B f t narrowed u \<union> set rows"
      then show "x \<in> drained B f t True oldest"
        using low old(2) sub W by (auto simp: drained_def)
    next
      fix x assume x: "x \<in> drained B f t True oldest"
      show "x \<in> drained B f t narrowed u \<union> set rows"
      proof (cases "x \<in> in_window B f u")
        case True
        with part [OF \<open>more\<close> r(1) True] r(2) x show ?thesis by (auto simp: drained_def)
      next
        case False
        then have "u < opening_of x" using x W by (auto simp: drained_def)
        with x Suc.prems(3) in_window_def show ?thesis by (auto simp: drained_def in_window_def)
      qed
    qed
    with bars' have "set bars' = key ` drained B f t True oldest" by simp
    moreover have "oldest \<in> opening_of ` in_window B f t" "\<exists>b \<in> in_window B f t. opening_of b < oldest"
      using old(1) sub W c(1) below by auto
    ultimately show ?thesis
      using Suc.IH [of oldest True bars' "Suc k"] Suc.prems(2) Suc.prems(6) [unfolded step] \<open>added\<close> \<open>f < oldest\<close>
        old(2) True by auto
  qed
qed simp

text \<open>The first read is not narrowed; what it leaves to do is bounded in the same way.\<close>

lemma fetch_window_ends:
  assumes within: "within_request ask" and f: "f < t" and fuel: "nat (t - f) < fuel"
  shows "fetch_trendbar_window fuel ask f t k \<noteq> None"
proof (cases "ask k f t")
  case (Inl e)
  with f fuel show ?thesis by (cases fuel) (simp_all add: fetch_trendbar_window_def)
next
  case (Inr r)
  obtain rows more where r: "r = (rows, more)" by fastforce
  obtain n where n: "fuel = Suc n" using fuel by (cases fuel) auto
  obtain bars' oldest added where tb: "take_bars rows ([], t, False) = (bars', oldest, added)"
    using prod_cases3 by blast
  show ?thesis
  proof (cases "more \<and> added \<and> f < oldest")
    case True
    then have "rows \<noteq> []" using take_bars_added [OF tb] by auto
    moreover have le: "\<forall>b \<in> set rows. opening_of b \<le> t" using within Inr r unfolding within_request_def by blast
    ultimately have "oldest \<in> opening_of ` set rows"
    proof -
      obtain b where b: "b \<in> set rows" using \<open>rows \<noteq> []\<close> by (cases rows) auto
      show ?thesis
      proof (cases "opening_of b < t")
        case True
        have "opening_of b \<in> opening_of ` set rows" using b by simp
        from Min_insert_lower(1) [OF _ this True] show ?thesis using take_bars_oldest [OF tb] by simp
      next
        case False
        then have "opening_of b = t" using le b by force
        then have "insert t (opening_of ` set rows) = opening_of ` set rows" using b by blast
        then show ?thesis using take_bars_oldest [OF tb] b by (metis Min_in empty_iff finite_imageI image_eqI List.finite_set)
      qed
    qed
    then have "oldest \<in> fst ` set bars'" using take_bars_dom [OF tb] by blast
    moreover have "oldest \<le> t" using take_bars_oldest [OF tb] by simp
    then have "nat (oldest - f) \<le> n" using fuel n by linarith
    ultimately show ?thesis
      using fetch_loop_ends [OF within, of True oldest bars' f n "Suc k"] True Inr r n f tb
      by (simp add: fetch_trendbar_window_def)
  next
    case False
    then show ?thesis using Inr r n f tb by (auto simp: fetch_trendbar_window_def)
  qed
qed

lemma serves_no_error:
  assumes "serves newest cap B ask"
  shows "fetch_loop fuel ask f u narrowed bars k \<noteq> Some (Inl e, k')"
proof (induction fuel arbitrary: u narrowed bars k)
  case (Suc fuel)
  obtain rows more where a: "ask k f u = Inr (rows, more)"
    by (rule servesE [OF assms, of k f u])
  obtain bars' oldest added where "take_bars rows (bars, u, False) = (bars', oldest, added)"
    using prod_cases3 by blast
  with a Suc.IH show ?case by auto
qed auto

text \<open>A venue that caps to the oldest bars: the narrowed read brings nothing new.\<close>

lemma oldest_read:
  assumes serves: "serves False cap B ask" and cap: "2 \<le> cap" and f: "f < t"
    and run: "fetch_trendbar_window fuel ask f t k = Some (Inr (res, cov), k')"
  shows "(if cov then set res = key ` in_window B f t
          else \<exists>S. set res = key ` S \<and> S \<subseteq> in_window B f t \<and> card S = cap
                  \<and> (\<forall>r \<in> S. \<forall>b \<in> in_window B f t - S. opening_of r < opening_of b))"
proof -
  note inj = serves_inj [OF serves]
  obtain n where n: "fuel = Suc n" using run f by (cases fuel) (auto simp: fetch_trendbar_window_def)
  obtain rows more where a: "ask k f t = Inr (rows, more)" and sub: "set rows \<subseteq> in_window B f t"
    and all: "\<not> more \<Longrightarrow> set rows = in_window B f t" and card: "more \<Longrightarrow> card (set rows) = cap"
    and part: "\<And>r b. more \<Longrightarrow> r \<in> set rows \<Longrightarrow> b \<in> in_window B f t \<Longrightarrow> b \<notin> set rows \<Longrightarrow> opening_of r < opening_of b"
    using servesE [OF serves, of k f t] by (metis (full_types))
  obtain bars' oldest added where tb: "take_bars rows ([], t, False) = (bars', oldest, added)"
    using prod_cases3 by blast
  have inB: "set rows \<subseteq> set B" using sub in_window_B by blast
  have bars': "set bars' = key ` set rows"
    using take_bars_set [OF tb, of "{}" B] inB inj by simp
  have step: "fetch_trendbar_window fuel ask f t k =
      (if \<not> more then Some (Inr (bars', True), Suc k)
       else if \<not> added \<or> oldest \<le> f then Some (Inr (bars', False), Suc k)
       else fetch_loop n ask f oldest True bars' (Suc k))"
    using f a tb n by (simp add: fetch_trendbar_window_def)
  show ?thesis
  proof (cases "more \<and> added \<and> f < oldest")
    case False
    then show ?thesis using run [unfolded step] all bars' sub card part by (auto split: if_splits)
  next
    case True
    have "oldest \<le> t" using take_bars_oldest [OF tb] by simp
    have rest: "set res = set bars' \<and> \<not> cov"
    proof -
      from True run [unfolded step] have "fetch_loop n ask f oldest True bars' (Suc k) = Some (Inr (res, cov), k')" by simp
      with True obtain m where m: "n = Suc m" "fetch_loop (Suc m) ask f oldest True bars' (Suc k) = Some (Inr (res, cov), k')"
        by (cases n) auto
      obtain rows2 more2 where a2: "ask (Suc k) f oldest = Inr (rows2, more2)" and sub2: "set rows2 \<subseteq> in_window B f oldest"
        by (rule servesE [OF serves, of "Suc k" f oldest])
      have "in_window B f oldest \<subseteq> set rows"
      proof
        fix x assume "x \<in> in_window B f oldest"
        then have x: "x \<in> in_window B f t" "opening_of x \<le> oldest"
          using in_window_shrink [OF \<open>oldest \<le> t\<close>] by auto
        show "x \<in> set rows"
        proof (rule ccontr)
          assume no: "x \<notin> set rows"
          have "set rows \<noteq> {}" using card True cap by auto
          then obtain r where r: "r \<in> set rows" by (cases rows) auto
          have "\<forall>r \<in> set rows. opening_of r < opening_of x" using part True x(1) no by blast
          then have "\<forall>r \<in> set rows. opening_of r < oldest" using x(2) by force
          moreover have "oldest \<in> insert t (opening_of ` set rows)"
            using take_bars_oldest [OF tb] Min_in [of "insert t (opening_of ` set rows)"] by simp
          moreover have "oldest \<le> opening_of r" using take_bars_oldest [OF tb] r by simp
          ultimately show False using r by fastforce
        qed
      qed
      with sub2 have sub3: "set rows2 \<subseteq> set rows" by blast
      obtain bars2 old2 added2 where tb2: "take_bars rows2 (bars', oldest, False) = (bars2, old2, added2)"
        using prod_cases3 by blast
      have held: "fst ` set bars' = opening_of ` set rows" unfolding bars' image_image by simp
      have "\<not> added2" using take_bars_added [OF tb2] held sub3 by auto
      moreover have "set bars2 = set bars'"
        using take_bars_set [OF tb2 bars' inB _ inj] sub3 inB bars' by (simp add: Un_absorb2)
      ultimately show ?thesis using m(2) a2 tb2 True by auto
    qed
    then show ?thesis using bars' sub card part True by auto
  qed
qed

section \<open>Saving\<close>

lemma attach_time [simp]: "b_time (attach_ask c q) = b_time c" "b_closed (attach_ask c q) = b_closed c"
  by (simp_all add: attach_ask_def split: option.split)

text \<open>What holds of the saved bars: ascending, inside the range, closed, decoded from a bar of \<open>P\<close>.\<close>

definition saved_ok :: "(trendbar \<Rightarrow> bool) \<Rightarrow> int \<Rightarrow> int \<Rightarrow> int option \<Rightarrow> ohlcv list \<Rightarrow> bool" where
  "saved_ok P f t lst sv \<longleftrightarrow> sorted_wrt (<) (map b_time sv)
     \<and> (\<forall>x \<in> set sv. f \<le> b_time x \<and> b_time x < t
          \<and> (\<exists>b q. P b \<and> x = attach_ask (decode_trendbar True b) q))
     \<and> lst = (if sv = [] then None else Some (b_time (last sv)))"

lemma saved_ok_last: "saved_ok P f t (Some l) sv \<Longrightarrow> x \<in> set sv \<Longrightarrow> b_time x \<le> l"
proof -
  assume ok: "saved_ok P f t (Some l) sv" and x: "x \<in> set sv"
  then have ne: "sv \<noteq> []" and l: "l = b_time (last sv)" by (auto simp: saved_ok_def split: if_splits)
  have "sorted_wrt (<) (map b_time (butlast sv @ [last sv]))" using ok ne by (simp add: saved_ok_def)
  moreover have "x \<in> set (butlast sv) \<or> x = last sv" using x ne by (metis append_butlast_last_id in_set_conv_decomp_last
        Un_iff set_append set_ConsD empty_iff list.set(1))
  ultimately show ?thesis using l by (auto simp: sorted_wrt_append)
qed

lemma saved_ok_snoc:
  assumes ok: "saved_ok P f t lst sv" and b: "P b" "f \<le> opening_of b" "opening_of b < t"
    and later: "\<And>l. lst = Some l \<Longrightarrow> l < opening_of b"
  shows "saved_ok P f t (Some (opening_of b)) (sv @ [attach_ask (decode_trendbar True b) q])"
proof -
  have "b_time x < opening_of b" if x: "x \<in> set sv" for x
  proof -
    obtain l where l: "lst = Some l" using ok x by (cases sv) (auto simp: saved_ok_def)
    from saved_ok_last [OF ok [unfolded l] x] later [OF l] show ?thesis by simp
  qed
  with ok b show ?thesis by (auto simp: saved_ok_def sorted_wrt_append)
qed

lemma save_bars_step:
  "save_bars f t q (b # bs) lst sv =
     (if f \<le> opening_of b \<and> opening_of b < t \<and> (case lst of None \<Rightarrow> True | Some l \<Rightarrow> l < opening_of b)
      then save_bars f t q bs (Some (opening_of b)) (sv @ [attach_ask (decode_trendbar True b) (q (opening_of b))])
      else save_bars f t q bs lst sv)"
  by (simp only: save_bars.simps Let_def decode_fields)

declare save_bars.simps(2) [simp del]

lemma save_bars_ok:
  "saved_ok P f t lst sv \<Longrightarrow> \<forall>b \<in> set bs. P b \<Longrightarrow> save_bars f t q bs lst sv = (lst', sv') \<Longrightarrow> saved_ok P f t lst' sv'"
proof (induction bs arbitrary: lst sv)
  case (Cons b bs)
  let ?save = "f \<le> opening_of b \<and> opening_of b < t \<and> (case lst of None \<Rightarrow> True | Some l \<Rightarrow> l < opening_of b)"
  show ?case
  proof (cases ?save)
    case True
    with saved_ok_snoc [OF Cons.prems(1), of b] Cons.prems(2)
    have "saved_ok P f t (Some (opening_of b)) (sv @ [attach_ask (decode_trendbar True b) (q (opening_of b))])"
      by (simp split: option.splits)
    from Cons.IH [OF this] Cons.prems(2,3) True show ?thesis by (simp add: save_bars_step)
  next
    case False
    then have "save_bars f t q (b # bs) lst sv = save_bars f t q bs lst sv" by (auto simp: save_bars_step)
    with Cons show ?thesis by simp
  qed
qed simp

text \<open>Bars in ascending order, all newer than what is saved: everything inside the range is saved.\<close>

lemma save_bars_all:
  "saved_ok P f t lst sv \<Longrightarrow> sorted_wrt (<) (map opening_of bs) \<Longrightarrow> \<forall>b \<in> set bs. P b \<Longrightarrow>
   (\<And>l b. lst = Some l \<Longrightarrow> b \<in> set bs \<Longrightarrow> l < opening_of b) \<Longrightarrow>
   save_bars f t q bs lst sv = (lst', sv') \<Longrightarrow>
   b_time ` set sv' = b_time ` set sv \<union> {x \<in> opening_of ` set bs. f \<le> x \<and> x < t}"
proof (induction bs arbitrary: lst sv)
  case (Cons b bs)
  have later: "case lst of None \<Rightarrow> True | Some l \<Rightarrow> l < opening_of b"
    using Cons.prems(4) by (simp split: option.split)
  show ?case
  proof (cases "f \<le> opening_of b \<and> opening_of b < t")
    case True
    let ?sv = "sv @ [attach_ask (decode_trendbar True b) (q (opening_of b))]"
    have "saved_ok P f t (Some (opening_of b)) ?sv"
      using saved_ok_snoc [OF Cons.prems(1), of b] Cons.prems(3,4) True by simp
    moreover have "save_bars f t q bs (Some (opening_of b)) ?sv = (lst', sv')"
      using Cons.prems(5) True later by (simp add: save_bars_step)
    ultimately have "b_time ` set sv' = b_time ` set ?sv \<union> {x \<in> opening_of ` set bs. f \<le> x \<and> x < t}"
      using Cons.prems(2,3) by (intro Cons.IH) auto
    with True show ?thesis by auto
  next
    case False
    then have "save_bars f t q (b # bs) lst sv = save_bars f t q bs lst sv" by (auto simp: save_bars_step)
    with Cons.prems Cons.IH [OF Cons.prems(1)] have
      "b_time ` set sv' = b_time ` set sv \<union> {x \<in> opening_of ` set bs. f \<le> x \<and> x < t}" by simp
    with False show ?thesis by auto
  qed
qed simp

section \<open>The pages of a download\<close>

definition kept :: "int \<Rightarrow> opened \<Rightarrow> opened" where
  "kept c bars = filter (\<lambda>ob. c \<le> fst ob) bars"

definition handed_back :: "bool \<Rightarrow> opened \<Rightarrow> bool" where
  "handed_back covered by_open \<longleftrightarrow> \<not> covered \<and> 1 < length by_open"

definition page_opens :: "bool \<Rightarrow> opened \<Rightarrow> int list" where
  "page_opens covered by_open =
     (let opens = sort (map fst by_open) in if handed_back covered by_open then butlast opens else opens)"

definition page_bars :: "bool \<Rightarrow> opened \<Rightarrow> trendbar list" where
  "page_bars covered by_open = map (\<lambda>t. the (map_of by_open t)) (page_opens covered by_open)"

definition page_newest :: "opened \<Rightarrow> int" where
  "page_newest by_open = last (sort (map fst by_open))"

lemma download_page_cases:
  assumes "download_page reads ask tick_ask extra window from_ms to_ms d = Some (Inr d')"
  obtains bars covered k where
    "fetch_trendbar_window reads ask (cursor d) (min (cursor d + window * 1000) to_ms) (reads_done d)
       = Some (Inr (bars, covered), k)"
    "kept (cursor d) bars = []" "d' = d\<lparr>cursor := min (cursor d + window * 1000) to_ms, reads_done := k\<rparr>"
  | bars covered k q j lst sv where
    "fetch_trendbar_window reads ask (cursor d) (min (cursor d + window * 1000) to_ms) (reads_done d)
       = Some (Inr (bars, covered), k)"
    "kept (cursor d) bars \<noteq> []"
    "save_bars from_ms to_ms q (page_bars covered (kept (cursor d) bars)) (last_saved d) (saved d) = (lst, sv)"
    "d' = \<lparr>cursor = max (if handed_back covered (kept (cursor d) bars) then page_newest (kept (cursor d) bars)
                         else page_newest (kept (cursor d) bars) + 1) (cursor d + 1),
          last_saved = lst, saved = sv, reads_done = k, ticks_done = j\<rparr>"
  using assms
  unfolding download_page_def kept_def [symmetric] Let_def
  by (auto simp: page_bars_def page_opens_def page_newest_def handed_back_def Let_def
      split: option.splits sum.splits prod.splits if_splits)

lemma kept_keyed: "keyed bars \<Longrightarrow> keyed (kept c bars)"
  by (auto simp: keyed_def kept_def distinct_map_filter)

lemma kept_fst: "x \<in> set (kept c bars) \<longleftrightarrow> x \<in> set bars \<and> c \<le> fst x"
  by (auto simp: kept_def)

lemma page_opens_sub: "set (page_opens covered by_open) \<subseteq> fst ` set by_open"
  by (auto simp: page_opens_def Let_def dest: in_set_butlastD)

lemma page_opens_sorted: "keyed by_open \<Longrightarrow> sorted_wrt (<) (page_opens covered by_open)"
proof -
  assume "keyed by_open"
  then have s: "sorted_wrt (<) (sort (map fst by_open))"
    by (simp add: strict_sorted_iff keyed_def)
  show ?thesis
  proof (cases "sort (map fst by_open) = []")
    case False
    have "sorted_wrt (<) (butlast (sort (map fst by_open)) @ [last (sort (map fst by_open))])"
      using s False by simp
    then show ?thesis using s by (simp add: page_opens_def Let_def sorted_wrt_append)
  qed (simp add: page_opens_def)
qed

lemma page_bars_in:
  assumes "keyed by_open" "b \<in> set (page_bars covered by_open)"
  shows "(opening_of b, b) \<in> set by_open"
proof -
  obtain t where t: "t \<in> set (page_opens covered by_open)" "b = the (map_of by_open t)"
    using assms(2) by (auto simp: page_bars_def)
  then have "map_of by_open t \<noteq> None" using page_opens_sub by (simp add: map_of_eq_None_iff subset_iff)
  then have "(t, b) \<in> set by_open" using t(2) by (auto dest: map_of_SomeD)
  with keyedD [OF assms(1) this] show ?thesis by simp
qed

lemma page_bars_opens:
  assumes "keyed by_open"
  shows "map opening_of (page_bars covered by_open) = page_opens covered by_open"
proof -
  have "opening_of (the (map_of by_open t)) = t" if t: "t \<in> set (page_opens covered by_open)" for t
  proof -
    from t have "map_of by_open t \<noteq> None" using page_opens_sub by (simp add: map_of_eq_None_iff subset_iff)
    then have "(t, the (map_of by_open t)) \<in> set by_open" by (auto dest: map_of_SomeD)
    then show ?thesis by (rule keyedD [OF assms])
  qed
  then show ?thesis unfolding page_bars_def map_map by (intro map_idI) simp
qed

text \<open>A page never saves anything out of order or out of range, and always moves the cursor on.\<close>

lemma download_page_ok:
  assumes run: "download_page reads ask tick_ask extra window f t d = Some (Inr d')"
    and ok: "saved_ok (\<lambda>_. True) f t (last_saved d) (saved d)"
  shows "saved_ok (\<lambda>_. True) f t (last_saved d') (saved d')"
  using run
proof (cases rule: download_page_cases)
  case 1
  then show ?thesis using ok by simp
next
  case (2 bars covered k q j lst sv)
  from save_bars_ok [OF ok _ 2(3)] 2(4) show ?thesis by simp
qed

lemma download_loop_ok:
  "download_loop fuel reads ask tick_ask extra window f t d = Some (err, sv) \<Longrightarrow>
   saved_ok (\<lambda>_. True) f t (last_saved d) (saved d) \<Longrightarrow> \<exists>lst. saved_ok (\<lambda>_. True) f t lst sv"
proof (induction fuel arbitrary: d)
  case 0
  then show ?case by (subst (asm) download_loop.simps) (auto split: if_splits)
next
  case (Suc fuel)
  show ?case
  proof (cases "cursor d < t")
    case False
    with Suc.prems show ?thesis by (subst (asm) download_loop.simps) auto
  next
    case True
    then show ?thesis
    proof (cases "download_page reads ask tick_ask extra window f t d")
      case None
      with Suc.prems True show ?thesis by (subst (asm) download_loop.simps) simp
    next
      case (Some r)
      show ?thesis
      proof (cases r)
        case (Inl e)
        with Suc.prems True Some show ?thesis by (subst (asm) download_loop.simps) auto
      next
        case (Inr d')
        with Suc.prems(1) True Some have "download_loop fuel reads ask tick_ask extra window f t d' = Some (err, sv)"
          by (subst (asm) download_loop.simps) simp
        from Suc.IH [OF this download_page_ok [OF _ Suc.prems(2)]] Some Inr show ?thesis by simp
      qed
    qed
  qed
qed

text \<open>
  A download is ordered. Whatever the venue answers to the trendbar and tick reads - repeated bars, bars
  outside the request, any order, any \<open>hasMore\<close>, an exception at any read - the bars written are
  strictly ascending, inside the requested range and closed, each decoded from a trendbar.
\<close>

theorem download_ascending:
  assumes "download_ohlcv fuel reads ask tick_ask extra seconds f t limit = Some (err, sv)"
  shows "sorted_wrt (<) (map b_time sv)
     \<and> (\<forall>x \<in> set sv. f \<le> b_time x \<and> b_time x < t \<and> b_closed x
          \<and> (\<exists>b q. x = attach_ask (decode_trendbar True b) q))"
proof -
  let ?d = "\<lparr>cursor = f, last_saved = None, saved = [], reads_done = 0, ticks_done = 0\<rparr>"
  have "saved_ok (\<lambda>_. True) f t (last_saved ?d) (saved ?d)" by (simp add: saved_ok_def)
  with download_loop_ok assms obtain lst where "saved_ok (\<lambda>_. True) f t lst sv"
    unfolding download_ohlcv_def Let_def by blast
  then show ?thesis by (auto simp: saved_ok_def)
qed

section \<open>The whole range\<close>

text \<open>The tick reads answer, with no tick past the end of the request; then the paging of the ask side
  ends.\<close>

definition ticks_served :: "tick_history \<Rightarrow> bool" where
  "ticks_served tick_ask \<longleftrightarrow> (\<forall>k f u. \<exists>raw more. tick_ask k f u = Inr (raw, more)
     \<and> (decode_ticks raw \<noteq> [] \<longrightarrow> fst (last (decode_ticks raw)) \<le> u))"

lemma ask_loop_ends:
  assumes served: "ticks_served tick_ask"
  shows "nat (u - f) \<le> fuel \<Longrightarrow> \<exists>bs' k'. ask_loop fuel tick_ask opens f t u bs k = Some (Inr bs', k')"
proof (induction fuel arbitrary: u bs k)
  case (Suc fuel)
  obtain raw more where a: "tick_ask k f u = Inr (raw, more)"
    and le: "decode_ticks raw \<noteq> [] \<Longrightarrow> fst (last (decode_ticks raw)) \<le> u"
    using served unfolding ticks_served_def by blast
  show ?case
  proof (cases "f < u \<and> decode_ticks raw \<noteq> [] \<and> more")
    case True
    then have "nat (fst (last (decode_ticks raw)) - 1 - f) \<le> fuel" using le Suc.prems by linarith
    from Suc.IH [OF this] True a show ?thesis by (simp add: Let_def)
  next
    case False
    with a show ?thesis by (auto simp: Let_def)
  qed
qed simp

lemma ask_bars_end:
  assumes "ticks_served tick_ask" "nat (u - f) \<le> fuel"
  shows "\<exists>q k'. fetch_ask_bars fuel tick_ask f u opens k = Some (Inr q, k')"
proof -
  obtain bs k' where "ask_loop fuel tick_ask opens f u u Map.empty k = Some (Inr bs, k')"
    using ask_loop_ends [OF assms] by blast
  then show ?thesis by (auto simp: fetch_ask_bars_def)
qed

text \<open>The result of reading one window, in one form for both kinds of venue: what was read is the whole
  window, or its older part with at least two bars.\<close>

lemma window_result:
  assumes serves: "serves newest cap B ask" and cap: "2 \<le> cap" and c: "c < e" and fuel: "nat (e - c) < fuel"
  obtains res cov k' S where "fetch_trendbar_window fuel ask c e k = Some (Inr (res, cov), k')" "keyed res"
    "set res = key ` S" "S \<subseteq> in_window B c e"
    "S = in_window B c e \<or> card S = cap \<and> (\<forall>r \<in> S. \<forall>b \<in> in_window B c e - S. opening_of r < opening_of b)"
    "cov \<Longrightarrow> S = in_window B c e"
proof -
  have "fetch_trendbar_window fuel ask c e k \<noteq> None"
    by (rule fetch_window_ends [OF serves_within [OF serves] c fuel])
  moreover have "fetch_trendbar_window fuel ask c e k \<noteq> Some (Inl x, k')" for x k'
    unfolding fetch_trendbar_window_def by (rule serves_no_error [OF serves])
  ultimately obtain res cov k' where run: "fetch_trendbar_window fuel ask c e k = Some (Inr (res, cov), k')"
    by (cases "fetch_trendbar_window fuel ask c e k") (auto, metis obj_sumE surj_pair)
  note key = fetch_window_keyed [OF run]
  show ?thesis
  proof (cases newest)
    case True
    with serves have "serves True cap B ask" by simp
    from newest_drain [OF this cap c order_refl, of False "[]" fuel k res cov k'] run
    have "set res = key ` in_window B c e" by (simp add: fetch_trendbar_window_def drained_def)
    with run key show ?thesis by (intro that [of res cov k' "in_window B c e"]) auto
  next
    case False
    with serves have "serves False cap B ask" by simp
    note r = oldest_read [OF this cap c run]
    show ?thesis
    proof (cases cov)
      case True
      with r run key show ?thesis by (intro that [of res cov k' "in_window B c e"]) auto
    next
      case False
      with r obtain S where "set res = key ` S" "S \<subseteq> in_window B c e" "card S = cap"
        "\<forall>r \<in> S. \<forall>b \<in> in_window B c e - S. opening_of r < opening_of b" by auto
      with run key False show ?thesis by (intro that [of res cov k' S]) auto
    qed
  qed
qed

definition page_inv :: "trendbar list \<Rightarrow> int \<Rightarrow> int \<Rightarrow> download \<Rightarrow> bool" where
  "page_inv B f t d \<longleftrightarrow> saved_ok (\<lambda>b. b \<in> set B) f t (last_saved d) (saved d) \<and> f \<le> cursor d
     \<and> b_time ` set (saved d) = {x \<in> opening_of ` set B. f \<le> x \<and> x < cursor d \<and> x < t}"

text \<open>At most one bar of a window opens before its start.\<close>

lemma one_before_start:
  assumes "S \<subseteq> in_window B c e" "\<forall>b \<in> S. opening_of b \<le> c" "inj_on opening_of (set B)"
  shows "card S \<le> 1"
proof (rule card_le_Suc0_iff_eq [THEN iffD2, unfolded One_nat_def [symmetric]])
  show "finite S" using assms(1) finite_subset [OF _ in_window_finite] by blast
  show "\<forall>x \<in> S. \<forall>y \<in> S. x = y"
  proof (intro ballI)
    fix x y assume x: "x \<in> S" and y: "y \<in> S"
    then have xy: "x \<in> in_window B c e" "y \<in> in_window B c e" using assms(1) by blast+
    have "opening_of x \<le> opening_of y" using in_window_start [OF xy(2,1)] assms(2) x by blast
    moreover have "opening_of y \<le> opening_of x" using in_window_start [OF xy] assms(2) y by blast
    ultimately show "x = y" using assms(3) in_window_B [OF xy(1)] in_window_B [OF xy(2)] by (simp add: inj_on_def)
  qed
qed

text \<open>Everything of the venue from the start of the window to the newest bar read was read.\<close>

lemma no_hole:
  assumes S: "S \<subseteq> in_window B c e"
      "S = in_window B c e \<or> card S = cap \<and> (\<forall>r \<in> S. \<forall>b \<in> in_window B c e - S. opening_of r < opening_of b)"
    and n: "n \<in> S" and b: "b \<in> set B" "c \<le> opening_of b" "opening_of b \<le> opening_of n"
  shows "b \<in> S"
proof -
  have "opening_of n \<le> e" using n S(1) by (auto simp: in_window_def)
  then have "b \<in> in_window B c e" using b by (auto simp: in_window_def)
  show ?thesis
  proof (rule ccontr)
    assume no: "b \<notin> S"
    with \<open>b \<in> in_window B c e\<close> S(2) n have "opening_of n < opening_of b" by blast
    with b(3) show False by simp
  qed
qed

lemma sorted_last_max: "sorted xs \<Longrightarrow> x \<in> set xs \<Longrightarrow> x \<le> last xs"
  by (induction xs) auto

lemma sort_last_max: "keyed bars \<Longrightarrow> bars \<noteq> [] \<Longrightarrow> page_newest bars \<in> fst ` set bars \<and> (\<forall>ob \<in> set bars. fst ob \<le> page_newest bars)"
proof -
  assume ne: "bars \<noteq> []"
  let ?s = "sort (map fst bars)"
  have "?s \<noteq> []" using ne by (metis length_0_conv length_map length_sort)
  then have "last ?s \<in> set ?s" by (rule last_in_set)
  moreover have "\<forall>x \<in> set ?s. x \<le> last ?s" using sorted_last_max [OF sorted_sort] by blast
  ultimately show ?thesis by (auto simp: page_newest_def simp del: sort_key_simps)
qed

lemma page_opens_set:
  assumes key: "keyed bars" and ne: "bars \<noteq> []"
  shows "set (page_opens cov bars) = (if handed_back cov bars then fst ` set bars - {page_newest bars} else fst ` set bars)"
proof -
  let ?s = "sort (map fst bars)"
  have "?s \<noteq> []" using ne by (metis length_0_conv length_map length_sort)
  then have s: "?s = butlast ?s @ [page_newest bars]" by (simp add: page_newest_def)
  have "distinct ?s" using key by (simp add: keyed_def)
  then have "page_newest bars \<notin> set (butlast ?s)" using s by (metis distinct_append disjoint_iff list.set_intros(1))
  moreover have "set ?s = insert (page_newest bars) (set (butlast ?s))"
    using s by (metis Un_insert_right append.right_neutral list.simps(15) set_append sup_bot_right list.set(1))
  ultimately show ?thesis by (auto simp: page_opens_def Let_def)
qed

text \<open>What one page saves is what the venue has between the old cursor and the new one.\<close>

lemma page_covers:
  assumes S: "set bars = key ` S" "S \<subseteq> in_window B c e"
      "S = in_window B c e \<or> card S = cap \<and> (\<forall>r \<in> S. \<forall>b \<in> in_window B c e - S. opening_of r < opening_of b)"
    and key: "keyed bars" and ne: "kept c bars \<noteq> []"
    and nc: "nc = max (if handed_back cov (kept c bars) then page_newest (kept c bars)
                       else page_newest (kept c bars) + 1) (c + 1)"
  shows "set (page_opens cov (kept c bars)) = {x \<in> opening_of ` set B. c \<le> x \<and> x < nc}"
proof -
  let ?K = "kept c bars"
  note kk = kept_keyed [OF key, of c]
  obtain n where n: "page_newest ?K \<in> fst ` set ?K" "\<forall>ob \<in> set ?K. fst ob \<le> page_newest ?K"
    using sort_last_max [OF kk ne] by blast
  have K: "fst ` set ?K = {x \<in> opening_of ` S. c \<le> x}" using S(1) by (auto simp: kept_def image_iff)
  obtain b where b: "b \<in> S" "opening_of b = page_newest ?K" "c \<le> page_newest ?K" using n(1) K by auto
  have all: "fst ` set ?K = {x \<in> opening_of ` set B. c \<le> x \<and> x \<le> page_newest ?K}"
  proof (intro set_eqI iffI)
    fix x assume "x \<in> fst ` set ?K"
    moreover have "x \<le> page_newest ?K" using n(2) calculation by auto
    ultimately show "x \<in> {x \<in> opening_of ` set B. c \<le> x \<and> x \<le> page_newest ?K}"
      using K S(2) in_window_B by blast
  next
    fix x assume "x \<in> {x \<in> opening_of ` set B. c \<le> x \<and> x \<le> page_newest ?K}"
    then obtain y where y: "y \<in> set B" "x = opening_of y" "c \<le> opening_of y" "opening_of y \<le> opening_of b"
      using b(2) by auto
    from no_hole [OF S(2,3) b(1) y(1,3,4)] y K show "x \<in> fst ` set ?K" by auto
  qed
  show ?thesis
  proof (cases "handed_back cov ?K")
    case False
    then have "nc = page_newest ?K + 1" using nc b(3) by simp
    then show ?thesis using page_opens_set [OF kk ne, of cov] False all by auto
  next
    case True
    have "c \<noteq> page_newest ?K"
    proof
      assume eq: "c = page_newest ?K"
      have "distinct (map fst ?K)" using kk by (simp add: keyed_def)
      then have "card (fst ` set ?K) = length ?K" using distinct_card [of "map fst ?K"] by simp
      moreover have "fst ` set ?K \<subseteq> {c}" using all eq by auto
      then have "card (fst ` set ?K) \<le> 1" using card_mono [of "{c}" "fst ` set ?K"] by simp
      ultimately show False using True by (simp add: handed_back_def)
    qed
    then have "nc = page_newest ?K" using nc b(3) True by simp
    then show ?thesis using page_opens_set [OF kk ne, of cov] True all by auto
  qed
qed

lemma page_advances:
  assumes serves: "serves newest cap B ask" and cap: "2 \<le> cap" and ticks: "extra \<longrightarrow> ticks_served tick_ask"
    and w: "0 < window" and reads: "nat (window * 1000) < reads"
    and inv: "page_inv B f t d" and c: "cursor d < t"
  shows "\<exists>d'. download_page reads ask tick_ask extra window f t d = Some (Inr d') \<and> cursor d < cursor d' \<and> page_inv B f t d'"
proof -
  define e where "e = min (cursor d + window * 1000) t"
  have ce: "cursor d < e" "nat (e - cursor d) < reads" "e \<le> t" using w c reads by (auto simp: e_def)
  obtain res cov k' S where run: "fetch_trendbar_window reads ask (cursor d) e (reads_done d) = Some (Inr (res, cov), k')"
    and key: "keyed res" and S: "set res = key ` S" "S \<subseteq> in_window B (cursor d) e"
      "S = in_window B (cursor d) e \<or> card S = cap \<and> (\<forall>r \<in> S. \<forall>b \<in> in_window B (cursor d) e - S. opening_of r < opening_of b)"
    by (rule window_result [OF serves cap ce(1,2)])
  have ok: "saved_ok (\<lambda>b. b \<in> set B) f t (last_saved d) (saved d)" and fc: "f \<le> cursor d"
    and held: "b_time ` set (saved d) = {x \<in> opening_of ` set B. f \<le> x \<and> x < cursor d \<and> x < t}"
    using inv by (simp_all add: page_inv_def)
  show ?thesis
  proof (cases "kept (cursor d) res = []")
    case True
    have page: "download_page reads ask tick_ask extra window f t d = Some (Inr (d\<lparr>cursor := e, reads_done := k'\<rparr>))"
      using run True by (simp add: download_page_def e_def kept_def Let_def)
    have old: "\<forall>b \<in> S. opening_of b < cursor d"
    proof
      fix b assume "b \<in> S"
      then have "key b \<in> set res" using S(1) by blast
      then show "opening_of b < cursor d" using True kept_fst [of "key b" "cursor d" res] by (simp add: not_le)
    qed
    have "card S \<le> 1" using one_before_start [OF S(2) _ serves_inj [OF serves]] old by fastforce
    then have "S = in_window B (cursor d) e" using S(3) cap by auto
    then have none: "\<not> (cursor d \<le> opening_of b \<and> opening_of b \<le> e)" if "b \<in> set B" for b
      using old that by (force simp: in_window_def)
    have "{x \<in> opening_of ` set B. f \<le> x \<and> x < cursor d \<and> x < t} = {x \<in> opening_of ` set B. f \<le> x \<and> x < e \<and> x < t}"
      using none ce(1) by fastforce
    then have "page_inv B f t (d\<lparr>cursor := e, reads_done := k'\<rparr>)"
      using ok fc held ce(1) by (simp add: page_inv_def)
    with page ce(1) show ?thesis by fastforce
  next
    case False
    let ?K = "kept (cursor d) res"
    let ?bars = "page_bars cov ?K"
    define nc where "nc = max (if handed_back cov ?K then page_newest ?K else page_newest ?K + 1) (cursor d + 1)"
    have len: "length (sort (map fst ?K)) = length ?K" by simp
    have end_ask: "nat ((if handed_back cov ?K then page_newest ?K else e) - cursor d) \<le> reads"
    proof -
      have "page_newest ?K \<le> e"
      proof -
        have "page_newest ?K \<in> fst ` set res"
          using sort_last_max [OF kept_keyed [OF key] False] by (auto simp: kept_def)
        then obtain b where "b \<in> S" "page_newest ?K = opening_of b" using S(1) by auto
        with subsetD [OF S(2)] show ?thesis by (auto simp: in_window_def)
      qed
      then show ?thesis using ce(2) by auto
    qed
    have "\<exists>q j. (if extra then fetch_ask_bars reads tick_ask (cursor d)
        (if handed_back cov ?K then page_newest ?K else e) (page_opens cov ?K) (ticks_done d)
        else Some (Inr (\<lambda>_. None), ticks_done d)) = Some (Inr q, j)"
    proof (cases extra)
      case True
      with ticks have "ticks_served tick_ask" by simp
      from ask_bars_end [OF this end_ask, of "page_opens cov ?K" "ticks_done d"] True show ?thesis by simp
    qed simp
    then obtain q j where q: "(if extra then fetch_ask_bars reads tick_ask (cursor d)
        (if handed_back cov ?K then page_newest ?K else e) (page_opens cov ?K) (ticks_done d)
        else Some (Inr (\<lambda>_. None), ticks_done d)) = Some (Inr q, j)" by blast
    obtain lst sv where save: "save_bars f t q ?bars (last_saved d) (saved d) = (lst, sv)" by fastforce
    let ?d = "\<lparr>cursor = nc, last_saved = lst, saved = sv, reads_done = k', ticks_done = j\<rparr>"
    have page: "download_page reads ask tick_ask extra window f t d = Some (Inr ?d)"
      using run False q save unfolding download_page_def e_def [symmetric] kept_def [symmetric] Let_def
      by (cases extra; cases "\<not> cov \<and> 1 < length ?K")
        (auto simp: page_bars_def page_opens_def page_newest_def handed_back_def Let_def nc_def)
    have inB: "\<forall>b \<in> set ?bars. b \<in> set B"
    proof
      fix b assume "b \<in> set ?bars"
      then have "key b \<in> set res" using page_bars_in [OF kept_keyed [OF key]] kept_fst by blast
      then have "b \<in> S" using S(1) by auto
      then show "b \<in> set B" using S(2) in_window_B by blast
    qed
    have opens: "map opening_of ?bars = page_opens cov ?K" by (rule page_bars_opens [OF kept_keyed [OF key]])
    have sorted: "sorted_wrt (<) (map opening_of ?bars)"
      unfolding opens by (rule page_opens_sorted [OF kept_keyed [OF key]])
    have new: "opening_of ` set ?bars = {x \<in> opening_of ` set B. cursor d \<le> x \<and> x < nc}"
      using page_covers [OF S key False nc_def] opens by (metis list.set_map)
    have later: "l < opening_of b" if l: "last_saved d = Some l" and b: "b \<in> set ?bars" for l b
    proof -
      have "l \<in> b_time ` set (saved d)" using ok l by (auto simp: saved_ok_def split: if_splits)
      then have "l < cursor d" using held by auto
      moreover have "opening_of b \<in> {x \<in> opening_of ` set B. cursor d \<le> x \<and> x < nc}" using new b by blast
      ultimately show ?thesis by simp
    qed
    have "b_time ` set sv = b_time ` set (saved d) \<union> {x \<in> opening_of ` set ?bars. f \<le> x \<and> x < t}"
      by (rule save_bars_all [OF ok sorted inB later save])
    also have "\<dots> = {x \<in> opening_of ` set B. f \<le> x \<and> x < nc \<and> x < t}"
      unfolding new held using fc nc_def by auto
    finally have "page_inv B f t ?d"
      using save_bars_ok [OF ok inB save] fc nc_def by (simp add: page_inv_def)
    with page show ?thesis by (auto simp: nc_def)
  qed
qed

lemma download_loop_complete:
  assumes "serves newest cap B ask" "2 \<le> cap" "extra \<longrightarrow> ticks_served tick_ask" "0 < window" "nat (window * 1000) < reads"
  shows "page_inv B f t d \<Longrightarrow> nat (t - cursor d) \<le> fuel \<Longrightarrow>
     \<exists>d'. download_loop fuel reads ask tick_ask extra window f t d = Some (None, saved d') \<and> page_inv B f t d' \<and> t \<le> cursor d'"
proof (induction fuel arbitrary: d)
  case 0
  then show ?case by (subst download_loop.simps) auto
next
  case (Suc fuel)
  show ?case
  proof (cases "cursor d < t")
    case False
    with Suc.prems show ?thesis by (subst download_loop.simps) auto
  next
    case True
    from page_advances [OF assms Suc.prems(1) True] obtain d' where d':
      "download_page reads ask tick_ask extra window f t d = Some (Inr d')" "cursor d < cursor d'" "page_inv B f t d'"
      by blast
    then have "nat (t - cursor d') \<le> fuel" using Suc.prems(2) True by linarith
    from Suc.IH [OF d'(3) this] d'(1) True show ?thesis by (subst download_loop.simps) simp
  qed
qed

text \<open>
  C8: A download is complete. From a venue that answers a request it cannot serve whole with its newest or with
  its oldest bars (at least two) and that may add the bar containing the start of the request, the
  download ends and writes exactly the bars the venue has in the requested range, each once, in order.
\<close>

theorem download_complete:
  assumes "serves newest cap B ask" and "2 \<le> cap" and "extra \<longrightarrow> ticks_served tick_ask"
    and "0 < window_seconds seconds limit"
    and "nat (window_seconds seconds limit * 1000) < reads" and "nat (t - f) \<le> fuel"
  shows "\<exists>sv. download_ohlcv fuel reads ask tick_ask extra seconds f t limit = Some (None, sv)
     \<and> map b_time sv = sorted_list_of_set {x \<in> opening_of ` set B. f \<le> x \<and> x < t}"
proof -
  let ?d = "\<lparr>cursor = f, last_saved = None, saved = [], reads_done = 0, ticks_done = 0\<rparr>"
  have "page_inv B f t ?d" by (auto simp: page_inv_def saved_ok_def)
  from download_loop_complete [OF assms(1-5) this] assms(6) obtain d' where
    d': "download_ohlcv fuel reads ask tick_ask extra seconds f t limit = Some (None, saved d')"
    "page_inv B f t d'" "t \<le> cursor d'" by (auto simp: download_ohlcv_def)
  have "set (map b_time (saved d')) = {x \<in> opening_of ` set B. f \<le> x \<and> x < t}"
    using d'(2,3) by (auto simp: page_inv_def)
  moreover have "sorted_wrt (<) (map b_time (saved d'))" using d'(2) by (simp add: page_inv_def saved_ok_def)
  ultimately have "map b_time (saved d') = sorted_list_of_set {x \<in> opening_of ` set B. f \<le> x \<and> x < t}"
    by (metis sorted_list_of_set.idem_if_sorted_distinct strict_sorted_iff)
  with d'(1) show ?thesis by blast
qed

text \<open>Such a venue, over its bars in order.\<close>

definition rows_of :: "trendbar list \<Rightarrow> int \<Rightarrow> int \<Rightarrow> trendbar list" where
  "rows_of B f u = filter (\<lambda>b. opening_of b \<le> u
     \<and> (f \<le> opening_of b \<or> \<not> (\<exists>c \<in> set B. opening_of b < opening_of c \<and> opening_of c \<le> f))) B"

definition capped :: "bool \<Rightarrow> nat \<Rightarrow> trendbar list \<Rightarrow> history" where
  "capped newest cap B k f u =
     (let rows = rows_of B f u in
      if length rows \<le> cap then Inr (rows, False)
      else Inr (if newest then drop (length rows - cap) rows else take cap rows, True))"

lemma capped_serves:
  assumes B: "sorted_wrt (<) (map opening_of B)"
  shows "serves newest cap B (capped newest cap B)"
proof -
  have sB: "sorted_wrt (\<lambda>x y. opening_of x < opening_of y) B" using B by (simp add: sorted_wrt_map)
  have "distinct (map opening_of B)" using B by (simp add: strict_sorted_iff)
  then have inj: "inj_on opening_of (set B)" by (simp add: distinct_map)
  have answer: "\<exists>rows more. capped newest cap B k f u = Inr (rows, more) \<and> set rows \<subseteq> in_window B f u
        \<and> more = (cap < card (in_window B f u)) \<and> (\<not> more \<longrightarrow> set rows = in_window B f u)
        \<and> (more \<longrightarrow> card (set rows) = cap
             \<and> (\<forall>r \<in> set rows. \<forall>b \<in> in_window B f u - set rows.
                  if newest then opening_of b < opening_of r else opening_of r < opening_of b))" for k f u
  proof -
    let ?R = "rows_of B f u"
    have R: "set ?R = in_window B f u" by (auto simp: rows_of_def in_window_def)
    have sR: "sorted_wrt (\<lambda>x y. opening_of x < opening_of y) ?R"
      unfolding rows_of_def by (rule sorted_wrt_filter [OF sB])
    have dR: "distinct ?R" using B by (simp add: rows_of_def strict_sorted_iff distinct_map)
    then have card: "card (in_window B f u) = length ?R" using distinct_card R by metis
    define n where "n = (if newest then length ?R - cap else cap)"
    define A where "A = take n ?R"
    define D where "D = drop n ?R"
    have parts: "?R = A @ D" by (simp add: A_def D_def)
    have below: "\<forall>x \<in> set A. \<forall>y \<in> set D. opening_of x < opening_of y"
      using sR unfolding parts sorted_wrt_append by blast
    have apart: "in_window B f u = set A \<union> set D" using R unfolding parts by simp
    show ?thesis
    proof (cases "length ?R \<le> cap")
      case True
      then have "capped newest cap B k f u = Inr (?R, False)" by (simp add: capped_def)
      then show ?thesis using R card True by auto
    next
      case False
      have more: "cap < card (in_window B f u)" using False card by simp
      have "distinct A" "distinct D" using dR unfolding parts by simp_all
      then have len: "card (set A) = length A" "card (set D) = length D" by (simp_all add: distinct_card)
      show ?thesis
      proof (cases newest)
        case True
        then have "capped newest cap B k f u = Inr (D, True)" using False by (simp add: capped_def D_def n_def Let_def)
        moreover have "length D = cap" using False True by (simp add: D_def n_def)
        ultimately show ?thesis using True apart below more len by (intro exI [of _ D] exI [of _ True]) auto
      next
        case old: False
        then have "capped newest cap B k f u = Inr (A, True)" using False by (simp add: capped_def A_def n_def Let_def)
        moreover have "length A = cap" using False old by (simp add: A_def n_def)
        ultimately show ?thesis using old apart below more len by (intro exI [of _ A] exI [of _ True]) auto
      qed
    qed
  qed
  show ?thesis unfolding serves_def using inj answer by blast
qed

lemma download_complete_witness:
  "\<exists>sv. download_ohlcv 300000 200000 (capped True 2 (map (\<lambda>m. demo_trendbar m 100000) [1, 2, 3, 4])) (\<lambda>_ _ _. Inr ([], False))
        True (Some 60) 60000 240000 (Some 3) = Some (None, sv)
     \<and> map b_time sv = [60000, 120000, 180000]"
proof -
  let ?B = "map (\<lambda>m. demo_trendbar m 100000) [1, 2, 3, 4]"
  have s: "serves True 2 ?B (capped True 2 ?B)"
    by (rule capped_serves) (simp add: opening_of_def demo_trendbar_def)
  have t: "ticks_served (\<lambda>_ _ _. Inr ([], False))" by (auto simp: ticks_served_def decode_ticks_def)
  have w: "window_seconds (Some 60) (Some 3) = 180" by (simp add: window_seconds_def)
  have set: "{x \<in> opening_of ` set ?B. 60000 \<le> x \<and> x < 240000} = set [60000, 120000, 180000 :: int]"
    by (auto simp: opening_of_def demo_trendbar_def)
  have list: "sorted_list_of_set (set [60000, 120000, 180000 :: int]) = [60000, 120000, 180000]"
    by (rule sorted_list_of_set.idem_if_sorted_distinct) simp_all
  from download_complete [OF s, of True "\<lambda>_ _ _. Inr ([], False)" "Some 60" "Some 3" 200000 240000 60000 300000] t w
  show ?thesis unfolding set list by simp
qed

lemma download_ascending_witness:
  "\<exists>sv. download_ohlcv 3 3 (\<lambda>_ _ _. Inr ([demo_trendbar 2 7, demo_trendbar 1 7, demo_trendbar 2 9], False))
        (\<lambda>_ _ _. Inl TypeError) False (Some 60) 60000 180000 None = Some (None, sv)
     \<and> length sv = 2 \<and> sorted_wrt (<) (map b_time sv)"
proof -
  let ?ask = "\<lambda>(_ :: nat) (_ :: int) (_ :: int). Inr ([demo_trendbar 2 7, demo_trendbar 1 7, demo_trendbar 2 9], False) :: exn + trendbar list \<times> bool"
  obtain sv where sv: "download_ohlcv 3 3 ?ask (\<lambda>_ _ _. Inl TypeError) False (Some 60) 60000 180000 None = Some (None, sv)"
    "length sv = 2"
    by (simp add: download_ohlcv_def download_loop.simps download_page_def fetch_trendbar_window_def window_seconds_def
        eval_nat_numeral opening_of_def demo_trendbar_def save_bars_step Let_def insort_key.simps
        take_bars_step)
  with download_ascending [OF sv(1)] show ?thesis by blast
qed

section \<open>The ask side of the bars\<close>

text \<open>The ticks of one bar: those from its opening on that no later opening of the page claims.\<close>

definition own_ticks :: "int list \<Rightarrow> int \<Rightarrow> int \<Rightarrow> (int \<times> rat) set \<Rightarrow> (int \<times> rat) set" where
  "own_ticks opens to_ms w T = {(t, p) \<in> T. t < to_ms \<and> w \<in> set opens \<and> w \<le> t \<and> (\<forall>x \<in> set opens. x \<le> t \<longrightarrow> x \<le> w)}"

definition bucket_ok :: "(int \<times> rat) set \<Rightarrow> bucket option \<Rightarrow> bool" where
  "bucket_ok T b \<longleftrightarrow> (case b of
     None \<Rightarrow> T = {}
   | Some b \<Rightarrow> T \<noteq> {} \<and> k_high b = Max (snd ` T) \<and> k_low b = Min (snd ` T)
       \<and> k_min_ts b = Min (fst ` T) \<and> (k_min_ts b, k_open b) \<in> T
       \<and> k_max_ts b = Max (fst ` T) \<and> (k_max_ts b, k_close b) \<in> T)"

lemma bucket_tick_fields:
  "k_high (bucket_tick (t, p) (Some c)) = max p (k_high c)"
  "k_low (bucket_tick (t, p) (Some c)) = min p (k_low c)"
  "k_min_ts (bucket_tick (t, p) (Some c)) = min t (k_min_ts c)"
  "k_open (bucket_tick (t, p) (Some c)) = (if t < k_min_ts c then p else k_open c)"
  "k_max_ts (bucket_tick (t, p) (Some c)) = max t (k_max_ts c)"
  "k_close (bucket_tick (t, p) (Some c)) = (if k_max_ts c < t then p else k_close c)"
  by (auto simp: bucket_tick_def Let_def max_def min_def)

lemma bucket_tick_ok:
  assumes "finite T" "bucket_ok T b"
  shows "bucket_ok (insert (t, p) T) (Some (bucket_tick (t, p) b))"
proof (cases b)
  case None
  with assms show ?thesis by (simp add: bucket_ok_def bucket_tick_def)
next
  case (Some c)
  with assms have T: "T \<noteq> {}" and fin: "finite (fst ` T)" "finite (snd ` T)" "fst ` T \<noteq> {}" "snd ` T \<noteq> {}"
    and c: "k_high c = Max (snd ` T)" "k_low c = Min (snd ` T)" "k_min_ts c = Min (fst ` T)" "(k_min_ts c, k_open c) \<in> T"
      "k_max_ts c = Max (fst ` T)" "(k_max_ts c, k_close c) \<in> T" by (auto simp: bucket_ok_def)
  let ?n = "bucket_tick (t, p) (Some c)"
  have "k_high ?n = Max (insert p (snd ` T))" "k_low ?n = Min (insert p (snd ` T))"
    "k_min_ts ?n = Min (insert t (fst ` T))" "k_max_ts ?n = Max (insert t (fst ` T))"
    unfolding bucket_tick_fields c Max_insert [OF fin(2,4)] Min_insert [OF fin(2,4)] Max_insert [OF fin(1,3)]
      Min_insert [OF fin(1,3)] by (rule refl)+
  moreover have "(k_min_ts ?n, k_open ?n) \<in> insert (t, p) T" "(k_max_ts ?n, k_close ?n) \<in> insert (t, p) T"
    unfolding bucket_tick_fields using c(4,6) by (auto simp: min_def max_def)
  ultimately show ?thesis unfolding Some bucket_ok_def image_insert fst_conv snd_conv by simp
qed

lemma bisect_step: "bisect_right (w # opens) t = (if w \<le> t then Suc (bisect_right opens t) else 0)"
  by (simp add: bisect_right_def)

lemma bisect_zero:
  "sorted_wrt (<) opens \<Longrightarrow> bisect_right opens t = 0 \<longleftrightarrow> (\<forall>x \<in> set opens. t < x)"
  by (cases opens) (auto simp: bisect_step bisect_right_def)

lemma bisect_owner:
  "sorted_wrt (<) opens \<Longrightarrow>
   bisect_right opens t \<noteq> 0 \<and> opens ! (bisect_right opens t - 1) = v \<longleftrightarrow>
   v \<in> set opens \<and> v \<le> t \<and> (\<forall>x \<in> set opens. x \<le> t \<longrightarrow> x \<le> v)"
proof (induction opens)
  case (Cons w opens)
  have s: "sorted_wrt (<) opens" and w: "\<forall>x \<in> set opens. w < x" using Cons.prems by simp_all
  show ?case
  proof (cases "w \<le> t")
    case False
    then show ?thesis using w by (auto simp: bisect_step)
  next
    case True
    show ?thesis
    proof (cases "bisect_right opens t = 0")
      case z: True
      then have "\<forall>x \<in> set opens. t < x" using bisect_zero [OF s] by simp
      then show ?thesis using True z by (auto simp: bisect_step)
    next
      case nz: False
      then obtain y where y: "y \<in> set opens" "y \<le> t" using bisect_zero [OF s, of t] by force
      have "(w # opens) ! (bisect_right (w # opens) t - 1) = opens ! (bisect_right opens t - 1)"
        using True nz by (simp add: bisect_step nth_Cons')
      then have "bisect_right (w # opens) t \<noteq> 0 \<and> (w # opens) ! (bisect_right (w # opens) t - 1) = v \<longleftrightarrow>
          v \<in> set opens \<and> v \<le> t \<and> (\<forall>x \<in> set opens. x \<le> t \<longrightarrow> x \<le> v)"
        using Cons.IH [OF s] nz True by (simp add: bisect_step)
      also have "\<dots> \<longleftrightarrow> v \<in> set (w # opens) \<and> v \<le> t \<and> (\<forall>x \<in> set (w # opens). x \<le> t \<longrightarrow> x \<le> v)"
      proof
        assume l: "v \<in> set opens \<and> v \<le> t \<and> (\<forall>x \<in> set opens. x \<le> t \<longrightarrow> x \<le> v)"
        then have "w \<le> v" using w by force
        with l show "v \<in> set (w # opens) \<and> v \<le> t \<and> (\<forall>x \<in> set (w # opens). x \<le> t \<longrightarrow> x \<le> v)" by simp
      next
        assume r: "v \<in> set (w # opens) \<and> v \<le> t \<and> (\<forall>x \<in> set (w # opens). x \<le> t \<longrightarrow> x \<le> v)"
        then have "y \<le> v" using y by simp
        moreover have "w < y" using w y by simp
        ultimately show "v \<in> set opens \<and> v \<le> t \<and> (\<forall>x \<in> set opens. x \<le> t \<longrightarrow> x \<le> v)" using r by auto
      qed
      finally show ?thesis .
    qed
  qed
qed (simp add: bisect_right_def)

lemma add_tick_ok:
  assumes opens: "sorted_wrt (<) opens" and T: "finite T" and ok: "\<forall>w. bucket_ok (own_ticks opens to_ms w T) (bs w)"
  shows "bucket_ok (own_ticks opens to_ms w (insert x T)) (add_tick opens to_ms x bs w)"
proof -
  obtain t p where x: "x = (t, p)" by fastforce
  note owner = bisect_owner [OF opens, of t w]
  have fin: "finite (own_ticks opens to_ms w T)" using T by (auto simp: own_ticks_def intro: finite_subset)
  show ?thesis
  proof (cases "t < to_ms \<and> w \<in> set opens \<and> w \<le> t \<and> (\<forall>x \<in> set opens. x \<le> t \<longrightarrow> x \<le> w)")
    case True
    then have "own_ticks opens to_ms w (insert x T) = insert (t, p) (own_ticks opens to_ms w T)"
      by (auto simp: own_ticks_def x)
    moreover have "add_tick opens to_ms x bs w = Some (bucket_tick (t, p) (bs w))"
      using owner True by (auto simp: add_tick_def Let_def x)
    ultimately show ?thesis using bucket_tick_ok [OF fin] ok by simp
  next
    case False
    then have "own_ticks opens to_ms w (insert x T) = own_ticks opens to_ms w T"
      by (auto simp: own_ticks_def x)
    moreover have "add_tick opens to_ms x bs w = bs w"
      using owner False by (auto simp: add_tick_def Let_def x)
    ultimately show ?thesis using ok by simp
  qed
qed

lemma fold_ticks_ok:
  assumes "sorted_wrt (<) opens"
  shows "finite T \<Longrightarrow> \<forall>w. bucket_ok (own_ticks opens to_ms w T) (bs w) \<Longrightarrow>
     \<forall>w. bucket_ok (own_ticks opens to_ms w (T \<union> set ticks)) (fold (add_tick opens to_ms) ticks bs w)"
proof (induction ticks arbitrary: T bs)
  case (Cons x ticks)
  have "\<forall>w. bucket_ok (own_ticks opens to_ms w (insert x T)) (add_tick opens to_ms x bs w)"
    using add_tick_ok [OF assms Cons.prems] by blast
  from Cons.IH [OF _ this] Cons.prems(1) show ?case by simp
qed simp

lemma ask_loop_ok:
  assumes opens: "sorted_wrt (<) opens"
  shows "ask_loop fuel ask opens f to_ms u bs k = Some (Inr bs', k') \<Longrightarrow> finite T \<Longrightarrow>
     \<forall>w. bucket_ok (own_ticks opens to_ms w T) (bs w) \<Longrightarrow>
     (\<forall>x \<in> T. \<exists>k u raw more. ask k f u = Inr (raw, more) \<and> x \<in> set (decode_ticks raw)) \<Longrightarrow>
     \<exists>T'. (\<forall>w. bucket_ok (own_ticks opens to_ms w T') (bs' w))
        \<and> (\<forall>x \<in> T'. \<exists>k u raw more. ask k f u = Inr (raw, more) \<and> x \<in> set (decode_ticks raw))"
proof (induction fuel arbitrary: u bs k T)
  case 0
  then show ?case by (auto split: if_splits)
next
  case (Suc fuel)
  show ?case
  proof (cases "f < u \<and> (\<exists>raw more. ask k f u = Inr (raw, more) \<and> decode_ticks raw \<noteq> [])")
    case False
    then have "bs' = bs" using Suc.prems(1) by (cases "ask k f u") (auto simp: Let_def split: if_splits)
    with Suc.prems show ?thesis by blast
  next
    case True
    then obtain raw more where a: "f < u" "ask k f u = Inr (raw, more)" "decode_ticks raw \<noteq> []" by blast
    let ?T = "T \<union> set (decode_ticks raw)"
    let ?bs = "fold (add_tick opens to_ms) (decode_ticks raw) bs"
    have ok: "\<forall>w. bucket_ok (own_ticks opens to_ms w ?T) (?bs w)"
      by (rule fold_ticks_ok [OF opens Suc.prems(2,3)])
    have read: "\<forall>x \<in> ?T. \<exists>k u raw more. ask k f u = Inr (raw, more) \<and> x \<in> set (decode_ticks raw)"
      using Suc.prems(4) a(2) by blast
    show ?thesis
    proof (cases more)
      case True
      then have "ask_loop fuel ask opens f to_ms (fst (last (decode_ticks raw)) - 1) ?bs (Suc k) = Some (Inr bs', k')"
        using Suc.prems(1) a by (simp add: Let_def)
      from Suc.IH [OF this _ ok read] Suc.prems(2) show ?thesis by blast
    next
      case False
      then have "bs' = ?bs" using Suc.prems(1) a by (simp add: Let_def)
      with ok read show ?thesis by blast
    qed
  qed
qed



end
