(* ===== verification/Calendar_Properties.thy ===== *)
theory Calendar_Properties
  imports Calendar Feed
begin

text \<open>
  The rendered calendar against what it is rendered from: sessions and holidays as sets of wall times, the
  classification of an interval against the open instants, and the monthly grid as a grid of the feed.
\<close>

section \<open>Days and times\<close>

lemma DAY_pos [simp]: "0 < DAY"
  by (simp add: DAY_def)

lemma time_range [simp]: "0 \<le> time_of w" "time_of w < DAY"
  by (simp_all add: time_of_def)

lemma combine_parts [simp]: "combine (date_of w) (time_of w) = w"
  by (simp add: combine_def date_of_def time_of_def)

lemma parts_combine [simp]:
  "0 \<le> tod \<Longrightarrow> tod < DAY \<Longrightarrow> date_of (combine d tod) = d"
  "0 \<le> tod \<Longrightarrow> tod < DAY \<Longrightarrow> time_of (combine d tod) = tod"
  by (simp_all add: combine_def date_of_def time_of_def)

lemma date_of_le: "x \<le> y \<Longrightarrow> date_of x \<le> date_of y"
  by (simp add: date_of_def zdiv_mono1)

lemma date_of_bounds: "date_of w = d \<longleftrightarrow> combine d 0 \<le> w \<and> w < combine (d + 1) 0"
proof
  assume d: "date_of w = d"
  have "0 \<le> w mod DAY" "w mod DAY < DAY" "w = d * DAY + w mod DAY"
    using d div_mult_mod_eq [of w DAY] by (simp_all add: date_of_def)
  then show "combine d 0 \<le> w \<and> w < combine (d + 1) 0" unfolding combine_def distrib_right by linarith
next
  assume a: "combine d 0 \<le> w \<and> w < combine (d + 1) 0"
  then have "0 \<le> w - d * DAY" "w - d * DAY < DAY" by (simp_all add: combine_def algebra_simps)
  from parts_combine(1) [OF this, of d] show "date_of w = d" by (simp add: combine_def)
qed

lemma combine_less [simp]: "combine d a < combine d b \<longleftrightarrow> a < b" "combine d a \<le> combine d b \<longleftrightarrow> a \<le> b"
  by (simp_all add: combine_def)

section \<open>Sessions of a schedule\<close>

definition in_session :: "session \<Rightarrow> int \<Rightarrow> int \<Rightarrow> bool" where
  "in_session iv wd tod \<longleftrightarrow> s_day iv = wd \<and> s_start iv \<le> tod \<and> tod < s_end iv"

lemma split_days_in:
  assumes "time_of w < 86399000"
  shows "(\<exists>iv \<in> set (split_days a b). in_session iv (weekday (date_of w)) (time_of w)) \<longleftrightarrow>
         (\<exists>x. a \<le> x \<and> x < b \<and> time_of x = time_of w \<and> weekday (date_of x) = weekday (date_of w))"
  using assms
proof (induction a b rule: split_days.induct)
  case (1 a b)
  show ?case
  proof (cases "a < b")
    case False
    then show ?thesis by (auto simp: split_days.simps)
  next
    case True
    define d where "d = date_of a"
    define e where "e = min b (combine d 86399000)"
    define n where "n = combine (d + 1) 0"
    have ad: "combine d 0 \<le> a" "a < n" using date_of_bounds [of a d] by (simp_all add: d_def n_def)
    have step: "split_days a b = \<lparr>s_day = weekday d, s_start = time_of a, s_end = time_of e\<rparr> # split_days n b"
      using True by (subst split_days.simps) (simp add: Let_def d_def e_def n_def)
    have IH: "(\<exists>iv \<in> set (split_days n b). in_session iv (weekday (date_of w)) (time_of w)) \<longleftrightarrow>
         (\<exists>x. n \<le> x \<and> x < b \<and> time_of x = time_of w \<and> weekday (date_of x) = weekday (date_of w))"
      using 1 True by (simp add: d_def n_def)
    have first: "in_session \<lparr>s_day = weekday d, s_start = time_of a, s_end = time_of e\<rparr> (weekday (date_of w)) (time_of w) \<longleftrightarrow>
         (\<exists>x. a \<le> x \<and> x < min b n \<and> time_of x = time_of w \<and> weekday (date_of x) = weekday (date_of w))"
    proof -
      have ta: "a = combine d (time_of a)" by (simp add: d_def)
      have x_iff: "a \<le> combine d (time_of w) \<longleftrightarrow> time_of a \<le> time_of w" by (subst ta) simp
      have day: "date_of x = d" if "a \<le> x" "x < n" for x
        using that ad date_of_bounds [of x d] by (simp add: n_def)
      have wn: "combine d (time_of w) < n" using parts_combine(1) [of "time_of w" d] date_of_bounds [of "combine d (time_of w)" d]
        by (simp add: n_def)
      have e_iff: "combine d (time_of w) < b \<longleftrightarrow> time_of w < time_of e" if "a \<le> combine d (time_of w)"
      proof (cases "b \<le> combine d 86399000")
        case True
        have "date_of b = d" using True \<open>a < b\<close> ad date_of_bounds [of b d]
          by (simp add: combine_def DAY_def)
        then have "b = combine d (time_of b)" by (metis combine_parts)
        then have "combine d (time_of w) < b \<longleftrightarrow> time_of w < time_of b" by (metis combine_less(1))
        then show ?thesis using True by (simp add: e_def)
      next
        case False
        then have "time_of e = 86399000" by (simp add: e_def DAY_def)
        moreover have "combine d (time_of w) < combine d 86399000" using "1.prems" by simp
        then have "combine d (time_of w) < b" using False by linarith
        ultimately show ?thesis using "1.prems" by simp
      qed
      show ?thesis
      proof
        assume l: "in_session \<lparr>s_day = weekday d, s_start = time_of a, s_end = time_of e\<rparr> (weekday (date_of w)) (time_of w)"
        then have "a \<le> combine d (time_of w)" using x_iff by (simp add: in_session_def)
        with l e_iff wn show "\<exists>x. a \<le> x \<and> x < min b n \<and> time_of x = time_of w \<and> weekday (date_of x) = weekday (date_of w)"
          by (intro exI [of _ "combine d (time_of w)"]) (simp add: in_session_def)
      next
        assume "\<exists>x. a \<le> x \<and> x < min b n \<and> time_of x = time_of w \<and> weekday (date_of x) = weekday (date_of w)"
        then obtain x where x: "a \<le> x" "x < b" "x < n" "time_of x = time_of w" "weekday (date_of x) = weekday (date_of w)"
          by auto
        then have "x = combine d (time_of w)" using day [of x] by (metis combine_parts)
        with x x_iff e_iff day [of x] show "in_session \<lparr>s_day = weekday d, s_start = time_of a, s_end = time_of e\<rparr> (weekday (date_of w)) (time_of w)"
          by (simp add: in_session_def)
      qed
    qed
    have "(\<exists>iv \<in> set (split_days a b). in_session iv (weekday (date_of w)) (time_of w)) \<longleftrightarrow>
        (\<exists>x. a \<le> x \<and> x < min b n \<and> time_of x = time_of w \<and> weekday (date_of x) = weekday (date_of w))
        \<or> (\<exists>x. n \<le> x \<and> x < b \<and> time_of x = time_of w \<and> weekday (date_of x) = weekday (date_of w))"
      unfolding step using first IH by simp
    also have "\<dots> \<longleftrightarrow> (\<exists>x. a \<le> x \<and> x < b \<and> time_of x = time_of w \<and> weekday (date_of x) = weekday (date_of w))"
    proof
      assume "(\<exists>x. a \<le> x \<and> x < min b n \<and> time_of x = time_of w \<and> weekday (date_of x) = weekday (date_of w))
        \<or> (\<exists>x. n \<le> x \<and> x < b \<and> time_of x = time_of w \<and> weekday (date_of x) = weekday (date_of w))"
      then show "\<exists>x. a \<le> x \<and> x < b \<and> time_of x = time_of w \<and> weekday (date_of x) = weekday (date_of w)"
        using ad(2) by (meson less_le_trans less_imp_le min.cobounded1 order_trans)
    next
      assume "\<exists>x. a \<le> x \<and> x < b \<and> time_of x = time_of w \<and> weekday (date_of x) = weekday (date_of w)"
      then obtain x where x: "a \<le> x" "x < b" "time_of x = time_of w" "weekday (date_of x) = weekday (date_of w)" by blast
      show "(\<exists>x. a \<le> x \<and> x < min b n \<and> time_of x = time_of w \<and> weekday (date_of x) = weekday (date_of w))
        \<or> (\<exists>x. n \<le> x \<and> x < b \<and> time_of x = time_of w \<and> weekday (date_of x) = weekday (date_of w))"
      proof (cases "x < n")
        case True
        with x show ?thesis by (intro disjI1 exI [of _ x]) simp
      next
        case False
        with x show ?thesis by (intro disjI2 exI [of _ x]) simp
      qed
    qed
    finally show ?thesis .
  qed
qed

text \<open>
  C15: A rendered week. The opening hours rendered for a week cover a weekday and time of day (before the last
  second of the day, which the rendering gives up at every midnight) exactly when some interval of the
  venue's schedule, moved into the provider's zone, contains a moment with that weekday and time.
\<close>

theorem week_rendered_exactly:
  assumes "time_of w < 86399000"
  shows "(\<exists>iv \<in> set (fst (render_week src dst schedule sunday)). in_session iv (weekday (date_of w)) (time_of w)) \<longleftrightarrow>
     (\<exists>(a, b) \<in> set schedule. \<exists>x. anchored src dst sunday a \<le> x \<and> x < anchored src dst sunday b
        \<and> time_of x = time_of w \<and> weekday (date_of x) = weekday (date_of w))"
proof (induction schedule)
  case (Cons ab schedule)
  obtain a b where ab: "ab = (a, b)" by fastforce
  have "split_days (anchored src dst sunday a) (anchored src dst sunday b) = []"
    if "anchored src dst sunday b \<le> anchored src dst sunday a"
    using that by (subst split_days.simps) simp
  then have "set (fst (render_week src dst (ab # schedule) sunday)) =
      set (split_days (anchored src dst sunday a) (anchored src dst sunday b)) \<union> set (fst (render_week src dst schedule sunday))"
    by (simp add: ab Let_def)
  then have "(\<exists>iv \<in> set (fst (render_week src dst (ab # schedule) sunday)). in_session iv (weekday (date_of w)) (time_of w)) \<longleftrightarrow>
      (\<exists>iv \<in> set (split_days (anchored src dst sunday a) (anchored src dst sunday b)). in_session iv (weekday (date_of w)) (time_of w))
      \<or> (\<exists>iv \<in> set (fst (render_week src dst schedule sunday)). in_session iv (weekday (date_of w)) (time_of w))" by blast
  then show ?case unfolding split_days_in [OF assms] Cons.IH ab by simp
qed simp

section \<open>Schedule history\<close>

lemma variants_nonempty: "variants_from src dst render (w # ws) None \<noteq> []"
  by simp

text \<open>Walking the weeks with the rendering of the week before.\<close>

lemma variants_last:
  "ws \<noteq> [] \<Longrightarrow> (if variants_from src dst render ws prev = [] then prev = Some (render (last ws))
                 else snd (last (variants_from src dst render ws prev)) = render (last ws))"
proof (induction ws arbitrary: prev)
  case (Cons w ws)
  show ?case
  proof (cases "ws = []")
    case False
    from Cons.IH [OF False, of prev] Cons.IH [OF False, of "Some (render w)"] False show ?thesis
      by (cases "prev = Some (render w)"; cases "variants_from src dst render ws (Some (render w)) = []") auto
  qed simp
qed simp

lemma variants_changes:
  "successively (\<lambda>x y. snd x \<noteq> snd y) (variants_from src dst render ws prev)
   \<and> (variants_from src dst render ws prev \<noteq> [] \<longrightarrow> prev \<noteq> Some (snd (hd (variants_from src dst render ws prev))))"
proof (induction ws arbitrary: prev)
  case (Cons w ws)
  show ?case
  proof (cases "prev = Some (render w)")
    case True
    with Cons.IH [of prev] show ?thesis by simp
  next
    case False
    from Cons.IH [of "Some (render w)"] False show ?thesis
      by (cases "variants_from src dst render ws (Some (render w))") auto
  qed
qed simp

lemma week_sundays_last: "week_sundays s \<noteq> [] \<and> last (week_sundays s) = s"
proof -
  have "[0..<SCHEDULE_HISTORY_YEARS * 52 + 1] = 0 # [1..<SCHEDULE_HISTORY_YEARS * 52 + 1]"
    by (simp add: upt_conv_Cons del: upt_Suc)
  then show ?thesis unfolding week_sundays_def by simp
qed

text \<open>
  The schedule history. The flat lists are the rendering of the current week; the variants are only given
  when the weeks of the history did not all render alike, each differs from the one before it, and the
  newest is the current week's.
\<close>

theorem schedule_current_week:
  assumes "schedule_to_sessions zones dst today schedule tz = Inr (flat, variants)"
    and "zones (if tz \<noteq> [] then tz else ''UTC'') = Some src"
  shows "flat = render_week src dst schedule (today src - (weekday (today src) + 1) mod 7)
     \<and> (variants \<noteq> [] \<longrightarrow> snd (last variants) = flat)
     \<and> successively (\<lambda>x y. snd x \<noteq> snd y) variants
     \<and> (variants = [] \<longrightarrow> (\<forall>w \<in> set (week_sundays (today src - (weekday (today src) + 1) mod 7)).
                             render_week src dst schedule w = flat))"
proof -
  let ?sun = "today src - (weekday (today src) + 1) mod 7"
  let ?ws = "week_sundays ?sun"
  let ?r = "render_week src dst schedule"
  let ?v = "variants_from src dst ?r ?ws None"
  have flat: "flat = snd (last ?v)" and vs: "variants = (if 1 < length ?v then ?v else [])"
    using assms by (simp_all add: schedule_to_sessions_def Let_def)
  have ne: "?v \<noteq> []" using week_sundays_last [of ?sun] by (cases ?ws) auto
  have last: "snd (last ?v) = ?r ?sun"
    using variants_last [of ?ws src dst ?r None] week_sundays_last [of ?sun] ne by simp
  have "\<forall>w \<in> set ?ws. ?r w = ?r ?sun" if "length ?v \<le> 1"
  proof -
    have "\<forall>w \<in> set ws. ?r w = ?r (hd ws)" if "length (variants_from src dst ?r ws None) \<le> 1" "ws \<noteq> []" for ws
    proof -
      have none: "variants_from src dst ?r xs (Some y) = [] \<Longrightarrow> \<forall>w \<in> set xs. ?r w = y" for xs y
        by (induction xs) (auto split: if_splits)
      from that show ?thesis using none by (cases ws) (auto simp: le_Suc_eq)
    qed
    from this [OF that] week_sundays_last [of ?sun] show ?thesis by (metis last_in_set)
  qed
  with flat last vs ne variants_changes [of src dst ?r ?ws None] show ?thesis by (auto simp: not_less)
qed

section \<open>Holidays\<close>

definition times_ok :: "session list \<Rightarrow> bool" where
  "times_ok xs \<longleftrightarrow> (\<forall>iv \<in> set xs. 0 \<le> s_start iv \<and> s_start iv < DAY \<and> 0 \<le> s_end iv \<and> s_end iv < DAY)"

definition day_sessions :: "session list \<Rightarrow> corrections \<Rightarrow> int \<Rightarrow> session list" where
  "day_sessions hours corr d = (case corr d of Some base \<Rightarrow> base | None \<Rightarrow> filter (\<lambda>iv. s_day iv = weekday d) hours)"

definition open_time :: "session list \<Rightarrow> int \<Rightarrow> bool" where
  "open_time xs tod \<longleftrightarrow> (\<exists>iv \<in> set xs. s_start iv \<le> tod \<and> tod < s_end iv)"

definition corrections_ok :: "session list \<Rightarrow> corrections \<Rightarrow> bool" where
  "corrections_ok hours corr \<longleftrightarrow> (\<forall>d. times_ok (day_sessions hours corr d))"

lemma same_day:
  assumes "0 \<le> s" "combine d s \<le> x" "x < combine d e" "e < DAY"
  shows "combine d (time_of x) = x"
proof -
  have "combine d 0 \<le> x" "x < combine (d + 1) 0" using assms by (simp_all add: combine_def algebra_simps)
  then have "date_of x = d" using date_of_bounds by blast
  then show ?thesis by (metis combine_parts)
qed

lemma cut_session_exact:
  assumes iv: "0 \<le> s_start iv" "s_end iv < DAY" and w: "f < t"
  shows "open_time (cut_session d f t iv) tod \<longleftrightarrow>
     s_start iv \<le> tod \<and> tod < s_end iv \<and> \<not> (f \<le> combine d tod \<and> combine d tod < t)"
proof (cases "combine d (s_end iv) \<le> f \<or> t \<le> combine d (s_start iv)")
  case True
  then show ?thesis
    by (auto simp: cut_session_def open_time_def Let_def combine_def)
next
  case False
  then have o: "combine d (s_start iv) < t" "f < combine d (s_end iv)" by simp_all
  have tf: "combine d (time_of f) = f" if "combine d (s_start iv) < f"
    using same_day [of "s_start iv" d f "s_end iv"] that iv o by simp
  have tt: "combine d (time_of t) = t" if "t < combine d (s_end iv)"
    using same_day [of "s_start iv" d t "s_end iv"] that iv o by simp
  have f_iff: "combine d (s_start iv) < f \<Longrightarrow> tod < time_of f \<longleftrightarrow> combine d tod < f" using tf by (metis combine_less(1))
  have t_iff: "t < combine d (s_end iv) \<Longrightarrow> time_of t \<le> tod \<longleftrightarrow> t \<le> combine d tod" using tt by (metis combine_less(2))
  have s_iff: "s_start iv \<le> tod \<longleftrightarrow> combine d (s_start iv) \<le> combine d tod"
    "tod < s_end iv \<longleftrightarrow> combine d tod < combine d (s_end iv)" by simp_all
  have "open_time (cut_session d f t iv) tod \<longleftrightarrow>
      (combine d (s_start iv) < f \<and> s_start iv \<le> tod \<and> tod < time_of f)
      \<or> (t < combine d (s_end iv) \<and> time_of t \<le> tod \<and> tod < s_end iv)"
    using False by (auto simp: cut_session_def open_time_def Let_def)
  also have "\<dots> \<longleftrightarrow> (combine d (s_start iv) < f \<and> combine d (s_start iv) \<le> combine d tod \<and> combine d tod < f)
      \<or> (t < combine d (s_end iv) \<and> t \<le> combine d tod \<and> combine d tod < combine d (s_end iv))"
    using f_iff t_iff s_iff by blast
  also have "\<dots> \<longleftrightarrow> s_start iv \<le> tod \<and> tod < s_end iv \<and> \<not> (f \<le> combine d tod \<and> combine d tod < t)"
    unfolding s_iff using o w by linarith
  finally show ?thesis .
qed

lemma cut_session_ok: "iv \<in> set xs \<Longrightarrow> times_ok xs \<Longrightarrow> times_ok (cut_session d f t iv)"
  by (auto simp: times_ok_def cut_session_def Let_def)

lemma open_time_concat: "open_time (concat xss) tod \<longleftrightarrow> (\<exists>xs \<in> set xss. open_time xs tod)"
  by (auto simp: open_time_def)

lemma times_ok_concat: "times_ok (concat xss) \<longleftrightarrow> (\<forall>xs \<in> set xss. times_ok xs)"
  by (auto simp: times_ok_def)

lemma cut_day_sessions:
  "day_sessions hours (cut_day hours f t d corr) x =
     (if x = d then concat (map (cut_session d f t) (day_sessions hours corr d)) else day_sessions hours corr x)"
  by (simp add: cut_day_def day_sessions_def)

lemma cut_day_ok: "corrections_ok hours corr \<Longrightarrow> corrections_ok hours (cut_day hours f t d corr)"
proof -
  assume ok: "corrections_ok hours corr"
  have "times_ok (day_sessions hours (cut_day hours f t d corr) x)" for x
  proof (cases "x = d")
    case True
    have "\<forall>iv \<in> set (day_sessions hours corr d). times_ok (cut_session d f t iv)"
      using ok cut_session_ok unfolding corrections_ok_def by blast
    then show ?thesis using True by (simp add: cut_day_sessions times_ok_concat)
  next
    case False
    then show ?thesis using ok by (simp add: cut_day_sessions corrections_ok_def)
  qed
  then show ?thesis unfolding corrections_ok_def by blast
qed

lemma cut_day_exact:
  assumes "corrections_ok hours corr" "f < t"
  shows "open_time (day_sessions hours (cut_day hours f t d corr) x) tod \<longleftrightarrow>
     open_time (day_sessions hours corr x) tod \<and> \<not> (x = d \<and> f \<le> combine x tod \<and> combine x tod < t)"
proof (cases "x = d")
  case True
  have "\<forall>iv \<in> set (day_sessions hours corr d). open_time (cut_session d f t iv) tod \<longleftrightarrow>
      s_start iv \<le> tod \<and> tod < s_end iv \<and> \<not> (f \<le> combine d tod \<and> combine d tod < t)"
    using assms cut_session_exact by (simp add: corrections_ok_def times_ok_def)
  then have "(\<exists>iv \<in> set (day_sessions hours corr d). open_time (cut_session d f t iv) tod) \<longleftrightarrow>
      open_time (day_sessions hours corr d) tod \<and> \<not> (f \<le> combine d tod \<and> combine d tod < t)"
    unfolding open_time_def [of "day_sessions hours corr d"] by blast
  then show ?thesis using True unfolding cut_day_sessions by (simp add: open_time_concat)
qed (simp add: cut_day_sessions)

lemma cut_days_exact:
  assumes "f < t"
  shows "corrections_ok hours corr \<Longrightarrow>
     corrections_ok hours (fold (cut_day hours f t) ds corr)
     \<and> (open_time (day_sessions hours (fold (cut_day hours f t) ds corr) x) tod \<longleftrightarrow>
          open_time (day_sessions hours corr x) tod \<and> \<not> (x \<in> set ds \<and> f \<le> combine x tod \<and> combine x tod < t))"
proof (induction ds arbitrary: corr)
  case (Cons d ds)
  from Cons.IH [OF cut_day_ok [OF Cons.prems]] cut_day_exact [OF Cons.prems assms] show ?case by auto
qed simp

definition in_holiday :: "zone \<Rightarrow> zone \<Rightarrow> holiday \<Rightarrow> int \<Rightarrow> int \<Rightarrow> bool" where
  "in_holiday src dst h day w \<longleftrightarrow> anchored src dst day (h_start h) \<le> w \<and> w < anchored src dst day (h_end h)"

lemma close_window_exact:
  assumes ok: "corrections_ok hours corr" and tod: "0 \<le> tod" "tod < DAY"
  shows "corrections_ok hours (close_window src dst hours h day corr)
     \<and> (open_time (day_sessions hours (close_window src dst hours h day corr) x) tod \<longleftrightarrow>
          open_time (day_sessions hours corr x) tod \<and> \<not> in_holiday src dst h day (combine x tod))"
proof (cases "anchored src dst day (h_end h) \<le> anchored src dst day (h_start h)")
  case True
  with ok show ?thesis by (auto simp: close_window_def in_holiday_def)
next
  case False
  define f where "f = anchored src dst day (h_start h)"
  define t where "t = anchored src dst day (h_end h)"
  have ft: "f < t" using False by (simp add: f_def t_def)
  have "x \<in> set [date_of f..date_of (t - 1)]" if "f \<le> combine x tod" "combine x tod < t"
    using that date_of_le [of f "combine x tod"] date_of_le [of "combine x tod" "t - 1"] tod by simp
  with cut_days_exact [OF ft ok, of "[date_of f..date_of (t - 1)]" x tod] show ?thesis
    using False by (auto simp: close_window_def in_holiday_def Let_def f_def [symmetric] t_def [symmetric])
qed

lemma close_windows_exact:
  assumes tod: "0 \<le> tod" "tod < DAY"
  shows "corrections_ok hours corr \<Longrightarrow>
     corrections_ok hours (fold (close_window src dst hours h) days corr)
     \<and> (open_time (day_sessions hours (fold (close_window src dst hours h) days corr) x) tod \<longleftrightarrow>
          open_time (day_sessions hours corr x) tod \<and> (\<forall>day \<in> set days. \<not> in_holiday src dst h day (combine x tod)))"
proof (induction days arbitrary: corr)
  case (Cons d days)
  note one = close_window_exact [OF Cons.prems tod, of src dst h d x]
  from Cons.IH [OF conjunct1 [OF one]] one show ?case by auto
qed simp

definition holiday_zone :: "(string \<Rightarrow> zone option) \<Rightarrow> string \<Rightarrow> holiday \<Rightarrow> zone option" where
  "holiday_zone zones tz h = (let name = (if h_zone h \<noteq> [] then h_zone h else tz) in zones (if name \<noteq> [] then name else ''UTC''))"

lemma holidays_step:
  assumes tod: "0 \<le> tod" "tod < DAY"
  shows "corrections_ok hours corr \<Longrightarrow> holidays_to_corrections zones dst year tz hours hs corr = Inr corr' \<Longrightarrow>
     open_time (day_sessions hours corr' x) tod \<longleftrightarrow>
       open_time (day_sessions hours corr x) tod
       \<and> (\<forall>h \<in> set hs. \<forall>src day. holiday_zone zones tz h = Some src \<longrightarrow> day \<in> set (holiday_dates year h) \<longrightarrow>
            \<not> in_holiday src dst h day (combine x tod))"
proof (induction hs arbitrary: corr)
  case (Cons h hs)
  then obtain src where src: "holiday_zone zones tz h = Some src"
    and run: "holidays_to_corrections zones dst year tz hours hs
               (fold (close_window src dst hours h) (holiday_dates year h) corr) = Inr corr'"
    by (auto simp: Let_def holiday_zone_def split: option.splits)
  note one = close_windows_exact [OF tod Cons.prems(1), of src dst h "holiday_dates year h" x]
  from Cons.IH [OF conjunct1 [OF one] run] one src show ?case by auto
qed simp

text \<open>
  C14: Holidays. With the corrections built from the venue's holidays a moment of a date is open exactly when
  the weekly hours of that weekday contain it and no holiday closes it: none of the closed windows,
  taken from midnight of each of the holiday's dates in the holiday's own zone and moved into the
  provider's, contains that wall time - also a window over several days, one that cuts a session in two,
  or several that overlap.
\<close>

theorem holidays_close_exactly:
  assumes "holidays_to_corrections zones dst year tz hours hs Map.empty = Inr corr"
    and "times_ok hours" and "0 \<le> tod" and "tod < DAY"
  shows "open_time (day_sessions hours corr x) tod \<longleftrightarrow>
       open_time (filter (\<lambda>iv. s_day iv = weekday x) hours) tod
       \<and> (\<forall>h \<in> set hs. \<forall>src day. holiday_zone zones tz h = Some src \<longrightarrow> day \<in> set (holiday_dates year h) \<longrightarrow>
            \<not> in_holiday src dst h day (combine x tod))"
proof -
  have "corrections_ok hours Map.empty" using assms(2) by (simp add: corrections_ok_def day_sessions_def times_ok_def)
  from holidays_step [OF assms(3,4) this assms(1)] show ?thesis by (simp add: day_sessions_def)
qed

definition fixed_zone :: "int \<Rightarrow> zone" where
  "fixed_zone off = \<lparr>utc_offset = \<lambda>_. off, utc_fold = \<lambda>_. 0, wall_offset = \<lambda>_ _. off\<rparr>"

lemma holidays_close_exactly_witness:
  "let h = \<lparr>h_date = 20000, h_start = 3600, h_end = 7200, h_recurring = False, h_zone = []\<rparr>;
       hours = [\<lparr>s_day = weekday 20000, s_start = 0, s_end = 86399000\<rparr>];
       z = fixed_zone 0
   in \<exists>corr. holidays_to_corrections (\<lambda>_. Some z) z 2025 [] hours [h] Map.empty = Inr corr
        \<and> \<not> open_time (day_sessions hours corr 20000) 5400000"
proof -
  let ?h = "\<lparr>h_date = 20000, h_start = 3600, h_end = 7200, h_recurring = False, h_zone = []\<rparr>"
  let ?hours = "[\<lparr>s_day = weekday 20000, s_start = 0, s_end = 86399000\<rparr>]"
  obtain corr where c: "holidays_to_corrections (\<lambda>_. Some (fixed_zone 0)) (fixed_zone 0) 2025 [] ?hours [?h] Map.empty = Inr corr"
    by (simp add: Let_def)
  have "times_ok ?hours" by (simp add: times_ok_def DAY_def)
  from holidays_close_exactly [OF c this, of 5400000 20000]
  have "\<not> open_time (day_sessions ?hours corr 20000) 5400000"
    by (auto simp: holiday_zone_def holiday_dates_def in_holiday_def anchored_def to_wall_def to_instant_def
        fixed_zone_def combine_def DAY_def)
  with c show ?thesis by (simp add: Let_def)
qed

lemma week_rendered_exactly_witness:
  "\<exists>iv \<in> set (fst (render_week (fixed_zone 0) (fixed_zone 7200000) [(0, 432000)] 19999)). in_session iv (weekday (date_of 1728086400000)) 0"
proof -
  have t: "time_of 1728086400000 = 0" "date_of 1728086400000 = 20001" by (simp_all add: time_of_def date_of_def DAY_def)
  show ?thesis
    using week_rendered_exactly [of 1728086400000 "fixed_zone 0" "fixed_zone 7200000" "[(0, 432000)]" 19999] t
    by (auto simp: anchored_def to_wall_def to_instant_def fixed_zone_def combine_def DAY_def
        simp del: render_week.simps intro!: exI [of _ 1728086400000])
qed

lemma schedule_current_week_witness:
  "\<exists>flat variants. schedule_to_sessions (\<lambda>_. Some (fixed_zone 0)) (fixed_zone 0) (\<lambda>_. 20000) [(0, 432000)] [] = Inr (flat, variants)
     \<and> flat = render_week (fixed_zone 0) (fixed_zone 0) [(0, 432000)] 19995"
proof -
  obtain flat variants where r:
    "schedule_to_sessions (\<lambda>_. Some (fixed_zone 0)) (fixed_zone 0) (\<lambda>_. 20000) [(0, 432000)] [] = Inr (flat, variants)"
    by (auto simp: schedule_to_sessions_def Let_def)
  from schedule_current_week [OF r, of "fixed_zone 0"] r show ?thesis by (auto simp: weekday_def simp del: render_week.simps)
qed

section \<open>Classifying history\<close>

text \<open>The instants at which the calendar is open, in a zone with a fixed offset.\<close>

definition open_at :: "syminfo \<Rightarrow> int \<Rightarrow> int \<Rightarrow> bool" where
  "open_at info off u =
     (let d = date_of (u + off); tod = time_of (u + off)
      in (\<exists>iv \<in> set (fst (resolve_hours info d)).
            s_day iv = weekday d \<and> s_start iv \<le> tod \<and> (s_end iv < s_start iv \<or> tod < s_end iv))
       \<or> (\<exists>iv \<in> set (fst (resolve_hours info (d - 1))).
            s_day iv = weekday (d - 1) \<and> s_end iv < s_start iv \<and> tod < s_end iv))"

definition calendar_ok :: "syminfo \<Rightarrow> bool" where
  "calendar_ok info \<longleftrightarrow> (\<forall>d. times_ok (fst (resolve_hours info d)))"

definition span :: "int \<Rightarrow> session \<Rightarrow> (int \<times> int) option" where
  "span day iv =
     (let overnight = s_end iv < s_start iv
      in if s_day iv = weekday day
         then Some (combine day (s_start iv), combine (if overnight then day + 1 else day) (s_end iv))
         else if s_day iv = weekday (day - 1) \<and> overnight
         then Some (combine (day - 1) (s_start iv), combine day (s_end iv)) else None)"

definition hits :: "int \<Rightarrow> int \<Rightarrow> int \<Rightarrow> int \<Rightarrow> session \<Rightarrow> bool" where
  "hits off ss se day iv = (case span day iv of None \<Rightarrow> False | Some (a, b) \<Rightarrow> a < b \<and> a - off < se \<and> ss < b - off)"

lemma fixed_boundary: "boundary_timestamps (fixed_zone off) day tod = [combine day tod - off]"
  by (simp add: boundary_timestamps_def Let_def fixed_zone_def to_wall_def to_instant_def)

lemma overlaps_fixed:
  "overlaps_sessions (fixed_zone off) ss se day ivs known =
     (if \<exists>iv \<in> set ivs. hits off ss se day iv then Some True else if known then Some False else None)"
proof (induction ivs)
  case (Cons iv ivs)
  show ?case
  proof (cases "span day iv")
    case None
    then have "overlaps_sessions (fixed_zone off) ss se day (iv # ivs) known = overlaps_sessions (fixed_zone off) ss se day ivs known"
      by (auto simp: span_def Let_def split: if_splits)
    with Cons.IH None show ?thesis by (simp add: hits_def)
  next
    case (Some ab)
    obtain a b where ab: "ab = (a, b)" by fastforce
    have "overlaps_sessions (fixed_zone off) ss se day (iv # ivs) known =
        (if a < b \<and> a - off < se \<and> ss < b - off then Some True else overlaps_sessions (fixed_zone off) ss se day ivs known)"
      using Some ab by (auto simp: span_def fixed_boundary Let_def split: if_splits)
    with Cons.IH Some ab show ?thesis by (auto simp: hits_def)
  qed
qed simp

lemma weekday_before: "weekday (d - 1) \<noteq> weekday d"
  unfolding weekday_def by presburger

text \<open>The sessions relevant to one day against its open instants.\<close>

lemma session_instant:
  assumes iv: "0 \<le> s_start iv" "s_start iv < DAY" "0 \<le> s_end iv" "s_end iv < DAY" and d: "date_of (x + off) = d"
  shows "(case span d iv of None \<Rightarrow> False | Some (a, b) \<Rightarrow> a \<le> x + off \<and> x + off < b) \<longleftrightarrow>
     (s_day iv = weekday d \<and> s_start iv \<le> time_of (x + off) \<and> (s_end iv < s_start iv \<or> time_of (x + off) < s_end iv))
     \<or> (s_day iv = weekday (d - 1) \<and> s_end iv < s_start iv \<and> time_of (x + off) < s_end iv)"
proof -
  define y where "y = x + off"
  define tod where "tod = time_of y"
  have y: "y = combine d tod" using d combine_parts [of y] by (simp add: y_def tod_def)
  have tod: "0 \<le> tod" "tod < DAY" by (simp_all add: tod_def)
  have next_day: "combine d tod < combine (d + 1) (s_end iv)"
    using tod iv(3) unfolding combine_def distrib_right by linarith
  have prev_day: "combine (d - 1) (s_start iv) \<le> combine d tod"
    using tod iv(2) unfolding combine_def left_diff_distrib by linarith
  have "(case span d iv of None \<Rightarrow> False | Some (a, b) \<Rightarrow> a \<le> y \<and> y < b) \<longleftrightarrow>
     (s_day iv = weekday d \<and> s_start iv \<le> tod \<and> (s_end iv < s_start iv \<or> tod < s_end iv))
     \<or> (s_day iv = weekday (d - 1) \<and> s_end iv < s_start iv \<and> tod < s_end iv)"
    unfolding y using weekday_before [of d] next_day prev_day by (auto simp: span_def Let_def)
  then show ?thesis unfolding y_def tod_def .
qed

lemma hits_instant:
  assumes seg: "ss < se"
  shows "hits off ss se day iv \<longleftrightarrow>
     (\<exists>x. ss \<le> x \<and> x < se \<and> (case span day iv of None \<Rightarrow> False | Some (a, b) \<Rightarrow> a \<le> x + off \<and> x + off < b))"
proof (cases "span day iv")
  case (Some ab)
  obtain a b where ab: "ab = (a, b)" by fastforce
  have "a < b \<and> a - off < se \<and> ss < b - off \<longleftrightarrow> (\<exists>x. ss \<le> x \<and> x < se \<and> a \<le> x + off \<and> x + off < b)"
  proof
    assume "a < b \<and> a - off < se \<and> ss < b - off"
    then show "\<exists>x. ss \<le> x \<and> x < se \<and> a \<le> x + off \<and> x + off < b"
      using seg by (intro exI [of _ "max ss (a - off)"]) auto
  qed auto
  then show ?thesis by (simp add: hits_def Some ab)
qed (simp add: hits_def)

lemma day_segment:
  assumes ok: "calendar_ok info" and seg: "ss < se" and in_day: "\<And>x. ss \<le> x \<Longrightarrow> x < se \<Longrightarrow> date_of (x + off) = d"
  shows "(\<exists>iv \<in> set (fst (opening_hours_for_date info d)). hits off ss se d iv) \<longleftrightarrow>
         (\<exists>x. ss \<le> x \<and> x < se \<and> open_at info off x)"
proof -
  let ?H = "fst (opening_hours_for_date info d)"
  have H: "set ?H = {iv \<in> set (fst (resolve_hours info d)). s_day iv = weekday d}
      \<union> {iv \<in> set (fst (resolve_hours info (d - 1))). s_day iv = weekday (d - 1) \<and> s_end iv < s_start iv}"
    by (auto simp: opening_hours_for_date_def split: prod.splits)
  have times: "0 \<le> s_start iv \<and> s_start iv < DAY \<and> 0 \<le> s_end iv \<and> s_end iv < DAY" if "iv \<in> set ?H" for iv
    using that ok unfolding H calendar_ok_def times_ok_def by blast
  have "(\<exists>iv \<in> set ?H. hits off ss se d iv) \<longleftrightarrow>
      (\<exists>x. ss \<le> x \<and> x < se \<and> (\<exists>iv \<in> set ?H. case span d iv of None \<Rightarrow> False | Some (a, b) \<Rightarrow> a \<le> x + off \<and> x + off < b))"
    unfolding hits_instant [OF seg] by blast
  also have "\<dots> \<longleftrightarrow> (\<exists>x. ss \<le> x \<and> x < se \<and> open_at info off x)"
  proof (intro ex_cong1 conj_cong refl)
    fix x assume x: "ss \<le> x" "x < se"
    note d = in_day [OF x]
    have "(\<exists>iv \<in> set ?H. case span d iv of None \<Rightarrow> False | Some (a, b) \<Rightarrow> a \<le> x + off \<and> x + off < b) \<longleftrightarrow>
        (\<exists>iv \<in> set ?H. (s_day iv = weekday d \<and> s_start iv \<le> time_of (x + off) \<and> (s_end iv < s_start iv \<or> time_of (x + off) < s_end iv))
           \<or> (s_day iv = weekday (d - 1) \<and> s_end iv < s_start iv \<and> time_of (x + off) < s_end iv))"
      using session_instant [OF _ _ _ _ d] times by (intro bex_cong refl) blast
    also have "\<dots> \<longleftrightarrow> open_at info off x"
      unfolding H open_at_def d Let_def using weekday_before [of d] by auto
    finally show "(\<exists>iv \<in> set ?H. case span d iv of None \<Rightarrow> False | Some (a, b) \<Rightarrow> a \<le> x + off \<and> x + off < b) \<longleftrightarrow>
        open_at info off x" .
  qed
  finally show ?thesis .
qed

text \<open>Day by day: the segment of the interval on each local date.\<close>

definition segment :: "int \<Rightarrow> int \<Rightarrow> int \<Rightarrow> int \<Rightarrow> int \<times> int" where
  "segment off t u day = (max t (combine day 0 - off), min u (combine (day + 1) 0 - off))"

lemma segment_iff:
  "fst (segment off t u day) \<le> x \<and> x < snd (segment off t u day) \<longleftrightarrow> t \<le> x \<and> x < u \<and> date_of (x + off) = day"
  unfolding date_of_bounds segment_def by auto

lemma days_open_step:
  assumes ok: "calendar_ok info"
  shows "days_open (fixed_zone off) info t u (day # days) known =
     (if \<exists>x. t \<le> x \<and> x < u \<and> date_of (x + off) = day \<and> open_at info off x then Some True
      else days_open (fixed_zone off) info t u days
             (known \<and> (fst (segment off t u day) < snd (segment off t u day) \<longrightarrow> snd (opening_hours_for_date info day))))"
proof -
  let ?ss = "fst (segment off t u day)" and ?se = "snd (segment off t u day)"
  have seg: "max t (to_instant (fixed_zone off) (combine day 0) 0) = ?ss"
    "min u (to_instant (fixed_zone off) (combine (day + 1) 0) 0) = ?se"
    by (simp_all add: segment_def to_instant_def fixed_zone_def)
  have here: "(\<exists>x. t \<le> x \<and> x < u \<and> date_of (x + off) = day \<and> open_at info off x) \<longleftrightarrow> (\<exists>x. ?ss \<le> x \<and> x < ?se \<and> open_at info off x)"
    using segment_iff [of off t u day] by blast
  show ?thesis
  proof (cases "?ss < ?se")
    case False
    then show ?thesis unfolding here days_open.simps Let_def seg by auto
  next
    case True
    obtain hours day_known where h: "opening_hours_for_date info day = (hours, day_known)" by fastforce
    have hit: "(\<exists>iv \<in> set hours. hits off ?ss ?se day iv) \<longleftrightarrow> (\<exists>x. ?ss \<le> x \<and> x < ?se \<and> open_at info off x)"
      using day_segment [OF ok True, of off day] segment_iff [of off t u day] h by auto
    show ?thesis
      unfolding here hit [symmetric] days_open.simps Let_def seg h prod.case overlaps_fixed using True by auto
  qed
qed

lemma days_open_fixed:
  assumes ok: "calendar_ok info"
  shows "days_open (fixed_zone off) info t u days known =
     (if \<exists>x. t \<le> x \<and> x < u \<and> date_of (x + off) \<in> set days \<and> open_at info off x then Some True
      else if known \<and> (\<forall>day \<in> set days. fst (segment off t u day) < snd (segment off t u day) \<longrightarrow> snd (opening_hours_for_date info day))
      then Some False else None)"
proof (induction days arbitrary: known)
  case (Cons day days)
  show ?case unfolding days_open_step [OF ok] Cons.IH by auto
qed simp

lemma segments_known:
  "(\<forall>day \<in> set [date_of (t + off)..date_of (u + off)]. fst (segment off t u day) < snd (segment off t u day) \<longrightarrow> P day)
   \<longleftrightarrow> (\<forall>x. t \<le> x \<and> x < u \<longrightarrow> P (date_of (x + off)))"
proof
  assume l: "\<forall>day \<in> set [date_of (t + off)..date_of (u + off)]. fst (segment off t u day) < snd (segment off t u day) \<longrightarrow> P day"
  show "\<forall>x. t \<le> x \<and> x < u \<longrightarrow> P (date_of (x + off))"
  proof (intro allI impI)
    fix x assume x: "t \<le> x \<and> x < u"
    let ?d = "date_of (x + off)"
    have "fst (segment off t u ?d) \<le> x \<and> x < snd (segment off t u ?d)"
      by (rule segment_iff [THEN iffD2]) (use x in blast)
    then have "fst (segment off t u ?d) < snd (segment off t u ?d)" by linarith
    moreover have "?d \<in> set [date_of (t + off)..date_of (u + off)]"
      using x by (auto intro!: date_of_le)
    ultimately show "P ?d" by (rule l [rule_format, rotated])
  qed
next
  assume r: "\<forall>x. t \<le> x \<and> x < u \<longrightarrow> P (date_of (x + off))"
  show "\<forall>day \<in> set [date_of (t + off)..date_of (u + off)]. fst (segment off t u day) < snd (segment off t u day) \<longrightarrow> P day"
  proof (intro ballI impI)
    fix day assume lt: "fst (segment off t u day) < snd (segment off t u day)"
    have f: "t \<le> fst (segment off t u day) \<and> fst (segment off t u day) < u \<and> date_of (fst (segment off t u day) + off) = day"
      by (rule segment_iff [THEN iffD1], rule conjI, rule order_refl, rule lt)
    have "P (date_of (fst (segment off t u day) + off))"
      by (rule r [rule_format], rule conjI, rule conjunct1 [OF f], rule conjunct1 [OF conjunct2 [OF f]])
    then show "P day" unfolding conjunct2 [OF conjunct2 [OF f]] .
  qed
qed


definition demo_info :: syminfo where
  "demo_info = \<lparr>corrections_of = Map.empty,
     weekly = (\<lambda>d. if weekday d < 5 then [\<lparr>s_day = weekday d, s_start = 0, s_end = 86399000\<rparr>] else []),
     has_schedules = True\<rparr>"


section \<open>The monthly grid\<close>

lemma leap_arith:
  fixes z :: int
  assumes "z = 4 * a + i" "z = 100 * b + j" "z = 400 * c + k" "0 \<le> i" "i \<le> 3" "0 \<le> j" "j \<le> 99" "0 \<le> k" "k \<le> 399"
  shows "400 * (365 * z + a - b + c - 719162) \<le> 146097 * z - 287664800 + 396"
    and "146097 * z - 287664800 - 699 \<le> 400 * (365 * z + a - b + c - 719162)"
proof -
  have "400 * (365 * z + a - b + c - 719162) = 146097 * z - 287664800 - 100 * i + 4 * j - k"
    using assms(1-3) by (simp add: algebra_simps)
  then show "400 * (365 * z + a - b + c - 719162) \<le> 146097 * z - 287664800 + 396"
     "146097 * z - 287664800 - 699 \<le> 400 * (365 * z + a - b + c - 719162)"
    using assms(4-) by simp_all
qed

lemma first_day_bounds:
  "400 * first_day y \<le> 146097 * (y - 1) - 287664800 + 396" "146097 * (y - 1) - 287664800 - 699 \<le> 400 * first_day y"
  unfolding first_day_def
  by (rule leap_arith [of _ _ "(y - 1) mod 4" _ "(y - 1) mod 100" _ "(y - 1) mod 400"], simp_all)+

lemma split_arith:
  fixes n :: int
  assumes "n = 146097 * q + r" "0 \<le> r" "r < 146097"
  shows "146097 * q \<le> n" and "n < 146097 * q + 146097"
  using assms by simp_all

lemma year_of_exact: "first_day (year_of day) \<le> day \<and> day < first_day (year_of day + 1)"
proof -
  define y where "y = (day + 719162) * 400 div 146097 + 1"
  have "y - 1 = (day + 719162) * 400 div 146097" by (simp add: y_def)
  then have e: "146097 * (y - 1) \<le> (day + 719162) * 400" "(day + 719162) * 400 < 146097 * (y - 1) + 146097"
    using split_arith [of "(day + 719162) * 400" "y - 1" "(day + 719162) * 400 mod 146097"] by simp_all
  have lo: "first_day (y - 1) \<le> day" using e first_day_bounds(1) [of "y - 1"] by (simp add: algebra_simps)
  have hi: "day < first_day (y + 1 + 1)" using e first_day_bounds(2) [of "y + 1 + 1"] by (simp add: algebra_simps)
  have "year_of day = (if day < first_day y then y - 1 else if first_day (y + 1) \<le> day then y + 1 else y)"
    by (simp add: year_of_def Let_def y_def)
  then show ?thesis using lo hi by auto
qed

lemma month_of_exact:
  "1 \<le> month_of day \<and> month_of day \<le> 12
   \<and> (month_of day < 12 \<longrightarrow> day - first_day (year_of day) < month_starts (leap (year_of day)) ! month_of day)"
proof -
  let ?ms = "month_starts (leap (year_of day))"
  let ?n = "day - first_day (year_of day)"
  have len: "length ?ms = 12" by (simp add: month_starts_def)
  have "takeWhile (\<lambda>s. s \<le> ?n) ?ms \<noteq> []" using year_of_exact [of day] by (simp add: month_starts_def)
  then have "1 \<le> month_of day" by (simp add: month_of_def Let_def Suc_le_eq)
  moreover have "month_of day \<le> 12" using length_takeWhile_le [of "\<lambda>s. s \<le> ?n" ?ms] len by (simp add: month_of_def Let_def)
  moreover have "\<not> ?ms ! month_of day \<le> ?n" if "month_of day < 12"
    using nth_length_takeWhile [of "\<lambda>s. s \<le> ?n" ?ms] that len by (simp add: month_of_def Let_def)
  ultimately show ?thesis by (simp add: not_le)
qed

text \<open>The first of the next month is a later date.\<close>

lemma next_month_later:
  "day < day_number (if month_of day = 12 then year_of day + 1 else year_of day)
                    (if month_of day = 12 then 1 else month_of day + 1) 1"
proof (cases "month_of day = 12")
  case True
  then show ?thesis using year_of_exact [of day] by (simp add: day_number_def month_starts_def)
next
  case False
  then have "month_of day < 12" using month_of_exact [of day] by simp
  then have "day - first_day (year_of day) < month_starts (leap (year_of day)) ! month_of day"
    using month_of_exact [of day] by simp
  then show ?thesis using False by (simp add: day_number_def)
qed

text \<open>A zone whose offsets, at instants and at wall times, differ by less than a day.\<close>

definition steady :: "zone \<Rightarrow> bool" where
  "steady z \<longleftrightarrow> (\<forall>t w fld. \<bar>utc_offset z t - wall_offset z w fld\<bar> < DAY)"

lemma next_month_later_instant:
  assumes z: "\<And>z. zo = Some z \<Longrightarrow> steady z" and n: "next_month_opening zo t = Some u"
  shows "t < u"
proof -
  obtain z where zo: "zo = Some z" using n by (cases zo) (auto simp: next_month_opening_def)
  define w where "w = to_wall z t"
  define nd where "nd = day_number (if month_of (date_of w) = 12 then year_of (date_of w) + 1 else year_of (date_of w))
                    (if month_of (date_of w) = 12 then 1 else month_of (date_of w) + 1) 1"
  have u: "u = combine nd (time_of w) - wall_offset z (combine nd (time_of w)) 0"
    using n unfolding zo next_month_opening_def option.case Let_def w_def [symmetric] nd_def [symmetric] to_instant_def
    by simp
  have "date_of w + 1 \<le> nd" using next_month_later [of "date_of w"] by (simp add: nd_def)
  then have "(date_of w + 1) * DAY \<le> nd * DAY" by (intro mult_right_mono) (simp_all add: DAY_def)
  then have "w + DAY \<le> combine nd (time_of w)"
    using combine_parts [of w] by (simp add: combine_def algebra_simps)
  moreover have "\<bar>utc_offset z t - wall_offset z (combine nd (time_of w)) 0\<bar> < DAY" using z [OF zo] by (simp add: steady_def)
  moreover have "w = t + utc_offset z t" by (simp add: w_def to_wall_def)
  ultimately show ?thesis unfolding u by linarith
qed

lemma steady_fixed: "steady (fixed_zone off)"
  by (simp add: steady_def fixed_zone_def)

interpretation month_grid: bar_grid "next_month_opening (Some (fixed_zone off))" for off
  by unfold_locales (rule next_month_later_instant [of "Some (fixed_zone off)"], use steady_fixed in auto)

end
