(* ===== verification/Collection_Properties.thy ===== *)
theory Collection_Properties
  imports Collection History_Properties Calendar_Properties
begin

text \<open>
  A collection of the bars of a live gap: what it may return, when it may call itself complete, that it ends,
  and that the reconnect backfill built on it keeps the live stream ordered.
\<close>

section \<open>The bars of a collection\<close>

text \<open>Every trendbar the venue answers with satisfies \<open>P\<close>.\<close>

definition answers :: "(trendbar \<Rightarrow> bool) \<Rightarrow> history \<Rightarrow> bool" where
  "answers P ask \<longleftrightarrow> (\<forall>k f u rows more. ask k f u = Inr (rows, more) \<longrightarrow> (\<forall>b \<in> set rows. P b))"

lemma fetch_loop_answers:
  assumes P: "answers P ask"
  shows "fetch_loop fuel ask f u narrowed bars k = Some (Inr (res, cov), k') \<Longrightarrow> \<forall>ob \<in> set bars. P (snd ob) \<Longrightarrow>
     \<forall>ob \<in> set res. P (snd ob)"
proof (induction fuel arbitrary: u narrowed bars k)
  case (Suc fuel)
  show ?case
  proof (cases "f < u \<and> (\<exists>rows more. ask k f u = Inr (rows, more))")
    case True
    then obtain rows more where a: "f < u" "ask k f u = Inr (rows, more)" by blast
    obtain bars' oldest added where t: "take_bars rows (bars, u, False) = (bars', oldest, added)"
      using prod_cases3 by blast
    have "\<forall>b \<in> set rows. P b" using P a(2) unfolding answers_def by blast
    then have "\<forall>ob \<in> set bars'. P (snd ob)" using take_bars_from [OF t] Suc.prems(2) by force
    with Suc.IH [of oldest True bars' "Suc k"] Suc.prems(1) a t show ?thesis by (auto split: if_splits)
  next
    case False
    with Suc.prems show ?thesis by (cases "ask k f u") (auto split: if_splits)
  qed
qed (auto split: if_splits)

definition recovered_ok :: "(trendbar \<Rightarrow> bool) \<Rightarrow> int \<Rightarrow> int \<Rightarrow> (int \<times> ohlcv) list \<Rightarrow> bool" where
  "recovered_ok P cur lmt bars \<longleftrightarrow> distinct (map fst bars)
     \<and> (\<forall>(t, x) \<in> set bars. cur \<le> t \<and> t < lmt \<and> b_time x = t \<and> (\<exists>b. P b \<and> x = decode_trendbar True b))"

lemma set_update_sub: "set (AList.update k v al) \<subseteq> insert (k, v) (set al)"
  by (induction al) auto

lemma store_bar_ok:
  assumes "recovered_ok P cur lmt bars" "P b" "t = opening_of b" "e \<le> lmt"
  shows "recovered_ok P cur lmt (store_bar cur e (t, b) bars)"
proof (cases "cur \<le> t \<and> t < e")
  case True
  have "distinct (map fst (AList.update t (decode_trendbar True b) bars))"
    using assms(1) by (simp add: recovered_ok_def distinct_update)
  moreover have "\<forall>(s, x) \<in> set (AList.update t (decode_trendbar True b) bars).
      cur \<le> s \<and> s < lmt \<and> b_time x = s \<and> (\<exists>b. P b \<and> x = decode_trendbar True b)"
    using set_update_sub [of t "decode_trendbar True b" bars] assms True by (fastforce simp: recovered_ok_def)
  ultimately show ?thesis using True by (simp add: store_bar_def recovered_ok_def)
next
  case False
  with assms(1) show ?thesis by (auto simp: store_bar_def)
qed

lemma store_bars_ok:
  "recovered_ok P cur lmt bars \<Longrightarrow> \<forall>ob \<in> set obs. P (snd ob) \<and> fst ob = opening_of (snd ob) \<Longrightarrow> e \<le> lmt \<Longrightarrow>
   recovered_ok P cur lmt (fold (store_bar cur e) obs bars)"
proof (induction obs arbitrary: bars)
  case (Cons ob obs)
  have "recovered_ok P cur lmt (store_bar cur e ob bars)"
    using store_bar_ok [OF Cons.prems(1), of "snd ob" "fst ob" e] Cons.prems(2,3) by (cases ob) simp
  with Cons show ?case by simp
qed simp

lemma store_bar_keeps: "map_of bars s \<noteq> None \<Longrightarrow> map_of (store_bar cur e ob bars) s \<noteq> None"
  by (auto simp: store_bar_def update_conv' split: prod.split)

lemma store_bars_keep: "map_of bars s \<noteq> None \<Longrightarrow> map_of (fold (store_bar cur e) obs bars) s \<noteq> None"
proof (induction obs arbitrary: bars)
  case (Cons ob obs)
  from Cons.IH [OF store_bar_keeps [OF Cons.prems]] show ?case by simp
qed simp

section \<open>The ledger\<close>

text \<open>What is proven empty was missing over the whole evidence window, and is still, or was recovered since.\<close>

definition ledger_ok :: "gather \<Rightarrow> bool" where
  "ledger_ok g \<longleftrightarrow> (\<forall>s \<in> set (g_empty g). map_of (g_bars g) s \<noteq> None
     \<or> (\<exists>first. map_of (g_ledger g) s = Some first \<and> LIVE_HISTORY_HOLE_EVIDENCE \<le> g_clock g - first))"

lemma ledger_ok_later:
  "ledger_ok g \<Longrightarrow> g_clock g \<le> c \<Longrightarrow> ledger_ok (g\<lparr>g_clock := c\<rparr>)"
  unfolding ledger_ok_def by fastforce

lemma ledger_ok_fields [simp]:
  "ledger_ok (g\<lparr>g_failure := x\<rparr>) = ledger_ok g" "ledger_ok (g\<lparr>g_coverage := y\<rparr>) = ledger_ok g"
  "ledger_ok (g\<lparr>g_k := z\<rparr>) = ledger_ok g"
  by (simp_all add: ledger_ok_def)

lemma dated_keeps: "map_of l s = Some x \<Longrightarrow> map_of (fold (\<lambda>s l. if map_of l s = None then l @ [(s, c)] else l) xs l) s = Some x"
  by (induction xs arbitrary: l) simp_all

lemma dated_all: "s \<in> set xs \<Longrightarrow> map_of (fold (\<lambda>s l. if map_of l s = None then l @ [(s, c)] else l) xs l) s \<noteq> None"
proof (induction xs arbitrary: l)
  case (Cons x xs)
  show ?case
  proof (cases "s \<in> set xs")
    case True
    with Cons.IH show ?thesis by simp
  next
    case False
    then have "s = x" using Cons.prems by simp
    then obtain y where "map_of (if map_of l x = None then l @ [(x, c)] else l) s = Some y" by (cases "map_of l x") (auto simp: map_add_def split: option.split)
    from dated_keeps [OF this] show ?thesis by simp
  qed
qed simp

lemma map_of_filter_key: "map_of (filter (\<lambda>(s, _). P s) l) x = (if P x then map_of l x else None)"
  by (induction l) auto

lemma age_ledger_ok:
  assumes ok: "ledger_ok g" and sub: "\<forall>s \<in> set (g_empty g). s \<in> set (slots cur lmt (g_period E))"
  shows "ledger_ok (age_ledger E cur lmt g) \<and> (\<forall>s \<in> set (g_empty (age_ledger E cur lmt g)). s \<in> set (slots cur lmt (g_period E)))"
proof -
  define missing where "missing = missing_slots E cur lmt g"
  define kept where "kept = filter (\<lambda>(s, _). s \<in> set missing) (g_ledger g)"
  define ledger where "ledger = fold (\<lambda>s l. if map_of l s = None then l @ [(s, g_clock g)] else l) missing kept"
  have age: "age_ledger E cur lmt g = g\<lparr>g_ledger := ledger,
      g_empty := g_empty g @ filter (\<lambda>s. LIVE_HISTORY_HOLE_EVIDENCE \<le> g_clock g - the (map_of ledger s)) missing\<rparr>"
    by (simp add: age_ledger_def Let_def missing_def kept_def ledger_def)
  have miss: "s \<in> set missing \<longleftrightarrow> s \<in> set (slots cur lmt (g_period E)) \<and> map_of (g_bars g) s = None" for s
    by (simp add: missing_def missing_slots_def)
  have old: "map_of (g_bars g) s \<noteq> None \<or> (\<exists>first. map_of ledger s = Some first \<and> LIVE_HISTORY_HOLE_EVIDENCE \<le> g_clock g - first)"
    if s: "s \<in> set (g_empty g)" for s
  proof (cases "map_of (g_bars g) s = None")
    case True
    then have m: "s \<in> set missing" using s sub miss by blast
    from True s ok obtain first where f: "map_of (g_ledger g) s = Some first" "LIVE_HISTORY_HOLE_EVIDENCE \<le> g_clock g - first"
      unfolding ledger_ok_def by blast
    from f(1) m have "map_of kept s = Some first" unfolding kept_def map_of_filter_key by simp
    then have "map_of ledger s = Some first" unfolding ledger_def by (rule dated_keeps)
    with f(2) show ?thesis by blast
  qed simp
  have new: "\<exists>first. map_of ledger s = Some first \<and> LIVE_HISTORY_HOLE_EVIDENCE \<le> g_clock g - first"
    if "s \<in> set missing" "LIVE_HISTORY_HOLE_EVIDENCE \<le> g_clock g - the (map_of ledger s)" for s
    using dated_all [OF that(1), of "g_clock g" kept] that(2) unfolding ledger_def by auto
  show ?thesis
    unfolding age ledger_ok_def using old new miss sub by auto
qed

section \<open>The passes\<close>

definition gather_inv :: "(trendbar \<Rightarrow> bool) \<Rightarrow> gap_env \<Rightarrow> int \<Rightarrow> int \<Rightarrow> gather \<Rightarrow> bool" where
  "gather_inv P E cur lmt g \<longleftrightarrow> recovered_ok P cur lmt (g_bars g) \<and> ledger_ok g
     \<and> (\<forall>s \<in> set (g_empty g). s \<in> set (slots cur lmt (g_period E)))"

definition latencies_ok :: "gap_env \<Rightarrow> bool" where
  "latencies_ok E \<longleftrightarrow> (\<forall>k. 0 \<le> g_latency E k)"

lemma waited_fields [simp]:
  "g_bars (waited E k g) = g_bars g" "g_failure (waited E k g) = g_failure g" "g_coverage (waited E k g) = g_coverage g"
  "g_empty (waited E k g) = g_empty g" "g_ledger (waited E k g) = g_ledger g" "g_k (waited E k g) = k"
  by (simp_all add: waited_def)

lemma waited_clock: "latencies_ok E \<Longrightarrow> g_clock g \<le> g_clock (waited E k g)"
  by (auto simp: waited_def latencies_ok_def intro!: sum_list_nonneg)

lemma gather_inv_later: "gather_inv P E cur lmt g \<Longrightarrow> g_clock g \<le> c \<Longrightarrow> gather_inv P E cur lmt (g\<lparr>g_clock := c\<rparr>)"
  using ledger_ok_later by (simp add: gather_inv_def)

lemma gather_inv_fields [simp]:
  "gather_inv P E cur lmt (g\<lparr>g_failure := x\<rparr>) = gather_inv P E cur lmt g"
  "gather_inv P E cur lmt (g\<lparr>g_coverage := y\<rparr>) = gather_inv P E cur lmt g"
  by (simp_all add: gather_inv_def)

lemma gather_inv_waited: "latencies_ok E \<Longrightarrow> gather_inv P E cur lmt g \<Longrightarrow> gather_inv P E cur lmt (waited E k g)"
  using ledger_ok_later [OF _ waited_clock, of g E k] unfolding gather_inv_def ledger_ok_def by simp

lemma gather_windows_inv:
  assumes P: "answers P (g_ask E)" and lat: "latencies_ok E"
  shows "gather_windows E cur ws whole g = Some (r, g') \<Longrightarrow> gather_inv P E cur lmt g \<Longrightarrow>
     \<forall>(q, e) \<in> set ws. e \<le> lmt \<Longrightarrow> gather_inv P E cur lmt g' \<and> g_clock g \<le> g_clock g'"
proof (induction ws arbitrary: whole g)
  case (Cons qe ws)
  obtain q e where qe: "qe = (q, e)" by fastforce
  show ?case
  proof (cases "fetch_trendbar_window (g_reads E) (g_ask E) q e (g_k g)")
    case None
    with Cons.prems qe show ?thesis by simp
  next
    case (Some rk)
    obtain res k where rk: "rk = (res, k)" by fastforce
    show ?thesis
    proof (cases res)
      case (Inl x)
      with Cons.prems(1) qe Some rk have "g' = waited E k g" by simp
      with gather_inv_waited [OF lat Cons.prems(2)] waited_clock [OF lat, of g k] show ?thesis by simp
    next
      case (Inr bc)
      obtain bars cov where bc: "bc = (bars, cov)" by fastforce
      let ?g = "(waited E k g)\<lparr>g_bars := fold (store_bar cur e) bars (g_bars g)\<rparr>"
      have fetch: "fetch_trendbar_window (g_reads E) (g_ask E) q e (g_k g) = Some (Inr (bars, cov), k)"
        using Some rk Inr bc by simp
      have "keyed bars" by (rule fetch_window_keyed [OF fetch])
      moreover have "\<forall>ob \<in> set bars. P (snd ob)"
        using fetch_loop_answers [OF P] fetch by (fastforce simp: fetch_trendbar_window_def)
      ultimately have obs: "\<forall>ob \<in> set bars. P (snd ob) \<and> fst ob = opening_of (snd ob)"
        using keyedD by fastforce
      have rec: "recovered_ok P cur lmt (fold (store_bar cur e) bars (g_bars g))"
        using store_bars_ok [OF _ obs, of cur lmt "g_bars g" e] Cons.prems(2,3) qe by (simp add: gather_inv_def)
      have "ledger_ok (waited E k g)" using gather_inv_waited [OF lat Cons.prems(2)] by (simp add: gather_inv_def)
      then have "ledger_ok ?g" using store_bars_keep unfolding ledger_ok_def by fastforce
      then have inv: "gather_inv P E cur lmt ?g" using rec Cons.prems(2) by (simp add: gather_inv_def)
      have "gather_windows E cur ws (whole \<and> cov) ?g = Some (r, g')"
        using Cons.prems(1) qe fetch by simp
      from Cons.IH [OF this inv] Cons.prems(3) waited_clock [OF lat, of g k] show ?thesis by auto
    qed
  qed
qed simp

lemma gap_windows_below: "\<forall>(q, e) \<in> set (gap_windows cur lmt w). e \<le> lmt"
  by (auto simp: gap_windows_def)

lemma age_ledger_fields [simp]:
  "g_bars (age_ledger E cur lmt g) = g_bars g" "g_clock (age_ledger E cur lmt g) = g_clock g"
  "g_coverage (age_ledger E cur lmt g) = g_coverage g"
  by (simp_all add: age_ledger_def Let_def)

lemma age_ledger_inv: "gather_inv P E cur lmt g \<Longrightarrow> gather_inv P E cur lmt (age_ledger E cur lmt g)"
  using age_ledger_ok [of g cur lmt E] by (simp add: gather_inv_def)

definition pass_gather :: "pass \<Rightarrow> gather" where
  "pass_gather p = (case p of Again g \<Rightarrow> g | Done_passes g \<Rightarrow> g | Raised x g \<Rightarrow> g)"

lemma served_inv:
  assumes "gather_inv P E cur lmt g"
  shows "gather_inv P E cur lmt (served E cur lmt whole g) \<and> g_clock (served E cur lmt whole g) = g_clock g"
proof -
  let ?g2 = "g\<lparr>g_failure := None, g_coverage := whole\<rparr>"
  have g2: "gather_inv P E cur lmt ?g2" using assms by simp
  show ?thesis
  proof (cases "whole \<and> \<not> g_monthly E")
    case True
    then have "served E cur lmt whole g = age_ledger E cur lmt ?g2" unfolding served_def Let_def by (rule if_P)
    with age_ledger_inv [OF g2] show ?thesis by simp
  next
    case False
    then have "served E cur lmt whole g = ?g2" unfolding served_def Let_def by (rule if_not_P)
    with g2 show ?thesis by simp
  qed
qed

lemma after_pass_inv:
  assumes inv: "gather_inv P E cur lmt g"
  shows after_failure_inv: "gather_inv P E cur lmt (pass_gather (after_failure attempt x g)) \<and> g_clock g \<le> g_clock (pass_gather (after_failure attempt x g))"
    and after_served_inv: "after_served E start cur lmt attempt g = Some p \<Longrightarrow> gather_inv P E cur lmt (pass_gather p) \<and> g_clock g \<le> g_clock (pass_gather p)"
proof -
  have later: "gather_inv P E cur lmt (h\<lparr>g_clock := g_clock h + d\<rparr>)" if "gather_inv P E cur lmt h" "0 \<le> d" for h d
    using gather_inv_later [OF that(1)] that(2) by simp
  have d: "0 \<le> LIVE_HISTORY_SETTLE_DELAY" "0 \<le> LIVE_HISTORY_PUBLICATION_POLL"
    by (simp_all add: LIVE_HISTORY_SETTLE_DELAY_def LIVE_HISTORY_PUBLICATION_POLL_def)
  have g2: "gather_inv P E cur lmt (g\<lparr>g_failure := Some x, g_coverage := False\<rparr>)" using inv by simp
  show "gather_inv P E cur lmt (pass_gather (after_failure attempt x g)) \<and> g_clock g \<le> g_clock (pass_gather (after_failure attempt x g))"
    using inv g2 later [OF g2 d(1)] d by (auto simp: after_failure_def pass_gather_def Let_def)
  show "gather_inv P E cur lmt (pass_gather p) \<and> g_clock g \<le> g_clock (pass_gather p)"
    if "after_served E start cur lmt attempt g = Some p"
    using that inv later [OF inv d(1)] later [OF inv d(2)] d
    by (auto simp: after_served_def pass_gather_def split: option.splits if_splits)
qed

lemma gather_pass_inv:
  assumes P: "answers P (g_ask E)" and lat: "latencies_ok E" and inv: "gather_inv P E cur lmt g"
    and run: "gather_pass E start cur lmt attempt g = Some p"
  shows "gather_inv P E cur lmt (pass_gather p) \<and> g_clock g \<le> g_clock (pass_gather p)"
proof -
  obtain r g1 where w: "gather_windows E cur (gap_windows cur lmt (g_period E * 2000)) True g = Some (r, g1)"
    using run by (cases "gather_windows E cur (gap_windows cur lmt (g_period E * 2000)) True g") (auto simp: gather_pass_def)
  note g1 = gather_windows_inv [OF P lat w inv gap_windows_below]
  show ?thesis
  proof (cases r)
    case (Inl x)
    with run w after_failure_inv [OF conjunct1 [OF g1], of attempt x] g1 show ?thesis by (auto simp: gather_pass_def)
  next
    case (Inr whole)
    note s = served_inv [OF conjunct1 [OF g1], of whole]
    have "after_served E start cur lmt attempt (served E cur lmt whole g1) = Some p"
      using run w Inr by (simp add: gather_pass_def)
    from after_served_inv [OF conjunct1 [OF s] this] s g1 show ?thesis by simp
  qed
qed

lemma gather_passes_inv:
  assumes P: "answers P (g_ask E)" and lat: "latencies_ok E"
  shows "gather_passes fuel E start cur lmt attempt g = Some (r, g') \<Longrightarrow> gather_inv P E cur lmt g \<Longrightarrow>
     gather_inv P E cur lmt g'"
proof (induction fuel arbitrary: attempt g)
  case (Suc fuel)
  obtain p where p: "gather_pass E start cur lmt attempt g = Some p"
    using Suc.prems(1) by (cases "gather_pass E start cur lmt attempt g") auto
  note inv = gather_pass_inv [OF P lat Suc.prems(2) p]
  show ?case
  proof (cases p)
    case (Again h)
    with Suc.IH [of "attempt + 1" h] Suc.prems(1) p inv show ?thesis by (simp add: pass_gather_def)
  qed (use Suc.prems(1) p inv in \<open>auto simp: pass_gather_def\<close>)
qed simp

section \<open>What a collection returns\<close>

lemma sorted_bars_times:
  assumes "recovered_ok P cur lmt bars"
  shows "map b_time (sorted_bars bars) = sort (map fst bars)"
    and "\<forall>x \<in> set (sorted_bars bars). (b_time x, x) \<in> set bars"
proof -
  have "(t, the (map_of bars t)) \<in> set bars" if t: "t \<in> set (sort (map fst bars))" for t
  proof -
    from t have "map_of bars t \<noteq> None" by (simp add: map_of_eq_None_iff)
    then show ?thesis by (auto dest: map_of_SomeD)
  qed
  moreover from this have "b_time (the (map_of bars t)) = t" if "t \<in> set (sort (map fst bars))" for t
    using assms that unfolding recovered_ok_def by fastforce
  ultimately show "map b_time (sorted_bars bars) = sort (map fst bars)"
      "\<forall>x \<in> set (sorted_bars bars). (b_time x, x) \<in> set bars"
    unfolding sorted_bars_def by (auto simp: comp_def intro!: map_idI)
qed

lemma sorted_bars_ok:
  assumes "recovered_ok P cur lmt bars"
  shows "sorted_wrt (<) (map b_time (sorted_bars bars))
     \<and> (\<forall>x \<in> set (sorted_bars bars). cur \<le> b_time x \<and> b_time x < lmt \<and> (\<exists>b. P b \<and> x = decode_trendbar True b))"
proof
  have "distinct (map fst bars)" using assms by (simp add: recovered_ok_def)
  then show "sorted_wrt (<) (map b_time (sorted_bars bars))"
    unfolding sorted_bars_times(1) [OF assms] by (simp add: strict_sorted_iff)
  show "\<forall>x \<in> set (sorted_bars bars). cur \<le> b_time x \<and> b_time x < lmt \<and> (\<exists>b. P b \<and> x = decode_trendbar True b)"
    using sorted_bars_times(2) [OF assms] assms unfolding recovered_ok_def by fastforce
qed

lemma recovered_delete: "recovered_ok P cur lmt bars \<Longrightarrow> recovered_ok P cur lmt (AList.delete t bars)"
  unfolding recovered_ok_def using distinct_delete [of bars t] by (auto simp: AList.delete_eq)

lemma finish_ok:
  assumes "recovered_ok P cur lmt (g_bars g)"
  shows "sorted_wrt (<) (map b_time (c_bars (finish_collection E lmt whole g)))
     \<and> (\<forall>x \<in> set (c_bars (finish_collection E lmt whole g)). cur \<le> b_time x \<and> b_time x < lmt
          \<and> (\<exists>b. P b \<and> x = decode_trendbar True b))"
  using sorted_bars_ok [OF assms] sorted_bars_ok [OF recovered_delete [OF assms]]
  by (auto simp: finish_collection_def Let_def split: option.splits)

lemma fresh_inv: "gather_inv P E cur lmt (fresh_gather l k c)"
  by (simp add: gather_inv_def recovered_ok_def ledger_ok_def fresh_gather_def)

text \<open>The result of a collection that did not raise.\<close>

lemma collect_cases:
  assumes "collect_live_gap_history fuel E cur lmt g0 = Some (Inr coll, g')"
  obtains "lmt \<le> cur" "coll = \<lparr>c_bars = [], c_complete = True\<rparr>"
  | "coll = \<lparr>c_bars = [], c_complete = False\<rparr>"
  | whole where "cur < lmt" "gather_passes fuel E (g_clock g0) cur lmt 0 (fresh_gather (g_ledger g0) (g_k g0) (g_clock g0)) = Some (None, g')"
      "(if g_coverage g' then settled E cur lmt g' else Some False) = Some whole" "coll = finish_collection E lmt whole g'"
  using assms
  by (auto simp: collect_live_gap_history_def Let_def fresh_gather_def not_le
      split: if_splits sum.splits option.splits prod.splits)

lemma collection_ok_of:
  assumes "answers trendbar_ok (g_ask E)" "latencies_ok E"
    "collect_live_gap_history fuel E cur lmt g0 = Some (Inr coll, g')"
  shows "collection_ok coll"
proof (cases rule: collect_cases [OF assms(3)])
  case (3 whole)
  from gather_passes_inv [OF assms(1,2) 3(2) fresh_inv] have "recovered_ok trendbar_ok cur lmt (g_bars g')"
    by (auto simp: gather_inv_def)
  from finish_ok [OF this, of E whole] show ?thesis using decode_well_formed by (auto simp: 3(4) collection_ok_def)
qed (simp_all add: collection_ok_def)

lemma collected_from:
  assumes "answers trendbar_ok (g_ask E)" "latencies_ok E"
    "collect_live_gap_history fuel E cur lmt g0 = Some (Inr coll, g')"
  shows "\<forall>x \<in> set (c_bars coll). cur \<le> b_time x \<and> b_time x < lmt"
proof (cases rule: collect_cases [OF assms(3)])
  case (3 whole)
  from gather_passes_inv [OF assms(1,2) 3(2) fresh_inv] have "recovered_ok trendbar_ok cur lmt (g_bars g')"
    by (auto simp: gather_inv_def)
  from finish_ok [OF this, of E whole] show ?thesis by (auto simp: 3(4))
qed simp_all

text \<open>
  What a collection returns. Whatever the venue answers - in any number of passes, with failures, capped
  windows, bars outside the window - the bars of a collection are strictly ascending, closed, inside
  the window from the cursor to the ceiling, and decoded from trendbars the venue answered with; with
  trendbars whose open and close lie in their range every bar is well formed.
\<close>

theorem collection_well_formed:
  assumes "collect_live_gap_history fuel E cur lmt g0 = Some (Inr coll, g')"
    and "answers trendbar_ok (g_ask E)" and "latencies_ok E"
  shows "collection_ok coll \<and> (\<forall>x \<in> set (c_bars coll). cur \<le> b_time x \<and> b_time x < lmt)"
  using collection_ok_of [OF assms(2,3,1)] collected_from [OF assms(2,3,1)] by blast

lemma settled_fixed:
  "\<not> g_monthly E \<Longrightarrow> settled E cur lmt g = Some True \<Longrightarrow> s \<in> set (slots cur lmt (g_period E)) \<Longrightarrow>
   map_of (g_bars g) s \<noteq> None \<or> s \<in> set (g_empty g) \<or> slot_is_open (g_calendar E) (g_period E) s = Some False"
  by (simp add: settled_def slots_settled_def)

text \<open>
  C10: What completeness means. When a collection of a fixed period calls itself complete, every slot of its
  window is accounted for: a bar of that opening is in it, or the calendar classifies the slot as closed,
  or the slot was first seen missing by a fully served pass at least 120 seconds ago and has not been
  recovered since.
\<close>

theorem collection_complete:
  assumes "collect_live_gap_history fuel E cur lmt g0 = Some (Inr coll, g')"
    and "answers P (g_ask E)" and "latencies_ok E" and "\<not> g_monthly E" and "0 < g_period E"
    and "c_complete coll" and "s \<in> set (slots cur lmt (g_period E))"
  shows "s \<in> b_time ` set (c_bars coll)
     \<or> slot_is_open (g_calendar E) (g_period E) s = Some False
     \<or> (\<exists>first. map_of (g_ledger g') s = Some first \<and> LIVE_HISTORY_HOLE_EVIDENCE \<le> g_clock g' - first)"
  using assms(1)
proof (cases rule: collect_cases)
  case 1
  have "(lmt - cur - 1) div g_period E < 0" using 1(1) assms(5) by (intro div_neg_pos_less0) linarith+
  then show ?thesis using assms(7) by (simp add: slots_def)
next
  case 2
  then show ?thesis using assms(6) by simp
next
  case (3 whole)
  have coll: "coll = \<lparr>c_bars = sorted_bars (g_bars g'), c_complete = whole\<rparr>"
    using 3(4) assms(4) by (simp add: finish_collection_def)
  with assms(6) have whole: "whole" by simp
  have inv: "gather_inv P E cur lmt g'" by (rule gather_passes_inv [OF assms(2,3) 3(2) fresh_inv])
  then have rec: "recovered_ok P cur lmt (g_bars g')" and led: "ledger_ok g'" by (simp_all add: gather_inv_def)
  have "settled E cur lmt g' = Some True" using 3(3) whole by (auto split: if_splits)
  from settled_fixed [OF assms(4) this assms(7)] consider "map_of (g_bars g') s \<noteq> None"
    | "s \<in> set (g_empty g')" | "slot_is_open (g_calendar E) (g_period E) s = Some False" by blast
  moreover have "s \<in> b_time ` set (c_bars coll)" if "map_of (g_bars g') s \<noteq> None"
  proof -
    from that have "s \<in> set (sort (map fst (g_bars g')))" by (simp add: map_of_eq_None_iff)
    then have "s \<in> set (map b_time (sorted_bars (g_bars g')))" unfolding sorted_bars_times(1) [OF rec] .
    then show ?thesis by (simp add: coll)
  qed
  ultimately show ?thesis using led unfolding ledger_ok_def by blast
qed

section \<open>A collection ends\<close>

lemma gather_windows_end:
  assumes within: "within_request (g_ask E)"
  shows "\<forall>(q, e) \<in> set ws. q < e \<and> nat (e - q) < g_reads E \<Longrightarrow> gather_windows E cur ws whole g \<noteq> None"
proof (induction ws arbitrary: whole g)
  case (Cons qe ws)
  obtain q e where qe: "qe = (q, e)" by fastforce
  have "fetch_trendbar_window (g_reads E) (g_ask E) q e (g_k g) \<noteq> None"
    using Cons.prems qe by (intro fetch_window_ends [OF within]) auto
  then obtain res k where r: "fetch_trendbar_window (g_reads E) (g_ask E) q e (g_k g) = Some (res, k)" by auto
  show ?case
  proof (cases res)
    case (Inl x)
    then show ?thesis using r qe by simp
  next
    case (Inr bc)
    obtain bars cov where "bc = (bars, cov)" by fastforce
    then show ?thesis using r qe Inr Cons by simp
  qed
qed simp

lemma gap_windows_span:
  assumes w: "0 < w" and c: "cur < lmt"
  shows "\<forall>(q, e) \<in> set (gap_windows cur lmt w). q < e \<and> nat (e - q) \<le> nat w"
proof -
  have "q < lmt" if q: "q \<in> set (slots cur lmt w)" for q
  proof -
    have "q \<in> (\<lambda>i. cur + i * w) ` {0..(lmt - cur - 1) div w}" using q by (simp only: slots_def set_map set_upto)
    then obtain i where i: "q = cur + i * w" "i \<in> {0..(lmt - cur - 1) div w}" by (rule imageE)
    have "i * w \<le> (lmt - cur - 1) div w * w" using i(2) w by (simp add: mult_right_mono)
    also have "\<dots> \<le> lmt - cur - 1" using pos_mod_sign [OF w, of "lmt - cur - 1"] div_mult_mod_eq [of "lmt - cur - 1" w] by linarith
    finally show ?thesis using i(1) by simp
  qed
  then show ?thesis using w by (auto simp: gap_windows_def min_def)
qed

definition grid_ahead :: "gap_env \<Rightarrow> bool" where
  "grid_ahead E \<longleftrightarrow> (\<forall>z. g_zone E = Some z \<longrightarrow> steady z)"

lemma months_settled_end:
  assumes "grid_ahead E"
  shows "nat (lmt - m) \<le> fuel \<Longrightarrow> months_settled fuel E lmt g m \<noteq> None"
proof (induction fuel arbitrary: m)
  case (Suc fuel)
  show ?case
  proof (cases "next_month_opening (g_zone E) m")
    case (Some n)
    have "m < n" using next_month_later_instant [OF _ Some] assms unfolding grid_ahead_def by blast
    then have "nat (lmt - n) \<le> fuel" if "m < lmt" using Suc.prems that by linarith
    with Suc.IH Some show ?thesis by auto
  qed auto
qed simp

lemma settled_end: "grid_ahead E \<Longrightarrow> nat (lmt - cur) \<le> g_months E \<Longrightarrow> settled E cur lmt g \<noteq> None"
  using months_settled_end by (simp add: settled_def)

text \<open>How many polls for publication may still follow: none once the lag has passed.\<close>

definition polls_left :: "int \<Rightarrow> int \<Rightarrow> nat" where
  "polls_left start clock = nat ((start + 90000000000 - clock + 4999999999) div 5000000000)"

lemma polls_left_mono: "c \<le> c' \<Longrightarrow> polls_left start c' \<le> polls_left start c"
  unfolding polls_left_def by (intro nat_mono zdiv_mono1) linarith+

lemma polls_left_less:
  assumes "clock < start + 90000000000" "clock \<le> c"
  shows "polls_left start (c + 5000000000) < polls_left start clock"
proof -
  define x where "x = start + 90000000000 - clock + 4999999999"
  have "polls_left start (c + 5000000000) \<le> polls_left start (clock + 5000000000)"
    using assms(2) by (intro polls_left_mono) simp
  also have "\<dots> = nat (x div 5000000000 - 1)"
  proof -
    have "start + 90000000000 - (clock + 5000000000) + 4999999999 = x + (- 1) * 5000000000" by (simp add: x_def)
    then show ?thesis unfolding polls_left_def by (simp add: div_mult_self1 [of 5000000000 x "- 1"])
  qed
  also have "\<dots> < nat (x div 5000000000)"
  proof -
    have "5000000000 div 5000000000 \<le> x div (5000000000 :: int)" using assms(1) by (intro zdiv_mono1) (simp_all add: x_def)
    then show ?thesis by simp
  qed
  finally show ?thesis by (simp add: polls_left_def x_def)
qed

definition reads_end :: "gap_env \<Rightarrow> bool" where
  "reads_end E \<longleftrightarrow> within_request (g_ask E) \<and> 0 < g_period E \<and> nat (g_period E * 2000) < g_reads E"

lemma gather_pass_ends:
  assumes "reads_end E" "grid_ahead E" "cur < lmt" "nat (lmt - cur) \<le> g_months E"
  shows "gather_pass E start cur lmt attempt g \<noteq> None"
proof -
  have "\<forall>(q, e) \<in> set (gap_windows cur lmt (g_period E * 2000)). q < e \<and> nat (e - q) < g_reads E"
    using gap_windows_span [of "g_period E * 2000" cur lmt] assms(1,3) unfolding reads_end_def by fastforce
  from gather_windows_end [OF _ this] assms(1) obtain r g1 where
    w: "gather_windows E cur (gap_windows cur lmt (g_period E * 2000)) True g = Some (r, g1)"
    unfolding reads_end_def by fastforce
  show ?thesis
  proof (cases r)
    case (Inl x)
    with w show ?thesis by (simp add: gather_pass_def)
  next
    case (Inr whole)
    have "settled E cur lmt (served E cur lmt whole g1) \<noteq> None" by (rule settled_end [OF assms(2,4)])
    with w Inr show ?thesis by (auto simp: gather_pass_def after_served_def)
  qed
qed

lemma gather_pass_again:
  assumes P: "answers P (g_ask E)" and lat: "latencies_ok E" and inv: "gather_inv P E cur lmt g"
    and run: "gather_pass E start cur lmt attempt g = Some (Again h)"
  shows "(attempt < 4 \<and> g_clock g \<le> g_clock h)
     \<or> (\<exists>c. g_clock g \<le> c \<and> c < start + 90000000000 \<and> g_clock h = c + 5000000000)"
proof -
  obtain r g1 where w: "gather_windows E cur (gap_windows cur lmt (g_period E * 2000)) True g = Some (r, g1)"
    using run by (cases "gather_windows E cur (gap_windows cur lmt (g_period E * 2000)) True g") (auto simp: gather_pass_def)
  note g1 = gather_windows_inv [OF P lat w inv gap_windows_below]
  show ?thesis
  proof (cases r)
    case (Inl x)
    with run w have "after_failure attempt x g1 = Again h" by (simp add: gather_pass_def)
    then have "attempt < 4 \<and> g_clock g1 \<le> g_clock h"
      by (auto simp: after_failure_def Let_def LIVE_HISTORY_SETTLE_ATTEMPTS_def LIVE_HISTORY_SETTLE_DELAY_def split: if_splits)
    with g1 show ?thesis by auto
  next
    case (Inr whole)
    let ?g3 = "served E cur lmt whole g1"
    have c: "g_clock ?g3 = g_clock g1" using served_inv [OF conjunct1 [OF g1]] by blast
    from run w Inr have a: "after_served E start cur lmt attempt ?g3 = Some (Again h)" by (simp add: gather_pass_def)
    show ?thesis
    proof (cases "attempt + 1 < LIVE_HISTORY_SETTLE_ATTEMPTS")
      case True
      with a have "g_clock h = g_clock ?g3 + LIVE_HISTORY_SETTLE_DELAY"
        by (auto simp: after_served_def split: option.splits if_splits)
      with True c g1 show ?thesis by (simp add: LIVE_HISTORY_SETTLE_ATTEMPTS_def LIVE_HISTORY_SETTLE_DELAY_def)
    next
      case False
      with a have h: "g_clock h = g_clock ?g3 + LIVE_HISTORY_PUBLICATION_POLL" "awaiting_publication E start cur lmt ?g3"
        by (auto simp: after_served_def split: option.splits if_splits)
      then have "(g_clock g1 - start) div 1000000 < 90000"
        by (simp add: awaiting_publication_def Let_def LIVE_HISTORY_PUBLICATION_LAG_MS_def c)
      then have "g_clock g1 - start < 90000 * 1000000" by (simp add: div_less_iff_less_mult)
      with h(1) g1 c show ?thesis by (intro disjI2 exI [of _ "g_clock g1"]) (simp add: LIVE_HISTORY_PUBLICATION_POLL_def)
    qed
  qed
qed

lemma gather_passes_end:
  assumes env: "reads_end E" "grid_ahead E" "cur < lmt" "nat (lmt - cur) \<le> g_months E"
    and P: "answers P (g_ask E)" and lat: "latencies_ok E"
  shows "gather_inv P E cur lmt g \<Longrightarrow> (4 - attempt) + polls_left start (g_clock g) < fuel \<Longrightarrow>
     gather_passes fuel E start cur lmt attempt g \<noteq> None"
proof (induction fuel arbitrary: attempt g)
  case (Suc fuel)
  obtain p where p: "gather_pass E start cur lmt attempt g = Some p"
    using gather_pass_ends [OF env] by fastforce
  show ?case
  proof (cases p)
    case (Again h)
    have inv: "gather_inv P E cur lmt h" using gather_pass_inv [OF P lat Suc.prems(1) p] Again by (simp add: pass_gather_def)
    from gather_pass_again [OF P lat Suc.prems(1) p [unfolded Again]]
    have "(4 - (attempt + 1)) + polls_left start (g_clock h) < fuel"
    proof
      assume a: "attempt < 4 \<and> g_clock g \<le> g_clock h"
      then have "polls_left start (g_clock h) \<le> polls_left start (g_clock g)" by (intro polls_left_mono) simp
      with a Suc.prems(2) show ?thesis by linarith
    next
      assume "\<exists>c. g_clock g \<le> c \<and> c < start + 90000000000 \<and> g_clock h = c + 5000000000"
      then obtain c where c: "g_clock g \<le> c" "c < start + 90000000000" "g_clock h = c + 5000000000" by blast
      have "polls_left start (g_clock h) < polls_left start c" unfolding c(3) using c(2) by (intro polls_left_less) simp_all
      moreover have "polls_left start c \<le> polls_left start (g_clock g)" using c(1) by (rule polls_left_mono)
      ultimately show ?thesis using Suc.prems(2) by linarith
    qed
    from Suc.IH [OF inv this] p Again show ?thesis by simp
  qed (simp_all add: p)
qed simp

text \<open>
  C11: A collection ends. From a venue that serves nothing past the end of a request, with the months going
  forward, a collection takes at most 23 passes: the five of the settle budget and, while an open slot
  is younger than the publication lag, one poll in five seconds for at most ninety. Whatever the venue
  withholds, it then returns or raises.
\<close>

theorem collection_ends:
  assumes "within_request (g_ask E)" and "0 < g_period E" and "nat (g_period E * 2000) < g_reads E"
    and "\<forall>z. g_zone E = Some z \<longrightarrow> steady z" and "nat (lmt - cur) \<le> g_months E" and "latencies_ok E"
  shows "\<exists>r g'. collect_live_gap_history 23 E cur lmt g0 = Some (r, g')"
proof (cases "cur < lmt \<and> (\<exists>n. g_symbol E = Inr n)")
  case False
  then show ?thesis by (auto simp: collect_live_gap_history_def Let_def split: sum.splits)
next
  case True
  have re: "reads_end E" and ga: "grid_ahead E" using assms by (simp_all add: reads_end_def grid_ahead_def)
  have P: "answers (\<lambda>_. True) (g_ask E)" by (simp add: answers_def)
  let ?g = "fresh_gather (g_ledger g0) (g_k g0) (g_clock g0)"
  have "polls_left (g_clock g0) (g_clock ?g) = 18" by (simp add: polls_left_def fresh_gather_def)
  then have "gather_passes 23 E (g_clock g0) cur lmt 0 ?g \<noteq> None"
    using True by (intro gather_passes_end [OF re ga _ assms(5) P assms(6) fresh_inv]) simp_all
  then obtain r g1 where r: "gather_passes 23 E (g_clock g0) cur lmt 0 ?g = Some (r, g1)" by fastforce
  have s: "settled E cur lmt g1 \<noteq> None" by (rule settled_end [OF ga assms(5)])
  have c: "g_clock ?g = g_clock g0" by (simp add: fresh_gather_def)
  show ?thesis
  proof (cases r)
    case None
    then show ?thesis using True r s c by (auto simp: collect_live_gap_history_def Let_def)
  next
    case (Some x)
    then show ?thesis using True r c by (auto simp: collect_live_gap_history_def Let_def)
  qed
qed

section \<open>Collections in the live stream\<close>

text \<open>The environment of a provider gives the grid its feed runs on.\<close>

lemma following_of_later:
  assumes "0 < g_period E" "grid_ahead E" "following_of E t = Some u"
  shows "t < u"
  using assms next_month_later_instant [of "g_zone E" t u]
  by (auto simp: following_of_def grid_ahead_def split: if_splits)

lemma grid_of: "0 < g_period E \<Longrightarrow> grid_ahead E \<Longrightarrow> bar_grid (following_of E)"
  by unfold_locales (rule following_of_later)

lemma backfill_live_gap_run:
  assumes "feed_run (following_of E) f out" "pending_bars f = []" "current_ts f = None"
    and P: "answers trendbar_ok (g_ask E)" "latencies_ok E"
    and run: "backfill_live_gap fuel E now_ms g f = Some (Inr f', g')"
  shows "feed_run (following_of E) f' out"
proof (cases "f' = f")
  case False
  then obtain cur coll where cur: "backfill_cursor (following_of E) f = Some cur"
    and c: "collect_live_gap_history fuel E cur (query_ceiling E now_ms cur) g = Some (Inr coll, g')"
    and q: "queue_backfill coll f = Inr f'"
    using run by (auto simp: backfill_live_gap_def split: option.splits if_splits prod.splits sum.splits)
  show ?thesis
    by (rule feed_run.backfill [OF assms(1,2,3) collection_ok_of [OF P c] cur _ q])
      (use collected_from [OF P c] in blast)
qed (use assms(1) in simp)


section \<open>A concrete collection\<close>

text \<open>Two minutes to recover from a venue with two bars.\<close>

definition demo_gap :: "nat \<Rightarrow> gap_env" where
  "demo_gap reads =
     \<lparr>g_ask = (\<lambda>_ _ upper. Inr (filter (\<lambda>b. opening_of b \<le> upper) [demo_trendbar 1 100000, demo_trendbar 2 100000], False)), g_latency = (\<lambda>_. 1000000),
      g_symbol = Inr 1, g_calendar = None, g_zone = None, g_monthly = False, g_period = 60000,
      g_wall_start = 1728000000000, g_reads = reads, g_months = 120000\<rparr>"

definition demo_two :: collection where
  "demo_two = \<lparr>c_bars = [decode_trendbar True (demo_trendbar 1 100000), decode_trendbar True (demo_trendbar 2 100000)],
     c_complete = True\<rparr>"

lemma demo_answers: "answers trendbar_ok (g_ask (demo_gap n))" "latencies_ok (demo_gap n)"
  by (auto simp: answers_def demo_gap_def trendbar_ok_def demo_trendbar_def latencies_ok_def)

lemma demo_opening [simp]: "opening_of (demo_trendbar m low) = m * 60000"
  by (simp add: opening_of_def demo_trendbar_def)

lemma demo_slots: "slots 60000 180000 60000 = [60000, 120000]" "slots 60000 180000 120000000 = [60000]"
  by (simp_all add: slots_def upto.simps)

abbreviation (input) demo_bars :: "(int \<times> ohlcv) list" where
  "demo_bars \<equiv> [(60000, decode_trendbar True (demo_trendbar 1 100000)), (120000, decode_trendbar True (demo_trendbar 2 100000))]"

lemma demo_fields:
  "g_ask (demo_gap n) k q u = Inr (filter (\<lambda>b. opening_of b \<le> u) [demo_trendbar 1 100000, demo_trendbar 2 100000], False)"
  "g_latency (demo_gap n) k = 1000000" "g_reads (demo_gap n) = n" "g_period (demo_gap n) = 60000"
  "g_symbol (demo_gap n) = Inr 1" "\<not> g_monthly (demo_gap n)" "g_calendar (demo_gap n) = None"
  by (simp_all add: demo_gap_def)

lemma demo_fetch: "fetch_trendbar_window 3 (g_ask (demo_gap n)) 60000 180000 0 =
    Some (Inr ([(60000, demo_trendbar 1 100000), (120000, demo_trendbar 2 100000)], True), 1)"
  by (simp add: fetch_trendbar_window_def numeral_3_eq_3 demo_fields take_bars_step)

lemma demo_windows: "gather_windows (demo_gap 3) 60000 [(60000, 180000)] True (fresh_gather [] 0 0) =
    Some (Inr True, (fresh_gather [] 1 1000000)\<lparr>g_bars := demo_bars\<rparr>)"
  using demo_fetch [of 3] by (simp add: fresh_gather_def waited_def store_bar_def demo_fields)

lemma served_whole: "missing_slots E cur lmt g = [] \<Longrightarrow> \<not> g_monthly E \<Longrightarrow> g_failure g = None \<Longrightarrow> g_empty g = [] \<Longrightarrow> g_ledger g = [] \<Longrightarrow>
    served E cur lmt True g = g\<lparr>g_coverage := True\<rparr>"
  by (cases g) (auto simp: served_def age_ledger_def missing_slots_def filter_empty_conv)

lemma demo_served: "served (demo_gap 3) 60000 180000 True ((fresh_gather [] 1 1000000)\<lparr>g_bars := demo_bars\<rparr>) =
    (fresh_gather [] 1 1000000)\<lparr>g_coverage := True, g_bars := demo_bars\<rparr>"
proof -
  have "missing_slots (demo_gap 3) 60000 180000 ((fresh_gather [] 1 1000000)\<lparr>g_bars := demo_bars\<rparr>) = []"
    by (simp add: missing_slots_def demo_fields demo_slots)
  from served_whole [OF this] show ?thesis by (simp add: demo_fields fresh_gather_def)
qed

lemma demo_settled: "settled (demo_gap 3) 60000 180000 ((fresh_gather [] 1 1000000)\<lparr>g_coverage := True, g_bars := demo_bars\<rparr>) = Some True"
  by (simp add: settled_def slots_settled_def demo_fields demo_slots fresh_gather_def)

lemma demo_pass: "gather_pass (demo_gap 3) 0 60000 180000 0 (fresh_gather [] 0 0) =
    Some (Done_passes ((fresh_gather [] 1 1000000)\<lparr>g_coverage := True, g_bars := demo_bars\<rparr>))"
proof -
  have "gap_windows 60000 180000 (g_period (demo_gap 3) * 2000) = [(60000, 180000)]"
    by (simp add: gap_windows_def demo_fields demo_slots)
  then show ?thesis using demo_windows demo_served demo_settled by (simp add: gather_pass_def after_served_def)
qed

lemma demo_collected:
  "collect_live_gap_history (Suc n) (demo_gap 3) 60000 180000 (fresh_gather [] 0 0) =
   Some (Inr demo_two, (fresh_gather [] 1 1000000)\<lparr>g_coverage := True, g_bars := demo_bars\<rparr>)"
proof -
  have "fresh_gather (g_ledger (fresh_gather [] 0 0)) (g_k (fresh_gather [] 0 0)) (g_clock (fresh_gather [] 0 0)) = fresh_gather [] 0 0"
    "g_clock (fresh_gather [] 0 0) = 0" by (simp_all add: fresh_gather_def)
  then show ?thesis using demo_pass demo_settled
    by (simp add: demo_fields collect_live_gap_history_def Let_def finish_collection_def sorted_bars_def insort_key.simps demo_two_def)
qed

lemma collection_well_formed_witness: "collection_ok demo_two \<and> 60000 \<le> b_time (hd (c_bars demo_two))"
  using collection_well_formed [OF demo_collected [of 0] demo_answers] by (simp add: demo_two_def)

lemma collection_complete_witness: "120000 \<in> b_time ` set (c_bars demo_two)
    \<or> slot_is_open None 60000 120000 = Some False"
  using collection_complete [OF demo_collected [of 0] demo_answers, of 120000]
  by (auto simp: demo_fields demo_two_def demo_slots fresh_gather_def)

lemma collection_ends_witness:
  "\<exists>r g'. collect_live_gap_history 23 (demo_gap 120000001) 60000 180000 (fresh_gather [] 0 0) = Some (r, g')"
proof (rule collection_ends)
  show "within_request (g_ask (demo_gap 120000001))" by (auto simp: within_request_def demo_gap_def)
qed (simp_all add: demo_gap_def latencies_ok_def)


end
