(* ===== verification/Desk.thy ===== *)
theory Desk
  imports Account Helpers
begin

text \<open>
  What the order paths of \<open>execution.py\<close> share: the dispatch of an order request with the translation of
  its failures, the sizing rules, the snapshot of the account and the look-up of positions and rows.

  The account layer runs as theory Account has it, on \<open>line\<close>; \<open>book\<close> holds the attributes of the plugin the
  order paths use. The order journal (\<open>store_ctx\<close>, a \<open>RunContext\<close> of the core) is the sequence of the writes
  made to it, each with the number of requests written to the wire before it; what it answers to a read
  is a function of those writes. The calls into the protection layer are kept the same way, as memos in
  their order.
\<close>

section \<open>Intents and orders of the core\<close>

datatype side = Buy | Sell
datatype ord_kind = Market | Limit | Stop | Trailing_stop
datatype ord_status = Order_open | Order_partly_filled | Order_filled | Order_cancelled | Order_rejected | Order_expired
datatype id_kind = Kind_entry | Kind_entry_stop | Kind_exit_tp | Kind_exit_sl | Kind_close | Kind_cancel
  | Kind_modify_entry | Kind_modify_exit

record exchange_order =
  xo_id :: string
  xo_symbol :: string
  xo_side :: side
  xo_type :: ord_kind
  xo_qty :: rat
  xo_filled :: rat
  xo_remaining :: rat
  xo_price :: "rat option"
  xo_stop :: "rat option"
  xo_average :: "rat option"
  xo_status :: ord_status
  xo_reduce_only :: bool
  xo_client_id :: "string option"

section \<open>The order journal\<close>

type_synonym extras = "string \<rightharpoonup> pyval"

record row =
  r_coid :: string
  r_symbol :: string
  r_side :: side
  r_state :: string
  r_qty :: rat
  r_filled :: rat
  r_intent_key :: "string option"
  r_pine_id :: "string option"
  r_exchange_id :: "string option"
  r_extras :: extras
  r_closed :: bool
  r_from_entry :: "string option"
  r_created_ms :: int

datatype jop =
    Create_entry string string side rat string string bool
  | Mark_unknown string
  | Mark_rejected string
  | Confirm_entry string rat rat string extras
  | Confirm_parked string rat string extras
  | Unpark string
  | Add_ref string string string
  | Close_row string
  | Set_filled string rat
  | Set_extras string extras
  | Audit string "string option"
  | Land_row string string string "string option"
  | Forget_intent string
  | Adopt_leg string string side rat int
  | Reconcile_filled string rat string extras string

section \<open>The calls into the protection layer\<close>

datatype write_end = Write_confirmed | Write_refused | Write_unknown

datatype memo =
    Own_terms string "rat option" "rat option" int
  | Own_answer string "rat option" "rat option" int order
  | Entry_answered string "exec_event option" bool
  | Share_effect int rat bool int int int
  | Close_opened string int rat
  | Close_dropped string
  | Close_settled string "int option" "(int \<times> rat) option" bool
  | Protection_begun int amend_sltp
  | Protection_ended int write_end
  | Clear_begun int
  | Clear_gone int
  | Clear_found_bare int
  | Clear_done int
  | Amended_terms string "rat option" "rat option" int
  | Amend_begun int
  | Amend_ended int "exec_event option"
  | Terms_withdrawn int
  | Shrink_found int string rat
  | Shrinks_restored
  | Resume_accepted int
  | Bare_rebaselined

section \<open>State and surroundings\<close>

record books =
  limit_until :: rat
  exec_events :: "msg list option"
  journal :: "(nat \<times> jop) list"
  in_flight :: "string \<rightharpoonup> string \<times> rat"
  close_pine :: "int \<rightharpoonup> string option"
  names :: "string \<rightharpoonup> int"
  known_rules :: "string \<rightharpoonup> symbol_rules"
  quote_bid :: "rat option"
  snapshot :: "int \<rightharpoonup> position"
  shared_logged :: "int list"
  baselined :: bool
  memos :: "memo list"

record desk =
  line :: run
  book :: books

text \<open>\<open>others\<close> is what the plugin's other tasks did to the books while request number \<open>k\<close> was out;
  \<open>closed_rejects\<close> says whether the core's \<open>MarketClosedError\<close> is an \<open>ExchangeOrderRejectedError\<close>;
  \<open>wall\<close> is the client's clock in milliseconds. The remaining fields are constants of the core: the states
  an entry row has while it counts, the names of the marks its rows carry, the run's tag, whether a row
  carries the level guard's record of a position, the live rows that own a leg's bracket with the name of
  the mark that holds the leg's id, and the rows whose dispatch is still pending.\<close>

record floor =
  venue :: outside
  repr :: "json \<Rightarrow> string"
  conf :: config
  others :: "nat \<Rightarrow> books \<Rightarrow> books"
  journaled :: bool
  get_row :: "jop list \<Rightarrow> string \<Rightarrow> row option"
  live_rows :: "jop list \<Rightarrow> row list"
  ref_row :: "jop list \<Rightarrow> string \<Rightarrow> string \<Rightarrow> row option"
  closed_rejects :: bool
  wall :: "rat \<Rightarrow> int"
  entry_states :: "string list"
  working_kind :: string
  adopted_mark :: string
  retired_mark :: string
  accepted_mark :: string
  missing_mark :: string
  run_tag :: string
  keeps_levels :: "row \<Rightarrow> int \<Rightarrow> bool"
  bracket_rows :: "jop list \<Rightarrow> row list"
  leg_mark :: string
  pending_rows :: "jop list \<Rightarrow> row list"

text \<open>A raised exception with its \<open>__cause__\<close>.\<close>

type_synonym raised = "exn \<times> exn option"
type_synonym 'a deed = "(desk, raised, 'a) eff"

definition on_line :: "floor \<Rightarrow> 'a coro \<Rightarrow> 'a deed" where
  "on_line X m d =
     (case m (line d) of
        (r, t) \<Rightarrow>
          (map_sum (\<lambda>e. (e, None)) id r,
           d\<lparr>line := t, book := (if waits t = waits (line d) then book d else others X (waits (line d)) (book d))\<rparr>))"

definition on_book :: "(books \<Rightarrow> books) \<Rightarrow> unit deed" where
  "on_book f = modify (\<lambda>d. d\<lparr>book := f (book d)\<rparr>)"

definition jot :: "floor \<Rightarrow> jop \<Rightarrow> unit deed" where
  "jot X op = modify (\<lambda>d. if journaled X
     then d\<lparr>book := (book d)\<lparr>journal := journal (book d) @ [(length (sent (line d)), op)]\<rparr>\<rparr> else d)"

definition note_that :: "memo \<Rightarrow> unit deed" where
  "note_that n = on_book (\<lambda>b. b\<lparr>memos := memos b @ [n]\<rparr>)"

definition entries :: "desk \<Rightarrow> jop list" where
  "entries d = map snd (journal (book d))"

definition lift_exn :: "exn + 'a \<Rightarrow> 'a deed" where
  "lift_exn r = (case r of Inl e \<Rightarrow> throw (e, None) | Inr x \<Rightarrow> ret x)"

section \<open>Dispatching an order request\<close>

text \<open>The class tests of the handlers; \<open>VenueWritesQuarantinedError\<close> is an \<open>ExchangeConnectionError\<close>.\<close>

definition is_order_reject :: "floor \<Rightarrow> exn \<Rightarrow> bool" where
  "is_order_reject X e \<longleftrightarrow>
     (case e of ExchangeOrderRejectedError _ \<Rightarrow> True | InsufficientMarginError _ \<Rightarrow> True
      | MarketClosedError _ \<Rightarrow> closed_rejects X | _ \<Rightarrow> False)"

definition is_exchange_down :: "exn \<Rightarrow> bool" where
  "is_exchange_down e \<longleftrightarrow>
     (case e of ExchangeConnectionError _ \<Rightarrow> True | VenueWritesQuarantinedError _ \<Rightarrow> True | _ \<Rightarrow> False)"

definition is_disposition_unknown :: "exn \<Rightarrow> bool" where
  "is_disposition_unknown e \<longleftrightarrow> (case e of OrderDispositionUnknownError _ _ _ \<Rightarrow> True | _ \<Rightarrow> False)"

definition write_refused :: "floor \<Rightarrow> raised \<Rightarrow> bool" where
  "write_refused X ec \<longleftrightarrow>
     (case ec of (e, c) \<Rightarrow>
        is_exchange_down e
        \<or> (is_order_reject X e \<and> (case c of Some c \<Rightarrow> is_protocol_error c | None \<Rightarrow> False)))"

text \<open>Raising a mapped error: a rate limit closes the order gate and is raised as a connection error.\<close>

definition raise_mapped :: "exn \<Rightarrow> exn \<Rightarrow> 'a deed" where
  "raise_mapped mapped cause =
     (case mapped of
        ExchangeRateLimitError m delay \<Rightarrow>
          seq (modify (\<lambda>d. d\<lparr>book := (book d)\<lparr>limit_until := now (line d) + max 0 delay\<rparr>\<rparr>)) (\<lambda>_.
          throw (ExchangeConnectionError m, Some cause))
      | _ \<Rightarrow> throw (mapped, Some cause))"

definition request_failed :: "string \<Rightarrow> string \<Rightarrow> string list option \<Rightarrow> exn \<Rightarrow> 'a deed" where
  "request_failed coid ctx preds e =
     (case e of
        CTraderProtocolError c desc r \<Rightarrow> raise_mapped (map_error_code c desc r) e
      | CTraderTimeoutError _ \<Rightarrow>
          throw (OrderDispositionUnknownError (''cTrader '' @ ctx @ '' timed out; disposition unknown'') coid preds, Some e)
      | CTraderRequestSentConnectionError _ \<Rightarrow>
          throw (OrderDispositionUnknownError
            (''cTrader '' @ ctx @ '' connection lost after send; disposition unknown'') coid preds, Some e)
      | CTraderConnectionError m \<Rightarrow> throw (ExchangeConnectionError (or_lost m), Some e)
      | _ \<Rightarrow> throw (e, None))"

definition is_fill :: "exec_event \<Rightarrow> bool" where
  "is_fill ev \<longleftrightarrow> x_executionType ev = ORDER_FILLED \<or> x_executionType ev = ORDER_PARTIAL_FILL"

definition surface_fill :: "exec_event \<Rightarrow> unit deed" where
  "surface_fill ev = on_book (\<lambda>b.
     (case exec_events b of
        None \<Rightarrow> b
      | Some q \<Rightarrow> if is_fill ev then b\<lparr>exec_events := Some (q @ [ProtoOAExecutionEvent ev])\<rparr> else b))"

definition surface_cancel :: "exec_event \<Rightarrow> unit deed" where
  "surface_cancel ev = on_book (\<lambda>b.
     (case exec_events b of
        None \<Rightarrow> b | Some q \<Rightarrow> b\<lparr>exec_events := Some (q @ [ProtoOAExecutionEvent ev])\<rparr>))"

definition judge_answer :: "string \<Rightarrow> msg \<Rightarrow> exec_event deed" where
  "judge_answer ctx m =
     (case m of
        ProtoOAOrderErrorEvent e \<Rightarrow>
          raise_mapped (map_error_code (e_errorCode e) (e_description e) None)
            (CTraderProtocolError (e_errorCode e) (e_description e) None)
      | ProtoOAExecutionEvent ev \<Rightarrow>
          (if x_executionType ev = ORDER_REJECTED \<or> x_errorCode ev \<noteq> []
           then raise_mapped (map_error_code (x_errorCode ev) [] None) (CTraderProtocolError (x_errorCode ev) [] None)
           else seq (surface_fill ev) (\<lambda>_. ret ev))
      | _ \<Rightarrow> throw (ExchangeOrderRejectedError (''cTrader '' @ ctx @ '': unexpected response''), None))"

text \<open>\<open>_dispatch_order\<close>; the messages leave out the number of seconds.\<close>

definition dispatch_order :: "floor \<Rightarrow> msg \<Rightarrow> string \<Rightarrow> string \<Rightarrow> string list option \<Rightarrow> exec_event deed" where
  "dispatch_order X req coid ctx preds =
     seq (asks (\<lambda>d. limit_until (book d) - now (line d))) (\<lambda>remaining.
     if 0 < remaining then throw (ExchangeConnectionError ''cTrader order requests rate-limited'', None)
     else seq (on_book (\<lambda>b. b\<lparr>limit_until := 0\<rparr>)) (\<lambda>_.
       seq (catch (on_line X (account_request_raw (venue X) (repr X) (conf X) True req))
              (\<lambda>(e, c). request_failed coid ctx preds e))
         (judge_answer ctx)))"

section \<open>Reading the account\<close>

definition read_account :: "floor \<Rightarrow> msg \<Rightarrow> msg deed" where
  "read_account X req = on_line X (account_request (venue X) (repr X) (conf X) req)"

definition live :: "desk \<Rightarrow> int option" where
  "live d = (if wire_now (base (line d)) = None then None else live_account (base (line d)))"

definition not_live :: "'a deed" where
  "not_live = throw (ExchangeConnectionError ''cTrader live connection not established'', None)"

text \<open>\<open>_fetch_light_symbols(recover=True)\<close>: a later symbol of the same name wins.\<close>

definition fetch_light_symbols :: "floor \<Rightarrow> int \<Rightarrow> (int \<times> string) list deed" where
  "fetch_light_symbols X account =
     seq (read_account X (ProtoOASymbolsListReq account)) (\<lambda>m.
     case m of
       ProtoOASymbolsListRes l \<Rightarrow>
         seq (on_book (\<lambda>b. b\<lparr>names := map_of (rev (map (\<lambda>(i, n). (n, i)) l))\<rparr>)) (\<lambda>_. ret l)
     | _ \<Rightarrow> throw (AttributeError ''symbol'', None))"

definition get_symbol_rules :: "floor \<Rightarrow> string \<Rightarrow> symbol_rules deed" where
  "get_symbol_rules X symbol =
     seq (asks (\<lambda>d. (known_rules (book d) symbol, live d, names (book d) symbol))) (\<lambda>(cached, acct, known).
     case cached of
       Some r \<Rightarrow> ret r
     | None \<Rightarrow>
       (case acct of
          None \<Rightarrow> not_live
        | Some account \<Rightarrow>
            seq (if known = None then seq (fetch_light_symbols X account) (\<lambda>_. ret ()) else ret ()) (\<lambda>_.
            seq (asks (\<lambda>d. (names (book d) symbol, live_account (base (line d))))) (\<lambda>(sid, acct2).
            case sid of
              None \<Rightarrow> throw (ExchangeOrderRejectedError (''cTrader: unknown symbol '' @ symbol), None)
            | Some i \<Rightarrow>
                seq (read_account X (ProtoOASymbolByIdReq (case acct2 of Some a \<Rightarrow> a | None \<Rightarrow> 0) i)) (\<lambda>m.
                case m of
                  ProtoOASymbolByIdRes [] \<Rightarrow>
                    throw (ExchangeOrderRejectedError (''cTrader has no symbol detail for '' @ symbol), None)
                | ProtoOASymbolByIdRes (y # _) \<Rightarrow>
                    (let r = \<lparr>symbol_id = i, digits = y_digits y, min_volume = y_minVolume y,
                             step_volume = y_stepVolume y, max_volume = y_maxVolume y\<rparr>
                     in seq (on_book (\<lambda>b. b\<lparr>known_rules := (known_rules b)(symbol \<mapsto> r)\<rparr>)) (\<lambda>_. ret r))
                | _ \<Rightarrow> throw (AttributeError ''symbol'', None))))))"

definition resolve_symbol_id :: "floor \<Rightarrow> string \<Rightarrow> int option deed" where
  "resolve_symbol_id X symbol =
     seq (asks (\<lambda>d. (names (book d) symbol, live d))) (\<lambda>(known, acct).
     case known of
       Some i \<Rightarrow> ret (Some i)
     | None \<Rightarrow>
       (case acct of
          None \<Rightarrow> not_live
        | Some account \<Rightarrow>
            seq (fetch_light_symbols X account) (\<lambda>_. asks (\<lambda>d. names (book d) symbol))))"

definition is_open :: "position \<Rightarrow> bool" where
  "is_open p \<longleftrightarrow> p_positionStatus p = POSITION_STATUS_OPEN"

definition reconcile :: "floor \<Rightarrow> bool \<Rightarrow> (position list \<times> order list) deed" where
  "reconcile X with_protection =
     seq (asks live) (\<lambda>acct.
     case acct of
       None \<Rightarrow> not_live
     | Some account \<Rightarrow>
         seq (read_account X (ProtoOAReconcileReq account with_protection)) (\<lambda>m.
         case m of
           ProtoOAReconcileRes ps os \<Rightarrow>
             seq (on_book (\<lambda>b. b\<lparr>snapshot := map_of (rev (map (\<lambda>p. (p_positionId p, p)) (filter is_open ps)))\<rparr>)) (\<lambda>_.
             ret (ps, os))
         | _ \<Rightarrow> throw (AttributeError ''position'', None)))"

definition of_symbol :: "int \<Rightarrow> position \<Rightarrow> bool" where
  "of_symbol want p \<longleftrightarrow> is_open p \<and> td_symbolId (p_tradeData p) = want"

definition find_open_position_id :: "floor \<Rightarrow> string \<Rightarrow> int option deed" where
  "find_open_position_id X symbol =
     seq (resolve_symbol_id X symbol) (\<lambda>want.
     case want of
       None \<Rightarrow> ret None
     | Some w \<Rightarrow> seq (reconcile X False) (\<lambda>(ps, _). ret (map_option p_positionId (find (of_symbol w) ps))))"

section \<open>Reading the journal\<close>

definition extra :: "row \<Rightarrow> string \<Rightarrow> pyval option" where
  "extra r k = (case r_extras r k of Some PyNone \<Rightarrow> None | v \<Rightarrow> v)"

fun first_order_id :: "string \<Rightarrow> row list \<Rightarrow> exn + int option" where
  "first_order_id pine [] = Inr None"
| "first_order_id pine (r # rs) =
     (if r_pine_id r \<noteq> Some pine then first_order_id pine rs
      else case extra r ''order_id'' of
             None \<Rightarrow> first_order_id pine rs
           | Some v \<Rightarrow> map_sum id Some (parse_protocol_id v ''order_id''))"

definition find_working_order_id :: "floor \<Rightarrow> string \<Rightarrow> string \<Rightarrow> int option deed" where
  "find_working_order_id X symbol pine =
     (if \<not> journaled X then ret None
      else seq (asks entries) (\<lambda>js.
        lift_exn (first_order_id pine (filter (\<lambda>r. r_symbol r = symbol) (live_rows X js)))))"

section \<open>The bot's share of a position\<close>

text \<open>A row is linked to a position by its recorded position, or before one is recorded by its venue id.\<close>

definition linked :: "int \<Rightarrow> row \<Rightarrow> bool" where
  "linked position_id r \<longleftrightarrow>
     (if ''position_id'' \<in> dom (r_extras r)
      then (case extra r ''position_id'' of
              None \<Rightarrow> False | Some v \<Rightarrow> parse_protocol_id v ''position_id'' = Inr position_id)
      else r_exchange_id r = Some (py_str position_id))"

text \<open>Python truth of a value read from \<open>extras\<close>.\<close>

definition py_truth :: "pyval option \<Rightarrow> bool" where
  "py_truth v = (case v of None \<Rightarrow> False | Some (PyInt n) \<Rightarrow> n \<noteq> 0 | Some (PyBool b) \<Rightarrow> b | Some (PyStr s) \<Rightarrow> s \<noteq> []
     | Some (PyFloat q) \<Rightarrow> q \<noteq> 0 | Some PyNone \<Rightarrow> False | Some PyOther \<Rightarrow> True)"

definition counts :: "floor \<Rightarrow> int \<Rightarrow> row \<Rightarrow> bool" where
  "counts X position_id r \<longleftrightarrow>
     r_state r \<in> set (entry_states X) \<and> py_truth (map_option PyStr (r_pine_id r))
     \<and> \<not> py_truth (extra r (adopted_mark X)) \<and> linked position_id r"

definition position_entry_rows :: "floor \<Rightarrow> jop list \<Rightarrow> int \<Rightarrow> row list" where
  "position_entry_rows X js position_id =
     (if \<not> journaled X \<or> position_id = 0 then [] else filter (counts X position_id) (live_rows X js))"

text \<open>\<open>float(raw)\<close> when the value is a number.\<close>

definition number_or_zero :: "pyval option \<Rightarrow> rat" where
  "number_or_zero v = (case v of Some (PyInt n) \<Rightarrow> of_int n | Some (PyBool b) \<Rightarrow> (if b then 1 else 0)
     | Some (PyFloat q) \<Rightarrow> q | _ \<Rightarrow> 0)"

definition row_exposure :: "floor \<Rightarrow> row \<Rightarrow> rat" where
  "row_exposure X r = max 0 (fsub (r_filled r) (min (r_filled r) (number_or_zero (extra r (retired_mark X)))))"

definition signed :: "side \<Rightarrow> rat \<Rightarrow> rat" where
  "signed s q = (case s of Buy \<Rightarrow> q | Sell \<Rightarrow> - q)"

definition signed_share :: "floor \<Rightarrow> jop list \<Rightarrow> int \<Rightarrow> rat option" where
  "signed_share X js position_id =
     (case position_entry_rows X js position_id of
        [] \<Rightarrow> None
      | rows \<Rightarrow> Some (foldl (\<lambda>sum r. fadd sum (signed (r_side r) (row_exposure X r))) 0 rows))"

text \<open>\<open>_owned_position_ids\<close>: the positions the rows name and those a close was sent against; \<open>Inr None\<close> when
  there is no journal to filter by.\<close>

fun named_positions :: "row list \<Rightarrow> exn + int list" where
  "named_positions [] = Inr []"
| "named_positions (r # rs) =
     (case extra r ''position_id'' of
        Some v \<Rightarrow> (case parse_protocol_id v ''position_id'' of
                    Inl e \<Rightarrow> Inl e | Inr i \<Rightarrow> map_sum id (\<lambda>l. i # l) (named_positions rs))
      | None \<Rightarrow> (case r_exchange_id r of
                    Some s \<Rightarrow> (if ascii_decimal s then map_sum id (\<lambda>l. decimal_value s # l) (named_positions rs)
                              else named_positions rs)
                  | None \<Rightarrow> named_positions rs))"

definition owned_position_ids :: "floor \<Rightarrow> (int set option) deed" where
  "owned_position_ids X =
     (if \<not> journaled X then ret None
      else seq (asks (\<lambda>d. (entries d, dom (close_pine (book d)) - {0}))) (\<lambda>(js, closes).
           seq (lift_exn (named_positions (live_rows X js))) (\<lambda>ids. ret (Some (set ids \<union> closes)))))"

definition order_is_owned :: "floor \<Rightarrow> jop list \<Rightarrow> order \<Rightarrow> bool" where
  "order_is_owned X js o' \<longleftrightarrow>
     \<not> journaled X
     \<or> (o_orderId o' \<noteq> 0 \<and> ref_row X js ''order_id'' (py_str (o_orderId o')) \<noteq> None)
     \<or> (o_clientOrderId o' \<noteq> [] \<and> get_row X js (o_clientOrderId o') \<noteq> None)"

text \<open>The literal \<open>1e-9\<close>.\<close>

definition NANO :: rat where "NANO = fl (1 / 1000000000)"

text \<open>\<open>_retire_cancelled_working_order\<close>: a row with fills stays live.\<close>

definition retire_cancelled_working_order :: "floor \<Rightarrow> int \<Rightarrow> unit deed" where
  "retire_cancelled_working_order X order_id =
     (if \<not> journaled X \<or> order_id = 0 then ret ()
      else seq (asks (\<lambda>d. ref_row X (entries d) ''order_id'' (py_str order_id))) (\<lambda>found.
        case found of
          None \<Rightarrow> ret ()
        | Some r \<Rightarrow>
            (if NANO < r_filled r then ret ()
             else seq (jot X (Close_row (r_coid r))) (\<lambda>_. jot X (Audit ''cancelled'' (Some (r_coid r)))))))"

end
