(* ===== verification/Execution.thy ===== *)
theory Execution
  imports Desk
begin

text \<open>
  The write side of \<open>execution.py\<close>: placing an entry, attaching, amending and clearing a bracket, closing a
  position, cancelling and amending a working order. Each operation is one effect over the desk, with
  the requests, the journal writes and the calls into the protection layer in the code's order.
\<close>

section \<open>Intents\<close>

record envelope_ids =
  v_coid :: "id_kind \<Rightarrow> string"
  v_tag :: string

record entry_intent =
  en_symbol :: string
  en_side :: side
  en_qty :: rat
  en_type :: ord_kind
  en_limit :: "rat option"
  en_stop :: "rat option"
  en_pine_id :: string
  en_key :: string
  en_comment :: string
  en_stop_fired :: bool

record exit_intent =
  ex_symbol :: string
  ex_side :: side
  ex_qty :: rat
  ex_tp :: "rat option"
  ex_sl :: "rat option"
  ex_trail :: "rat option"
  ex_pine_id :: string
  ex_from :: string

text \<open>\<open>cl_synthetic\<close> is \<open>None\<close> for a script's close.\<close>

record close_intent =
  cl_symbol :: string
  cl_side :: side
  cl_qty :: rat
  cl_pine_id :: string
  cl_synthetic :: "string option"

record cancel_intent =
  ca_symbol :: string
  ca_pine_id :: string
  ca_from :: "string option"

section \<open>Entries\<close>

definition trade_side_of :: "side \<Rightarrow> trade_side" where
  "trade_side_of s = (case s of Buy \<Rightarrow> BUY | Sell \<Rightarrow> SELL)"

text \<open>\<open>_reject_out_of_range_entry\<close>; the messages leave out the numbers.\<close>

definition out_of_range :: "symbol_rules \<Rightarrow> rat \<Rightarrow> exn option" where
  "out_of_range rules qty =
     (let requested = raw_volume qty
      in if requested < min_volume rules
         then Some (OrderSkippedByPlugin ''size below cTrader minimum. No order sent.'' ''below_min_volume'')
         else if 0 < max_volume rules \<and> max_volume rules < requested
         then Some (OrderSkippedByPlugin ''size above cTrader maximum. No order sent.'' ''above_max_volume'')
         else None)"

definition account_field :: "desk \<Rightarrow> int" where
  "account_field d = (case live_account (base (line d)) of Some a \<Rightarrow> a | None \<Rightarrow> 0)"

definition entry_request :: "int \<Rightarrow> symbol_rules \<Rightarrow> envelope_ids \<Rightarrow> entry_intent \<Rightarrow> string \<Rightarrow> int \<Rightarrow> exn + new_order" where
  "entry_request account rules V I coid volume =
     (let req = \<lparr>n_account = account, n_symbolId = symbol_id rules, n_tradeSide = trade_side_of (en_side I),
                 n_volume = volume, n_clientOrderId = coid, n_label = v_tag V,
                 n_comment = (if en_comment I \<noteq> [] then Some (en_comment I) else None),
                 n_orderType = MARKET, n_limitPrice = None, n_stopPrice = None, n_goodTillCancel = False\<rparr>
      in if en_type I = Market then Inr req
         else if en_type I = Limit
         then (case en_limit I of
                 None \<Rightarrow> Inl (ExchangeOrderRejectedError ''cTrader LIMIT entry needs a limit price'')
               | Some p \<Rightarrow> Inr (req\<lparr>n_orderType := LIMIT, n_limitPrice := Some (round_price p (digits rules)),
                                   n_goodTillCancel := True\<rparr>))
         else (case en_stop I of
                 None \<Rightarrow> Inl (ExchangeOrderRejectedError ''cTrader STOP entry needs a stop price'')
               | Some p \<Rightarrow> Inr (req\<lparr>n_orderType := STOP, n_stopPrice := Some (round_price p (digits rules)),
                                   n_goodTillCancel := True\<rparr>)))"

text \<open>The answer of an entry dispatch, or its failure: the journal row is advanced before the dispatch is
  no longer in flight.\<close>

definition entry_answered :: "string \<Rightarrow> exec_event option \<Rightarrow> bool \<Rightarrow> desk \<Rightarrow> desk" where
  "entry_answered coid ans refused d =
     d\<lparr>book := (book d)\<lparr>in_flight := (in_flight (book d))(coid := None),
                       memos := memos (book d) @ [Entry_answered coid ans refused]\<rparr>\<rparr>"

definition entry_failed :: "floor \<Rightarrow> string \<Rightarrow> raised \<Rightarrow> 'a deed" where
  "entry_failed X coid f =
     (let e = fst f in
      if is_disposition_unknown e
      then seq (jot X (Mark_unknown coid)) (\<lambda>_. seq (jot X (Audit ''disposition_unknown'' (Some coid))) (\<lambda>_.
           ensure (throw f) (entry_answered coid None False)))
      else if is_order_reject X e
      then seq (jot X (Mark_rejected coid)) (\<lambda>_. seq (jot X (Audit ''rejected'' (Some coid))) (\<lambda>_.
           ensure (throw f) (entry_answered coid None (write_refused X f))))
      else ensure (throw f) (entry_answered coid None (is_exchange_down e)))"

definition dispatch_entry :: "floor \<Rightarrow> string \<Rightarrow> new_order \<Rightarrow> exec_event deed" where
  "dispatch_entry X coid req d =
     (case dispatch_order X (ProtoOANewOrderReq req) coid ''entry'' None d of
        (Inl f, t) \<Rightarrow> entry_failed X coid f t
      | (Inr ev, t) \<Rightarrow> (Inr ev, entry_answered coid (Some ev) False t))"

definition link_position_ref :: "floor \<Rightarrow> string \<Rightarrow> int \<Rightarrow> unit deed" where
  "link_position_ref X coid position_id =
     (if \<not> journaled X \<or> position_id = 0 then ret ()
      else seq (asks (\<lambda>d. (ref_row X (entries d) ''position_id'' (py_str position_id), shared_logged (book d)))) (\<lambda>(existing, logged).
        case existing of
          None \<Rightarrow> jot X (Add_ref coid ''position_id'' (py_str position_id))
        | Some r \<Rightarrow>
            (if r_coid r = coid \<or> position_id \<in> set logged then ret ()
             else seq (on_book (\<lambda>b. b\<lparr>shared_logged := position_id # shared_logged b\<rparr>)) (\<lambda>_.
                  jot X (Audit ''ctrader_position_id_shared'' (Some coid))))))"

definition entry_extras :: "order \<Rightarrow> int \<Rightarrow> extras \<Rightarrow> extras" where
  "entry_extras o' at_ms extras =
     extras(''order_id'' \<mapsto> PyStr (py_str (o_orderId o')),
            ''position_id'' \<mapsto> (if o_positionId o' \<noteq> 0 then PyInt (o_positionId o') else PyNone),
            ''submitted_at_ms'' \<mapsto> PyInt at_ms)"

definition persist_entry :: "floor \<Rightarrow> string \<Rightarrow> order \<Rightarrow> rat \<Rightarrow> rat \<Rightarrow> unit deed" where
  "persist_entry X coid o' qty_units filled =
     (if \<not> journaled X then ret ()
      else seq (asks (\<lambda>d. (get_row X (entries d) coid, wall X (now (line d))))) (\<lambda>(existing, now_ms).
        let at_ms = (if o_utcLastUpdateTimestamp o' \<noteq> 0 then o_utcLastUpdateTimestamp o' else now_ms);
            extras = entry_extras o' at_ms (case existing of None \<Rightarrow> Map.empty | Some r \<Rightarrow> r_extras r);
            done_qty = (case existing of None \<Rightarrow> filled | Some r \<Rightarrow> max filled (r_filled r));
            venue_id = (if o_positionId o' \<noteq> 0 then o_positionId o' else o_orderId o')
        in seq (jot X (Confirm_entry coid qty_units done_qty (py_str venue_id) extras)) (\<lambda>_.
           seq (jot X (Add_ref coid ''order_id'' (py_str (o_orderId o')))) (\<lambda>_.
           seq (link_position_ref X coid (o_positionId o')) (\<lambda>_.
           jot X (Audit ''entry_dispatched'' (Some coid)))))))"

definition or_none :: "rat \<Rightarrow> rat option" where
  "or_none p = (if p \<noteq> 0 then Some p else None)"

definition status_of :: "exec_event \<Rightarrow> ord_status" where
  "status_of ev = (if x_executionType ev = ORDER_FILLED then Order_filled else Order_open)"

text \<open>The orders returned leave out the time stamp and the constant fee fields.\<close>

definition entry_order :: "entry_intent \<Rightarrow> symbol_rules \<Rightarrow> string \<Rightarrow> rat \<Rightarrow> exec_event \<Rightarrow> exchange_order" where
  "entry_order I rules coid qty_units ev =
     (let filled = volume_to_units (o_executedVolume (x_order ev))
      in \<lparr>xo_id = py_str (o_orderId (x_order ev)), xo_symbol = en_symbol I, xo_side = en_side I, xo_type = en_type I,
          xo_qty = qty_units, xo_filled = filled, xo_remaining = max 0 (fsub qty_units filled),
          xo_price = (if en_type I = Limit then map_option (\<lambda>p. round_price p (digits rules)) (en_limit I) else None),
          xo_stop = (if en_type I = Stop then map_option (\<lambda>p. round_price p (digits rules)) (en_stop I) else None),
          xo_average = or_none (o_executionPrice (x_order ev)), xo_status = status_of ev,
          xo_reduce_only = False, xo_client_id = Some coid\<rparr>)"

definition register_entry :: "floor \<Rightarrow> entry_intent \<Rightarrow> string \<Rightarrow> rat \<Rightarrow> new_order \<Rightarrow> unit deed" where
  "register_entry X I coid qty_units req =
     (if \<not> journaled X then ret ()
      else seq (jot X (Create_entry coid (en_symbol I) (en_side I) qty_units (en_key I) (en_pine_id I) (en_type I \<noteq> Market))) (\<lambda>_.
           seq (if en_type I \<noteq> Market
                then note_that (Own_terms coid (n_limitPrice req) (n_stopPrice req) (n_volume req)) else ret ()) (\<lambda>_.
           jot X (Audit ''dispatch_submitted'' (Some coid)))))"

text \<open>The end of an entry whose dispatch was answered.\<close>

definition entry_tail :: "floor \<Rightarrow> entry_intent \<Rightarrow> symbol_rules \<Rightarrow> string \<Rightarrow> int \<Rightarrow> new_order \<Rightarrow> exec_event \<Rightarrow> exchange_order list deed" where
  "entry_tail X I rules coid volume req ev =
     (let o' = x_order ev; qty_units = volume_to_units volume; filled = volume_to_units (o_executedVolume o')
      in seq (persist_entry X coid o' qty_units filled) (\<lambda>_.
         seq (if en_type I \<noteq> Market
              then note_that (Own_answer coid (n_limitPrice req) (n_stopPrice req) volume o') else ret ()) (\<lambda>_.
         seq (case x_deal ev of
                Some dl \<Rightarrow> (if 0 < filled
                  then note_that (Share_effect (o_positionId o') (signed (en_side I) filled) True
                         (d_executionTimestamp dl) (d_dealId dl) (o_orderId o')) else ret ())
              | None \<Rightarrow> ret ()) (\<lambda>_.
         ret [entry_order I rules coid qty_units ev]))))"

definition place_entry_order ::
    "floor \<Rightarrow> envelope_ids \<Rightarrow> entry_intent \<Rightarrow> symbol_rules \<Rightarrow> rat \<Rightarrow> exchange_order list deed" where
  "place_entry_order X V I rules qty =
     (let coid = v_coid V (if en_stop_fired I then Kind_entry_stop else Kind_entry);
          volume = quantize_volume qty (step_volume rules);
          qty_units = volume_to_units volume
      in case out_of_range rules qty of
           Some e \<Rightarrow> throw (e, None)
         | None \<Rightarrow>
             seq (asks account_field) (\<lambda>account.
             case entry_request account rules V I coid volume of
               Inl e \<Rightarrow> throw (e, None)
             | Inr req \<Rightarrow>
                 seq (register_entry X I coid qty_units req) (\<lambda>_.
                 seq (on_book (\<lambda>b. b\<lparr>in_flight := (in_flight b)(coid \<mapsto> (en_symbol I, signed (en_side I) qty_units))\<rparr>)) (\<lambda>_.
                 seq (dispatch_entry X coid req) (entry_tail X I rules coid volume req)))))"

definition execute_entry :: "floor \<Rightarrow> envelope_ids \<Rightarrow> entry_intent \<Rightarrow> exchange_order list deed" where
  "execute_entry X V I =
     seq (get_symbol_rules X (en_symbol I)) (\<lambda>rules. place_entry_order X V I rules (en_qty I))"

definition reject_out_of_range :: "floor \<Rightarrow> entry_intent \<Rightarrow> rat \<Rightarrow> unit deed" where
  "reject_out_of_range X I qty =
     seq (get_symbol_rules X (en_symbol I)) (\<lambda>rules.
     case out_of_range rules qty of Some e \<Rightarrow> throw (e, None) | None \<Rightarrow> ret ())"

definition place_leg :: "floor \<Rightarrow> envelope_ids \<Rightarrow> entry_intent \<Rightarrow> rat \<Rightarrow> exchange_order list deed" where
  "place_leg X V I qty = seq (get_symbol_rules X (en_symbol I)) (\<lambda>rules. place_entry_order X V I rules qty)"

definition volume_quantizer :: "floor \<Rightarrow> string \<Rightarrow> (rat \<Rightarrow> int) deed" where
  "volume_quantizer X symbol =
     seq (get_symbol_rules X symbol) (\<lambda>rules. ret (\<lambda>units. quantize_volume units (step_volume rules)))"

section \<open>Brackets\<close>

definition trailing_anchor :: "rat option \<Rightarrow> side \<Rightarrow> rat \<Rightarrow> symbol_rules \<Rightarrow> rat option" where
  "trailing_anchor bid s offset rules =
     map_option (\<lambda>ref. round_price (case s of Sell \<Rightarrow> fsub ref offset | Buy \<Rightarrow> fadd ref offset) (digits rules)) bid"

definition bracket_request ::
    "int \<Rightarrow> int \<Rightarrow> rat option \<Rightarrow> side \<Rightarrow> rat option \<Rightarrow> rat option \<Rightarrow> rat option \<Rightarrow> symbol_rules \<Rightarrow> amend_sltp" where
  "bracket_request account position_id bid s sl tp trail rules =
     \<lparr>s_account = account, s_positionId = position_id,
      s_stopLoss = (case sl of
          Some p \<Rightarrow> Some (round_price p (digits rules))
        | None \<Rightarrow> (case trail of None \<Rightarrow> None | Some offset \<Rightarrow> trailing_anchor bid s offset rules)),
      s_takeProfit = map_option (\<lambda>p. round_price p (digits rules)) tp,
      s_trailingStopLoss = (if trail \<noteq> None then Some True else if sl \<noteq> None then Some False else None)\<rparr>"

text \<open>The dispatch of an amend with what the protection layer is told before and after it.\<close>

definition write_protection :: "floor \<Rightarrow> amend_sltp \<Rightarrow> string \<Rightarrow> string \<Rightarrow> string list option \<Rightarrow> exec_event deed" where
  "write_protection X req coid ctx preds =
     seq (note_that (Protection_begun (s_positionId req) req)) (\<lambda>_.
     seq (catch (dispatch_order X (ProtoOAAmendPositionSLTPReq req) coid ctx preds)
            (\<lambda>f. ensure (throw f) (\<lambda>d. d\<lparr>book := (book d)\<lparr>memos := memos (book d)
                   @ [Protection_ended (s_positionId req) (if write_refused X f then Write_refused else Write_unknown)]\<rparr>\<rparr>)))
       (\<lambda>ev. seq (note_that (Protection_ended (s_positionId req) Write_confirmed)) (\<lambda>_. ret ev)))"

definition bracket_legs :: "exit_intent \<Rightarrow> envelope_ids \<Rightarrow> int \<Rightarrow> symbol_rules \<Rightarrow> exchange_order list" where
  "bracket_legs I V position_id rules =
     (let leg = (\<lambda>suffix ty price stop kind.
            \<lparr>xo_id = py_str position_id @ suffix, xo_symbol = ex_symbol I, xo_side = ex_side I, xo_type = ty,
             xo_qty = ex_qty I, xo_filled = 0, xo_remaining = ex_qty I, xo_price = price, xo_stop = stop,
             xo_average = None, xo_status = Order_open, xo_reduce_only = True, xo_client_id = Some (v_coid V kind)\<rparr>)
      in (case ex_tp I of
            None \<Rightarrow> []
          | Some p \<Rightarrow> [leg '':tp'' Limit (Some (round_price p (digits rules))) None Kind_exit_tp])
         @ (if ex_sl I \<noteq> None \<or> ex_trail I \<noteq> None
            then [leg '':sl'' (if ex_trail I \<noteq> None then Trailing_stop else Stop) None
                    (map_option (\<lambda>p. round_price p (digits rules)) (ex_sl I)) Kind_exit_sl]
            else []))"

definition cause_code :: "exn option \<Rightarrow> string option" where
  "cause_code c = (case c of Some (CTraderProtocolError code _ _) \<Rightarrow> Some code | _ \<Rightarrow> None)"

text \<open>The position's side is the inverse of the exit's: \<open>True\<close> for a long position.\<close>

definition bracket_attach_reject :: "exit_intent \<Rightarrow> int \<Rightarrow> exn option \<Rightarrow> exn" where
  "bracket_attach_reject I position_id cause =
     BracketAttachAfterFillRejectedError position_id (ex_side I = Sell) (ex_qty I) (cause_code cause)"

definition exit_request :: "desk \<Rightarrow> exit_intent \<Rightarrow> int \<Rightarrow> symbol_rules \<Rightarrow> amend_sltp" where
  "exit_request d I position_id rules =
     bracket_request (account_field d) position_id (quote_bid (book d)) (ex_side I) (ex_sl I) (ex_tp I) (ex_trail I) rules"

definition execute_exit :: "floor \<Rightarrow> envelope_ids \<Rightarrow> exit_intent \<Rightarrow> exchange_order list deed" where
  "execute_exit X V I =
     seq (get_symbol_rules X (ex_symbol I)) (\<lambda>rules.
     seq (find_open_position_id X (ex_symbol I)) (\<lambda>position.
     case position of
       None \<Rightarrow> throw (ExchangeOrderRejectedError ''cTrader execute_exit: no open position'', None)
     | Some p \<Rightarrow>
         seq (asks (\<lambda>d. exit_request d I p rules)) (\<lambda>req.
         seq (catch (write_protection X req (v_coid V Kind_exit_sl) ''bracket attach'' None)
                (\<lambda>(e, c). if is_order_reject X e then throw (bracket_attach_reject I p c, Some e) else throw (e, c))) (\<lambda>_.
         seq (jot X (Audit ''bracket_attached'' None)) (\<lambda>_.
         ret (bracket_legs I V p rules))))))"

text \<open>\<open>modify_exit\<close>; \<open>None\<close> when it hands over to the core's cancel and recreate.\<close>

definition modify_exit :: "floor \<Rightarrow> envelope_ids \<Rightarrow> exit_intent \<Rightarrow> exchange_order list option deed" where
  "modify_exit X V I =
     seq (get_symbol_rules X (ex_symbol I)) (\<lambda>rules.
     seq (find_open_position_id X (ex_symbol I)) (\<lambda>position.
     case position of
       None \<Rightarrow> ret None
     | Some p \<Rightarrow>
         seq (asks (\<lambda>d. exit_request d I p rules)) (\<lambda>req.
         seq (write_protection X req (v_coid V Kind_modify_exit) ''amend bracket'' (Some [])) (\<lambda>_.
         ret (Some (bracket_legs I V p rules))))))"

fun residual_refs :: "string \<Rightarrow> string \<Rightarrow> row list \<Rightarrow> exn + string list" where
  "residual_refs kind pine [] = Inr []"
| "residual_refs kind pine (r # rs) =
     (if r_pine_id r \<noteq> Some pine \<or> extra r ''kind'' \<noteq> Some (PyStr kind) then residual_refs kind pine rs
      else case extra r ''order_id'' of
             None \<Rightarrow> residual_refs kind pine rs
           | Some v \<Rightarrow> (case parse_protocol_id v ''order_id'' of
                         Inl e \<Rightarrow> Inl e
                       | Inr i \<Rightarrow> map_sum id (\<lambda>l. py_str i # l) (residual_refs kind pine rs)))"

definition residual_orders :: "floor \<Rightarrow> string \<Rightarrow> string option \<Rightarrow> string list deed" where
  "residual_orders X symbol from_entry =
     (if \<not> journaled X then ret []
      else case from_entry of
             None \<Rightarrow> ret []
           | Some pine \<Rightarrow> seq (asks entries) (\<lambda>js.
               lift_exn (residual_refs (working_kind X) pine (filter (\<lambda>r. r_symbol r = symbol) (live_rows X js)))))"

section \<open>Clearing a bracket\<close>

text \<open>The requests of a clear: a trailing flag is switched off first, with its current stop repeated.\<close>

definition clear_requests :: "int \<Rightarrow> position \<Rightarrow> exn + amend_sltp list" where
  "clear_requests account p =
     (let bare = \<lparr>s_account = account, s_positionId = p_positionId p, s_stopLoss = None, s_takeProfit = None,
                  s_trailingStopLoss = None\<rparr>
      in if p_trailingStopLoss p = Some True
         then (case p_stopLoss p of
                 None \<Rightarrow> Inl (CTraderBrokerError ''cannot disable cTrader trailing protection without an authenticated Stop Loss'')
               | Some sl \<Rightarrow> Inr [bare\<lparr>s_stopLoss := Some sl, s_trailingStopLoss := Some False\<rparr>, bare])
         else Inr [bare])"

definition nothing_to_amend :: "exn \<Rightarrow> bool" where
  "nothing_to_amend c \<longleftrightarrow>
     (case c of CTraderProtocolError code desc _ \<Rightarrow>
        code = ''INVALID_REQUEST'' \<and> contains (lower (code_text code desc)) ''nothing to amend'' | _ \<Rightarrow> False)"

datatype cleared = Cleared | Gone | Found_bare

text \<open>\<open>guarded\<close> says whether the core's level guard holds the position.\<close>

fun clear_steps :: "floor \<Rightarrow> bool \<Rightarrow> string \<Rightarrow> string \<Rightarrow> amend_sltp list \<Rightarrow> cleared deed" where
  "clear_steps X guarded coid ctx [] = ret Cleared"
| "clear_steps X guarded coid ctx (req # reqs) =
     seq (catch (seq (if guarded then write_protection X req coid ctx None
                      else dispatch_order X (ProtoOAAmendPositionSLTPReq req) coid ctx None) (\<lambda>_. ret None))
            (\<lambda>(e, c). case c of
               Some (CTraderProtocolError code desc r) \<Rightarrow>
                 (if is_order_reject X e \<and> is_not_found code then ret (Some Gone)
                  else if is_order_reject X e \<and> nothing_to_amend (CTraderProtocolError code desc r) then ret (Some Found_bare)
                  else throw (e, c))
             | _ \<Rightarrow> throw (e, c)))
       (\<lambda>stop. case stop of Some x \<Rightarrow> ret x | None \<Rightarrow> clear_steps X guarded coid ctx reqs)"

definition clear_position_bracket :: "floor \<Rightarrow> bool \<Rightarrow> int \<Rightarrow> string \<Rightarrow> string \<Rightarrow> unit deed" where
  "clear_position_bracket X guarded position_id coid ctx =
     seq (note_that (Clear_begun position_id)) (\<lambda>_.
     seq (reconcile X False) (\<lambda>(ps, _).
     case find (\<lambda>p. p_positionId p = position_id) ps of
       None \<Rightarrow> note_that (Clear_gone position_id)
     | Some p \<Rightarrow>
         seq (asks account_field) (\<lambda>account.
         case clear_requests account p of
           Inl e \<Rightarrow> throw (e, None)
         | Inr reqs \<Rightarrow>
             seq (clear_steps X guarded coid ctx reqs) (\<lambda>done_how.
             note_that (case done_how of Cleared \<Rightarrow> Clear_done position_id | Gone \<Rightarrow> Clear_gone position_id
                        | Found_bare \<Rightarrow> Clear_found_bare position_id)))))"

definition trail_only_armed :: "floor \<Rightarrow> int \<Rightarrow> bool deed" where
  "trail_only_armed X position_id =
     seq (reconcile X False) (\<lambda>(ps, _).
     ret (case find (\<lambda>p. p_positionId p = position_id) ps of
            None \<Rightarrow> False
          | Some p \<Rightarrow> p_stopLoss p \<noteq> None \<and> p_trailingStopLoss p = Some True \<and> p_takeProfit p = None))"

definition amend_bracket ::
    "floor \<Rightarrow> bool \<Rightarrow> string \<Rightarrow> int \<Rightarrow> side \<Rightarrow> rat option \<Rightarrow> rat option \<Rightarrow> rat option \<Rightarrow> string \<Rightarrow> unit deed" where
  "amend_bracket X guarded symbol position_id s tp sl trail coid =
     (if tp = None \<and> sl = None \<and> trail = None
      then clear_position_bracket X guarded position_id coid ''clear bracket''
      else seq (asks (\<lambda>d. quote_bid (book d))) (\<lambda>bid.
        seq (if tp = None \<and> sl = None \<and> bid = None then trail_only_armed X position_id else ret False) (\<lambda>armed.
        if armed then ret ()
        else seq (get_symbol_rules X symbol) (\<lambda>rules.
          seq (asks (\<lambda>d. bracket_request (account_field d) position_id (quote_bid (book d)) s sl tp trail rules)) (\<lambda>req.
          catch (seq (write_protection X req coid ''amend bracket'' None) (\<lambda>_. ret ()))
            (\<lambda>(e, c). if is_order_reject X e \<and> (case cause_code c of Some code \<Rightarrow> is_not_found code | None \<Rightarrow> False)
                      then ret () else throw (e, c)))))))"

section \<open>Closes\<close>

definition answer_fill :: "exec_event \<Rightarrow> (int \<times> rat) option" where
  "answer_fill ev =
     (case x_deal ev of
        None \<Rightarrow> None
      | Some dl \<Rightarrow>
          (if 0 < d_filledVolume dl
           then Some (d_dealId dl, volume_to_units (case d_closedVolume dl of Some v \<Rightarrow> v | None \<Rightarrow> d_filledVolume dl))
           else None))"

definition executed_at :: "exec_event \<Rightarrow> int" where
  "executed_at ev = (case x_deal ev of None \<Rightarrow> 0 | Some dl \<Rightarrow> d_executionTimestamp dl)"

definition send_own_close :: "floor \<Rightarrow> int \<Rightarrow> int \<Rightarrow> string \<Rightarrow> string \<Rightarrow> exec_event deed" where
  "send_own_close X position_id volume coid ctx =
     seq (note_that (Close_opened coid position_id (volume_to_units volume))) (\<lambda>_.
     seq (asks account_field) (\<lambda>account.
     seq (catch (dispatch_order X (ProtoOAClosePositionReq account position_id volume) coid ctx None)
            (\<lambda>f. seq (note_that (if write_refused X f then Close_dropped coid else Close_settled coid None None False)) (\<lambda>_.
                 throw f))) (\<lambda>ev.
     seq (note_that (Close_settled coid (Some (o_orderId (x_order ev))) (answer_fill ev) (x_executionType ev = ORDER_FILLED))) (\<lambda>_.
     seq (asks (\<lambda>d. signed_share X (entries d) position_id)) (\<lambda>net.
     seq (case (answer_fill ev, net) of
            (Some (deal_id, closed_qty), Some n) \<Rightarrow>
              (if n \<noteq> 0
               then note_that (Share_effect position_id (if 0 < n then - closed_qty else closed_qty) False
                      (executed_at ev) deal_id (o_orderId (x_order ev)))
               else ret ())
          | _ \<Rightarrow> ret ()) (\<lambda>_.
     ret ev))))))"

definition close_leg :: "floor \<Rightarrow> int \<Rightarrow> int \<Rightarrow> string \<Rightarrow> unit deed" where
  "close_leg X leg_id volume coid =
     seq (asks (\<lambda>d. if journaled X then (case get_row X (entries d) coid of None \<Rightarrow> None | Some r \<Rightarrow> r_pine_id r) else None)) (\<lambda>pine.
     seq (on_book (\<lambda>b. b\<lparr>close_pine := (close_pine b)(leg_id \<mapsto> pine)\<rparr>)) (\<lambda>_.
     catch (seq (send_own_close X leg_id volume coid ''close leg'') (\<lambda>_. ret ()))
       (\<lambda>(e, c). case (is_order_reject X e, cause_code c) of
          (True, Some code) \<Rightarrow>
            (if is_not_found code then throw (OrderSkippedByPlugin ''the position closed before the close landed'' ''nothing_to_close'', Some e)
             else if is_position_locked code then throw (OrderSkippedByPlugin ''the position is busy with another venue operation'' ''position_locked'', Some e)
             else throw (e, c))
        | _ \<Rightarrow> throw (e, c))))"

definition may_skip :: "close_intent \<Rightarrow> bool" where
  "may_skip I \<longleftrightarrow> cl_synthetic I = None \<or> cl_synthetic I = Some ''partial_trigger''"

definition nothing_to_close :: "close_intent \<Rightarrow> exn option \<Rightarrow> 'a deed" where
  "nothing_to_close I cause =
     (if may_skip I then throw (OrderSkippedByPlugin ''cTrader execute_close: nothing to close'' ''nothing_to_close'', cause)
      else throw (ExchangeOrderRejectedError ''cTrader execute_close: no open position'', cause))"

definition close_failed :: "floor \<Rightarrow> close_intent \<Rightarrow> raised \<Rightarrow> 'a deed" where
  "close_failed X I f =
     (case f of (e, c) \<Rightarrow>
        (case (is_order_reject X e, cause_code c) of
           (True, Some code) \<Rightarrow>
             (if is_not_found code then nothing_to_close I (Some e)
              else if is_position_locked code \<and> may_skip I
              then throw (OrderSkippedByPlugin ''cTrader execute_close: the position is busy'' ''position_locked'', Some e)
              else throw (e, c))
         | _ \<Rightarrow> throw (e, c)))"

definition close_order :: "close_intent \<Rightarrow> int \<Rightarrow> string \<Rightarrow> rat \<Rightarrow> exec_event \<Rightarrow> exchange_order" where
  "close_order I position_id coid qty_units ev =
     (let o' = x_order ev; filled = volume_to_units (o_executedVolume o')
      in \<lparr>xo_id = py_str (if o_orderId o' \<noteq> 0 then o_orderId o' else position_id), xo_symbol = cl_symbol I,
          xo_side = cl_side I, xo_type = Market, xo_qty = qty_units, xo_filled = filled,
          xo_remaining = max 0 (fsub qty_units filled), xo_price = None, xo_stop = None,
          xo_average = or_none (o_executionPrice o'), xo_status = status_of ev, xo_reduce_only = True,
          xo_client_id = Some coid\<rparr>)"

definition execute_close :: "floor \<Rightarrow> envelope_ids \<Rightarrow> close_intent \<Rightarrow> exchange_order deed" where
  "execute_close X V I =
     (let coid = v_coid V Kind_close in
      seq (get_symbol_rules X (cl_symbol I)) (\<lambda>rules.
      seq (find_open_position_id X (cl_symbol I)) (\<lambda>position.
      case position of
        None \<Rightarrow> nothing_to_close I None
      | Some p \<Rightarrow>
          (let volume = quantize_volume (cl_qty I) (step_volume rules) in
           seq (on_book (\<lambda>b. b\<lparr>close_pine := (close_pine b)(p \<mapsto> (if cl_pine_id I \<noteq> [] then Some (cl_pine_id I) else None))\<rparr>)) (\<lambda>_.
           seq (catch (send_own_close X p volume coid ''close'') (close_failed X I)) (\<lambda>ev.
           seq (jot X (Audit ''close_dispatched'' (Some coid))) (\<lambda>_.
           ret (close_order I p coid (volume_to_units volume) ev))))))))"

section \<open>Cancels\<close>

definition cancel_request :: "floor \<Rightarrow> int \<Rightarrow> string \<Rightarrow> string \<Rightarrow> exec_event deed" where
  "cancel_request X order_id coid ctx =
     seq (asks account_field) (\<lambda>account. dispatch_order X (ProtoOACancelOrderReq account order_id) coid ctx None)"

definition already_gone :: "floor \<Rightarrow> raised \<Rightarrow> bool" where
  "already_gone X f \<longleftrightarrow>
     (case f of (e, c) \<Rightarrow> is_order_reject X e \<and> (case cause_code c of Some code \<Rightarrow> is_not_found code | None \<Rightarrow> False))"

text \<open>\<open>cancel_broker_order_ref\<close> on a numeric reference.\<close>

definition cancel_broker_order_ref :: "floor \<Rightarrow> int \<Rightarrow> unit deed" where
  "cancel_broker_order_ref X ref =
     (let coid = ''__pyne_residual_cancel__'' @ py_str ref in
      seq (catch (seq (cancel_request X ref coid ''residual cancel'') (\<lambda>ev. ret (Some ev)))
             (\<lambda>f. if already_gone X f then ret None else throw f)) (\<lambda>ans.
      if map_option x_executionType ans = Some ORDER_CANCEL_REJECTED
      then throw (OrderDispositionUnknownError ''cTrader residual cancel was rejected by a cancel/fill race'' coid None, None)
      else ret ()))"

definition clear_exit_bracket :: "floor \<Rightarrow> (int \<Rightarrow> bool) \<Rightarrow> string \<Rightarrow> string \<Rightarrow> bool deed" where
  "clear_exit_bracket X guarded symbol coid =
     seq (find_open_position_id X symbol) (\<lambda>position.
     case position of
       None \<Rightarrow> ret True
     | Some p \<Rightarrow> seq (clear_position_bracket X (guarded p) p coid ''clear bracket'') (\<lambda>_. ret True))"

definition execute_cancel :: "floor \<Rightarrow> (int \<Rightarrow> bool) \<Rightarrow> envelope_ids \<Rightarrow> cancel_intent \<Rightarrow> bool deed" where
  "execute_cancel X guarded V I =
     (if ca_from I \<noteq> None then clear_exit_bracket X guarded (ca_symbol I) (v_coid V Kind_cancel)
      else seq (find_working_order_id X (ca_symbol I) (ca_pine_id I)) (\<lambda>found.
        case found of
          None \<Rightarrow> ret True
        | Some order_id \<Rightarrow>
            seq (catch (seq (cancel_request X order_id (v_coid V Kind_cancel) ''cancel'') (\<lambda>ev. ret (Some ev)))
                   (\<lambda>f. if already_gone X f then ret None else throw f)) (\<lambda>ans.
            case ans of
              None \<Rightarrow> ret True
            | Some ev \<Rightarrow>
                (if x_executionType ev = ORDER_CANCEL_REJECTED then ret False
                 else if x_executionType ev = ORDER_CANCELLED
                 then seq (retire_cancelled_working_order X order_id) (\<lambda>_. seq (surface_cancel ev) (\<lambda>_. ret True))
                 else ret True))))"

datatype cancel_outcome = CANCEL_CONFIRMED | ALREADY_FILLED | CANCEL_UNKNOWN

definition execute_cancel_with_outcome :: "floor \<Rightarrow> envelope_ids \<Rightarrow> cancel_intent \<Rightarrow> cancel_outcome deed" where
  "execute_cancel_with_outcome X V I =
     seq (find_working_order_id X (ca_symbol I) (ca_pine_id I)) (\<lambda>found.
     case found of
       None \<Rightarrow> ret CANCEL_UNKNOWN
     | Some order_id \<Rightarrow>
         seq (catch (seq (cancel_request X order_id (v_coid V Kind_cancel) ''cancel'') (\<lambda>ev. ret (Some ev)))
                (\<lambda>f. if already_gone X f then ret None else throw f)) (\<lambda>ans.
         case ans of
           None \<Rightarrow> ret CANCEL_UNKNOWN
         | Some ev \<Rightarrow>
             (if x_executionType ev = ORDER_CANCELLED
              then seq (retire_cancelled_working_order X order_id) (\<lambda>_. seq (surface_cancel ev) (\<lambda>_. ret CANCEL_CONFIRMED))
              else if x_executionType ev = ORDER_FILLED then ret ALREADY_FILLED
              else ret CANCEL_UNKNOWN)))"

section \<open>Amending a working order\<close>

definition amend_request :: "int \<Rightarrow> int \<Rightarrow> int \<Rightarrow> entry_intent \<Rightarrow> symbol_rules \<Rightarrow> amend_order" where
  "amend_request account order_id volume I rules =
     \<lparr>m_account = account, m_orderId = order_id, m_volume = volume,
      m_limitPrice = (if en_type I = Limit then map_option (\<lambda>p. round_price p (digits rules)) (en_limit I) else None),
      m_stopPrice = (if en_type I = Stop then map_option (\<lambda>p. round_price p (digits rules)) (en_stop I) else None)\<rparr>"

definition amended_order :: "entry_intent \<Rightarrow> amend_order \<Rightarrow> string \<Rightarrow> exchange_order" where
  "amended_order I req coid =
     (let qty_units = volume_to_units (m_volume req)
      in \<lparr>xo_id = py_str (m_orderId req), xo_symbol = en_symbol I, xo_side = en_side I, xo_type = en_type I,
          xo_qty = qty_units, xo_filled = 0, xo_remaining = qty_units, xo_price = m_limitPrice req,
          xo_stop = m_stopPrice req, xo_average = None, xo_status = Order_open, xo_reduce_only = False,
          xo_client_id = Some coid\<rparr>)"

text \<open>\<open>modify_entry\<close>; \<open>None\<close> when it hands over to the core's cancel and recreate.\<close>

definition modify_entry :: "floor \<Rightarrow> envelope_ids \<Rightarrow> entry_intent \<Rightarrow> exchange_order list option deed" where
  "modify_entry X V I =
     seq (find_working_order_id X (en_symbol I) (en_pine_id I)) (\<lambda>found.
     case found of
       None \<Rightarrow> ret None
     | Some order_id \<Rightarrow>
         seq (get_symbol_rules X (en_symbol I)) (\<lambda>rules.
         let volume = quantize_volume (en_qty I) (step_volume rules); coid = v_coid V Kind_modify_entry in
         seq (asks (\<lambda>d. (account_field d, if journaled X then ref_row X (entries d) ''order_id'' (py_str order_id) else None))) (\<lambda>(account, row).
         let req = amend_request account order_id volume I rules in
         seq (case row of None \<Rightarrow> ret () | Some r \<Rightarrow> note_that (Amended_terms (r_coid r) (m_limitPrice req) (m_stopPrice req) volume)) (\<lambda>_.
         seq (note_that (Amend_begun order_id)) (\<lambda>_.
         seq (catch (dispatch_order X (ProtoOAAmendOrderReq req) coid ''amend entry'' (Some []))
                (\<lambda>f. seq (if row \<noteq> None \<and> write_refused X f then note_that (Terms_withdrawn order_id) else ret ()) (\<lambda>_.
                     seq (note_that (Amend_ended order_id None)) (\<lambda>_. throw f)))) (\<lambda>ev.
         seq (note_that (Amend_ended order_id (Some ev))) (\<lambda>_.
         ret (Some [amended_order I req coid]))))))))"

end
