(* ===== verification/Execution_Properties.thy ===== *)
theory Execution_Properties
  imports Execution Account_Properties
begin

text \<open>
  What an order operation may have done to the venue, by its outcome: the disposition of a dispatched request,
  the journal around an entry, what a close may target and what a cancel may claim.
\<close>

section \<open>Answers of the venue\<close>

text \<open>An answer that says the request was not executed.\<close>

definition refusal :: "exn + msg \<Rightarrow> bool" where
  "refusal a \<longleftrightarrow>
     (case a of
        Inl e \<Rightarrow> is_protocol_error e
      | Inr m \<Rightarrow> (case m of
          ProtoOAOrderErrorEvent _ \<Rightarrow> True
        | ProtoOAExecutionEvent x \<Rightarrow> x_executionType x = ORDER_REJECTED \<or> x_errorCode x \<noteq> []
        | _ \<Rightarrow> False))"

lemma lost_answer_refusal: "lost_answer a \<Longrightarrow> refusal a"
  by (auto simp: lost_answer_def refusal_def loss_code_def account_auth_loss_def Let_def
      split: sum.splits exn.splits msg.splits if_splits)

text \<open>How the wire client answers a request that was written, as theory Wire shows: with a response, a protocol
  error, a time-out or an error that says the bytes were sent; and what the write gate raises.\<close>

definition answers_certain :: "outside \<Rightarrow> bool" where
  "answers_certain E \<longleftrightarrow>
     (\<forall>k m e. answer E k m = Inl e \<longrightarrow>
        is_protocol_error e \<or> (\<exists>c. e = CTraderRequestSentConnectionError c) \<or> (\<exists>c. e = CTraderTimeoutError c))"

definition quarantine_gate :: "outside \<Rightarrow> bool" where
  "quarantine_gate E \<longleftrightarrow> (\<forall>k e. gate E k = Some e \<longrightarrow> (\<exists>m. e = VenueWritesQuarantinedError m))"

lemma quarantine_gate_ok: "quarantine_gate E \<Longrightarrow> gate_ok E"
  by (auto simp: quarantine_gate_def gate_ok_def loss_code_def split: option.split) fastforce

text \<open>An exception that says nothing was written.\<close>

definition unwritten :: "exn \<Rightarrow> bool" where
  "unwritten e \<longleftrightarrow> (\<exists>m. e = CTraderConnectionError m) \<or> (\<exists>m. e = VenueWritesQuarantinedError m)"

lemma send_outcome:
  assumes "send_request E w True req s = (r, t)" and "quarantine_gate E"
  shows "(t = s \<and> (\<exists>e. r = Inl e \<and> unwritten e))
     \<or> (sent t = sent s @ [(now s, w, req)] \<and> waits t = Suc (waits s) \<and> (r = answer E (waits s) req \<or> r = Inl CancelledError))"
  using send_request_cases [OF assms(1)] assms(2) by (auto simp: unwritten_def quarantine_gate_def)

text \<open>The sends of one account request and what each was answered, for each outcome.\<close>

definition raw_case :: "outside \<Rightarrow> msg \<Rightarrow> nat \<Rightarrow> nat \<Rightarrow> exn + msg \<Rightarrow> bool" where
  "raw_case E req k n r \<longleftrightarrow>
     (n = 0 \<and> (\<exists>e. r = Inl e \<and> unwritten e))
     \<or> (n = 1 \<and> (r = answer E k req \<or> r = Inl CancelledError))
     \<or> (n = 1 \<and> lost_answer (answer E k req) \<and> (\<exists>e. r = Inl e \<and> (unwritten e \<or> \<not> (is_protocol_error e \<or> is_connection_error e \<or> is_timeout_error e))))
     \<or> (n = 2 \<and> lost_answer (answer E k req)
        \<and> (\<exists>j > k. r = answer E j req \<or> r = Inl CancelledError
            \<or> (lost_answer (answer E j req) \<and> (\<exists>m. r = Inl (ExchangeConnectionError m)))))"

lemma first_send_outcome:
  assumes "first_send E w True req s = (q, u)" and "quarantine_gate E"
  shows "(u = s \<and> (\<exists>e. q = Inl e \<and> unwritten e))
     \<or> (sent u = sent s @ [(now s, w, req)] \<and> waits u = Suc (waits s)
        \<and> (q = map_sum id Inl (answer E (waits s) req) \<or> q = Inl CancelledError
           \<or> (lost_answer (answer E (waits s) req) \<and> (\<exists>c. q = Inr (Inr c)))))"
proof -
  obtain r t where r: "send_request E w True req s = (r, t)" by fastforce
  have run: "(q, u) = (case r of
       Inl e \<Rightarrow> (case loss_code e of None \<Rightarrow> (Inl e, t) | Some c \<Rightarrow> (Inr (Inr c), t))
     | Inr m \<Rightarrow> (case account_auth_loss m of None \<Rightarrow> (Inr (Inl m), t)
                | Some (CTraderProtocolError c d h) \<Rightarrow> (Inr (Inr c), t) | Some _ \<Rightarrow> (Inr (Inl m), t)))"
    using assms(1) r by (auto simp: first_send_def seq_def catch_def split: sum.splits option.splits exn.splits)
  have none: "unwritten e \<Longrightarrow> loss_code e = None" for e by (auto simp: unwritten_def loss_code_def)
  from send_outcome [OF r assms(2)] show ?thesis
  proof (elim disjE conjE exE)
    fix e assume "t = s" "r = Inl e" "unwritten e"
    with run none show ?thesis by simp
  next
    assume t: "sent t = sent s @ [(now s, w, req)]" "waits t = Suc (waits s)" and a: "r = answer E (waits s) req"
    show ?thesis
    proof (cases "lost_answer r")
      case True
      then have "u = t \<and> (\<exists>c. q = Inr (Inr c))"
        using run account_auth_loss_code by (cases r) (fastforce simp: lost_answer_def split: option.splits)+
      with t True a show ?thesis by simp
    next
      case False
      then have "u = t \<and> q = map_sum id Inl r"
        using run by (auto simp: lost_answer_def split: sum.splits)
      with t a show ?thesis by simp
    qed
  next
    assume "sent t = sent s @ [(now s, w, req)]" "waits t = Suc (waits s)" "r = Inl CancelledError"
    with run show ?thesis by simp
  qed
qed

lemma second_send_outcome:
  assumes "second_send E w True req s = (r, t)" and "quarantine_gate E"
  shows "(t = s \<and> (\<exists>e. r = Inl e \<and> unwritten e))
     \<or> (sent t = sent s @ [(now s, w, req)] \<and> waits t = Suc (waits s)
        \<and> (r = answer E (waits s) req \<or> r = Inl CancelledError
           \<or> (lost_answer (answer E (waits s) req) \<and> (\<exists>m. r = Inl (ExchangeConnectionError m)))))"
proof -
  obtain q u where q: "send_request E w True req s = (q, u)" by fastforce
  have run: "(r, t) = (if lost_answer q
      then (Inl (ExchangeConnectionError ''cTrader account authorization could not be restored''), u) else (q, u))"
    using assms(1) q by (auto simp: second_send_def seq_def catch_def lost_answer_def split: sum.splits if_splits)
  have none: "unwritten e \<Longrightarrow> \<not> lost_answer (Inl e)" for e by (auto simp: unwritten_def lost_answer_def loss_code_def)
  have canc: "\<not> lost_answer (Inl CancelledError)" by (simp add: lost_answer_def)
  from send_outcome [OF q assms(2)] run none canc show ?thesis by (auto split: if_splits)
qed

lemma raw_outcome:
  assumes run: "account_request_raw E repr_of cfg True req s = (r, t)"
    and req: "\<not> is_handshake req" and gate: "quarantine_gate E"
  shows "\<exists>l. sent t = sent s @ l \<and> raw_case E req (waits s) (sends_of req l) r"
proof (cases "wire_now (base s)")
  case None
  with run have "t = s" "r = Inl (CTraderConnectionError ''live connection not established'')"
    by (simp_all add: account_request_raw_def)
  then show ?thesis by (simp add: raw_case_def unwritten_def)
next
  case (Some n)
  obtain q u where first: "first_send E n True req s = (q, u)" by fastforce
  note fo = first_send_outcome [OF first gate]
  show ?thesis
  proof (cases "\<exists>c. q = Inr (Inr c)")
    case False
    then have "t = u" and r: "(\<exists>e. q = Inl e \<and> r = Inl e) \<or> (\<exists>m. q = Inr (Inl m) \<and> r = Inr m)"
      using run first Some by (auto simp: account_request_raw_def seq_def split: sum.splits)
    with fo show ?thesis by (cases "answer E (waits s) req") (auto simp: raw_case_def)
  next
    case True
    then obtain c where c: "q = Inr (Inr c)" by blast
    have u: "sent u = sent s @ [(now s, n, req)]" "waits u = Suc (waits s)" "lost_answer (answer E (waits s) req)"
      using fo c by (cases "answer E (waits s) req"; auto)+
    define seen where "seen = generation (base s)"
    obtain p v where p: "recover_account_session E repr_of cfg c seen u = (p, v)" by fastforce
    have "later is_handshake u v" by (rule logsD [OF logs_recover p])
    then obtain h where h: "sent v = sent u @ h" "sends_of req h = 0" "waits u \<le> waits v"
      using sends_of_handshake [OF req] by (auto simp: later_def)
    have rest: "(r, t) = (case p of Inl e \<Rightarrow> (Inl e, v)
         | Inr _ \<Rightarrow> (case wire_now (base v) of
               None \<Rightarrow> (Inl (ExchangeConnectionError ''cTrader live connection not established''), v)
             | Some n2 \<Rightarrow> second_send E n2 True req v))"
      using run first Some c p
      by (auto simp: account_request_raw_def seq_def seen_def split: sum.splits option.splits)
    have sv: "sent v = sent s @ ([(now s, n, req)] @ h)" using u(1) h(1) by simp
    have one: "sends_of req ([(now s, n, req)] @ h) = 1" using h(2) by simp
    show ?thesis
    proof (cases "(\<exists>e. p = Inl e) \<or> wire_now (base v) = None")
      case True
      have "t = v \<and> (\<exists>e. r = Inl e \<and> \<not> (is_protocol_error e \<or> is_connection_error e \<or> is_timeout_error e))"
        using rest True recover_exn [of E repr_of cfg c seen u _ v] p
        by (auto simp: is_connection_error_def is_timeout_error_def split: sum.splits option.splits)
      then show ?thesis
        using sv one u(3) by (intro exI [of _ "[(now s, n, req)] @ h"]) (auto simp: raw_case_def)
    next
      case False
      then obtain n2 x where n2: "wire_now (base v) = Some n2" "p = Inr x" by (cases p) auto
      with rest have second: "second_send E n2 True req v = (r, t)" by simp
      have wv: "waits s < waits v" using u(2) h(3) by simp
      from second_send_outcome [OF second gate] show ?thesis
      proof
        assume "t = v \<and> (\<exists>e. r = Inl e \<and> unwritten e)"
        with sv one u(3) show ?thesis by (intro exI [of _ "[(now s, n, req)] @ h"]) (auto simp: raw_case_def)
      next
        assume two: "sent t = sent v @ [(now v, n2, req)] \<and> waits t = Suc (waits v)
          \<and> (r = answer E (waits v) req \<or> r = Inl CancelledError
             \<or> (lost_answer (answer E (waits v) req) \<and> (\<exists>m. r = Inl (ExchangeConnectionError m))))"
        then have "sent t = sent s @ ([(now s, n, req)] @ h @ [(now v, n2, req)])" using sv by simp
        moreover have "sends_of req ([(now s, n, req)] @ h @ [(now v, n2, req)]) = 2" using h(2) by simp
        ultimately show ?thesis using two u(3) wv
          by (intro exI [of _ "[(now s, n, req)] @ h @ [(now v, n2, req)]"]) (auto simp: raw_case_def)
      qed
    qed
  qed
qed

section \<open>The disposition of a dispatched order\<close>

definition is_skip :: "exn \<Rightarrow> bool" where
  "is_skip e \<longleftrightarrow> (case e of OrderSkippedByPlugin _ _ \<Rightarrow> True | _ \<Rightarrow> False)"

definition raised_as :: "exn \<Rightarrow> exn" where
  "raised_as e = (case e of ExchangeRateLimitError m _ \<Rightarrow> ExchangeConnectionError m | _ \<Rightarrow> e)"

lemma raise_mapped_run: "\<exists>t. raise_mapped mapped cause d = (Inl (raised_as mapped, Some cause), t) \<and> line t = line d"
  by (cases mapped) (simp_all add: raise_mapped_def raised_as_def)

lemma mapped_known: "\<not> is_disposition_unknown (raised_as (map_error_code c desc h)) \<and> \<not> is_skip (raised_as (map_error_code c desc h))"
  by (simp add: raised_as_def map_error_code_def Let_def is_disposition_unknown_def is_skip_def)

lemma request_failed_run:
  obtains f t where "(request_failed coid ctx preds e d :: (raised + 'b) \<times> desk) = (Inl f, t)" "line t = line d"
    "write_refused X f \<or> is_skip (fst f) \<Longrightarrow> is_protocol_error e \<or> unwritten e \<or> is_exchange_down e \<or> is_skip e"
    "is_disposition_unknown (fst f) \<longleftrightarrow> (\<exists>m. e = CTraderTimeoutError m) \<or> (\<exists>m. e = CTraderRequestSentConnectionError m)
       \<or> is_disposition_unknown e"
proof (cases e)
  case (CTraderProtocolError c desc h)
  let ?f = "(raised_as (map_error_code c desc h), Some e)"
  obtain t where t: "(raise_mapped (map_error_code c desc h) e d :: (raised + 'b) \<times> desk) = (Inl ?f, t)" "line t = line d"
    using raise_mapped_run by blast
  have "(request_failed coid ctx preds e d :: (raised + 'b) \<times> desk) = (Inl ?f, t)" using t(1) by (simp add: request_failed_def CTraderProtocolError)
  with t(2) mapped_known [of c desc h] CTraderProtocolError show ?thesis
    by (intro that [of ?f t]) (simp_all add: is_disposition_unknown_def)
qed (rule that, auto simp: request_failed_def is_disposition_unknown_def write_refused_def is_exchange_down_def
    is_order_reject_def unwritten_def is_skip_def)+

lemma judge_answer_run:
  obtains r t where "judge_answer ctx m d = (r, t)" "line t = line d"
    "\<And>ev. r = Inr ev \<Longrightarrow> m = ProtoOAExecutionEvent ev \<and> \<not> refusal (Inr m)"
    "\<And>f. r = Inl f \<Longrightarrow> write_refused X f \<Longrightarrow> refusal (Inr m)"
    "\<And>f. r = Inl f \<Longrightarrow> \<not> is_disposition_unknown (fst f) \<and> \<not> is_skip (fst f)"
proof -
  note found = that
  have rej: thesis if m: "refusal (Inr m)" and j: "judge_answer ctx m d = raise_mapped (map_error_code c desc None) cause d" for c desc cause
  proof -
    let ?f = "(raised_as (map_error_code c desc None), Some cause)"
    obtain t where t: "(raise_mapped (map_error_code c desc None) cause d :: (raised + exec_event) \<times> desk) = (Inl ?f, t)" "line t = line d"
      using raise_mapped_run by blast
    with j m mapped_known [of c desc None] show thesis by (intro found [of "Inl ?f" t]) auto
  qed
  show thesis
  proof (cases m)
    case (ProtoOAExecutionEvent ev)
    show thesis
    proof (cases "x_executionType ev = ORDER_REJECTED \<or> x_errorCode ev \<noteq> []")
      case True
      with ProtoOAExecutionEvent show thesis by (intro rej) (simp_all add: refusal_def judge_answer_def)
    next
      case False
      with ProtoOAExecutionEvent show thesis
        by (intro that [of "Inr ev" "snd (surface_fill ev d)"])
          (simp_all add: judge_answer_def surface_fill_def on_book_def refusal_def)
    qed
  next
    case (ProtoOAOrderErrorEvent e)
    then show thesis by (intro rej) (simp_all add: refusal_def judge_answer_def)
  qed (rule that, auto simp: judge_answer_def write_refused_def is_exchange_down_def is_disposition_unknown_def is_skip_def)+
qed

text \<open>Every send of the request was refused.\<close>

definition refused_sends :: "outside \<Rightarrow> msg \<Rightarrow> nat \<Rightarrow> nat \<Rightarrow> bool" where
  "refused_sends E req k n \<longleftrightarrow> n = 0 \<or> (n = 1 \<and> refusal (answer E k req))
     \<or> (n = 2 \<and> refusal (answer E k req) \<and> (\<exists>j > k. refusal (answer E j req)))"

lemma certain_refusal:
  assumes "answers_certain E" "Inl e = answer E j req" "is_protocol_error e \<or> unwritten e \<or> is_exchange_down e \<or> is_skip e"
  shows "refusal (answer E j req)"
proof -
  from assms(1,2) have "is_protocol_error e \<or> (\<exists>c. e = CTraderRequestSentConnectionError c) \<or> (\<exists>c. e = CTraderTimeoutError c)"
    unfolding answers_certain_def by metis
  with assms(3) have "is_protocol_error e" by (auto simp: unwritten_def is_exchange_down_def is_skip_def)
  then show ?thesis unfolding assms(2) [symmetric] by (simp add: refusal_def)
qed

lemma raw_case_refused:
  assumes "raw_case E req k n (Inl e)" "answers_certain E" and e: "is_protocol_error e \<or> unwritten e \<or> is_exchange_down e \<or> is_skip e"
  shows "refused_sends E req k n"
proof -
  have canc: "e \<noteq> CancelledError" using e by (auto simp: unwritten_def is_exchange_down_def is_protocol_error_def is_skip_def)
  have own: "Inl e = answer E j req \<Longrightarrow> refusal (answer E j req)" for j by (rule certain_refusal [OF assms(2) _ e])
  from assms(1) consider "n = 0" | "n = 1" "Inl e = answer E k req" | "n = 1" "lost_answer (answer E k req)"
    | j where "n = 2" "lost_answer (answer E k req)" "k < j" "Inl e = answer E j req \<or> lost_answer (answer E j req)"
    using canc unfolding raw_case_def by (elim disjE conjE exE) auto
  then show ?thesis
  proof cases
    case 4
    then have "refusal (answer E j req)" "refusal (answer E k req)" using own lost_answer_refusal by blast+
    with 4 show ?thesis unfolding refused_sends_def by blast
  qed (use own lost_answer_refusal in \<open>simp_all add: refused_sends_def\<close>)
qed

lemma raw_case_bounds:
  "raw_case E req k n r \<Longrightarrow> n \<le> 2 \<and> (n = 2 \<longrightarrow> refusal (answer E k req))"
  using lost_answer_refusal unfolding raw_case_def by (elim disjE conjE exE) simp_all

lemma raw_case_answered:
  assumes "raw_case E req k n (Inr m)"
  shows "1 \<le> n \<and> (\<exists>j \<ge> k. answer E j req = Inr m) \<and> (refusal (Inr m) \<longrightarrow> refused_sends E req k n)"
proof -
  from assms consider "n = 1" "answer E k req = Inr m"
    | j where "n = 2" "lost_answer (answer E k req)" "k < j" "answer E j req = Inr m"
    unfolding raw_case_def by (elim disjE conjE exE) auto
  then show ?thesis
  proof cases
    case 1
    then show ?thesis by (auto simp: refused_sends_def)
  next
    case 2
    have "refused_sends E req k n" if "refusal (Inr m)"
      using 2 that lost_answer_refusal [OF 2(2)] unfolding refused_sends_def by auto
    with 2 show ?thesis by (auto intro: less_imp_le)
  qed
qed

lemma raw_case_unwritten: "raw_case E req k 0 (Inl e) \<Longrightarrow> unwritten e"
  unfolding raw_case_def by auto

lemma dispatch_parts:
  "0 < limit_until (book d) - now (line d) \<Longrightarrow>
     dispatch_order X req coid ctx preds d = (Inl (ExchangeConnectionError ''cTrader order requests rate-limited'', None), d)"
  "\<not> 0 < limit_until (book d) - now (line d) \<Longrightarrow>
     on_line X (account_request_raw (venue X) (repr X) (conf X) True req) (d\<lparr>book := (book d)\<lparr>limit_until := 0\<rparr>\<rparr>)
       = (map_sum (\<lambda>e. (e, None)) id (Inl e), d1) \<Longrightarrow>
     (request_failed coid ctx preds e d1 :: (raised + msg) \<times> desk) = (Inl f, v) \<Longrightarrow> dispatch_order X req coid ctx preds d = (Inl f, v)"
  "\<not> 0 < limit_until (book d) - now (line d) \<Longrightarrow>
     on_line X (account_request_raw (venue X) (repr X) (conf X) True req) (d\<lparr>book := (book d)\<lparr>limit_until := 0\<rparr>\<rparr>)
       = (map_sum (\<lambda>e. (e, None)) id (Inr m), d1) \<Longrightarrow>
     judge_answer ctx m d1 = (r, v) \<Longrightarrow> dispatch_order X req coid ctx preds d = (r, v)"
  by (simp_all add: dispatch_order_def on_book_def catch_def seq_def)

lemma dispatch_run:
  assumes run: "dispatch_order X req coid ctx preds d = (r, t)" and req: "\<not> is_handshake req"
    and gate: "quarantine_gate (venue X)" and ans: "answers_certain (venue X)"
  shows "\<exists>l. sent (line t) = sent (line d) @ l \<and> sends_of req l \<le> 2
     \<and> (sends_of req l = 2 \<longrightarrow> refusal (answer (venue X) (waits (line d)) req))
     \<and> (case r of
          Inr ev \<Rightarrow> 1 \<le> sends_of req l \<and> \<not> refusal (Inr (ProtoOAExecutionEvent ev))
                   \<and> (\<exists>k \<ge> waits (line d). answer (venue X) k req = Inr (ProtoOAExecutionEvent ev))
        | Inl f \<Rightarrow> (write_refused X f \<or> is_skip (fst f) \<longrightarrow> refused_sends (venue X) req (waits (line d)) (sends_of req l))
                   \<and> (is_disposition_unknown (fst f) \<longrightarrow> 1 \<le> sends_of req l))"
proof (cases "0 < limit_until (book d) - now (line d)")
  case True
  with run have "t = d" "r = Inl (ExchangeConnectionError ''cTrader order requests rate-limited'', None)"
    by (simp_all add: dispatch_order_def)
  then show ?thesis by (simp add: refused_sends_def is_disposition_unknown_def is_skip_def)
next
  case False
  let ?E = "venue X" and ?k = "waits (line d)"
  let ?d = "d\<lparr>book := (book d)\<lparr>limit_until := 0\<rparr>\<rparr>"
  obtain q u where q: "account_request_raw ?E (repr X) (conf X) True req (line ?d) = (q, u)" by fastforce
  from raw_outcome [OF q req gate] obtain l where l: "sent u = sent (line d) @ l" "raw_case ?E req ?k (sends_of req l) q"
    by auto
  define d1 where "d1 = snd (on_line X (account_request_raw ?E (repr X) (conf X) True req) ?d)"
  have on: "on_line X (account_request_raw ?E (repr X) (conf X) True req) ?d = (map_sum (\<lambda>e. (e, None)) id q, d1)" "line d1 = u"
    using q by (simp_all add: on_line_def d1_def)
  note n = raw_case_bounds [OF l(2)]
  show ?thesis
  proof (cases q)
    case (Inl e)
    obtain f v where f: "(request_failed coid ctx preds e d1 :: (raised + msg) \<times> desk) = (Inl f, v)" "line v = line d1"
      "write_refused X f \<or> is_skip (fst f) \<Longrightarrow> is_protocol_error e \<or> unwritten e \<or> is_exchange_down e \<or> is_skip e"
      "is_disposition_unknown (fst f) \<longleftrightarrow> (\<exists>m. e = CTraderTimeoutError m) \<or> (\<exists>m. e = CTraderRequestSentConnectionError m)
         \<or> is_disposition_unknown e"
      by (rule request_failed_run [where coid = coid and ctx = ctx and preds = preds and e = e and d = d1 and X = X]) (rule that)
    have "r = Inl f \<and> t = v"
      using run dispatch_parts(2) [OF False on(1) [unfolded Inl] f(1)] by simp
    moreover have "refused_sends ?E req ?k (sends_of req l)" if "write_refused X f \<or> is_skip (fst f)"
      by (rule raw_case_refused [OF l(2) [unfolded Inl] ans f(3) [OF that]])
    moreover have "1 \<le> sends_of req l" if "is_disposition_unknown (fst f)"
    proof (rule ccontr)
      assume "\<not> 1 \<le> sends_of req l"
      then have "sends_of req l = 0" by simp
      then have "unwritten e" using l(2) Inl raw_case_unwritten [of ?E req ?k e] by simp
      with f(4) that show False by (auto simp: unwritten_def is_disposition_unknown_def)
    qed
    ultimately show ?thesis using l(1) n f(2) on(2) by (intro exI [of _ l]) simp
  next
    case (Inr m)
    obtain r' v where j: "judge_answer ctx m d1 = (r', v)" "line v = line d1"
      "\<And>ev. r' = Inr ev \<Longrightarrow> m = ProtoOAExecutionEvent ev \<and> \<not> refusal (Inr m)"
      "\<And>f. r' = Inl f \<Longrightarrow> write_refused X f \<Longrightarrow> refusal (Inr m)"
      "\<And>f. r' = Inl f \<Longrightarrow> \<not> is_disposition_unknown (fst f) \<and> \<not> is_skip (fst f)"
      by (rule judge_answer_run [where ctx = ctx and m = m and d = d1 and X = X]) (rule that)
    have r: "r = r' \<and> t = v"
      using run dispatch_parts(3) [OF False on(1) [unfolded Inr] j(1)] by simp
    note one = raw_case_answered [OF l(2) [unfolded Inr]]
    show ?thesis
    proof (cases r')
      case (Inl f)
      with r l(1) n j(2,4,5) on(2) one show ?thesis by (intro exI [of _ l]) simp
    next
      case (Inr ev)
      with r l(1) n j(2,3) on(2) one show ?thesis by (intro exI [of _ l]) auto
    qed
  qed
qed

text \<open>
  C21: What the failure of an order request says about the order. Whatever the venue, the network and the other
  tasks do, a dispatched order request is written at most twice, twice only when the first was refused
  with a lost session. An execution event is returned only when a send was answered with it, and it
  is neither a rejection nor an error. A failure the engine may retry - a connection error, the write
  quarantine, a rate limit, a reject with the venue's error as its cause - is raised only when every
  send was refused, so a retry cannot double the order; and a failure of unknown disposition only after
  the request was written.
\<close>

theorem dispatch_disposition:
  assumes "dispatch_order X req coid ctx preds d = (r, t)" and "\<not> is_handshake req"
    and "quarantine_gate (venue X)" and "answers_certain (venue X)"
  shows "\<exists>l. sent (line t) = sent (line d) @ l \<and> sends_of req l \<le> 2
     \<and> (sends_of req l = 2 \<longrightarrow> refusal (answer (venue X) (waits (line d)) req))
     \<and> (case r of
          Inr ev \<Rightarrow> 1 \<le> sends_of req l \<and> \<not> refusal (Inr (ProtoOAExecutionEvent ev))
                   \<and> (\<exists>k \<ge> waits (line d). answer (venue X) k req = Inr (ProtoOAExecutionEvent ev))
        | Inl f \<Rightarrow> (write_refused X f \<longrightarrow> refused_sends (venue X) req (waits (line d)) (sends_of req l))
                   \<and> (is_disposition_unknown (fst f) \<longrightarrow> 1 \<le> sends_of req l))"
  using dispatch_run [OF assms] by (auto split: sum.splits)

section \<open>What an operation leaves alone\<close>

text \<open>The journal only grows, and the dispatches in flight under another identifier are untouched. The other
  tasks of the plugin are assumed to do the same (\<open>minds_own\<close>): each writes its own rows.\<close>

definition grew :: "string \<Rightarrow> books \<Rightarrow> books \<Rightarrow> bool" where
  "grew c b b' \<longleftrightarrow> (\<exists>J. journal b' = journal b @ J) \<and> in_flight b' c = in_flight b c"

definition minds_own :: "floor \<Rightarrow> string \<Rightarrow> bool" where
  "minds_own X c \<longleftrightarrow> (\<forall>k b. grew c b (others X k b))"

definition adds :: "string \<Rightarrow> 'a deed \<Rightarrow> bool" where
  "adds c m \<longleftrightarrow> (\<forall>d. grew c (book d) (book (snd (m d))))"

lemma grew_refl [simp]: "grew c b b"
  by (simp add: grew_def)

lemma grew_trans: "grew c a b \<Longrightarrow> grew c b e \<Longrightarrow> grew c a e"
  by (auto simp: grew_def)

lemma addsD: "adds c m \<Longrightarrow> m d = (r, t) \<Longrightarrow> grew c (book d) (book t)"
  unfolding adds_def by (metis snd_conv)

lemma adds_basic [intro!, simp]: "adds c (ret x)" "adds c (throw e)" "adds c (asks f)" "adds c (note_that n)" "adds c (jot X op)"
  by (simp_all add: adds_def note_that_def on_book_def jot_def grew_def)

lemma adds_on_book [intro]: "(\<And>b. grew c b (f b)) \<Longrightarrow> adds c (on_book f)"
  by (simp add: adds_def on_book_def)

lemma adds_seq [intro]:
  assumes "adds c m" "\<And>x. adds c (f x)" shows "adds c (seq m f)"
  unfolding adds_def
proof
  fix d
  obtain r t where m: "m d = (r, t)" by fastforce
  have "grew c (book d) (book t)" by (rule addsD [OF assms(1) m])
  moreover have "grew c (book t) (book (snd (f x t)))" for x using assms(2) by (simp add: adds_def)
  ultimately show "grew c (book d) (book (snd (seq m f d)))"
    using m by (cases r) (auto simp: seq_def intro: grew_trans)
qed

lemma adds_catch [intro]:
  assumes "adds c m" "\<And>e. adds c (h e)" shows "adds c (catch m h)"
  unfolding adds_def
proof
  fix d
  obtain r t where m: "m d = (r, t)" by fastforce
  have "grew c (book d) (book t)" by (rule addsD [OF assms(1) m])
  moreover have "grew c (book t) (book (snd (h x t)))" for x using assms(2) by (simp add: adds_def)
  ultimately show "grew c (book d) (book (snd (catch m h d)))"
    using m by (cases r) (auto simp: catch_def intro: grew_trans)
qed

lemma adds_line: "minds_own X c \<Longrightarrow> adds c (on_line X m)"
  by (auto simp: adds_def on_line_def minds_own_def split: prod.split)

lemma adds_raise [intro!, simp]: "adds c (raise_mapped mapped cause)"
  by (cases mapped) (auto simp: raise_mapped_def adds_def grew_def)

lemma adds_request_failed [intro!, simp]: "adds c (request_failed coid ctx preds e)"
  by (cases e) (simp_all add: request_failed_def)

lemma adds_judge [intro!, simp]: "adds c (judge_answer ctx m)"
  by (cases m) (auto simp: judge_answer_def surface_fill_def grew_def split: option.split intro!: adds_seq adds_on_book)

lemma adds_dispatch: "minds_own X c \<Longrightarrow> adds c (dispatch_order X req coid ctx preds)"
  unfolding dispatch_order_def
  by (intro adds_seq adds_catch adds_on_book) (auto simp: grew_def intro!: adds_seq adds_catch adds_on_book adds_line split: if_splits)

lemma adds_link [intro!, simp]: "adds c (link_position_ref X coid p)"
  by (auto simp: link_position_ref_def grew_def split: option.split intro!: adds_seq adds_on_book)

section \<open>Placing an entry\<close>

lemma register_run:
  assumes "journaled X"
  shows "\<exists>t J. register_entry X I coid q req d = (Inr (), t) \<and> line t = line d \<and> in_flight (book t) = in_flight (book d)
     \<and> journal (book t) = journal (book d) @ (length (sent (line d)),
        Create_entry coid (en_symbol I) (en_side I) q (en_key I) (en_pine_id I) (en_type I \<noteq> Market)) # J"
  using assms by (auto simp: register_entry_def jot_def note_that_def on_book_def seq_def)

lemma entry_failed_run:
  assumes "journaled X"
  shows "\<exists>t J. entry_failed X coid f d = (Inl f, t) \<and> line t = line d \<and> journal (book t) = journal (book d) @ J
     \<and> in_flight (book t) = (in_flight (book d))(coid := None)
     \<and> (is_disposition_unknown (fst f) \<longrightarrow> Mark_unknown coid \<in> snd ` set J)
     \<and> (\<not> is_disposition_unknown (fst f) \<and> is_order_reject X (fst f) \<longrightarrow> Mark_rejected coid \<in> snd ` set J)
     \<and> (\<not> is_disposition_unknown (fst f) \<and> \<not> is_order_reject X (fst f) \<longrightarrow> J = [])"
  using assms by (auto simp: entry_failed_def Let_def jot_def ensure_def entry_answered_def seq_def)

text \<open>Steps that cannot fail and write nothing to the wire.\<close>

definition calm :: "'a deed \<Rightarrow> bool" where
  "calm m \<longleftrightarrow> (\<forall>d. (\<exists>x. fst (m d) = Inr x) \<and> line (snd (m d)) = line d)"

lemma calmE:
  assumes "calm m" obtains x t where "m d = (Inr x, t)" "line t = line d"
  using assms that [of _ "snd (m d)"] unfolding calm_def by (metis prod.collapse)

lemma calm_basic [intro!, simp]: "calm (ret x)" "calm (asks f)" "calm (note_that n)" "calm (jot X op)" "calm (on_book g)"
  by (simp_all add: calm_def note_that_def on_book_def jot_def)

lemma calm_seq [intro]:
  assumes "calm m" "\<And>x. calm (f x)" shows "calm (seq m f)"
  unfolding calm_def
proof
  fix d
  obtain x t where m: "m d = (Inr x, t)" "line t = line d" by (rule calmE [OF assms(1)])
  obtain y u where "f x t = (Inr y, u)" "line u = line t" by (rule calmE [OF assms(2)])
  with m show "(\<exists>x. fst (seq m f d) = Inr x) \<and> line (snd (seq m f d)) = line d" by (simp add: seq_def)
qed

lemma calm_link [intro!, simp]: "calm (link_position_ref X coid p)"
  by (auto simp: link_position_ref_def split: option.split intro!: calm_seq)

lemma persist_run:
  assumes "journaled X"
  obtains t J where "persist_entry X coid o' q filled d = (Inr (), t)" "line t = line d"
    "journal (book t) = journal (book d) @ J" "in_flight (book t) c = in_flight (book d) c"
    "\<exists>done_qty venue_id ex. Confirm_entry coid q done_qty venue_id ex \<in> snd ` set J \<and> filled \<le> done_qty"
proof -
  let ?done = "case get_row X (entries d) coid of None \<Rightarrow> filled | Some r \<Rightarrow> max filled (r_filled r)"
  define op where "op = Confirm_entry coid q ?done (py_str (if o_positionId o' \<noteq> 0 then o_positionId o' else o_orderId o'))
     (entry_extras o' (if o_utcLastUpdateTimestamp o' \<noteq> 0 then o_utcLastUpdateTimestamp o' else wall X (now (line d)))
       (case get_row X (entries d) coid of None \<Rightarrow> Map.empty | Some r \<Rightarrow> r_extras r))"
  let ?rest = "seq (jot X (Add_ref coid ''order_id'' (py_str (o_orderId o')))) (\<lambda>_.
     seq (link_position_ref X coid (o_positionId o')) (\<lambda>_. jot X (Audit ''entry_dispatched'' (Some coid))))"
  let ?d1 = "d\<lparr>book := (book d)\<lparr>journal := journal (book d) @ [(length (sent (line d)), op)]\<rparr>\<rparr>"
  have run: "persist_entry X coid o' q filled d = ?rest ?d1"
    using assms by (simp add: persist_entry_def Let_def op_def jot_def)
  have "calm ?rest" by (intro calm_seq calm_basic calm_link)
  then obtain u where u: "?rest ?d1 = (Inr (), u)" "line u = line d" by (rule calmE [where d = ?d1]) simp
  have "adds c ?rest" by (intro adds_seq adds_basic adds_link)
  from addsD [OF this u(1)] obtain J where
    J: "journal (book u) = journal (book d) @ (length (sent (line d)), op) # J" "in_flight (book u) c = in_flight (book d) c"
    by (auto simp: grew_def)
  have "filled \<le> ?done" by (simp split: option.split)
  with u J run show thesis by (intro that [of u "(length (sent (line d)), op) # J"]) (auto simp: op_def)
qed

lemma logs_weaken: "logs P m \<Longrightarrow> (\<And>x. P x \<Longrightarrow> Q x) \<Longrightarrow> logs Q m"
  unfolding logs_def later_def by fastforce

lemma logs_raw: "logs (\<lambda>m. m = req \<or> is_handshake m) (account_request_raw E repr_of cfg vw req)"
proof -
  let ?P = "\<lambda>m. m = req \<or> is_handshake m"
  have first: "logs ?P (first_send E w vw req)" for w
    unfolding first_send_def
    by (intro logs_catch logs_seq logs_send) (auto split: option.split exn.split)
  have second: "logs ?P (second_send E w vw req)" for w
    unfolding second_send_def by (intro logs_seq logs_catch logs_send) auto
  have rec: "logs ?P (recover_account_session E repr_of cfg c seen)" for c seen
    by (rule logs_weaken [OF logs_recover]) simp
  show ?thesis
    unfolding account_request_raw_def
    by (auto split: option.split sum.split intro!: logs_seq first second rec)
qed

lemma dispatch_log:
  assumes "dispatch_order X req coid ctx preds d = (r, t)"
  shows "\<exists>l. sent (line t) = sent (line d) @ l \<and> (\<forall>(u, w, q) \<in> set l. q = req \<or> is_handshake q)"
proof (cases "0 < limit_until (book d) - now (line d)")
  case True
  with assms have "t = d" by (simp add: dispatch_order_def)
  then show ?thesis by simp
next
  case False
  let ?d = "d\<lparr>book := (book d)\<lparr>limit_until := 0\<rparr>\<rparr>"
  obtain q u where q: "account_request_raw (venue X) (repr X) (conf X) True req (line ?d) = (q, u)" by fastforce
  define d1 where "d1 = snd (on_line X (account_request_raw (venue X) (repr X) (conf X) True req) ?d)"
  have on: "on_line X (account_request_raw (venue X) (repr X) (conf X) True req) ?d = (map_sum (\<lambda>e. (e, None)) id q, d1)" "line d1 = u"
    using q by (simp_all add: on_line_def d1_def)
  have "line t = line d1"
  proof (cases q)
    case (Inl e)
    obtain f v where f: "(request_failed coid ctx preds e d1 :: (raised + msg) \<times> desk) = (Inl f, v)" "line v = line d1"
      by (rule request_failed_run [where coid = coid and ctx = ctx and preds = preds and e = e and d = d1 and X = X]) (rule that)
    with assms dispatch_parts(2) [OF False on(1) [unfolded Inl] f(1)] show ?thesis by simp
  next
    case (Inr m)
    obtain r' v where j: "judge_answer ctx m d1 = (r', v)" "line v = line d1"
      by (rule judge_answer_run [where ctx = ctx and m = m and d = d1 and X = X]) (rule that)
    with assms dispatch_parts(3) [OF False on(1) [unfolded Inr] j(1)] show ?thesis by simp
  qed
  with logsD [OF logs_raw q] on(2) show ?thesis by (auto simp: later_def)
qed

lemma entry_tail_run:
  assumes "journaled X"
  obtains t J where "entry_tail X I rules coid volume req ev d = (Inr [entry_order I rules coid (volume_to_units volume) ev], t)"
    "line t = line d" "journal (book t) = journal (book d) @ J" "in_flight (book t) coid = in_flight (book d) coid"
    "\<exists>done_qty venue_id ex. Confirm_entry coid (volume_to_units volume) done_qty venue_id ex \<in> snd ` set J"
proof -
  obtain u J where u: "persist_entry X coid (x_order ev) (volume_to_units volume) (volume_to_units (o_executedVolume (x_order ev))) d = (Inr (), u)"
    "line u = line d" "journal (book u) = journal (book d) @ J" "in_flight (book u) coid = in_flight (book d) coid"
    "\<exists>done_qty venue_id ex. Confirm_entry coid (volume_to_units volume) done_qty venue_id ex \<in> snd ` set J
       \<and> volume_to_units (o_executedVolume (x_order ev)) \<le> done_qty"
    by (rule persist_run [OF assms, where coid = coid and o' = "x_order ev" and q = "volume_to_units volume"
          and filled = "volume_to_units (o_executedVolume (x_order ev))" and d = d and c = coid]) (rule that)
  let ?t = "snd (entry_tail X I rules coid volume req ev d)"
  have "entry_tail X I rules coid volume req ev d = (Inr [entry_order I rules coid (volume_to_units volume) ev], ?t)
     \<and> line ?t = line u \<and> journal (book ?t) = journal (book u) \<and> in_flight (book ?t) = in_flight (book u)"
    using u(1) by (simp add: entry_tail_def Let_def seq_def note_that_def on_book_def split: option.split)
  with u show thesis by (intro that [of ?t J]) auto
qed

lemma place_entry_steps:
  assumes "out_of_range rules qty = None"
    and "entry_request (account_field d) rules V I coid volume = Inr req"
    and "coid = v_coid V (if en_stop_fired I then Kind_entry_stop else Kind_entry)" "volume = quantize_volume qty (step_volume rules)"
  shows "place_entry_order X V I rules qty d =
     seq (register_entry X I coid (volume_to_units volume) req) (\<lambda>_.
     seq (on_book (\<lambda>b. b\<lparr>in_flight := (in_flight b)(coid \<mapsto> (en_symbol I, signed (en_side I) (volume_to_units volume)))\<rparr>)) (\<lambda>_.
     seq (dispatch_entry X coid req) (entry_tail X I rules coid volume req))) d"
  unfolding place_entry_order_def Let_def assms(3) [symmetric] assms(4) [symmetric] using assms(1,2) by simp

lemma dispatch_entry_run:
  assumes run: "dispatch_entry X coid req d = (r, t)" and j: "journaled X" and own: "minds_own X coid"
    and gate: "quarantine_gate (venue X)" and ans: "answers_certain (venue X)"
  shows "\<exists>l J. sent (line t) = sent (line d) @ l \<and> (\<forall>(u, w, q) \<in> set l. q = ProtoOANewOrderReq req \<or> is_handshake q)
     \<and> journal (book t) = journal (book d) @ J \<and> in_flight (book t) coid = None
     \<and> (case r of
          Inr ev \<Rightarrow> 1 \<le> sends_of (ProtoOANewOrderReq req) l
        | Inl f \<Rightarrow> (is_disposition_unknown (fst f) \<longrightarrow> Mark_unknown coid \<in> snd ` set J)
            \<and> (is_order_reject X (fst f) \<longrightarrow> Mark_rejected coid \<in> snd ` set J)
            \<and> (write_refused X f \<longrightarrow>
                refused_sends (venue X) (ProtoOANewOrderReq req) (waits (line d)) (sends_of (ProtoOANewOrderReq req) l)))"
proof -
  let ?m = "ProtoOANewOrderReq req"
  obtain q u where q: "dispatch_order X ?m coid ''entry'' None d = (q, u)" by fastforce
  have nh: "\<not> is_handshake ?m" by (simp add: is_handshake_def)
  from dispatch_run [OF q nh gate ans] obtain l where l: "sent (line u) = sent (line d) @ l"
    "case q of Inr ev \<Rightarrow> 1 \<le> sends_of ?m l \<and> \<not> refusal (Inr (ProtoOAExecutionEvent ev))
                   \<and> (\<exists>k \<ge> waits (line d). answer (venue X) k ?m = Inr (ProtoOAExecutionEvent ev))
        | Inl f \<Rightarrow> (write_refused X f \<or> is_skip (fst f) \<longrightarrow> refused_sends (venue X) ?m (waits (line d)) (sends_of ?m l))
                   \<and> (is_disposition_unknown (fst f) \<longrightarrow> 1 \<le> sends_of ?m l)" by blast
  from dispatch_log [OF q] l(1) have log: "\<forall>(u, w, q) \<in> set l. q = ?m \<or> is_handshake q" by auto
  from addsD [OF adds_dispatch [OF own] q] obtain J0 where J0: "journal (book u) = journal (book d) @ J0" by (auto simp: grew_def)
  show ?thesis
  proof (cases q)
    case (Inr ev)
    with run q have "r = Inr ev" "t = entry_answered coid (Some ev) False u" by (simp_all add: dispatch_entry_def)
    with l log J0 Inr show ?thesis by (intro exI [of _ l] exI [of _ J0]) (simp add: entry_answered_def)
  next
    case (Inl f)
    obtain v J where v: "(entry_failed X coid f u :: (raised + exec_event) \<times> desk) = (Inl f, v)" "line v = line u"
      "journal (book v) = journal (book u) @ J" "in_flight (book v) = (in_flight (book u))(coid := None)"
      "is_disposition_unknown (fst f) \<longrightarrow> Mark_unknown coid \<in> snd ` set J"
      "\<not> is_disposition_unknown (fst f) \<and> is_order_reject X (fst f) \<longrightarrow> Mark_rejected coid \<in> snd ` set J"
      using entry_failed_run [OF j, of coid f u] by (elim exE conjE) (rule that)
    have rt: "r = Inl f" "t = v" using run q Inl v(1) by (simp_all add: dispatch_entry_def)
    have "is_order_reject X (fst f) \<Longrightarrow> \<not> is_disposition_unknown (fst f)"
      by (auto simp: is_order_reject_def is_disposition_unknown_def split: exn.splits)
    with l log J0 Inl v rt show ?thesis by (intro exI [of _ l] exI [of _ "J0 @ J"]) auto
  qed
qed

text \<open>
  C22: An entry is journalled before it can exist. An entry outside the venue's volume bounds, or without the
  price its type needs, is declined without a request, a journal write or a trace in the dispatches in
  flight. Otherwise its row is created before the first request of the operation is written; only this
  order (and the handshake of a lost session) is written; and when the operation ends the dispatch is
  no longer in flight and the journal holds the outcome: the row confirmed when the venue accepted the
  order, marked unknown or rejected when it was, and an entry whose failure allows a retry was refused
  at every send. (The other tasks of the plugin write their own rows.)
\<close>

theorem entry_persist_first:
  assumes "place_entry_order X V I rules qty d = (r, t)" and "journaled X" and "minds_own X coid"
    and "coid = v_coid V (if en_stop_fired I then Kind_entry_stop else Kind_entry)"
    and "quarantine_gate (venue X)" and "answers_certain (venue X)"
  shows "case out_of_range rules qty of
      Some e \<Rightarrow> r = Inl (e, None) \<and> t = d
    | None \<Rightarrow>
        (case entry_request (account_field d) rules V I coid (quantize_volume qty (step_volume rules)) of
           Inl e \<Rightarrow> r = Inl (e, None) \<and> t = d
         | Inr req \<Rightarrow>
             (\<exists>l J q. sent (line t) = sent (line d) @ l \<and> (\<forall>(u, w, m) \<in> set l. m = ProtoOANewOrderReq req \<or> is_handshake m)
                \<and> journal (book t) = journal (book d) @ (length (sent (line d)),
                    Create_entry coid (en_symbol I) (en_side I) q (en_key I) (en_pine_id I) (en_type I \<noteq> Market)) # J
                \<and> in_flight (book t) coid = None
                \<and> (case r of
                     Inr os \<Rightarrow> 1 \<le> sends_of (ProtoOANewOrderReq req) l
                       \<and> (\<exists>done_qty venue_id ex. Confirm_entry coid q done_qty venue_id ex \<in> snd ` set J)
                   | Inl f \<Rightarrow> (is_disposition_unknown (fst f) \<longrightarrow> Mark_unknown coid \<in> snd ` set J)
                       \<and> (is_order_reject X (fst f) \<longrightarrow> Mark_rejected coid \<in> snd ` set J)
                       \<and> (write_refused X f \<longrightarrow> refused_sends (venue X) (ProtoOANewOrderReq req) (waits (line d))
                            (sends_of (ProtoOANewOrderReq req) l)))))"
proof (cases "\<exists>req. out_of_range rules qty = None
    \<and> entry_request (account_field d) rules V I coid (quantize_volume qty (step_volume rules)) = Inr req")
  case False
  with assms(1) show ?thesis
    unfolding place_entry_order_def Let_def assms(4) [symmetric] by (auto split: option.splits sum.splits)
next
  case True
  define volume where "volume = quantize_volume qty (step_volume rules)"
  from True obtain req where ok: "out_of_range rules qty = None" "entry_request (account_field d) rules V I coid volume = Inr req"
    by (auto simp: volume_def)
  obtain d1 J1 where d1: "register_entry X I coid (volume_to_units volume) req d = (Inr (), d1)" "line d1 = line d"
    "journal (book d1) = journal (book d) @ (length (sent (line d)),
        Create_entry coid (en_symbol I) (en_side I) (volume_to_units volume) (en_key I) (en_pine_id I) (en_type I \<noteq> Market)) # J1"
    using register_run [OF assms(2)] by blast
  define d2 where "d2 = d1\<lparr>book := (book d1)\<lparr>in_flight := (in_flight (book d1))(coid \<mapsto> (en_symbol I, signed (en_side I) (volume_to_units volume)))\<rparr>\<rparr>"
  obtain q u where q: "dispatch_entry X coid req d2 = (q, u)" by fastforce
  have rest: "(r, t) = (case q of Inl f \<Rightarrow> (Inl f, u) | Inr ev \<Rightarrow> entry_tail X I rules coid volume req ev u)"
    using assms(1) place_entry_steps [OF ok assms(4) volume_def] d1(1) q
    by (simp add: on_book_def seq_def d2_def split: sum.splits)
  from dispatch_entry_run [OF q assms(2,3,5,6)] obtain l J where u: "sent (line u) = sent (line d2) @ l"
    "\<forall>(u, w, q) \<in> set l. q = ProtoOANewOrderReq req \<or> is_handshake q"
    "journal (book u) = journal (book d2) @ J" "in_flight (book u) coid = None"
    and out: "case q of
          Inr ev \<Rightarrow> 1 \<le> sends_of (ProtoOANewOrderReq req) l
        | Inl f \<Rightarrow> (is_disposition_unknown (fst f) \<longrightarrow> Mark_unknown coid \<in> snd ` set J)
            \<and> (is_order_reject X (fst f) \<longrightarrow> Mark_rejected coid \<in> snd ` set J)
            \<and> (write_refused X f \<longrightarrow>
                refused_sends (venue X) (ProtoOANewOrderReq req) (waits (line d2)) (sends_of (ProtoOANewOrderReq req) l))" by blast
  have d2: "line d2 = line d" "journal (book d2) = journal (book d1)" using d1(2) by (simp_all add: d2_def)
  show ?thesis
  proof (cases q)
    case (Inl f)
    with rest u out d1(3) d2 show ?thesis
      by (simp add: ok(1) ok(2) [unfolded volume_def])
        (intro exI [of _ l] conjI exI [of _ "J1 @ J"] exI [of _ "volume_to_units volume"]; auto)
  next
    case (Inr ev)
    obtain v K where v: "entry_tail X I rules coid volume req ev u = (Inr [entry_order I rules coid (volume_to_units volume) ev], v)"
      "line v = line u" "journal (book v) = journal (book u) @ K" "in_flight (book v) coid = in_flight (book u) coid"
      "\<exists>done_qty venue_id ex. Confirm_entry coid (volume_to_units volume) done_qty venue_id ex \<in> snd ` set K"
      by (rule entry_tail_run [OF assms(2), where I = I and rules = rules and coid = coid and volume = volume and req = req
            and ev = ev and d = u]) (rule that)
    from rest Inr v(1) have "r = Inr [entry_order I rules coid (volume_to_units volume) ev]" "t = v" by simp_all
    moreover have "\<exists>done_qty venue_id ex. Confirm_entry coid (volume_to_units volume) done_qty venue_id ex \<in> snd ` set (J1 @ J @ K)"
      using v(5) unfolding set_append image_Un by blast
    ultimately show ?thesis
      using u out d1(3) d2 v Inr unfolding ok(1) option.case ok(2) [unfolded volume_def] sum.case
      by (intro exI [of _ l] exI [of _ "J1 @ J @ K"] exI [of _ "volume_to_units volume"]) simp
  qed
qed

section \<open>Reading the account\<close>

text \<open>Every value the coroutine returns satisfies \<open>P\<close>.\<close>

definition yields :: "('a \<Rightarrow> bool) \<Rightarrow> 'a coro \<Rightarrow> bool" where
  "yields P m \<longleftrightarrow> (\<forall>s x t. m s = (Inr x, t) \<longrightarrow> P x)"

lemma yieldsD: "yields P m \<Longrightarrow> m s = (Inr x, t) \<Longrightarrow> P x"
  by (auto simp: yields_def)

lemma yields_basic [simp]: "yields P (ret x) \<longleftrightarrow> P x" "yields P (throw e)"
  by (auto simp: yields_def)

lemma yields_seq: "(\<And>x. yields P (f x)) \<Longrightarrow> yields P (seq m f)"
  by (auto simp: yields_def seq_Inr_iff)

lemma yields_seq_with: "yields Q m \<Longrightarrow> (\<And>x. Q x \<Longrightarrow> yields P (f x)) \<Longrightarrow> yields P (seq m f)"
  by (fastforce simp: yields_def seq_Inr_iff)

lemma yields_catch: "yields P m \<Longrightarrow> (\<And>e. yields P (h e)) \<Longrightarrow> yields P (catch m h)"
  unfolding yields_def catch_def by (fastforce split: prod.splits sum.splits)

lemma yields_retry_loop: "yields P call \<Longrightarrow> yields P (retry_loop E call dl a left)"
proof (induction left arbitrary: a)
  case (Suc left)
  then show ?case by (auto intro!: yields_catch yields_seq split: exn.split)
qed simp

definition answered :: "outside \<Rightarrow> msg \<Rightarrow> msg \<Rightarrow> bool" where
  "answered E req m \<longleftrightarrow> (\<exists>k. answer E k req = Inr m)"

lemma yields_send: "yields (answered E req) (send_request E w g req)"
  unfolding yields_def answered_def using send_request_cases by fastforce

lemma yields_raw: "yields (answered E req) (account_request_raw E repr_of cfg vw req)"
proof -
  have first: "yields (case_sum (answered E req) (\<lambda>_. True)) (first_send E w vw req)" for w
    unfolding first_send_def
    by (intro yields_catch yields_seq_with [OF yields_send]) (auto split: option.split exn.split)
  have second: "yields (answered E req) (second_send E w vw req)" for w
    unfolding second_send_def
    by (rule yields_seq_with [OF yields_catch [OF yields_send]]) auto
  show ?thesis
    unfolding account_request_raw_def
    by (auto split: option.split sum.split intro!: yields_seq yields_seq_with [OF first] second)
qed

lemma yields_account_request: "yields (answered E req) (account_request E repr_of cfg req)"
  unfolding account_request_def retry_default_def
  by (intro yields_catch) (auto simp: yields_def retry_rate_limited_def dest: yieldsD [OF yields_retry_loop [OF yields_raw]]
      split: exn.splits)

lemma logs_account_request: "logs (\<lambda>m. m = req \<or> is_handshake m) (account_request E repr_of cfg req)"
  unfolding account_request_def
  by (intro logs_catch logs_retry_default logs_raw) (auto split: exn.split)

section \<open>Closing a position\<close>

definition is_close :: "msg \<Rightarrow> bool" where
  "is_close m \<longleftrightarrow> (case m of ProtoOAClosePositionReq _ _ _ \<Rightarrow> True | _ \<Rightarrow> False)"

lemma handshake_no_close: "is_handshake m \<Longrightarrow> \<not> is_close m"
  by (cases m) (simp_all add: is_handshake_def is_close_def)

text \<open>A position the venue showed open for the symbol in a snapshot of the account.\<close>

definition shown_open :: "outside \<Rightarrow> int \<Rightarrow> int \<Rightarrow> bool" where
  "shown_open E w p \<longleftrightarrow>
     (\<exists>account with_protection ps os. answered E (ProtoOAReconcileReq account with_protection) (ProtoOAReconcileRes ps os)
        \<and> (\<exists>pos \<in> set ps. of_symbol w pos \<and> p_positionId pos = p))"

lemma read_account_run:
  assumes "read_account X req d = (q, u)" and "\<not> is_close req"
  shows "(\<exists>l. sent (line u) = sent (line d) @ l \<and> (\<forall>(v, k, m) \<in> set l. \<not> is_close m))
     \<and> (\<forall>m. q = Inr m \<longrightarrow> answered (venue X) req m)"
proof -
  obtain r t where r: "account_request (venue X) (repr X) (conf X) req (line d) = (r, t)" by fastforce
  have q: "q = map_sum (\<lambda>e. (e, None)) id r" "line u = t" using assms(1) r by (auto simp: read_account_def on_line_def)
  from logsD [OF logs_account_request r] assms(2) handshake_no_close
  have "\<exists>l. sent t = sent (line d) @ l \<and> (\<forall>(v, k, m) \<in> set l. \<not> is_close m)" by (fastforce simp: later_def)
  moreover have "answered (venue X) req m" if "q = Inr m" for m
    using yieldsD [OF yields_account_request, of "venue X" "repr X" "conf X" req "line d" m t] r q that by (cases r) auto
  ultimately show ?thesis using q(2) by simp
qed

lemma reconcile_run:
  assumes "reconcile X wp d = (q, u)"
  shows "(\<exists>l. sent (line u) = sent (line d) @ l \<and> (\<forall>(v, k, m) \<in> set l. \<not> is_close m))
     \<and> (\<forall>ps os. q = Inr (ps, os) \<longrightarrow> (\<exists>account. answered (venue X) (ProtoOAReconcileReq account wp) (ProtoOAReconcileRes ps os)))"
proof (cases "live d")
  case None
  with assms show ?thesis by (auto simp: reconcile_def not_live_def)
next
  case (Some account)
  let ?req = "ProtoOAReconcileReq account wp"
  obtain r t where r: "read_account X ?req d = (r, t)" by fastforce
  note rr = read_account_run [OF r]
  have nc: "\<not> is_close ?req" by (simp add: is_close_def)
  show ?thesis
  proof (cases r)
    case (Inl f)
    with assms r Some have "q = Inl f" "u = t" by (simp_all add: reconcile_def seq_def)
    with rr [OF nc] show ?thesis by simp
  next
    case (Inr m)
    with assms r Some have "line u = line t" "\<And>ps os. q = Inr (ps, os) \<Longrightarrow> m = ProtoOAReconcileRes ps os"
      by (auto simp: reconcile_def seq_def on_book_def split: msg.splits)
    with rr [OF nc] Inr show ?thesis by auto
  qed
qed

lemma find_open_run:
  assumes "names (book d) symb = Some w" and "find_open_position_id X symb d = (q, u)"
  shows "(\<exists>l. sent (line u) = sent (line d) @ l \<and> (\<forall>(v, k, m) \<in> set l. \<not> is_close m))
     \<and> (\<forall>p. q = Inr (Some p) \<longrightarrow> shown_open (venue X) w p)"
proof -
  obtain r t where r: "reconcile X False d = (r, t)" by fastforce
  have run: "(q, u) = (case r of Inl f \<Rightarrow> (Inl f, t) | Inr res \<Rightarrow> (Inr (map_option p_positionId (find (of_symbol w) (fst res))), t))"
    using assms r by (auto simp: find_open_position_id_def resolve_symbol_id_def seq_def split: sum.splits)
  note rr = reconcile_run [OF r]
  have "shown_open (venue X) w p" if q: "q = Inr (Some p)" for p
  proof -
    from run q have "\<exists>res. r = Inr res \<and> map_option p_positionId (find (of_symbol w) (fst res)) = Some p"
      by (cases r) auto
    then obtain res where res: "r = Inr res" "map_option p_positionId (find (of_symbol w) (fst res)) = Some p" by blast
    obtain ps os where ps: "res = (ps, os)" by (cases res)
    with res obtain pos where pos: "find (of_symbol w) ps = Some pos" "p_positionId pos = p" by auto
    then have "pos \<in> set ps" "of_symbol w pos" by (auto simp: find_Some_iff)
    moreover from rr res(1) ps obtain account where
      "answered (venue X) (ProtoOAReconcileReq account False) (ProtoOAReconcileRes ps os)" by blast
    ultimately show ?thesis using pos(2) unfolding shown_open_def by blast
  qed
  moreover have "u = t" using run by (auto split: sum.splits)
  ultimately show ?thesis using rr by simp
qed

text \<open>The close itself, and how its failure is raised.\<close>

lemma send_own_close_run:
  assumes run: "send_own_close X p v coid ctx d = (r, t)"
    and gate: "quarantine_gate (venue X)" and ans: "answers_certain (venue X)"
  shows "\<exists>a l. let req = ProtoOAClosePositionReq a p v in
     sent (line t) = sent (line d) @ l \<and> (\<forall>(u, k, m) \<in> set l. is_close m \<longrightarrow> m = req)
     \<and> (case r of
          Inr ev \<Rightarrow> 1 \<le> sends_of req l
        | Inl f \<Rightarrow> write_refused X f \<or> is_skip (fst f) \<longrightarrow> refused_sends (venue X) req (waits (line d)) (sends_of req l))"
proof -
  let ?d = "snd (note_that (Close_opened coid p (volume_to_units v)) d)"
  let ?req = "ProtoOAClosePositionReq (account_field ?d) p v"
  obtain q u where q: "dispatch_order X ?req coid ctx None ?d = (q, u)" by fastforce
  have nh: "\<not> is_handshake ?req" by (simp add: is_handshake_def)
  have d: "line ?d = line d" by (simp add: note_that_def on_book_def)
  obtain l where l: "sent (line u) = sent (line d) @ l"
    "case q of Inr ev \<Rightarrow> 1 \<le> sends_of ?req l
        | Inl f \<Rightarrow> write_refused X f \<or> is_skip (fst f) \<longrightarrow> refused_sends (venue X) ?req (waits (line d)) (sends_of ?req l)"
    using dispatch_run [OF q nh gate ans] unfolding d by (cases q) auto
  from dispatch_log [OF q] l(1) d have log: "\<forall>(w, k, m) \<in> set l. is_close m \<longrightarrow> m = ?req"
    using handshake_no_close by fastforce
  have "(\<exists>f. q = Inl f \<and> r = Inl f) \<or> (\<exists>ev. q = Inr ev \<and> r = Inr ev)" "line t = line u"
    using run q
    by (auto simp: send_own_close_def note_that_def on_book_def seq_def catch_def split: sum.splits option.splits if_splits)
  with l log show ?thesis unfolding Let_def by (intro exI [of _ "account_field ?d"] exI [of _ l]) auto
qed

lemma close_failed_run:
  "\<exists>f'. (close_failed X I f d :: (raised + 'b) \<times> desk) = (Inl f', d)
     \<and> (write_refused X f' \<or> is_skip (fst f') \<longrightarrow> write_refused X f \<or> is_skip (fst f))"
proof (cases f)
  case (Pair e c)
  show ?thesis
  proof (cases "is_order_reject X e \<and> cause_code c \<noteq> None")
    case True
    then have "write_refused X f"
      by (auto simp: Pair write_refused_def cause_code_def is_protocol_error_def split: option.splits exn.splits)
    then show ?thesis using True by (auto simp: Pair close_failed_def nothing_to_close_def)
  next
    case False
    then have "(close_failed X I f d :: (raised + 'b) \<times> desk) = (Inl f, d)"
      by (auto simp: Pair close_failed_def split: option.splits bool.splits)
    then show ?thesis by blast
  qed
qed

text \<open>
  C23: A close is sent only against a position the venue itself showed. When the symbol is known, every close
  request an \<open>execute_close\<close> writes names one position that was open for the intent's symbol in a snapshot
  of the account, with the intent's volume on the venue's step; a close that returns an order was written;
  and one that is skipped (nothing to close, position busy), or whose failure allows a retry, was refused
  at every send. When no position is open nothing is closed.
\<close>

theorem close_targets_symbol:
  assumes "execute_close X V I d = (r, t)" and "known_rules (book d) (cl_symbol I) = Some rules"
    and "names (book d) (cl_symbol I) = Some w"
    and "quarantine_gate (venue X)" and "answers_certain (venue X)"
  shows "\<exists>l. sent (line t) = sent (line d) @ l
     \<and> (((\<forall>(u, k, m) \<in> set l. \<not> is_close m) \<and> (\<forall>x. r \<noteq> Inr x))
        \<or> (\<exists>a p k. let req = ProtoOAClosePositionReq a p (quantize_volume (cl_qty I) (step_volume rules)) in
             shown_open (venue X) w p \<and> (\<forall>(u, k, m) \<in> set l. is_close m \<longrightarrow> m = req)
             \<and> (case r of
                  Inr x \<Rightarrow> 1 \<le> sends_of req l
                | Inl f \<Rightarrow> write_refused X f \<or> is_skip (fst f) \<longrightarrow> refused_sends (venue X) req k (sends_of req l))))"
proof -
  let ?coid = "v_coid V Kind_close" and ?vol = "quantize_volume (cl_qty I) (step_volume rules)"
  obtain q u where q: "find_open_position_id X (cl_symbol I) d = (q, u)" by fastforce
  obtain l1 where l1: "sent (line u) = sent (line d) @ l1" "\<forall>(v, k, m) \<in> set l1. \<not> is_close m"
    "\<And>p. q = Inr (Some p) \<Longrightarrow> shown_open (venue X) w p"
    using find_open_run [OF assms(3) q] by blast
  show ?thesis
  proof (cases "\<exists>p. q = Inr (Some p)")
    case False
    then have "t = u" "\<forall>x. r \<noteq> Inr x"
      using assms(1,2) q
      by (auto simp: execute_close_def get_symbol_rules_def seq_def nothing_to_close_def Let_def split: sum.splits option.splits if_splits)
    with l1 show ?thesis by blast
  next
    case True
    then obtain p where p: "q = Inr (Some p)" by blast
    define e where "e = u\<lparr>book := (book u)\<lparr>close_pine := (close_pine (book u))(p \<mapsto> (if cl_pine_id I \<noteq> [] then Some (cl_pine_id I) else None))\<rparr>\<rparr>"
    obtain x v where x: "send_own_close X p ?vol ?coid ''close'' e = (x, v)" by fastforce
    obtain a l2 where l2: "sent (line v) = sent (line e) @ l2"
      "\<forall>(u, k, m) \<in> set l2. is_close m \<longrightarrow> m = ProtoOAClosePositionReq a p ?vol"
      "case x of Inr ev \<Rightarrow> 1 \<le> sends_of (ProtoOAClosePositionReq a p ?vol) l2
        | Inl f \<Rightarrow> write_refused X f \<or> is_skip (fst f) \<longrightarrow>
            refused_sends (venue X) (ProtoOAClosePositionReq a p ?vol) (waits (line e)) (sends_of (ProtoOAClosePositionReq a p ?vol) l2)"
      using send_own_close_run [OF x assms(4,5)] unfolding Let_def by blast
    have run: "(r, t) = (case (case x of Inl f \<Rightarrow> (close_failed X I f v :: (raised + exec_event) \<times> desk) | Inr ev \<Rightarrow> (Inr ev, v)) of
          (Inl f, v') \<Rightarrow> (Inl f, v')
        | (Inr ev, v') \<Rightarrow> seq (jot X (Audit ''close_dispatched'' (Some ?coid))) (\<lambda>_. ret (close_order I p ?coid (volume_to_units ?vol) ev)) v')"
      using assms(1,2) q p x
      by (cases x) (simp_all add: execute_close_def get_symbol_rules_def seq_def catch_def Let_def on_book_def e_def)
    have no: "sends_of (ProtoOAClosePositionReq a p ?vol) l1 = 0"
      using l1(2) by (fastforce simp: sends_of_def is_close_def filter_empty_conv)
    have "line t = line v \<and> (case r of
          Inr y \<Rightarrow> \<exists>ev. x = Inr ev
        | Inl f \<Rightarrow> \<exists>f'. x = Inl f' \<and> (write_refused X f \<or> is_skip (fst f) \<longrightarrow> write_refused X f' \<or> is_skip (fst f')))"
    proof (cases x)
      case (Inl f)
      obtain f' where "(close_failed X I f v :: (raised + exec_event) \<times> desk) = (Inl f', v)"
        "write_refused X f' \<or> is_skip (fst f') \<longrightarrow> write_refused X f \<or> is_skip (fst f)"
        using close_failed_run by blast
      with run Inl show ?thesis by simp
    next
      case (Inr ev)
      with run show ?thesis by (simp add: jot_def)
    qed
    then have "sent (line t) = sent (line d) @ (l1 @ l2) \<and> (case r of
          Inr y \<Rightarrow> 1 \<le> sends_of (ProtoOAClosePositionReq a p ?vol) (l1 @ l2)
        | Inl f \<Rightarrow> write_refused X f \<or> is_skip (fst f) \<longrightarrow> refused_sends (venue X) (ProtoOAClosePositionReq a p ?vol) (waits (line e))
            (sends_of (ProtoOAClosePositionReq a p ?vol) (l1 @ l2)))"
      using l1(1) l2(1,3) no by (cases r) (auto simp: e_def)
    moreover have "\<forall>(u, k, m) \<in> set (l1 @ l2). is_close m \<longrightarrow> m = ProtoOAClosePositionReq a p ?vol"
      using l1(2) l2(2) by fastforce
    ultimately show ?thesis using l1(3) [OF p] unfolding Let_def by blast
  qed
qed

section \<open>Cancelling a working order\<close>

text \<open>The event waits in the plugin's event queue, when the live stream runs.\<close>

definition surfaced :: "exec_event \<Rightarrow> desk \<Rightarrow> bool" where
  "surfaced ev d \<longleftrightarrow> (\<forall>q. exec_events (book d) = Some q \<longrightarrow> ProtoOAExecutionEvent ev \<in> set q)"

lemma judge_answer_Inr:
  "judge_answer ctx m d = (Inr ev, t) \<Longrightarrow> is_fill ev \<longrightarrow> surfaced ev t"
  by (cases m) (auto simp: judge_answer_def raise_mapped_def surface_fill_def on_book_def surfaced_def seq_def
      split: if_splits exn.splits option.splits)

lemma dispatch_surfaced:
  assumes "dispatch_order X req coid ctx preds d = (Inr ev, t)"
  shows "is_fill ev \<longrightarrow> surfaced ev t"
proof (cases "0 < limit_until (book d) - now (line d)")
  case True
  with assms show ?thesis by (simp add: dispatch_order_def)
next
  case False
  let ?d = "d\<lparr>book := (book d)\<lparr>limit_until := 0\<rparr>\<rparr>"
  obtain q u where q: "account_request_raw (venue X) (repr X) (conf X) True req (line ?d) = (q, u)" by fastforce
  define d1 where "d1 = snd (on_line X (account_request_raw (venue X) (repr X) (conf X) True req) ?d)"
  have on: "on_line X (account_request_raw (venue X) (repr X) (conf X) True req) ?d = (map_sum (\<lambda>e. (e, None)) id q, d1)"
    using q by (simp add: on_line_def d1_def)
  show ?thesis
  proof (cases q)
    case (Inl e)
    obtain f v where f: "(request_failed coid ctx preds e d1 :: (raised + msg) \<times> desk) = (Inl f, v)"
      by (rule request_failed_run [where coid = coid and ctx = ctx and preds = preds and e = e and d = d1 and X = X]) (rule that)
    with assms dispatch_parts(2) [OF False on [unfolded Inl] f] show ?thesis by simp
  next
    case (Inr m)
    obtain r' v where j: "judge_answer ctx m d1 = (r', v)" by fastforce
    with assms dispatch_parts(3) [OF False on [unfolded Inr] j] have "judge_answer ctx m d1 = (Inr ev, t)" by simp
    then show ?thesis by (rule judge_answer_Inr)
  qed
qed

definition cancel_send :: "floor \<Rightarrow> int \<Rightarrow> string \<Rightarrow> exec_event option deed" where
  "cancel_send X order_id coid =
     catch (seq (cancel_request X order_id coid ''cancel'') (\<lambda>ev. ret (Some ev)))
       (\<lambda>f. if already_gone X f then ret None else throw f)"

lemma already_gone_refused:
  assumes "already_gone X f" shows "write_refused X f"
proof (cases f)
  case (Pair e c)
  with assms have "is_order_reject X e" "cause_code c \<noteq> None" by (auto simp: already_gone_def split: option.splits)
  then show ?thesis
    by (auto simp: Pair write_refused_def cause_code_def is_protocol_error_def split: option.splits exn.splits)
qed

lemma cancel_send_parts:
  assumes "cancel_send X order_id coid d = (r, t)"
    and "dispatch_order X (ProtoOACancelOrderReq (account_field d) order_id) coid ''cancel'' None d = (q, u)"
  shows "t = u" "r = (case q of Inl f \<Rightarrow> (if already_gone X f then Inr None else Inl f) | Inr ev \<Rightarrow> Inr (Some ev))"
  using assms by (cases q; simp add: cancel_send_def cancel_request_def seq_def catch_def split: if_splits)+

lemma cancel_send_run:
  assumes run: "cancel_send X order_id coid d = (r, t)"
    and gate: "quarantine_gate (venue X)" and ans: "answers_certain (venue X)"
    and req: "req = ProtoOACancelOrderReq (account_field d) order_id"
  shows "\<exists>l. sent (line t) = sent (line d) @ l \<and> (\<forall>(u, k, m) \<in> set l. m = req \<or> is_handshake m) \<and> sends_of req l \<le> 2
     \<and> (case r of
          Inl f \<Rightarrow> \<not> already_gone X f \<and> (write_refused X f \<longrightarrow> refused_sends (venue X) req (waits (line d)) (sends_of req l))
        | Inr None \<Rightarrow> refused_sends (venue X) req (waits (line d)) (sends_of req l)
        | Inr (Some ev) \<Rightarrow> answered (venue X) req (ProtoOAExecutionEvent ev) \<and> (is_fill ev \<longrightarrow> surfaced ev t))"
proof -
  obtain q u where q: "dispatch_order X req coid ''cancel'' None d = (q, u)" by fastforce
  have nh: "\<not> is_handshake req" by (simp add: req is_handshake_def)
  note tu = cancel_send_parts(1) [OF run q [unfolded req]] and r = cancel_send_parts(2) [OF run q [unfolded req]]
  obtain l where l: "sent (line u) = sent (line d) @ l" "sends_of req l \<le> 2"
    "case q of Inr ev \<Rightarrow> answered (venue X) req (ProtoOAExecutionEvent ev)
        | Inl f \<Rightarrow> write_refused X f \<longrightarrow> refused_sends (venue X) req (waits (line d)) (sends_of req l)"
    using dispatch_run [OF q nh gate ans] unfolding answered_def by (cases q) fastforce+
  from dispatch_log [OF q] l(1) have "\<forall>(u, k, m) \<in> set l. m = req \<or> is_handshake m" by auto
  moreover have "case r of
          Inl f \<Rightarrow> \<not> already_gone X f \<and> (write_refused X f \<longrightarrow> refused_sends (venue X) req (waits (line d)) (sends_of req l))
        | Inr None \<Rightarrow> refused_sends (venue X) req (waits (line d)) (sends_of req l)
        | Inr (Some ev) \<Rightarrow> answered (venue X) req (ProtoOAExecutionEvent ev) \<and> (is_fill ev \<longrightarrow> surfaced ev t)"
  proof (cases q)
    case (Inl f)
    with l(3) r already_gone_refused [of X f] show ?thesis by (cases "already_gone X f") simp_all
  next
    case (Inr ev)
    with l(3) r tu dispatch_surfaced [of X req coid "''cancel''" None d ev u] q show ?thesis by simp
  qed
  ultimately show ?thesis using l(1,2) tu by (intro exI [of _ l]) simp
qed

lemma retire_run:
  "\<exists>t. retire_cancelled_working_order X order_id d = (Inr (), t) \<and> line t = line d \<and> exec_events (book t) = exec_events (book d)"
  by (simp add: retire_cancelled_working_order_def seq_def jot_def split: option.split)

lemma cancel_finish_run:
  assumes "seq (retire_cancelled_working_order X order_id) (\<lambda>_. seq (surface_cancel ev) (\<lambda>_. ret x)) d = (r, t)"
  shows "r = Inr x \<and> line t = line d \<and> surfaced ev t"
  using assms retire_run [of X order_id d]
  by (auto simp: seq_def surface_cancel_def on_book_def surfaced_def split: option.splits)

text \<open>
  A cancel claims what the venue said. When the journal names a working order, a cancel with outcome
  writes only cancel requests for that order, at most twice. It is confirmed only when the venue
  answered with its cancellation, and reported already filled only when the venue answered with its
  fill, and that event is then in the queue the engine reads; an unknown outcome means that every send
  was refused or that the venue answered with another event; and an exception that allows a retry means
  that every send was refused.
\<close>

theorem cancel_disposition:
  assumes run: "execute_cancel_with_outcome X V I d = (r, t)"
    and found: "find_working_order_id X (ca_symbol I) (ca_pine_id I) d = (Inr (Some order_id), d)"
    and gate: "quarantine_gate (venue X)" and ans: "answers_certain (venue X)"
    and req: "req = ProtoOACancelOrderReq (account_field d) order_id"
  shows "\<exists>l. sent (line t) = sent (line d) @ l \<and> (\<forall>(u, k, m) \<in> set l. m = req \<or> is_handshake m) \<and> sends_of req l \<le> 2
     \<and> (case r of
          Inr CANCEL_CONFIRMED \<Rightarrow> (\<exists>ev. answered (venue X) req (ProtoOAExecutionEvent ev)
            \<and> x_executionType ev = ORDER_CANCELLED \<and> surfaced ev t)
        | Inr ALREADY_FILLED \<Rightarrow> (\<exists>ev. answered (venue X) req (ProtoOAExecutionEvent ev)
            \<and> x_executionType ev = ORDER_FILLED \<and> surfaced ev t)
        | Inr CANCEL_UNKNOWN \<Rightarrow> refused_sends (venue X) req (waits (line d)) (sends_of req l)
            \<or> (\<exists>ev. answered (venue X) req (ProtoOAExecutionEvent ev) \<and> x_executionType ev \<noteq> ORDER_CANCELLED
                 \<and> x_executionType ev \<noteq> ORDER_FILLED)
        | Inl f \<Rightarrow> (write_refused X f \<longrightarrow> refused_sends (venue X) req (waits (line d)) (sends_of req l)))"
proof -
  obtain q u where q: "cancel_send X order_id (v_coid V Kind_cancel) d = (q, u)" by fastforce
  have split_run: "(r, t) = (case q of
       Inl f \<Rightarrow> (Inl f, u)
     | Inr None \<Rightarrow> (Inr CANCEL_UNKNOWN, u)
     | Inr (Some ev) \<Rightarrow>
         (if x_executionType ev = ORDER_CANCELLED
          then seq (retire_cancelled_working_order X order_id) (\<lambda>_. seq (surface_cancel ev) (\<lambda>_. ret CANCEL_CONFIRMED)) u
          else if x_executionType ev = ORDER_FILLED then (Inr ALREADY_FILLED, u) else (Inr CANCEL_UNKNOWN, u)))"
  proof (cases q)
    case (Inl f)
    with run found q show ?thesis by (simp add: execute_cancel_with_outcome_def cancel_send_def [symmetric] seq_def)
  next
    case (Inr x)
    with run found q show ?thesis
      by (cases x) (simp_all add: execute_cancel_with_outcome_def cancel_send_def [symmetric] seq_def split: if_splits)
  qed
  obtain l where l: "sent (line u) = sent (line d) @ l" "\<forall>(u, k, m) \<in> set l. m = req \<or> is_handshake m" "sends_of req l \<le> 2"
    "case q of
          Inl f \<Rightarrow> \<not> already_gone X f \<and> (write_refused X f \<longrightarrow> refused_sends (venue X) req (waits (line d)) (sends_of req l))
        | Inr None \<Rightarrow> refused_sends (venue X) req (waits (line d)) (sends_of req l)
        | Inr (Some ev) \<Rightarrow> answered (venue X) req (ProtoOAExecutionEvent ev) \<and> (is_fill ev \<longrightarrow> surfaced ev u)"
    using cancel_send_run [OF q gate ans req] by blast
  have "line t = line u \<and> (case r of
          Inr CANCEL_CONFIRMED \<Rightarrow> (\<exists>ev. q = Inr (Some ev) \<and> x_executionType ev = ORDER_CANCELLED \<and> surfaced ev t)
        | Inr ALREADY_FILLED \<Rightarrow> (\<exists>ev. q = Inr (Some ev) \<and> x_executionType ev = ORDER_FILLED \<and> t = u)
        | Inr CANCEL_UNKNOWN \<Rightarrow> q = Inr None \<or> (\<exists>ev. q = Inr (Some ev) \<and> x_executionType ev \<noteq> ORDER_CANCELLED
                 \<and> x_executionType ev \<noteq> ORDER_FILLED)
        | Inl f \<Rightarrow> q = Inl f)"
  proof (cases "\<exists>ev. q = Inr (Some ev) \<and> x_executionType ev = ORDER_CANCELLED")
    case True
    then obtain ev where ev: "q = Inr (Some ev)" "x_executionType ev = ORDER_CANCELLED" by blast
    then have "seq (retire_cancelled_working_order X order_id) (\<lambda>_. seq (surface_cancel ev) (\<lambda>_. ret CANCEL_CONFIRMED)) u = (r, t)"
      using split_run by simp
    from cancel_finish_run [OF this] ev show ?thesis by simp
  next
    case False
    with split_run show ?thesis by (auto split: sum.splits option.splits if_splits)
  qed
  with l show ?thesis
    by (intro exI [of _ l]) (auto simp: is_fill_def split: sum.splits cancel_outcome.splits)
qed

section \<open>A concrete desk\<close>

definition demo_books :: books where
  "demo_books = \<lparr>limit_until = 0, exec_events = Some [], journal = [], in_flight = Map.empty, close_pine = Map.empty,
     names = [''EURUSD'' \<mapsto> 1], known_rules = [''EURUSD'' \<mapsto> \<lparr>symbol_id = 1, digits = 5, min_volume = 100000,
       step_volume = 100000, max_volume = 10000000\<rparr>], quote_bid = None, snapshot = Map.empty, shared_logged = [],
     baselined = False, memos = []\<rparr>"

definition demo_desk :: desk where
  "demo_desk = \<lparr>line = demo_run, book = demo_books\<rparr>"

definition demo_floor :: "(nat \<Rightarrow> msg \<Rightarrow> exn + msg) \<Rightarrow> floor" where
  "demo_floor ans = \<lparr>venue = demo_outside ans, repr = (\<lambda>_. []), conf = demo_config, others = (\<lambda>_ b. b), journaled = True,
     get_row = (\<lambda>_ _. None), live_rows = (\<lambda>_. []), ref_row = (\<lambda>_ _ _. None), closed_rejects = True, wall = (\<lambda>_. 0),
     entry_states = [''confirmed''], working_kind = ''working'', adopted_mark = ''adopted_startup'',
     retired_mark = ''retired'', accepted_mark = ''accepted'', missing_mark = ''missing'', run_tag = ''r1'',
     keeps_levels = (\<lambda>_ _. False), bracket_rows = (\<lambda>_. []), leg_mark = ''leg'', pending_rows = (\<lambda>_. [])\<rparr>"

text \<open>A venue that answers nothing in time, and one that knows no symbol it is asked about.\<close>

definition silent :: "nat \<Rightarrow> msg \<Rightarrow> exn + msg" where
  "silent k q = Inl (CTraderTimeoutError ''request timed out'')"

definition refusing :: "nat \<Rightarrow> msg \<Rightarrow> exn + msg" where
  "refusing k q = Inl (CTraderProtocolError ''MARKET_CLOSED'' [] None)"

definition demo_ids :: envelope_ids where
  "demo_ids = \<lparr>v_coid = (\<lambda>_. ''r1-long-0''), v_tag = ''r1''\<rparr>"

definition demo_entry :: entry_intent where
  "demo_entry = \<lparr>en_symbol = ''EURUSD'', en_side = Buy, en_qty = 2000, en_type = Market, en_limit = None, en_stop = None,
     en_pine_id = ''long'', en_key = ''long'', en_comment = [], en_stop_fired = False\<rparr>"

definition demo_row :: row where
  "demo_row = \<lparr>r_coid = ''r1-long-0'', r_symbol = ''EURUSD'', r_side = Buy, r_state = ''confirmed'', r_qty = 1000,
     r_filled = 0, r_intent_key = None, r_pine_id = Some ''long'', r_exchange_id = None,
     r_extras = [''order_id'' \<mapsto> PyStr ''5''], r_closed = False, r_from_entry = None, r_created_ms = 0\<rparr>"

lemmas demo_simps = demo_floor_def demo_outside_def demo_desk_def demo_books_def demo_run_def silent_def refusing_def
  answers_certain_def quarantine_gate_def minds_own_def grew_def is_handshake_def is_protocol_error_def

lemma dispatch_disposition_witness:
  "\<exists>r t. dispatch_order (demo_floor silent) (ProtoOACancelOrderReq 7 5) ''c'' ''cancel'' None demo_desk = (r, t)
     \<and> sends_of (ProtoOACancelOrderReq 7 5) (sent (line t)) \<le> 2"
proof -
  obtain r t where run: "dispatch_order (demo_floor silent) (ProtoOACancelOrderReq 7 5) ''c'' ''cancel'' None demo_desk = (r, t)"
    by fastforce
  have "\<not> is_handshake (ProtoOACancelOrderReq 7 5)" "quarantine_gate (venue (demo_floor silent))"
    "answers_certain (venue (demo_floor silent))" "sent (line demo_desk) = []" by (simp_all add: demo_simps)
  with dispatch_disposition [OF run] run show ?thesis by auto
qed

lemma entry_persist_first_witness:
  "\<exists>r t J q. place_entry_order (demo_floor silent) demo_ids demo_entry
       \<lparr>symbol_id = 1, digits = 5, min_volume = 100000, step_volume = 100000, max_volume = 10000000\<rparr> (volume_to_units 200000) demo_desk = (r, t)
     \<and> journal (book t) = (0, Create_entry ''r1-long-0'' ''EURUSD'' Buy q ''long'' ''long'' False) # J
     \<and> in_flight (book t) ''r1-long-0'' = None"
proof -
  let ?rules = "\<lparr>symbol_id = 1, digits = 5, min_volume = 100000, step_volume = 100000, max_volume = 10000000\<rparr>"
  obtain r t where run: "place_entry_order (demo_floor silent) demo_ids demo_entry ?rules (volume_to_units 200000) demo_desk = (r, t)"
    by fastforce
  have h: "journaled (demo_floor silent)" "minds_own (demo_floor silent) ''r1-long-0''"
    "quarantine_gate (venue (demo_floor silent))" "answers_certain (venue (demo_floor silent))"
    "''r1-long-0'' = v_coid demo_ids (if en_stop_fired demo_entry then Kind_entry_stop else Kind_entry)"
    "journal (book demo_desk) = []" "sent (line demo_desk) = []" by (simp_all add: demo_simps demo_ids_def)
  have rng: "out_of_range ?rules (volume_to_units 200000) = None"
    using units_round_trip(1) [of 200000 1] by (simp add: out_of_range_def Let_def)
  obtain req where req: "entry_request (account_field demo_desk) ?rules demo_ids demo_entry ''r1-long-0''
      (quantize_volume (volume_to_units 200000) (step_volume ?rules)) = Inr req" by (simp add: entry_request_def demo_entry_def Let_def)
  note all = entry_persist_first [OF run h(1,2,5,3,4)]
  obtain J q where "journal (book t) = (0, Create_entry ''r1-long-0'' (en_symbol demo_entry) (en_side demo_entry) q
      (en_key demo_entry) (en_pine_id demo_entry) (en_type demo_entry \<noteq> Market)) # J" "in_flight (book t) ''r1-long-0'' = None"
    using all unfolding rng option.case req sum.case h(6,7) by (elim exE conjE) simp
  with run show ?thesis by (simp add: demo_entry_def)
qed

definition demo_close :: close_intent where
  "demo_close = \<lparr>cl_symbol = ''EURUSD'', cl_side = Sell, cl_qty = 2000, cl_pine_id = ''long'', cl_synthetic = None\<rparr>"

lemma close_targets_symbol_witness:
  "\<exists>r t. execute_close (demo_floor refusing) demo_ids demo_close demo_desk = (r, t)
     \<and> (filter (\<lambda>(u, k, m). is_close m) (sent (line t)) = [] \<or> (\<exists>p. shown_open (venue (demo_floor refusing)) 1 p))"
proof -
  obtain r t where run: "execute_close (demo_floor refusing) demo_ids demo_close demo_desk = (r, t)" by fastforce
  have h: "known_rules (book demo_desk) (cl_symbol demo_close) =
      Some \<lparr>symbol_id = 1, digits = 5, min_volume = 100000, step_volume = 100000, max_volume = 10000000\<rparr>"
    "names (book demo_desk) (cl_symbol demo_close) = Some 1"
    "quarantine_gate (venue (demo_floor refusing))" "answers_certain (venue (demo_floor refusing))"
    by (simp_all add: demo_simps demo_close_def)
  have "sent (line demo_desk) = []" by (simp add: demo_simps)
  with close_targets_symbol [OF run h] obtain l where l: "sent (line t) = l"
    "(\<forall>(u, k, m) \<in> set l. \<not> is_close m) \<or> (\<exists>p. shown_open (venue (demo_floor refusing)) 1 p)"
    unfolding Let_def by auto
  then have "filter (\<lambda>(u, k, m). is_close m) (sent (line t)) = [] \<or> (\<exists>p. shown_open (venue (demo_floor refusing)) 1 p)"
    by (auto simp: filter_empty_conv)
  with run show ?thesis by blast
qed

lemma cancel_disposition_witness:
  "\<exists>r t. execute_cancel_with_outcome (demo_floor silent\<lparr>live_rows := (\<lambda>_. [demo_row])\<rparr>) demo_ids
       \<lparr>ca_symbol = ''EURUSD'', ca_pine_id = ''long'', ca_from = None\<rparr> demo_desk = (r, t)
     \<and> sends_of (ProtoOACancelOrderReq (account_field demo_desk) 5) (sent (line t)) \<le> 2"
proof -
  let ?X = "demo_floor silent\<lparr>live_rows := (\<lambda>_. [demo_row])\<rparr>"
  let ?I = "\<lparr>ca_symbol = ''EURUSD'', ca_pine_id = ''long'', ca_from = None\<rparr>"
  obtain r t where run: "execute_cancel_with_outcome ?X demo_ids ?I demo_desk = (r, t)" by fastforce
  have id: "parse_protocol_id (PyStr ''5'') ''order_id'' = Inr 5" by code_simp
  have f: "find_working_order_id ?X (ca_symbol ?I) (ca_pine_id ?I) demo_desk = (Inr (Some 5), demo_desk)"
    by (simp add: find_working_order_id_def demo_floor_def seq_def lift_exn_def demo_row_def extra_def id)
  have h: "quarantine_gate (venue ?X)" "answers_certain (venue ?X)" "sent (line demo_desk) = []" by (simp_all add: demo_simps)
  from cancel_disposition [OF run f h(1,2) refl] h(3) run show ?thesis by auto
qed

end
