(* ===== verification/Account_State.thy ===== *)
theory Account_State
  imports Desk
begin

text \<open>
  The state queries of \<open>state.py\<close>: open orders, positions and legs from one snapshot, filtered to what this
  run owns, and the one-shot adoption baseline, which raises the fill cursors of the journal rows to what
  the adopted snapshot shows and books what a position lost meanwhile as retired exposure.
\<close>

section \<open>The adoption baseline\<close>

definition optional_id :: "row \<Rightarrow> string \<Rightarrow> exn + int option" where
  "optional_id r field = (case extra r field of None \<Rightarrow> Inr None | Some v \<Rightarrow> map_sum id Some (parse_protocol_id v field))"

definition cursor_baseline :: "(int \<rightharpoonup> int) \<Rightarrow> int set \<Rightarrow> row \<Rightarrow> exn + rat option" where
  "cursor_baseline executed opens r =
     (case optional_id r ''order_id'' of
        Inl e \<Rightarrow> Inl e
      | Inr oid \<Rightarrow>
          (if py_truth (extra r ''recovered_inconclusive'') then Inr None
           else case Option.bind oid executed of
                  Some v \<Rightarrow> Inr (Some (volume_to_units v))
                | None \<Rightarrow>
                    (if py_truth (extra r ''recovered_partial_terminal'') then Inr None
                     else case optional_id r ''position_id'' of
                            Inl e \<Rightarrow> Inl e
                          | Inr None \<Rightarrow> Inr None
                          | Inr (Some p) \<Rightarrow> Inr (if p \<in> opens then Some (r_qty r) else None))))"

definition raised_cursor :: "row \<Rightarrow> rat \<Rightarrow> rat option" where
  "raised_cursor r baseline =
     (let cumulative = min (r_qty r) (max (r_filled r) baseline)
      in if fadd (r_filled r) NANO < cumulative then Some cumulative else None)"

fun baseline_rows :: "floor \<Rightarrow> (int \<rightharpoonup> int) \<Rightarrow> int set \<Rightarrow> row list \<Rightarrow> unit deed" where
  "baseline_rows X executed opens [] = ret ()"
| "baseline_rows X executed opens (r # rs) =
     (case cursor_baseline executed opens r of
        Inl e \<Rightarrow> throw (e, None)
      | Inr b \<Rightarrow>
          seq (case Option.bind b (raised_cursor r) of
                 None \<Rightarrow> ret () | Some c \<Rightarrow> jot X (Set_filled (r_coid r) c)) (\<lambda>_.
          baseline_rows X executed opens rs))"

definition as_number :: "pyval \<Rightarrow> rat option" where
  "as_number v = (case v of PyInt n \<Rightarrow> Some (of_int n) | PyBool t \<Rightarrow> Some (if t then 1 else 0)
     | PyFloat q \<Rightarrow> Some q | _ \<Rightarrow> None)"

definition py_eq :: "pyval \<Rightarrow> pyval \<Rightarrow> bool" where
  "py_eq a b \<longleftrightarrow> (if as_number a \<noteq> None then as_number a = as_number b else a = b \<and> a \<noteq> PyOther)"

definition accepted_by_resume :: "floor \<Rightarrow> row \<Rightarrow> bool" where
  "accepted_by_resume X r \<longleftrightarrow>
     (case extra r (accepted_mark X) of
        None \<Rightarrow> False
      | Some a \<Rightarrow> (case extra r (missing_mark X) of None \<Rightarrow> as_number a = None | Some since \<Rightarrow> py_eq a since))"

text \<open>The rows of every open position, positions in the order of their first row.\<close>

fun shrink_rows :: "floor \<Rightarrow> int set \<Rightarrow> row list \<Rightarrow> exn + (int \<times> row) list" where
  "shrink_rows X opens [] = Inr []"
| "shrink_rows X opens (r # rs) =
     (if py_truth (extra r (adopted_mark X)) \<or> py_truth (extra r ''recovered_inconclusive'') then shrink_rows X opens rs
      else case optional_id r ''position_id'' of
             Inl e \<Rightarrow> Inl e
           | Inr None \<Rightarrow> shrink_rows X opens rs
           | Inr (Some p) \<Rightarrow> (if p \<in> opens then map_sum id (\<lambda>l. (p, r) # l) (shrink_rows X opens rs)
                             else shrink_rows X opens rs))"

definition rows_by_position :: "(int \<times> row) list \<Rightarrow> (int \<times> row list) list" where
  "rows_by_position prs =
     map (\<lambda>p. (p, map snd (filter (\<lambda>pr. fst pr = p) prs))) (rev (remdups (rev (map fst prs))))"

text \<open>The exposure a position lost against its only row; \<open>None\<close> when it lost none.\<close>

definition shrink_of :: "floor \<Rightarrow> rat \<Rightarrow> row \<Rightarrow> rat option" where
  "shrink_of X venue_remaining r =
     (let journal_remaining = max 0 (fsub (r_filled r) (number_or_zero (extra r (retired_mark X))))
      in if fsub journal_remaining NANO \<le> venue_remaining then None
         else Some (fsub journal_remaining venue_remaining))"

definition retire_position :: "floor \<Rightarrow> (int \<rightharpoonup> rat) \<Rightarrow> int \<times> row list \<Rightarrow> unit deed" where
  "retire_position X volumes pr =
     (case pr of (p, rows) \<Rightarrow>
        (let accepted = list_ex (accepted_by_resume X) rows in
         seq (if accepted then note_that (Resume_accepted p) else ret ()) (\<lambda>_.
         case rows of
           [r] \<Rightarrow>
             (case shrink_of X (case volumes p of Some v \<Rightarrow> v | None \<Rightarrow> 0) r of
                None \<Rightarrow> ret ()
              | Some lost \<Rightarrow>
                  seq (jot X (Set_extras (r_coid r) ((r_extras r)(retired_mark X \<mapsto>
                          PyFloat (fadd (number_or_zero (extra r (retired_mark X))) lost))))) (\<lambda>_.
                  seq (if accepted then jot X (Audit ''close_accepted_by_resume'' (Some (r_coid r)))
                       else note_that (Shrink_found p (r_coid r) lost)) (\<lambda>_.
                  jot X (Audit ''journal_exposure_retired'' (Some (r_coid r))))))
         | _ \<Rightarrow> ret ())))"

fun retire_positions :: "floor \<Rightarrow> (int \<rightharpoonup> rat) \<Rightarrow> (int \<times> row list) list \<Rightarrow> unit deed" where
  "retire_positions X volumes [] = ret ()"
| "retire_positions X volumes (pr # prs) =
     seq (retire_position X volumes pr) (\<lambda>_. retire_positions X volumes prs)"

definition open_volumes :: "position list \<Rightarrow> (int \<rightharpoonup> rat)" where
  "open_volumes ps = map_of (rev (map (\<lambda>p. (p_positionId p, volume_to_units (td_volume (p_tradeData p)))) (filter is_open ps)))"

definition retire_shrunk_exposure :: "floor \<Rightarrow> position list \<Rightarrow> unit deed" where
  "retire_shrunk_exposure X ps =
     (if \<not> journaled X then ret ()
      else seq (asks entries) (\<lambda>js.
           seq (lift_exn (shrink_rows X (dom (open_volumes ps)) (live_rows X js))) (\<lambda>prs.
           seq (retire_positions X (open_volumes ps) (rows_by_position prs)) (\<lambda>_.
           note_that Shrinks_restored))))"

definition executed_volumes :: "order list \<Rightarrow> (int \<rightharpoonup> int)" where
  "executed_volumes os = map_of (rev (map (\<lambda>o'. (o_orderId o', o_executedVolume o')) os))"

definition apply_adoption_baseline :: "floor \<Rightarrow> position list \<times> order list \<Rightarrow> unit deed" where
  "apply_adoption_baseline X res =
     seq (asks (\<lambda>d. (baselined (book d), entries d))) (\<lambda>(already, js).
     if \<not> journaled X \<or> already then ret ()
     else seq (on_book (\<lambda>b. b\<lparr>baselined := True\<rparr>)) (\<lambda>_.
          seq (baseline_rows X (executed_volumes (snd res)) (dom (open_volumes (fst res))) (live_rows X js)) (\<lambda>_.
          seq (retire_shrunk_exposure X (fst res)) (\<lambda>_.
          note_that Bare_rebaselined))))"

section \<open>Open orders\<close>

definition plain_type :: "order_type \<Rightarrow> ord_kind option" where
  "plain_type t = (case t of MARKET \<Rightarrow> Some Market | LIMIT \<Rightarrow> Some Limit | STOP \<Rightarrow> Some Stop | _ \<Rightarrow> None)"

definition plain_status :: "order_status \<Rightarrow> ord_status" where
  "plain_status s = (case s of ORDER_STATUS_ACCEPTED \<Rightarrow> Order_open | ORDER_STATUS_FILLED \<Rightarrow> Order_filled
     | ORDER_STATUS_REJECTED \<Rightarrow> Order_rejected | ORDER_STATUS_EXPIRED \<Rightarrow> Order_expired
     | ORDER_STATUS_CANCELLED \<Rightarrow> Order_cancelled)"

definition side_of :: "trade_side \<Rightarrow> side" where
  "side_of t = (case t of BUY \<Rightarrow> Buy | SELL \<Rightarrow> Sell)"

definition order_view :: "(int \<Rightarrow> string) \<Rightarrow> ord_kind \<Rightarrow> order \<Rightarrow> exchange_order" where
  "order_view name_of ty o' =
     (let qty = volume_to_units (td_volume (o_tradeData o')); filled = volume_to_units (o_executedVolume o')
      in \<lparr>xo_id = py_str (o_orderId o'), xo_symbol = name_of (td_symbolId (o_tradeData o')),
          xo_side = side_of (td_tradeSide (o_tradeData o')), xo_type = ty, xo_qty = qty, xo_filled = filled,
          xo_remaining = max 0 (fsub qty filled),
          xo_price = (if ty = Limit then Some (o_limitPrice o') else None),
          xo_stop = (if ty = Stop then Some (o_stopPrice o') else None),
          xo_average = (if o_executionPrice o' \<noteq> 0 then Some (o_executionPrice o') else None),
          xo_status = plain_status (o_orderStatus o'), xo_reduce_only = o_closingOrder o',
          xo_client_id = (if o_clientOrderId o' \<noteq> [] then Some (o_clientOrderId o') else None)\<rparr>)"

definition working_view :: "floor \<Rightarrow> jop list \<Rightarrow> (int \<Rightarrow> string) \<Rightarrow> int option \<Rightarrow> order \<Rightarrow> exchange_order option" where
  "working_view X js name_of want o' =
     (case plain_type (o_orderType o') of
        None \<Rightarrow> None
      | Some ty \<Rightarrow>
          (if (want \<noteq> None \<and> want \<noteq> Some (td_symbolId (o_tradeData o'))) \<or> \<not> order_is_owned X js o' then None
           else Some (order_view name_of ty o')))"

definition get_open_orders :: "floor \<Rightarrow> (int \<Rightarrow> string) \<Rightarrow> string option \<Rightarrow> exchange_order list deed" where
  "get_open_orders X name_of symbol =
     seq (reconcile X False) (\<lambda>(_, os).
     seq (case symbol of None \<Rightarrow> ret None | Some s \<Rightarrow> resolve_symbol_id X s) (\<lambda>want.
     if symbol \<noteq> None \<and> want = None then ret []
     else seq (asks entries) (\<lambda>js. ret (List.map_filter (working_view X js name_of want) os))))"

section \<open>Positions\<close>

record leg =
  l_id :: string
  l_side :: side
  l_qty :: rat
  l_entry :: rat
  l_opened :: rat

definition mine :: "int \<Rightarrow> int set option \<Rightarrow> position \<Rightarrow> bool" where
  "mine want owned p \<longleftrightarrow> of_symbol want p \<and> (case owned of None \<Rightarrow> True | Some ids \<Rightarrow> p_positionId p \<in> ids)"

definition price_digits :: "books \<Rightarrow> string \<Rightarrow> nat" where
  "price_digits b symbol = (case known_rules b symbol of Some r \<Rightarrow> digits r | None \<Rightarrow> 5)"

definition leg_view :: "nat \<Rightarrow> position \<Rightarrow> leg" where
  "leg_view dg p =
     \<lparr>l_id = py_str (p_positionId p), l_side = side_of (td_tradeSide (p_tradeData p)),
      l_qty = volume_to_units (td_volume (p_tradeData p)), l_entry = round_price (p_price p) dg,
      l_opened = fdiv (of_int (td_openTimestamp (p_tradeData p))) 1000\<rparr>"

definition fetch_raw_positions :: "floor \<Rightarrow> string \<Rightarrow> leg list deed" where
  "fetch_raw_positions X symbol =
     seq (resolve_symbol_id X symbol) (\<lambda>want.
     case want of
       None \<Rightarrow> ret []
     | Some w \<Rightarrow>
         seq (reconcile X False) (\<lambda>res.
         seq (apply_adoption_baseline X res) (\<lambda>_.
         seq (asks (\<lambda>d. price_digits (book d) symbol)) (\<lambda>dg.
         seq (owned_position_ids X) (\<lambda>owned.
         ret (sort_key l_opened (map (leg_view dg) (filter (mine w owned) (fst res)))))))))"

record held =
  h_side_long :: bool
  h_size :: rat
  h_entry :: rat

definition held_view :: "nat \<Rightarrow> position \<Rightarrow> held" where
  "held_view dg p =
     \<lparr>h_side_long = (td_tradeSide (p_tradeData p) = BUY), h_size = volume_to_units (td_volume (p_tradeData p)),
      h_entry = round_price (p_price p) dg\<rparr>"

text \<open>\<open>get_position\<close> on a netting account.\<close>

definition get_position :: "floor \<Rightarrow> string \<Rightarrow> held option deed" where
  "get_position X symbol =
     seq (resolve_symbol_id X symbol) (\<lambda>want.
     case want of
       None \<Rightarrow> ret None
     | Some w \<Rightarrow>
         seq (reconcile X False) (\<lambda>res.
         seq (apply_adoption_baseline X res) (\<lambda>_.
         seq (owned_position_ids X) (\<lambda>owned.
         seq (asks (\<lambda>d. price_digits (book d) symbol)) (\<lambda>dg.
         ret (map_option (held_view dg) (find (mine w owned) (fst res))))))))"

section \<open>Balance\<close>

definition deposit_asset_name :: "floor \<Rightarrow> int \<Rightarrow> string deed" where
  "deposit_asset_name X asset_id =
     seq (asks (\<lambda>d. case live_account (base (line d)) of Some a \<Rightarrow> a | None \<Rightarrow> 0)) (\<lambda>account.
     seq (read_account X (ProtoOAAssetListReq account)) (\<lambda>m.
     case m of
       ProtoOAAssetListRes l \<Rightarrow>
         ret (case find (\<lambda>(i, _). i = asset_id) l of
                Some (_, name) \<Rightarrow> (if name \<noteq> [] then name else py_str asset_id)
              | None \<Rightarrow> py_str asset_id)
     | _ \<Rightarrow> throw (AttributeError ''asset'', None)))"

definition get_balance :: "floor \<Rightarrow> (string \<times> rat) deed" where
  "get_balance X =
     seq (asks live) (\<lambda>acct.
     case acct of
       None \<Rightarrow> not_live
     | Some account \<Rightarrow>
         seq (read_account X (ProtoOATraderReq account)) (\<lambda>m.
         case m of
           ProtoOATraderRes t \<Rightarrow>
             seq (deposit_asset_name X (t_depositAssetId t)) (\<lambda>name. ret (name, money_value (t_balance t) (t_moneyDigits t)))
         | _ \<Rightarrow> throw (AttributeError ''trader'', None)))"

end
