(* ===== verification/Account_State_Properties.thy ===== *)
theory Account_State_Properties
  imports Account_State Execution_Properties
begin

text \<open>
  What the adoption baseline writes: it runs once, sends nothing, only raises fill cursors, never above a row's
  size and never without the snapshot's evidence, and retires exposure only from the one row of a position
  that the venue shows smaller.
\<close>

section \<open>The rows of the baseline\<close>

text \<open>The evidence of the snapshot behind a raised cursor.\<close>

definition shown_filled :: "(int \<rightharpoonup> int) \<Rightarrow> int set \<Rightarrow> row \<Rightarrow> rat \<Rightarrow> bool" where
  "shown_filled executed opens r b \<longleftrightarrow>
     (\<exists>i v. optional_id r ''order_id'' = Inr (Some i) \<and> executed i = Some v \<and> b = volume_to_units v)
     \<or> (\<exists>p \<in> opens. optional_id r ''position_id'' = Inr (Some p) \<and> b = r_qty r)"

lemma cursor_baseline_shown:
  "cursor_baseline executed opens r = Inr (Some b) \<Longrightarrow>
     shown_filled executed opens r b \<and> \<not> py_truth (extra r ''recovered_inconclusive'')"
  by (auto simp: cursor_baseline_def shown_filled_def bind_eq_Some_conv
      split: sum.splits option.splits if_splits)

definition raises :: "(int \<rightharpoonup> int) \<Rightarrow> int set \<Rightarrow> row list \<Rightarrow> jop \<Rightarrow> bool" where
  "raises executed opens rs op \<longleftrightarrow>
     (\<exists>r \<in> set rs. \<exists>c b. op = Set_filled (r_coid r) c \<and> \<not> py_truth (extra r ''recovered_inconclusive'')
        \<and> shown_filled executed opens r b \<and> c = min (r_qty r) (max (r_filled r) b) \<and> fadd (r_filled r) NANO < c)"

lemma baseline_rows_run:
  assumes "baseline_rows X executed opens rs d = (q, t)"
  shows "line t = line d \<and> baselined (book t) = baselined (book d)
     \<and> (\<exists>J. journal (book t) = journal (book d) @ J \<and> (\<forall>(n, op) \<in> set J. raises executed opens rs op))"
  using assms
proof (induction rs arbitrary: d)
  case (Cons r rs)
  have more: "raises executed opens rs op \<Longrightarrow> raises executed opens (r # rs) op" for op
    by (auto simp: raises_def)
  show ?case
  proof (cases "cursor_baseline executed opens r")
    case (Inl e)
    with Cons.prems show ?thesis by auto
  next
    case (Inr b)
    define u where "u = snd ((case Option.bind b (raised_cursor r) of
                 None \<Rightarrow> ret () | Some c \<Rightarrow> jot X (Set_filled (r_coid r) c)) d)"
    have rest: "baseline_rows X executed opens rs u = (q, t)"
      using Cons.prems Inr by (cases "Option.bind b (raised_cursor r)") (simp_all add: seq_def u_def jot_def)
    have u: "line u = line d \<and> baselined (book u) = baselined (book d)
       \<and> (\<exists>J. journal (book u) = journal (book d) @ J \<and> (\<forall>(n, op) \<in> set J. raises executed opens (r # rs) op))"
    proof (cases "Option.bind b (raised_cursor r)")
      case None
      then show ?thesis by (simp add: u_def)
    next
      case (Some c)
      then obtain v where v: "b = Some v" "raised_cursor r v = Some c" by (auto simp: bind_eq_Some_conv)
      have "shown_filled executed opens r v \<and> \<not> py_truth (extra r ''recovered_inconclusive'')"
        using cursor_baseline_shown Inr v(1) by simp
      moreover have "c = min (r_qty r) (max (r_filled r) v) \<and> fadd (r_filled r) NANO < c"
        using v(2) by (simp add: raised_cursor_def Let_def split: if_splits)
      ultimately have "raises executed opens (r # rs) (Set_filled (r_coid r) c)" unfolding raises_def by auto
      then show ?thesis using Some by (auto simp: u_def jot_def)
    qed
    from Cons.IH [OF rest] u more show ?thesis by fastforce
  qed
qed simp

section \<open>Retired exposure\<close>

definition retires :: "floor \<Rightarrow> (int \<rightharpoonup> rat) \<Rightarrow> (int \<times> row list) list \<Rightarrow> jop \<Rightarrow> bool" where
  "retires X volumes prs op \<longleftrightarrow>
     (case op of
        Set_extras c ex \<Rightarrow>
          (\<exists>p r lost. (p, [r]) \<in> set prs \<and> c = r_coid r
             \<and> shrink_of X (case volumes p of Some v \<Rightarrow> v | None \<Rightarrow> 0) r = Some lost
             \<and> ex = (r_extras r)(retired_mark X \<mapsto> PyFloat (fadd (number_or_zero (extra r (retired_mark X))) lost)))
      | Audit _ _ \<Rightarrow> True | _ \<Rightarrow> False)"

lemma retire_position_run:
  "\<exists>t J. retire_position X volumes pr d = (Inr (), t) \<and> line t = line d \<and> baselined (book t) = baselined (book d)
     \<and> journal (book t) = journal (book d) @ J \<and> (\<forall>(n, op) \<in> set J. retires X volumes [pr] op)"
proof -
  obtain p rows where pr: "pr = (p, rows)" by (cases pr)
  define u where "u = snd ((if list_ex (accepted_by_resume X) rows then note_that (Resume_accepted p) else ret ()) d)"
  have u: "(if list_ex (accepted_by_resume X) rows then note_that (Resume_accepted p) else ret ()) d = (Inr (), u)"
    "line u = line d" "journal (book u) = journal (book d)" "baselined (book u) = baselined (book d)"
    by (simp_all add: u_def note_that_def on_book_def)
  show ?thesis
  proof (cases "\<exists>r lost. rows = [r] \<and> shrink_of X (case volumes p of Some v \<Rightarrow> v | None \<Rightarrow> 0) r = Some lost")
    case False
    then have "retire_position X volumes pr d = (Inr (), u)"
      using u(1) by (auto simp: pr retire_position_def Let_def seq_def split: list.splits option.splits)
    with u show ?thesis by auto
  next
    case True
    then obtain r lost where r: "rows = [r]" "shrink_of X (case volumes p of Some v \<Rightarrow> v | None \<Rightarrow> 0) r = Some lost" by blast
    let ?op = "Set_extras (r_coid r) ((r_extras r)(retired_mark X \<mapsto>
                  PyFloat (fadd (number_or_zero (extra r (retired_mark X))) lost)))"
    have op: "retires X volumes [pr] ?op" "\<And>k c. retires X volumes [pr] (Audit k c)"
      using r by (auto simp: retires_def pr)
    show ?thesis
      using u r op by (simp add: retire_position_def pr Let_def seq_def jot_def note_that_def on_book_def)
  qed
qed

lemma retire_positions_run:
  "\<exists>t J. retire_positions X volumes prs d = (Inr (), t) \<and> line t = line d \<and> baselined (book t) = baselined (book d)
     \<and> journal (book t) = journal (book d) @ J \<and> (\<forall>(n, op) \<in> set J. retires X volumes prs op)"
proof (induction prs arbitrary: d)
  case (Cons pr prs)
  have more: "retires X volumes prs op \<Longrightarrow> retires X volumes (pr # prs) op"
    "retires X volumes [pr] op \<Longrightarrow> retires X volumes (pr # prs) op" for op
    by (auto simp: retires_def split: jop.splits)
  obtain u J where u: "retire_position X volumes pr d = (Inr (), u)" "line u = line d" "baselined (book u) = baselined (book d)"
    "journal (book u) = journal (book d) @ J" "\<forall>(n, op) \<in> set J. retires X volumes [pr] op"
    using retire_position_run by blast
  obtain t K where t: "retire_positions X volumes prs u = (Inr (), t)" "line t = line u" "baselined (book t) = baselined (book u)"
    "journal (book t) = journal (book u) @ K" "\<forall>(n, op) \<in> set K. retires X volumes prs op"
    using Cons.IH by blast
  have "retire_positions X volumes (pr # prs) d = (Inr (), t)" using u(1) t(1) by (simp add: seq_def)
  with u t more show ?case by (intro exI [of _ t] exI [of _ "J @ K"]) fastforce
qed simp

lemma rows_by_position_sole:
  "(p, [r]) \<in> set (rows_by_position prs) \<Longrightarrow> (p, r) \<in> set prs \<and> (\<forall>s. (p, s) \<in> set prs \<longrightarrow> s = r)"
proof -
  assume "(p, [r]) \<in> set (rows_by_position prs)"
  then have "map snd (filter (\<lambda>pr. fst pr = p) prs) = [r]" by (auto simp: rows_by_position_def)
  then have *: "snd ` set (filter (\<lambda>pr. fst pr = p) prs) = {r}" by (metis list.set(1) list.set_map list.simps(15))
  then show ?thesis by (force simp: image_iff)
qed

lemma shrink_rows_sound:
  "shrink_rows X opens rs = Inr prs \<Longrightarrow> (p, r) \<in> set prs \<Longrightarrow>
     r \<in> set rs \<and> p \<in> opens \<and> optional_id r ''position_id'' = Inr (Some p)
     \<and> \<not> py_truth (extra r (adopted_mark X)) \<and> \<not> py_truth (extra r ''recovered_inconclusive'')"
  by (induction rs arbitrary: prs) (auto split: if_splits sum.splits option.splits simp: map_sum_def)

text \<open>What the second part may write: for a row that alone holds an open position and whose journalled
  remainder exceeds what the venue still holds, the difference as retired exposure.\<close>

definition retires_shrunk :: "floor \<Rightarrow> position list \<Rightarrow> row list \<Rightarrow> jop \<Rightarrow> bool" where
  "retires_shrunk X ps rows op \<longleftrightarrow>
     (case op of
        Set_extras c ex \<Rightarrow>
          (\<exists>r \<in> set rows. \<exists>p left lost. c = r_coid r \<and> open_volumes ps p = Some left
             \<and> optional_id r ''position_id'' = Inr (Some p)
             \<and> \<not> py_truth (extra r (adopted_mark X)) \<and> \<not> py_truth (extra r ''recovered_inconclusive'')
             \<and> left < fsub (max 0 (fsub (r_filled r) (number_or_zero (extra r (retired_mark X))))) NANO
             \<and> lost = fsub (max 0 (fsub (r_filled r) (number_or_zero (extra r (retired_mark X))))) left
             \<and> ex = (r_extras r)(retired_mark X \<mapsto> PyFloat (fadd (number_or_zero (extra r (retired_mark X))) lost)))
      | Audit _ _ \<Rightarrow> True | _ \<Rightarrow> False)"

lemma retires_shrunkI:
  assumes "shrink_rows X (dom (open_volumes ps)) rows = Inr prs"
    and "retires X (open_volumes ps) (rows_by_position prs) op"
  shows "retires_shrunk X ps rows op"
proof (cases op)
  case (Set_extras c ex)
  with assms(2) obtain p r lost where r: "(p, [r]) \<in> set (rows_by_position prs)" "c = r_coid r"
    "shrink_of X (case open_volumes ps p of Some v \<Rightarrow> v | None \<Rightarrow> 0) r = Some lost"
    "ex = (r_extras r)(retired_mark X \<mapsto> PyFloat (fadd (number_or_zero (extra r (retired_mark X))) lost))"
    by (auto simp: retires_def)
  from shrink_rows_sound [OF assms(1)] rows_by_position_sole [OF r(1)]
  have s: "r \<in> set rows" "p \<in> dom (open_volumes ps)" "optional_id r ''position_id'' = Inr (Some p)"
    "\<not> py_truth (extra r (adopted_mark X))" "\<not> py_truth (extra r ''recovered_inconclusive'')" by auto
  then obtain left where "open_volumes ps p = Some left" by auto
  with r s show ?thesis
    by (auto simp: retires_shrunk_def Set_extras shrink_of_def Let_def not_le split: if_splits intro!: bexI [of _ r])
qed (use assms(2) in \<open>auto simp: retires_def retires_shrunk_def\<close>)

lemma retire_shrunk_run:
  assumes "journaled X"
  shows "\<exists>q t K. retire_shrunk_exposure X ps d = (q, t) \<and> line t = line d \<and> baselined (book t) = baselined (book d)
     \<and> journal (book t) = journal (book d) @ K \<and> (\<forall>(n, op) \<in> set K. retires_shrunk X ps (live_rows X (entries d)) op)"
proof (cases "shrink_rows X (dom (open_volumes ps)) (live_rows X (entries d))")
  case (Inl e)
  then show ?thesis using assms by (simp add: retire_shrunk_exposure_def seq_def lift_exn_def)
next
  case (Inr prs)
  obtain t J where t: "retire_positions X (open_volumes ps) (rows_by_position prs) d = (Inr (), t)" "line t = line d"
    "baselined (book t) = baselined (book d)" "journal (book t) = journal (book d) @ J"
    "\<forall>(n, op) \<in> set J. retires X (open_volumes ps) (rows_by_position prs) op"
    using retire_positions_run by blast
  have "\<forall>(n, op) \<in> set J. retires_shrunk X ps (live_rows X (entries d)) op"
    using t(5) retires_shrunkI [OF Inr] by fast
  with t Inr assms show ?thesis
    by (simp add: retire_shrunk_exposure_def seq_def lift_exn_def note_that_def on_book_def)
qed



end
