(* ===== verification/Replay.thy ===== *)
theory Replay
  imports Desk
begin

text \<open>
  The replay of a position's deals against the bot's share (\<open>_replay_share_closes\<close> of \<open>protection.py\<close>), which
  judges the closes the event stream missed, and its refinement of the position's life: the volume the venue
  holds and the part of it that is the bot's, deal by deal. Volumes are whole centi-units.
\<close>

section \<open>Deals and origins\<close>

datatype close_origin = Own | Venue | External | Unattributed | Unknown

definition foreign :: "close_origin \<Rightarrow> bool" where
  "foreign g \<longleftrightarrow> g \<in> {External, Unattributed, Unknown}"

record position_deal =
  pd_deal_id :: int
  pd_order_id :: int
  pd_executed_ms :: int
  pd_filled :: int
  pd_closed :: int
  pd_side :: side
  pd_price :: rat
  pd_fee :: rat

definition opened_part :: "position_deal \<Rightarrow> int" where
  "opened_part d = pd_filled d - pd_closed d"

record share_replay =
  rp_reported :: "(position_deal \<times> int) list"
  rp_ambiguous :: "(position_deal \<times> int \<times> int) list"
  rp_taken :: int
  rp_booked :: "(position_deal \<times> int) list"

definition no_replay :: share_replay where
  "no_replay = \<lparr>rp_reported = [], rp_ambiguous = [], rp_taken = 0, rp_booked = []\<rparr>"

section \<open>The replay\<close>

text \<open>The volume after each deal, rebuilt backwards from the volume held now (the deals come latest first).\<close>

fun rebuild :: "position_deal list \<Rightarrow> int \<Rightarrow> (int \<rightharpoonup> int) \<Rightarrow> (int \<rightharpoonup> int) \<times> int" where
  "rebuild [] vol after = (after, vol)"
| "rebuild (d # ds) vol after =
     rebuild ds (vol + (pd_closed d - opened_part d)) (after(pd_deal_id d \<mapsto> max 0 vol))"

definition origin_of :: "(int \<rightharpoonup> close_origin) \<Rightarrow> (int \<rightharpoonup> close_origin) \<Rightarrow> position_deal \<Rightarrow> close_origin" where
  "origin_of pending judged d =
     (case pending (pd_deal_id d) of Some g \<Rightarrow> g | None \<Rightarrow> the (judged (pd_deal_id d)))"

definition part_taken :: "close_origin \<Rightarrow> int \<Rightarrow> int \<Rightarrow> int \<Rightarrow> int" where
  "part_taken g volume share remaining =
     (if g = Own then min volume share else max 0 (min volume (share - remaining)))"

definition note_exact :: "close_origin \<Rightarrow> position_deal \<Rightarrow> int \<Rightarrow> share_replay \<Rightarrow> share_replay" where
  "note_exact g d taken r =
     r\<lparr>rp_taken := rp_taken r + taken,
       rp_booked := (if 0 < taken then rp_booked r @ [(d, taken)] else rp_booked r),
       rp_reported := (if foreign g \<and> 0 < taken then rp_reported r @ [(d, taken)] else rp_reported r)\<rparr>"

fun exact_loop ::
    "(int \<rightharpoonup> close_origin) \<Rightarrow> (int \<rightharpoonup> close_origin) \<Rightarrow> (position_deal \<Rightarrow> bool) \<Rightarrow> (int \<rightharpoonup> int)
     \<Rightarrow> position_deal list \<Rightarrow> int \<Rightarrow> share_replay \<Rightarrow> share_replay" where
  "exact_loop pending judged own after [] share r = r"
| "exact_loop pending judged own after (d # ds) share r =
     (let g = origin_of pending judged d;
          remaining = max 0 (the (after (pd_deal_id d)) - opened_part d);
          taken = (if 0 < pd_closed d then part_taken g (pd_closed d) share remaining else 0)
      in exact_loop pending judged own after ds
           (share - taken + (if 0 < opened_part d \<and> own d then opened_part d else 0))
           (if 0 < pd_closed d \<and> pending (pd_deal_id d) \<noteq> None then note_exact g d taken r else r))"

definition own_opened :: "(position_deal \<Rightarrow> bool) \<Rightarrow> position_deal list \<Rightarrow> int" where
  "own_opened own ds = sum_list (map opened_part (filter (\<lambda>d. 0 < opened_part d \<and> own d) ds))"

definition share_low :: "(position_deal \<Rightarrow> bool) \<Rightarrow> int \<Rightarrow> position_deal list \<Rightarrow> int \<Rightarrow> int" where
  "share_low own share_now later taken_high = max 0 (share_now - own_opened own later - taken_high)"

definition share_high ::
    "(int \<rightharpoonup> close_origin) \<Rightarrow> (position_deal \<Rightarrow> bool) \<Rightarrow> int set \<Rightarrow> int \<Rightarrow> position_deal list \<Rightarrow> position_deal list \<Rightarrow> int \<Rightarrow> int" where
  "share_high pending own seen share_now earlier later taken_low =
     max 0 (share_now - own_opened (\<lambda>d. own d \<and> pd_deal_id d \<in> seen) later
            + sum_list (map pd_closed (filter (\<lambda>d. 0 < pd_closed d \<and> pending (pd_deal_id d) = None) later))
            + own_opened (\<lambda>d. own d \<and> pd_deal_id d \<notin> seen) earlier - taken_low)"

definition note_bounds :: "close_origin \<Rightarrow> position_deal \<Rightarrow> int \<Rightarrow> int \<Rightarrow> share_replay \<Rightarrow> share_replay" where
  "note_bounds g d low_take high_take r =
     r\<lparr>rp_taken := rp_taken r + low_take,
       rp_booked := (if 0 < low_take then rp_booked r @ [(d, low_take)] else rp_booked r),
       rp_reported := (if foreign g \<and> 0 < low_take then rp_reported r @ [(d, low_take)] else rp_reported r),
       rp_ambiguous := (if foreign g \<and> \<not> 0 < low_take \<and> 0 < high_take
                        then rp_ambiguous r @ [(d, low_take, high_take)] else rp_ambiguous r)\<rparr>"

fun bounded_loop ::
    "(int \<rightharpoonup> close_origin) \<Rightarrow> (position_deal \<Rightarrow> bool) \<Rightarrow> int set \<Rightarrow> int \<Rightarrow> (int \<rightharpoonup> int)
     \<Rightarrow> position_deal list \<Rightarrow> position_deal list \<Rightarrow> int \<Rightarrow> int \<Rightarrow> share_replay \<Rightarrow> share_replay" where
  "bounded_loop pending own seen share_now after earlier [] taken_high taken_low r = r"
| "bounded_loop pending own seen share_now after earlier (d # later) taken_high taken_low r =
     (case pending (pd_deal_id d) of
        None \<Rightarrow> bounded_loop pending own seen share_now after (earlier @ [d]) later taken_high taken_low r
      | Some g \<Rightarrow>
          (let low = share_low own share_now later taken_high;
               high = share_high pending own seen share_now earlier later taken_low;
               remaining = max 0 (the (after (pd_deal_id d)) - opened_part d);
               low_take = part_taken g (pd_closed d) low remaining;
               high_take = part_taken g (pd_closed d) high remaining
           in bounded_loop pending own seen share_now after (earlier @ [d]) later
                (taken_high + high_take) (taken_low + low_take) (note_bounds g d low_take high_take r)))"

definition replay_share_closes ::
    "position_deal list \<Rightarrow> (int \<rightharpoonup> close_origin) \<Rightarrow> (int \<rightharpoonup> close_origin) \<Rightarrow> (position_deal \<Rightarrow> bool) \<Rightarrow> int set
     \<Rightarrow> int \<Rightarrow> int \<Rightarrow> share_replay" where
  "replay_share_closes deals pending judged own seen venue_now share_now =
     (let (after, vol) = rebuild (rev deals) venue_now Map.empty;
          exact = (vol = 0 \<and> list_all (\<lambda>d. 0 < pd_closed d \<longrightarrow>
                     pending (pd_deal_id d) \<noteq> None \<or> judged (pd_deal_id d) \<noteq> None) deals)
      in if exact then exact_loop pending judged own after deals 0 no_replay
         else bounded_loop pending own seen share_now after [] deals 0 0 no_replay)"


section \<open>The life of a position\<close>

text \<open>The venue's volume along the deals, and the path of volumes a venue can report: no deal closes more than
  it filled or than the position holds.\<close>

definition after_deal :: "position_deal \<Rightarrow> int \<Rightarrow> int" where
  "after_deal d v = v - pd_closed d + opened_part d"

fun path_ok :: "int \<Rightarrow> position_deal list \<Rightarrow> bool" where
  "path_ok v [] \<longleftrightarrow> 0 \<le> v"
| "path_ok v (d # ds) \<longleftrightarrow> 0 \<le> pd_closed d \<and> pd_closed d \<le> pd_filled d \<and> pd_closed d \<le> v \<and> path_ok (after_deal d v) ds"

text \<open>What each deal takes of the share: a close of the bot's own takes its volume of it, any other only what it
  left the venue below it; the bot's own openings add to it.\<close>

definition taken_of :: "(position_deal \<Rightarrow> close_origin) \<Rightarrow> position_deal \<Rightarrow> int \<Rightarrow> int \<Rightarrow> int" where
  "taken_of org d v s = (if 0 < pd_closed d then part_taken (org d) (pd_closed d) s (v - pd_closed d) else 0)"

definition share_after :: "(position_deal \<Rightarrow> close_origin) \<Rightarrow> (position_deal \<Rightarrow> bool) \<Rightarrow> position_deal \<Rightarrow> int \<Rightarrow> int \<Rightarrow> int" where
  "share_after org own d v s = s - taken_of org d v s + (if 0 < opened_part d \<and> own d then opened_part d else 0)"

fun share_life :: "(position_deal \<Rightarrow> close_origin) \<Rightarrow> (position_deal \<Rightarrow> bool) \<Rightarrow> position_deal list \<Rightarrow> int \<Rightarrow> int \<Rightarrow> int list" where
  "share_life org own [] v s = []"
| "share_life org own (d # ds) v s = taken_of org d v s # share_life org own ds (after_deal d v) (share_after org own d v s)"

fun end_volume :: "position_deal list \<Rightarrow> int \<Rightarrow> int" where
  "end_volume [] v = v"
| "end_volume (d # ds) v = end_volume ds (after_deal d v)"

fun end_share :: "(position_deal \<Rightarrow> close_origin) \<Rightarrow> (position_deal \<Rightarrow> bool) \<Rightarrow> position_deal list \<Rightarrow> int \<Rightarrow> int \<Rightarrow> int" where
  "end_share org own [] v s = s"
| "end_share org own (d # ds) v s = end_share org own ds (after_deal d v) (share_after org own d v s)"

lemma length_share_life [simp]: "length (share_life org own ds v s) = length ds"
  by (induction ds arbitrary: v s) auto

lemma path_ok_volume: "path_ok v ds \<Longrightarrow> 0 \<le> v"
  by (cases ds) auto

text \<open>The share stays between nothing and the venue's volume, so every part taken is a part of the deal.\<close>

lemma taken_of_bounds:
  "0 \<le> s \<Longrightarrow> 0 \<le> pd_closed d \<Longrightarrow> pd_closed d \<le> v \<Longrightarrow> 0 \<le> taken_of org d v s \<and> taken_of org d v s \<le> pd_closed d \<and> taken_of org d v s \<le> max 0 s"
  by (auto simp: taken_of_def part_taken_def)

lemma share_after_bounds:
  assumes "0 \<le> s" "s \<le> v" "0 \<le> pd_closed d" "pd_closed d \<le> pd_filled d" "pd_closed d \<le> v"
  shows "0 \<le> share_after org own d v s \<and> share_after org own d v s \<le> after_deal d v"
  using assms by (auto simp: share_after_def taken_of_def part_taken_def after_deal_def opened_part_def)

lemma rebuild_append: "rebuild (xs @ ys) v m = (case rebuild xs v m of (m', v') \<Rightarrow> rebuild ys v' m')"
  by (induction xs arbitrary: v m) auto

lemma rebuild_other: "pd_deal_id d \<notin> pd_deal_id ` set ds \<Longrightarrow> fst (rebuild ds v m) (pd_deal_id d) = m (pd_deal_id d)"
  by (induction ds arbitrary: v m) (auto simp: image_iff)

lemma rebuild_life:
  assumes "distinct (map pd_deal_id ds)"
  shows "snd (rebuild (rev ds) (end_volume ds v) m) = v"
proof (induction ds arbitrary: v m)
  case (Cons d ds)
  have "snd (rebuild (rev ds) (end_volume ds (after_deal d v)) m) = after_deal d v" by (rule Cons.IH)
  then show ?case by (auto simp: rebuild_append after_deal_def split: prod.splits)
qed simp

text \<open>The volumes rebuilt backwards are the ones of the life.\<close>

fun after_ok :: "(int \<rightharpoonup> int) \<Rightarrow> position_deal list \<Rightarrow> int \<Rightarrow> bool" where
  "after_ok after [] v \<longleftrightarrow> True"
| "after_ok after (d # ds) v \<longleftrightarrow> after (pd_deal_id d) = Some (after_deal d v) \<and> after_ok after ds (after_deal d v)"

lemma after_ok_upd: "i \<notin> pd_deal_id ` set ds \<Longrightarrow> after_ok (m(i := x)) ds v = after_ok m ds v"
  by (induction ds arbitrary: v) auto

lemma rebuild_after_ok:
  "distinct (map pd_deal_id ds) \<Longrightarrow> path_ok v ds \<Longrightarrow> after_ok (fst (rebuild (rev ds) (end_volume ds v) m)) ds v"
proof (induction ds arbitrary: v)
  case (Cons d ds)
  obtain m' where m': "rebuild (rev ds) (end_volume ds (after_deal d v)) m = (m', after_deal d v)"
    using rebuild_life [of ds "after_deal d v" m] Cons.prems(1) by (metis distinct.simps(2) list.simps(9) prod.collapse)
  from Cons have "after_ok m' ds (after_deal d v)" using m' by (metis distinct.simps(2) fst_conv list.simps(9) path_ok.simps(2))
  moreover have "0 \<le> after_deal d v" using Cons.prems(2) path_ok_volume by auto
  moreover have "after_ok (m'(pd_deal_id d \<mapsto> after_deal d v)) ds (after_deal d v) = after_ok m' ds (after_deal d v)"
    using Cons.prems(1) by (intro after_ok_upd) simp
  moreover have "fst (rebuild (rev (d # ds)) (end_volume (d # ds) v) m) = m'(pd_deal_id d \<mapsto> max 0 (after_deal d v))"
    using m' by (simp add: rebuild_append)
  ultimately show ?case using m' by (simp add: max_absorb2 fun_upd_same del: rev.simps fun_upd_apply)
qed simp

section \<open>The replay over a whole life\<close>

definition judged_parts :: "(int \<rightharpoonup> close_origin) \<Rightarrow> (position_deal \<times> int) list \<Rightarrow> (position_deal \<times> int) list" where
  "judged_parts pending l = filter (\<lambda>(d, t). 0 < pd_closed d \<and> pending (pd_deal_id d) \<noteq> None) l"

definition noted :: "(position_deal \<Rightarrow> close_origin) \<Rightarrow> share_replay \<Rightarrow> (position_deal \<times> int) list \<Rightarrow> share_replay" where
  "noted org r l = foldl (\<lambda>r (d, t). note_exact (org d) d t r) r l"

lemma exact_loop_life:
  assumes "path_ok v ds" and "after_ok after ds v"
    and "\<And>d. d \<in> set ds \<Longrightarrow> 0 < pd_closed d \<Longrightarrow> org d = origin_of pending judged d"
  shows "exact_loop pending judged own after ds s r = noted org r (judged_parts pending (zip ds (share_life org own ds v s)))"
  using assms
proof (induction ds arbitrary: v s r)
  case (Cons d ds)
  have rem: "max 0 (after_deal d v - opened_part d) = v - pd_closed d" using Cons.prems(1) by (simp add: after_deal_def)
  have t: "(if 0 < pd_closed d then part_taken (origin_of pending judged d) (pd_closed d) s (v - pd_closed d) else 0)
      = taken_of org d v s" using Cons.prems(3) [of d] by (simp add: taken_of_def)
  have IH: "exact_loop pending judged own after ds s' r' = noted org r' (judged_parts pending (zip ds (share_life org own ds (after_deal d v) s')))"
    for s' r' using Cons.prems by (intro Cons.IH) auto
  have g: "origin_of pending judged d = org d" if "0 < pd_closed d" using Cons.prems(3) that by simp
  have af: "the (after (pd_deal_id d)) = after_deal d v" using Cons.prems(2) by simp
  show ?case
  proof (cases "0 < pd_closed d \<and> pending (pd_deal_id d) \<noteq> None")
    case True
    then have "judged_parts pending (zip (d # ds) (share_life org own (d # ds) v s))
        = (d, taken_of org d v s) # judged_parts pending (zip ds (share_life org own ds (after_deal d v) (share_after org own d v s)))"
      by (simp add: judged_parts_def)
    then show ?thesis
      using True g unfolding exact_loop.simps Let_def af rem t IH
      by (simp add: noted_def share_after_def)
  next
    case False
    then have *: "judged_parts pending (zip (d # ds) (share_life org own (d # ds) v s))
        = judged_parts pending (zip ds (share_life org own ds (after_deal d v) (share_after org own d v s)))"
      by (auto simp: judged_parts_def)
    have "(if 0 < pd_closed d \<and> pending (pd_deal_id d) \<noteq> None then x else r) = r" for x using False by auto
    then show ?thesis
      using * unfolding exact_loop.simps Let_def af rem t IH by (simp only: share_after_def)
  qed
qed (simp add: noted_def judged_parts_def)

lemma noted_parts:
  "rp_booked (noted org r l) = rp_booked r @ filter (\<lambda>(d, t). 0 < t) l"
  "rp_reported (noted org r l) = rp_reported r @ filter (\<lambda>(d, t). foreign (org d) \<and> 0 < t) l"
  "rp_taken (noted org r l) = rp_taken r + sum_list (map snd l)"
  "rp_ambiguous (noted org r l) = rp_ambiguous r"
proof -
  have "rp_booked (noted org r l) = rp_booked r @ filter (\<lambda>(d, t). 0 < t) l
     \<and> rp_reported (noted org r l) = rp_reported r @ filter (\<lambda>(d, t). foreign (org d) \<and> 0 < t) l
     \<and> rp_taken (noted org r l) = rp_taken r + sum_list (map snd l)
     \<and> rp_ambiguous (noted org r l) = rp_ambiguous r"
    unfolding noted_def by (induction l arbitrary: r) (auto simp: note_exact_def)
  then show "rp_booked (noted org r l) = rp_booked r @ filter (\<lambda>(d, t). 0 < t) l"
    "rp_reported (noted org r l) = rp_reported r @ filter (\<lambda>(d, t). foreign (org d) \<and> 0 < t) l"
    "rp_taken (noted org r l) = rp_taken r + sum_list (map snd l)"
    "rp_ambiguous (noted org r l) = rp_ambiguous r" by blast+
qed

section \<open>The replay from a later point\<close>

definition pending_sum :: "(int \<rightharpoonup> close_origin) \<Rightarrow> (position_deal \<times> int) list \<Rightarrow> int" where
  "pending_sum pending l = sum_list (map snd (filter (\<lambda>(d, t). pending (pd_deal_id d) \<noteq> None) l))"

definition other_sum :: "(int \<rightharpoonup> close_origin) \<Rightarrow> (position_deal \<times> int) list \<Rightarrow> int" where
  "other_sum pending l = sum_list (map snd (filter (\<lambda>(d, t). pending (pd_deal_id d) = None) l))"

text \<open>What a verdict may claim, given what each deal really took.\<close>

definition faithful :: "(int \<rightharpoonup> close_origin) \<Rightarrow> share_replay \<Rightarrow> (position_deal \<times> int) list \<Rightarrow> bool" where
  "faithful pending r l \<longleftrightarrow>
     (\<forall>(d, c) \<in> set (rp_booked r). 0 < c \<and> (\<exists>t \<ge> c. (d, t) \<in> set l))
     \<and> (\<forall>(d, c) \<in> set (rp_reported r). 0 < c \<and> (\<exists>t \<ge> c. (d, t) \<in> set l)
          \<and> (\<exists>g. pending (pd_deal_id d) = Some g \<and> foreign g))
     \<and> (\<forall>(d, low, high) \<in> set (rp_ambiguous r). \<exists>t. (d, t) \<in> set l \<and> low \<le> t \<and> t \<le> high)
     \<and> rp_taken r \<le> pending_sum pending l
     \<and> (\<forall>(d, t) \<in> set l. 0 < t \<and> (\<exists>g. pending (pd_deal_id d) = Some g \<and> foreign g) \<longrightarrow>
          d \<in> fst ` set (rp_reported r) \<or> d \<in> fst ` set (rp_ambiguous r))"

lemma faithful_skip:
  "pending (pd_deal_id d) = None \<Longrightarrow> faithful pending r l \<Longrightarrow> faithful pending r (l @ [(d, t)])"
  unfolding faithful_def by (fastforce simp: pending_sum_def)

lemma faithful_note:
  assumes "pending (pd_deal_id d) = Some g" and "faithful pending r l" and "low \<le> t" "t \<le> high"
  shows "faithful pending (note_bounds g d low high r) (l @ [(d, t)])"
proof -
  have m: "x \<in> set l \<Longrightarrow> x \<in> set (l @ [(d, t)])" for x by simp
  have s: "pending_sum pending (l @ [(d, t)]) = pending_sum pending l + t" using assms(1) by (simp add: pending_sum_def)
  show ?thesis
    using assms unfolding faithful_def s note_bounds_def
    by (auto; (fastforce | force))
qed

lemma end_share_sum:
  "end_share org own ds v s = s - sum_list (share_life org own ds v s) + own_opened own ds"
  by (induction ds arbitrary: v s) (auto simp: share_after_def own_opened_def)

lemma life_split: "sum_list (share_life org own ds v s)
    = pending_sum pending (zip ds (share_life org own ds v s)) + other_sum pending (zip ds (share_life org own ds v s))"
  by (induction ds arbitrary: v s) (auto simp: pending_sum_def other_sum_def)

lemma own_opened_split:
  "own_opened own ds = own_opened (\<lambda>d. own d \<and> P d) ds + own_opened (\<lambda>d. own d \<and> \<not> P d) ds"
  by (induction ds) (auto simp: own_opened_def)

lemma own_opened_nonneg [simp]: "0 \<le> own_opened own ds"
  by (induction ds) (auto simp: own_opened_def)

lemma other_sum_bounds:
  assumes "path_ok v ds" "0 \<le> s" "s \<le> v"
  shows "0 \<le> other_sum pending (zip ds (share_life org own ds v s))
    \<and> other_sum pending (zip ds (share_life org own ds v s))
       \<le> sum_list (map pd_closed (filter (\<lambda>d. 0 < pd_closed d \<and> pending (pd_deal_id d) = None) ds))"
  using assms
proof (induction ds arbitrary: v s)
  case (Cons d ds)
  have "0 \<le> share_after org own d v s \<and> share_after org own d v s \<le> after_deal d v"
    using Cons.prems by (intro share_after_bounds) auto
  with Cons have IH: "0 \<le> other_sum pending (zip ds (share_life org own ds (after_deal d v) (share_after org own d v s)))
    \<and> other_sum pending (zip ds (share_life org own ds (after_deal d v) (share_after org own d v s)))
       \<le> sum_list (map pd_closed (filter (\<lambda>d. 0 < pd_closed d \<and> pending (pd_deal_id d) = None) ds))" by simp
  have b: "0 \<le> taken_of org d v s" "taken_of org d v s \<le> pd_closed d" "\<not> 0 < pd_closed d \<Longrightarrow> taken_of org d v s = 0"
    using taken_of_bounds [of s d v org] Cons.prems by (auto simp: taken_of_def)
  show ?case using IH b by (auto simp: other_sum_def)
qed (simp add: other_sum_def)

lemma part_taken_mono: "s \<le> s' \<Longrightarrow> part_taken g c s rem \<le> part_taken g c s' rem"
  by (auto simp: part_taken_def)

lemma bounded_loop_faithful:
  assumes "path_ok v ds" "0 \<le> s" "s \<le> v" "after_ok after ds v"
    and "\<And>d g. d \<in> set ds \<Longrightarrow> pending (pd_deal_id d) = Some g \<Longrightarrow> org d = g \<and> \<not> (0 < opened_part d \<and> own d \<and> pd_deal_id d \<in> seen)"
    and "share_now = s - other_sum pending (zip ds (share_life org own ds v s)) + own_opened (\<lambda>d. own d \<and> pd_deal_id d \<in> seen) ds
           + pending_sum pending l - own_opened (\<lambda>d. own d \<and> pd_deal_id d \<notin> seen) earlier"
    and "lo \<le> pending_sum pending l" "pending_sum pending l \<le> hi" "faithful pending r l"
  shows "faithful pending (bounded_loop pending own seen share_now after earlier ds hi lo r) (l @ zip ds (share_life org own ds v s))"
  using assms
proof (induction ds arbitrary: v s earlier l r hi lo)
  case (Cons d ds)
  let ?t = "taken_of org d v s" and ?v = "after_deal d v" and ?s = "share_after org own d v s"
  have nx: "path_ok ?v ds" "0 \<le> ?s" "?s \<le> ?v" "after_ok after ds ?v"
    using Cons.prems(1-4) share_after_bounds [of s v d org own] by auto
  have org: "org d' = g \<and> \<not> (0 < opened_part d' \<and> own d' \<and> pd_deal_id d' \<in> seen)"
    if "d' \<in> set ds" "pending (pd_deal_id d') = Some g" for d' g using Cons.prems(5) that by simp
  note ob = other_sum_bounds [OF nx(1-3), of pending org own]
  let ?os = "other_sum pending (zip ds (share_life org own ds ?v ?s))"
  have tb: "0 \<le> ?t" using taken_of_bounds [of s d v org] Cons.prems(1,2) by auto
  show ?case
  proof (cases "pending (pd_deal_id d)")
    case None
    have "faithful pending (bounded_loop pending own seen share_now after (earlier @ [d]) ds hi lo r)
        ((l @ [(d, ?t)]) @ zip ds (share_life org own ds ?v ?s))"
    proof (rule Cons.IH [OF nx org])
      show "share_now = ?s - ?os + own_opened (\<lambda>d. own d \<and> pd_deal_id d \<in> seen) ds
           + pending_sum pending (l @ [(d, ?t)]) - own_opened (\<lambda>d. own d \<and> pd_deal_id d \<notin> seen) (earlier @ [d])"
        using Cons.prems(6) None
        by (auto simp: other_sum_def pending_sum_def own_opened_def share_after_def)
      show "lo \<le> pending_sum pending (l @ [(d, ?t)])" "pending_sum pending (l @ [(d, ?t)]) \<le> hi"
        using Cons.prems(7,8) None by (simp_all add: pending_sum_def)
      show "faithful pending r (l @ [(d, ?t)])" using None Cons.prems(9) by (rule faithful_skip)
    qed
    with None show ?thesis by simp
  next
    case (Some g)
    then have g: "org d = g" "\<not> (0 < opened_part d \<and> own d \<and> pd_deal_id d \<in> seen)" using Cons.prems(5) [of d g] by auto
    let ?low = "share_low own share_now ds hi" and ?high = "share_high pending own seen share_now earlier ds lo"
    have now: "share_now = s - ?os + own_opened (\<lambda>d. own d \<and> pd_deal_id d \<in> seen) ds
           + pending_sum pending l - own_opened (\<lambda>d. own d \<and> pd_deal_id d \<notin> seen) earlier"
      using Cons.prems(6) Some g(2) by (auto simp: other_sum_def own_opened_def)
    have "share_now - own_opened own ds - hi \<le> s"
      using now conjunct1 [OF ob] Cons.prems(8) own_opened_split [of own ds "\<lambda>d. pd_deal_id d \<in> seen"]
        own_opened_nonneg [of "\<lambda>d. own d \<and> pd_deal_id d \<notin> seen" ds] own_opened_nonneg [of "\<lambda>d. own d \<and> pd_deal_id d \<notin> seen" earlier]
      by linarith
    moreover have "s \<le> share_now - own_opened (\<lambda>d. own d \<and> pd_deal_id d \<in> seen) ds
            + sum_list (map pd_closed (filter (\<lambda>d. 0 < pd_closed d \<and> pending (pd_deal_id d) = None) ds))
            + own_opened (\<lambda>d. own d \<and> pd_deal_id d \<notin> seen) earlier - lo"
      using now conjunct2 [OF ob] Cons.prems(7) by linarith
    ultimately have lh: "?low \<le> s" "s \<le> ?high"
      using Cons.prems(2) by (simp_all add: share_low_def share_high_def)
    have rem: "max 0 (the (after (pd_deal_id d)) - opened_part d) = v - pd_closed d"
      using Cons.prems(1,4) by (simp add: after_deal_def)
    have t: "?t = part_taken g (pd_closed d) s (v - pd_closed d)"
      using g(1) Cons.prems(1,2) by (auto simp: taken_of_def part_taken_def)
    have bnd: "part_taken g (pd_closed d) ?low (v - pd_closed d) \<le> ?t" "?t \<le> part_taken g (pd_closed d) ?high (v - pd_closed d)"
      unfolding t using lh by (simp_all add: part_taken_mono)
    have "faithful pending (bounded_loop pending own seen share_now after (earlier @ [d]) ds
          (hi + part_taken g (pd_closed d) ?high (v - pd_closed d)) (lo + part_taken g (pd_closed d) ?low (v - pd_closed d))
          (note_bounds g d (part_taken g (pd_closed d) ?low (v - pd_closed d)) (part_taken g (pd_closed d) ?high (v - pd_closed d)) r))
        ((l @ [(d, ?t)]) @ zip ds (share_life org own ds ?v ?s))"
    proof (rule Cons.IH [OF nx org])
      show "share_now = ?s - ?os + own_opened (\<lambda>d. own d \<and> pd_deal_id d \<in> seen) ds
           + pending_sum pending (l @ [(d, ?t)]) - own_opened (\<lambda>d. own d \<and> pd_deal_id d \<notin> seen) (earlier @ [d])"
        using now Some g(2) by (auto simp: pending_sum_def own_opened_def share_after_def)
      show "lo + part_taken g (pd_closed d) ?low (v - pd_closed d) \<le> pending_sum pending (l @ [(d, ?t)])"
        "pending_sum pending (l @ [(d, ?t)]) \<le> hi + part_taken g (pd_closed d) ?high (v - pd_closed d)"
        using Cons.prems(7,8) Some bnd by (simp_all add: pending_sum_def)
      show "faithful pending (note_bounds g d (part_taken g (pd_closed d) ?low (v - pd_closed d))
          (part_taken g (pd_closed d) ?high (v - pd_closed d)) r) (l @ [(d, ?t)])"
        by (rule faithful_note [OF Some Cons.prems(9) bnd])
    qed
    with Some rem show ?thesis by (simp add: Let_def)
  qed
qed simp

section \<open>What a verdict says\<close>

lemma pending_sum_parts:
  "pending_sum pending (zip ds (share_life org own ds v s)) = sum_list (map snd (judged_parts pending (zip ds (share_life org own ds v s))))"
  by (induction ds arbitrary: v s) (auto simp: pending_sum_def judged_parts_def taken_of_def)

lemma life_pos_closed: "(d, t) \<in> set (zip ds (share_life org own ds v s)) \<Longrightarrow> 0 < t \<Longrightarrow> 0 < pd_closed d"
  by (induction ds arbitrary: v s) (auto simp: taken_of_def split: if_splits)

lemma replay_mode:
  assumes "distinct (map pd_deal_id deals)" "path_ok v deals" "end_volume deals v = venue_now"
  obtains after where "after_ok after deals v"
    "replay_share_closes deals pending judged own seen venue_now share_now =
       (if v = 0 \<and> (\<forall>d \<in> set deals. 0 < pd_closed d \<longrightarrow> pending (pd_deal_id d) \<noteq> None \<or> judged (pd_deal_id d) \<noteq> None)
        then exact_loop pending judged own after deals 0 no_replay
        else bounded_loop pending own seen share_now after [] deals 0 0 no_replay)"
proof -
  obtain after where a: "rebuild (rev deals) venue_now Map.empty = (after, v)"
    using rebuild_life [OF assms(1), of v Map.empty] assms(3) by (metis prod.collapse)
  then have "after_ok after deals v" using rebuild_after_ok [OF assms(1,2), of Map.empty] assms(3) by simp
  then show thesis using a by (intro that [of after]) (simp_all add: replay_share_closes_def list_all_iff)
qed

lemma faithful_empty: "faithful pending no_replay []"
  by (simp add: faithful_def no_replay_def pending_sum_def)

text \<open>
  C25: The verdict over the closes the stream missed is sound. Let the deals in the window be a life of the
  position from any volume and share it began with, where each pending deal is of the origin it was found
  to have and the journal counts every own opening it has seen and every close but the pending ones. Then
  what the verdict books of a deal is a part of what the deal really took of the bot's share; what it
  reports was foreign and took at least that much; what it leaves undecided lies within its bounds; the
  total retired is not more than the pending deals took; and a foreign deal that took any of the share is
  reported or left undecided, never passed over.
\<close>

theorem replay_sound:
  assumes "distinct (map pd_deal_id deals)" and "path_ok v deals" and "end_volume deals v = venue_now"
    and "0 \<le> s" and "s \<le> v"
    and "\<And>d g. d \<in> set deals \<Longrightarrow> pending (pd_deal_id d) = Some g \<Longrightarrow>
           org d = g \<and> \<not> (0 < opened_part d \<and> own d \<and> pd_deal_id d \<in> seen)"
    and "\<And>d g. d \<in> set deals \<Longrightarrow> pending (pd_deal_id d) = None \<Longrightarrow> judged (pd_deal_id d) = Some g \<Longrightarrow> org d = g"
    and "parts = zip deals (share_life org own deals v s)"
    and "share_now = end_share org own deals v s + pending_sum pending parts
           - own_opened (\<lambda>d. own d \<and> pd_deal_id d \<notin> seen) deals"
  shows "faithful pending (replay_share_closes deals pending judged own seen venue_now share_now) parts"
proof -
  obtain after where af: "after_ok after deals v" and run:
    "replay_share_closes deals pending judged own seen venue_now share_now =
       (if v = 0 \<and> (\<forall>d \<in> set deals. 0 < pd_closed d \<longrightarrow> pending (pd_deal_id d) \<noteq> None \<or> judged (pd_deal_id d) \<noteq> None)
        then exact_loop pending judged own after deals 0 no_replay
        else bounded_loop pending own seen share_now after [] deals 0 0 no_replay)"
    by (rule replay_mode [OF assms(1-3)])
  show ?thesis
  proof (cases "v = 0 \<and> (\<forall>d \<in> set deals. 0 < pd_closed d \<longrightarrow> pending (pd_deal_id d) \<noteq> None \<or> judged (pd_deal_id d) \<noteq> None)")
    case True
    then have s0: "s = 0" using assms(4,5) by simp
    have "org d = origin_of pending judged d" if "d \<in> set deals" "0 < pd_closed d" for d
      using True that assms(6,7) [OF that(1)] by (cases "pending (pd_deal_id d)") (auto simp: origin_of_def)
    then have r: "exact_loop pending judged own after deals 0 no_replay = noted org no_replay (judged_parts pending parts)"
      unfolding assms(8) s0 by (rule exact_loop_life [OF assms(2) af])
    have sub: "(d, t) \<in> set (judged_parts pending parts) \<Longrightarrow> (d, t) \<in> set parts \<and> org d = the (pending (pd_deal_id d))
        \<and> pending (pd_deal_id d) \<noteq> None" for d t
      using assms(6) by (fastforce simp: judged_parts_def assms(8) dest: set_zip_leftD)
    have all: "(d, t) \<in> set (judged_parts pending parts)" if "(d, t) \<in> set parts" "0 < t" "pending (pd_deal_id d) = Some g" for d t g
      using that life_pos_closed [of d t deals org own v s] by (auto simp: judged_parts_def assms(8))
    have "faithful pending (noted org no_replay (judged_parts pending parts)) parts"
      unfolding faithful_def noted_parts no_replay_def
      using sub all pending_sum_parts [of pending deals org own v s] by (auto simp: assms(8) [symmetric] image_iff; fastforce)
    with True run r show ?thesis by simp
  next
    case False
    have "faithful pending (bounded_loop pending own seen share_now after [] deals 0 0 no_replay) ([] @ zip deals (share_life org own deals v s))"
    proof (rule bounded_loop_faithful [OF assms(2,4,5) af assms(6)])
      have "sum_list (share_life org own deals v s) = pending_sum pending parts + other_sum pending parts"
        unfolding assms(8) by (rule life_split)
      then show "share_now = s - other_sum pending (zip deals (share_life org own deals v s))
          + own_opened (\<lambda>d. own d \<and> pd_deal_id d \<in> seen) deals
          + pending_sum pending [] - own_opened (\<lambda>d. own d \<and> pd_deal_id d \<notin> seen) []"
        using assms(9) own_opened_split [of own deals "\<lambda>d. pd_deal_id d \<in> seen"]
        by (simp add: end_share_sum pending_sum_def assms(8)) (simp add: own_opened_def)
      show "0 \<le> pending_sum pending []" "pending_sum pending [] \<le> 0" by (simp_all add: pending_sum_def)
      show "faithful pending no_replay []" by (rule faithful_empty)
    qed
    with run show ?thesis unfolding if_not_P [OF False] by (simp add: assms(8))
  qed
qed

text \<open>A position with 4 units of another party's: the bot adds 5, and someone closes 6, 2 of them the bot's.\<close>

definition demo_opening :: position_deal where
  "demo_opening = \<lparr>pd_deal_id = 1, pd_order_id = 11, pd_executed_ms = 10, pd_filled = 5, pd_closed = 0, pd_side = Buy,
     pd_price = 1, pd_fee = 0\<rparr>"

definition demo_closing :: position_deal where
  "demo_closing = \<lparr>pd_deal_id = 2, pd_order_id = 12, pd_executed_ms = 20, pd_filled = 6, pd_closed = 6, pd_side = Sell,
     pd_price = 1, pd_fee = 0\<rparr>"

lemmas demo_deals = demo_opening_def demo_closing_def opened_part_def after_deal_def taken_of_def share_after_def
  part_taken_def own_opened_def

lemma replay_sound_witness:
  "faithful [2 \<mapsto> External] (replay_share_closes [demo_opening, demo_closing] [2 \<mapsto> External] Map.empty
      (\<lambda>d. pd_order_id d = 11) {1} 3 5) [(demo_opening, 0), (demo_closing, 2)]
   \<and> rp_reported (replay_share_closes [demo_opening, demo_closing] [2 \<mapsto> External] Map.empty
      (\<lambda>d. pd_order_id d = 11) {1} 3 5) = [(demo_closing, 2)]"
proof
  show "faithful [2 \<mapsto> External] (replay_share_closes [demo_opening, demo_closing] [2 \<mapsto> External] Map.empty
      (\<lambda>d. pd_order_id d = 11) {1} 3 5) [(demo_opening, 0), (demo_closing, 2)]"
    by (rule replay_sound [where v = 4 and s = 0 and org = "\<lambda>_. External"])
       (auto simp: demo_deals pending_sum_def split: if_splits)
  show "rp_reported (replay_share_closes [demo_opening, demo_closing] [2 \<mapsto> External] Map.empty
      (\<lambda>d. pd_order_id d = 11) {1} 3 5) = [(demo_closing, 2)]"
    by (simp add: replay_share_closes_def demo_deals Let_def no_replay_def note_bounds_def share_low_def share_high_def foreign_def)
qed

text \<open>
  C26: Over a position's whole life the verdict is exact. When the window starts from an empty position and
  the origin of every closing deal is known, the volumes and shares rebuilt backwards from what the venue
  holds now are those of the life played forwards: the closes booked, those reported and the total taken are
  what each pending deal took of the share, and nothing is left undecided.
\<close>

theorem replay_exact:
  assumes "distinct (map pd_deal_id deals)" and "path_ok 0 deals" and "end_volume deals 0 = venue_now"
    and "\<And>d. d \<in> set deals \<Longrightarrow> 0 < pd_closed d \<Longrightarrow> pending (pd_deal_id d) \<noteq> None \<or> judged (pd_deal_id d) \<noteq> None"
    and "org = origin_of pending judged" and "parts = judged_parts pending (zip deals (share_life org own deals 0 0))"
  shows "replay_share_closes deals pending judged own seen venue_now share_now =
     \<lparr>rp_reported = filter (\<lambda>(d, t). foreign (org d) \<and> 0 < t) parts, rp_ambiguous = [],
      rp_taken = sum_list (map snd parts), rp_booked = filter (\<lambda>(d, t). 0 < t) parts\<rparr>"
proof -
  obtain after where af: "after_ok after deals 0" and run:
    "replay_share_closes deals pending judged own seen venue_now share_now =
       (if (0::int) = 0 \<and> (\<forall>d \<in> set deals. 0 < pd_closed d \<longrightarrow> pending (pd_deal_id d) \<noteq> None \<or> judged (pd_deal_id d) \<noteq> None)
        then exact_loop pending judged own after deals 0 no_replay
        else bounded_loop pending own seen share_now after [] deals 0 0 no_replay)"
    by (rule replay_mode [OF assms(1-3)])
  have "exact_loop pending judged own after deals 0 no_replay = noted org no_replay parts"
    unfolding assms(6) by (rule exact_loop_life [OF assms(2) af]) (simp add: assms(5))
  then have "replay_share_closes deals pending judged own seen venue_now share_now = noted org no_replay parts"
    using run assms(4) by simp
  then show ?thesis by (simp add: share_replay.equality noted_parts no_replay_def)
qed

lemma replay_exact_witness:
  "replay_share_closes [demo_opening, demo_closing\<lparr>pd_closed := 3, pd_filled := 3\<rparr>] [2 \<mapsto> External] Map.empty
      (\<lambda>d. pd_order_id d = 11) {1} 2 7 =
   \<lparr>rp_reported = [(demo_closing\<lparr>pd_closed := 3, pd_filled := 3\<rparr>, 3)], rp_ambiguous = [], rp_taken = 3,
    rp_booked = [(demo_closing\<lparr>pd_closed := 3, pd_filled := 3\<rparr>, 3)]\<rparr>"
proof -
  have parts: "judged_parts [2 \<mapsto> External] (zip [demo_opening, demo_closing\<lparr>pd_closed := 3, pd_filled := 3\<rparr>]
      (share_life (origin_of [2 \<mapsto> External] Map.empty) (\<lambda>d. pd_order_id d = 11)
        [demo_opening, demo_closing\<lparr>pd_closed := 3, pd_filled := 3\<rparr>] 0 0))
      = [(demo_closing\<lparr>pd_closed := 3, pd_filled := 3\<rparr>, 3)]"
    by (simp add: demo_deals judged_parts_def origin_of_def)
  show ?thesis
    by (subst replay_exact [OF _ _ _ _ refl parts [symmetric]]) (auto simp: demo_deals origin_of_def foreign_def)
qed

end
