(* ===== verification/Terms.thy ===== *)
theory Terms
  imports Desk
begin

text \<open>
  The terms the bot sent for its pending entry orders (\<open>protection.py\<close>): recording a write and its answer, own
  amends in flight, what a partly filled order's volume means to the venue, and the verdict on a view of an
  order, which finds someone else's edits. The lists the code keeps under two keys of a row's extras, and the
  mark of an operator's resume, are the maps \<open>t_terms\<close>, \<open>t_attrs\<close> and \<open>t_resume_marks\<close> by client id; the row
  itself is looked up by the caller.
\<close>

section \<open>Attributes and terms\<close>

datatype volume_meaning = Whole | Remainder

text \<open>Stop-loss, take-profit, the relative ones, expiry and time in force.\<close>

type_synonym attrs = "rat \<times> rat \<times> int \<times> int \<times> int \<times> int"

definition GOOD_TILL_CANCEL :: int where "GOOD_TILL_CANCEL = 2"

definition DEFAULT_ORDER_ATTRS :: attrs where
  "DEFAULT_ORDER_ATTRS = (0, 0, 0, 0, 0, GOOD_TILL_CANCEL)"

definition ORDER_TERMS_CONFIRMATIONS :: nat where "ORDER_TERMS_CONFIRMATIONS = 2"

definition or_else :: "'a \<Rightarrow> 'a option \<Rightarrow> 'a" where
  "or_else d v = (case v of None \<Rightarrow> d | Some x \<Rightarrow> x)"

definition order_attrs :: "order \<Rightarrow> attrs" where
  "order_attrs o' = (or_else 0 (o_stopLoss o'), or_else 0 (o_takeProfit o'), or_else 0 (o_relativeStopLoss o'),
     or_else 0 (o_relativeTakeProfit o'), or_else 0 (o_expirationTimestamp o'), or_else GOOD_TILL_CANCEL (o_timeInForce o'))"

definition expiry_of :: "attrs \<Rightarrow> int" where
  "expiry_of a = (case a of (sl, tp, rsl, rtp, e, tif) \<Rightarrow> e)"

definition order_terms :: "order \<Rightarrow> rat \<times> rat \<times> int" where
  "order_terms o' = (o_limitPrice o', o_stopPrice o', td_volume (o_tradeData o'))"

definition same_price :: "rat option \<Rightarrow> rat option \<Rightarrow> rat \<Rightarrow> bool" where
  "same_price own seen tolerance \<longleftrightarrow>
     (case (own, seen) of (Some a, Some b) \<Rightarrow> \<bar>fsub a b\<bar> \<le> tolerance | _ \<Rightarrow> own = None \<and> seen = None)"

text \<open>The literals are \<open>0.5\<close> and \<open>1e-12\<close>.\<close>

definition price_tolerance :: "rat option \<Rightarrow> rat option \<Rightarrow> rat option \<Rightarrow> rat" where
  "price_tolerance tick p q =
     fadd (case tick of None \<Rightarrow> 0 | Some t \<Rightarrow> if 0 < t then fmul (1 / 2) t else 0)
       (fmul (fl (1 / 1000000000000))
          (max (max 1 (case p of None \<Rightarrow> 0 | Some x \<Rightarrow> \<bar>x\<bar>)) (case q of None \<Rightarrow> 0 | Some x \<Rightarrow> \<bar>x\<bar>)))"

text \<open>An entry of the list: the limit, stop and volume a write sent, and the volumes its answer showed.\<close>

record term_entry =
  te_limit :: "rat option"
  te_stop :: "rat option"
  te_volume :: int
  te_answer :: "(int \<times> int) option"

definition same_terms :: "rat option \<times> rat option \<times> int \<Rightarrow> term_entry \<Rightarrow> bool" where
  "same_terms wrote e \<longleftrightarrow> (te_limit e, te_stop e, te_volume e) = wrote"

definition sent_entry :: "rat option \<times> rat option \<times> int \<Rightarrow> term_entry" where
  "sent_entry wrote = (case wrote of (l, s, v) \<Rightarrow> \<lparr>te_limit = l, te_stop = s, te_volume = v, te_answer = None\<rparr>)"

type_synonym seen_view = "rat option \<times> rat option \<times> int \<times> attrs"

record terms =
  t_terms :: "string \<rightharpoonup> term_entry list"
  t_attrs :: "string \<rightharpoonup> attrs list"
  t_resume_marks :: "string \<rightharpoonup> int"
  t_semantics :: "volume_meaning option"
  t_attrs_seen :: "int \<rightharpoonup> attrs"
  t_before_amend :: "int \<rightharpoonup> attrs"
  t_amends :: "int \<rightharpoonup> int"
  t_held :: "(int \<times> order) list"
  t_settled_at :: "int \<rightharpoonup> rat"
  t_watch :: "int \<rightharpoonup> seen_view \<times> nat"
  t_reported :: "int set"
  t_resume_seen :: "int set"
  t_reports :: "(int \<times> seen_view) list"
  t_accepted :: "(int \<times> seen_view) list"
  t_unexplained :: "(int \<times> attrs) list"

definition no_terms :: terms where
  "no_terms = \<lparr>t_terms = Map.empty, t_attrs = Map.empty, t_resume_marks = Map.empty, t_semantics = None, t_attrs_seen = Map.empty,
     t_before_amend = Map.empty, t_amends = Map.empty, t_held = [], t_settled_at = Map.empty, t_watch = Map.empty, t_reported = {},
     t_resume_seen = {}, t_reports = [], t_accepted = [], t_unexplained = []\<rparr>"

definition terms_of :: "terms \<Rightarrow> row \<Rightarrow> term_entry list" where
  "terms_of T r = or_else [] (t_terms T (r_coid r))"

section \<open>Own writes\<close>

text \<open>\<open>row\<close> is the journal row of the order, if it has one.\<close>

definition remember_own_order_terms :: "row option \<Rightarrow> rat option \<times> rat option \<times> int \<Rightarrow> terms \<Rightarrow> terms" where
  "remember_own_order_terms row wrote T =
     (case row of
        None \<Rightarrow> T
      | Some r \<Rightarrow> T\<lparr>t_terms := (t_terms T)(r_coid r \<mapsto> filter (\<lambda>e. \<not> same_terms wrote e) (terms_of T r) @ [sent_entry wrote])\<rparr>)"

definition own_order_terms :: "row option \<Rightarrow> terms \<Rightarrow> term_entry list" where
  "own_order_terms row T = (case row of None \<Rightarrow> [] | Some r \<Rightarrow> terms_of T r)"

text \<open>\<open>_remember_amended_terms\<close>: a price the amend omits stays what the bot sent last.\<close>

definition amended_terms :: "row \<Rightarrow> amend_order \<Rightarrow> terms \<Rightarrow> rat option \<times> rat option \<times> int" where
  "amended_terms r req T =
     (let l = terms_of T r in
      (if m_limitPrice req \<noteq> None then m_limitPrice req else if l = [] then None else te_limit (last l),
       if m_stopPrice req \<noteq> None then m_stopPrice req else if l = [] then None else te_stop (last l), m_volume req))"

text \<open>The first entry of the same terms before the write goes back to its place.\<close>

fun reinsert :: "nat \<Rightarrow> (term_entry \<Rightarrow> bool) \<Rightarrow> term_entry list \<Rightarrow> term_entry list \<Rightarrow> term_entry list" where
  "reinsert i same [] terms = terms"
| "reinsert i same (e # before) terms =
     (if same e then take (min i (length terms)) terms @ e # drop (min i (length terms)) terms
      else reinsert (Suc i) same before terms)"

definition withdraw_own_order_terms ::
    "row option \<Rightarrow> rat option \<times> rat option \<times> int \<Rightarrow> term_entry list \<Rightarrow> terms \<Rightarrow> terms" where
  "withdraw_own_order_terms row wrote before T =
     (case row of
        None \<Rightarrow> T
      | Some r \<Rightarrow> T\<lparr>t_terms := (t_terms T)(r_coid r \<mapsto>
          reinsert 0 (same_terms wrote) before (filter (\<lambda>e. \<not> same_terms wrote e) (terms_of T r)))\<rparr>)"

fun answer_first :: "(term_entry \<Rightarrow> bool) \<Rightarrow> int \<times> int \<Rightarrow> term_entry list \<Rightarrow> term_entry list" where
  "answer_first same shown [] = []"
| "answer_first same shown (e # es) =
     (if same e then e\<lparr>te_answer := Some shown\<rparr> # es else e # answer_first same shown es)"

definition remember_own_order_answer :: "row option \<Rightarrow> rat option \<times> rat option \<times> int \<Rightarrow> order \<Rightarrow> terms \<Rightarrow> terms" where
  "remember_own_order_answer row wrote o' T =
     (case row of
        None \<Rightarrow> T
      | Some r \<Rightarrow>
          (if \<exists>e \<in> set (terms_of T r). same_terms wrote e
           then T\<lparr>t_terms := (t_terms T)(r_coid r \<mapsto>
                  answer_first (same_terms wrote) (td_volume (o_tradeData o'), o_executedVolume o') (terms_of T r))\<rparr>
           else T))"

definition known_order_attrs :: "terms \<Rightarrow> row \<Rightarrow> attrs list" where
  "known_order_attrs T r = DEFAULT_ORDER_ATTRS # or_else [] (t_attrs T (r_coid r))"

definition remember_own_order_attrs :: "row option \<Rightarrow> order \<Rightarrow> terms \<Rightarrow> terms" where
  "remember_own_order_attrs row o' T =
     (let a = order_attrs o';
          T' = (if o_orderId o' \<noteq> 0 then T\<lparr>t_attrs_seen := (t_attrs_seen T)(o_orderId o' \<mapsto> a)\<rparr> else T)
      in case row of
           None \<Rightarrow> T'
         | Some r \<Rightarrow>
             (if a = DEFAULT_ORDER_ATTRS \<or> a \<in> set (or_else [] (t_attrs T' (r_coid r))) then T'
              else T'\<lparr>t_attrs := (t_attrs T')(r_coid r \<mapsto> or_else [] (t_attrs T' (r_coid r)) @ [a])\<rparr>))"

definition is_pending_type :: "order \<Rightarrow> bool" where
  "is_pending_type o' \<longleftrightarrow> o_orderType o' = LIMIT \<or> o_orderType o' = STOP"

text \<open>What a partial fill teaches about the volume of a partly filled order.\<close>

definition learned_meaning :: "int \<times> int \<Rightarrow> order \<Rightarrow> volume_meaning option" where
  "learned_meaning shown o' =
     (case shown of (view_volume, view_executed) \<Rightarrow>
       (let volume = td_volume (o_tradeData o'); done = o_executedVolume o';
            whole = (volume = view_volume); remainder = (volume + done = view_volume + view_executed)
        in if done \<le> view_executed \<or> whole = remainder then None else Some (if whole then Whole else Remainder)))"

definition learn_order_volume_semantics :: "row option \<Rightarrow> order \<Rightarrow> terms \<Rightarrow> terms" where
  "learn_order_volume_semantics row o' T =
     (if o_orderId o' = 0 \<or> \<not> is_pending_type o' \<or> own_order_terms row T = [] then T
      else case te_answer (last (own_order_terms row T)) of
             None \<Rightarrow> T
           | Some shown \<Rightarrow>
               (case learned_meaning shown o' of
                  None \<Rightarrow> T
                | Some m \<Rightarrow>
                    (case t_semantics T of
                       None \<Rightarrow> T\<lparr>t_semantics := Some m\<rparr>
                     | Some known \<Rightarrow> if known = m then T else T\<lparr>t_semantics := None\<rparr>)))"

section \<open>Own amends in flight\<close>

definition begin_own_amend :: "int \<Rightarrow> terms \<Rightarrow> terms" where
  "begin_own_amend order_id T =
     (let n = or_else 0 (t_amends T order_id) in
      T\<lparr>t_before_amend := (if n = 0 \<and> t_attrs_seen T order_id \<noteq> None
            then (t_before_amend T)(order_id := t_attrs_seen T order_id) else t_before_amend T),
        t_amends := (t_amends T)(order_id \<mapsto> n + 1), t_watch := (t_watch T)(order_id := None)\<rparr>)"

definition end_own_amend ::
    "bool \<Rightarrow> row option \<Rightarrow> int \<Rightarrow> order option \<Rightarrow> (rat option \<times> rat option \<times> int) option \<Rightarrow> rat \<Rightarrow> terms \<Rightarrow> terms" where
  "end_own_amend with_journal row order_id reply wrote clock T =
     (let remaining = or_else 1 (t_amends T order_id) - 1;
          before = t_before_amend T order_id;
          T1 = T\<lparr>t_amends := (t_amends T)(order_id := (if 0 < remaining then Some remaining else None)),
                 t_before_amend := (if 0 < remaining then t_before_amend T else (t_before_amend T)(order_id := None)),
                 t_settled_at := (t_settled_at T)(order_id \<mapsto> clock), t_watch := (t_watch T)(order_id := None)\<rparr>
      in case reply of
           None \<Rightarrow> T1
         | Some o' \<Rightarrow>
             (if o_orderId o' \<noteq> order_id \<or> \<not> with_journal then T1
              else
                (let a = order_attrs o';
                     T2 = T1\<lparr>t_attrs_seen := (t_attrs_seen T1)(order_id \<mapsto> a)\<rparr>
                 in case row of
                      None \<Rightarrow> T2
                    | Some r \<Rightarrow>
                        (let T3 = (case wrote of None \<Rightarrow> T2 | Some s \<Rightarrow> remember_own_order_answer row s o' T2);
                             earlier = (case before of None \<Rightarrow> [] | Some b \<Rightarrow> [b])
                               @ (case map_of (t_held T3) order_id of
                                    None \<Rightarrow> [] | Some h \<Rightarrow> if order_terms h \<noteq> order_terms o' then [order_attrs h] else [])
                         in if a \<in> set (known_order_attrs T3 r) \<or> a \<in> set earlier then T3
                            else (let T4 = remember_own_order_attrs row o' T3
                                  in T4\<lparr>t_unexplained := t_unexplained T4 @ [(order_id, a)]\<rparr>)))))"

section \<open>The verdict on a view\<close>

text \<open>Whether a recorded entry explains the volume of a view.\<close>

definition own_volume :: "volume_meaning option \<Rightarrow> int \<Rightarrow> int \<Rightarrow> term_entry \<Rightarrow> bool" where
  "own_volume known volume done e \<longleftrightarrow>
     (case te_answer e of
        Some (shown, shown_done) \<Rightarrow>
          (let whole = shown; remainder = shown + shown_done - done
           in case known of
                Some Whole \<Rightarrow> volume = whole
              | Some Remainder \<Rightarrow> volume = remainder
              | None \<Rightarrow> volume = whole \<or> volume = remainder)
      | None \<Rightarrow> te_volume e \<in> {volume, volume + done, volume - done})"

definition view_price :: "rat \<Rightarrow> rat option" where
  "view_price p = (if p \<noteq> 0 then Some p else None)"

text \<open>\<open>tick\<close> is the cached price tick of a symbol. The view's attributes become the latest seen.\<close>

definition foreign_order_view ::
    "(int \<Rightarrow> rat option) \<Rightarrow> row option \<Rightarrow> order \<Rightarrow> terms \<Rightarrow> seen_view option \<times> terms" where
  "foreign_order_view tick row o' T =
     (if o_orderId o' = 0 \<or> \<not> is_pending_type o' \<or> o_orderId o' \<in> t_reported T then (None, T)
      else case row of
             None \<Rightarrow> (None, T)
           | Some r \<Rightarrow>
               (if r_closed r \<or> \<not> py_truth (map_option PyStr (r_pine_id r)) then (None, T)
                else
                  (let a = order_attrs o';
                       T' = T\<lparr>t_attrs_seen := (t_attrs_seen T)(o_orderId o' \<mapsto> a)\<rparr>;
                       limit = view_price (o_limitPrice o'); stop = view_price (o_stopPrice o');
                       volume = td_volume (o_tradeData o');
                       tolerance = price_tolerance (tick (td_symbolId (o_tradeData o'))) limit stop
                   in if terms_of T r = [] then (None, T')
                      else if a \<in> set (known_order_attrs T r)
                          \<and> (\<exists>e \<in> set (terms_of T r). same_price (te_limit e) limit tolerance
                               \<and> same_price (te_stop e) stop tolerance
                               \<and> own_volume (t_semantics T) volume (o_executedVolume o') e)
                        then (None, T') else (Some (limit, stop, volume, a), T'))))"

definition report_foreign_order_edit :: "int \<Rightarrow> seen_view \<Rightarrow> terms \<Rightarrow> terms" where
  "report_foreign_order_edit order_id v T =
     T\<lparr>t_reported := insert order_id (t_reported T), t_watch := (t_watch T)(order_id := None),
       t_reports := t_reports T @ [(order_id, v)]\<rparr>"

definition judge_replaced_order :: "(int \<Rightarrow> rat option) \<Rightarrow> (int \<Rightarrow> row option) \<Rightarrow> order \<Rightarrow> terms \<Rightarrow> terms" where
  "judge_replaced_order tick row_of o' T =
     (if o_orderId o' \<noteq> 0 \<and> or_else 0 (t_amends T (o_orderId o')) \<noteq> 0
      then T\<lparr>t_held := AList.update (o_orderId o') o' (t_held T)\<rparr>
      else case foreign_order_view tick (row_of (o_orderId o')) o' T of
             (None, T') \<Rightarrow> T'
           | (Some v, T') \<Rightarrow> report_foreign_order_edit (o_orderId o') v T')"

text \<open>The views held while an own amend was in flight, judged once none is.\<close>

fun judge_held :: "(int \<Rightarrow> rat option) \<Rightarrow> (int \<Rightarrow> row option) \<Rightarrow> (int \<times> order) list \<Rightarrow> terms \<Rightarrow> terms" where
  "judge_held tick row_of [] T = T"
| "judge_held tick row_of ((i, o') # hs) T =
     judge_held tick row_of hs (judge_replaced_order tick row_of o' (T\<lparr>t_held := AList.delete i (t_held T)\<rparr>))"

definition judge_held_replaced_orders :: "(int \<Rightarrow> rat option) \<Rightarrow> (int \<Rightarrow> row option) \<Rightarrow> terms \<Rightarrow> terms" where
  "judge_held_replaced_orders tick row_of T =
     judge_held tick row_of (filter (\<lambda>(i, h). or_else 0 (t_amends T i) = 0) (t_held T)) T"

section \<open>An operator's resume\<close>

definition resume_baseline_due :: "row option \<Rightarrow> int \<Rightarrow> int \<Rightarrow> terms \<Rightarrow> bool \<times> terms" where
  "resume_baseline_due row order_id resume_ms T =
     (if order_id \<in> t_resume_seen T then (False, T)
      else case row of
             Some r \<Rightarrow> (if t_resume_marks T (r_coid r) = Some resume_ms
                       then (False, T\<lparr>t_resume_seen := insert order_id (t_resume_seen T)\<rparr>) else (True, T))
           | None \<Rightarrow> (True, T))"

definition mark_resume_baseline_taken :: "row option \<Rightarrow> int \<Rightarrow> int \<Rightarrow> terms \<Rightarrow> terms" where
  "mark_resume_baseline_taken row order_id resume_ms T =
     T\<lparr>t_resume_seen := insert order_id (t_resume_seen T),
       t_resume_marks := (case row of None \<Rightarrow> t_resume_marks T | Some r \<Rightarrow> (t_resume_marks T)(r_coid r \<mapsto> resume_ms))\<rparr>"

definition accept_order_view_by_resume :: "row \<Rightarrow> order \<Rightarrow> seen_view \<Rightarrow> terms \<Rightarrow> terms" where
  "accept_order_view_by_resume r o' v T =
     (case v of (limit, stop, volume, a) \<Rightarrow>
       (let wrote = (limit, stop, volume);
            T' = remember_own_order_attrs (Some r) o'
                   (remember_own_order_answer (Some r) wrote o' (remember_own_order_terms (Some r) wrote T))
        in T'\<lparr>t_accepted := t_accepted T' @ [(o_orderId o', v)]\<rparr>))"

text \<open>\<open>resume_ms\<close> is the operator's resume the process applied, \<open>created_ms\<close> when a row was created.\<close>

definition observe_working_order ::
    "(int \<Rightarrow> rat option) \<Rightarrow> (row \<Rightarrow> int) \<Rightarrow> int option \<Rightarrow> row option \<Rightarrow> order \<Rightarrow> rat \<Rightarrow> terms \<Rightarrow> terms" where
  "observe_working_order tick created_ms resume_ms row o' read_started_at T =
     (let i = o_orderId o' in
      if or_else 0 (t_amends T i) \<noteq> 0 then T\<lparr>t_watch := (t_watch T)(i := None)\<rparr>
      else if (case t_settled_at T i of None \<Rightarrow> False | Some s \<Rightarrow> read_started_at < s) then T
      else case foreign_order_view tick row o' T of (v, T1) \<Rightarrow>
        (let (due, T2) = (case resume_ms of None \<Rightarrow> (False, T1) | Some ms \<Rightarrow> resume_baseline_due row i ms T1);
             accepts = (due \<and> v \<noteq> None \<and> (case (row, resume_ms) of (Some r, Some ms) \<Rightarrow> created_ms r \<le> ms | _ \<Rightarrow> False));
             T3 = (if accepts then accept_order_view_by_resume (the row) o' (the v) T2 else T2);
             T4 = (case resume_ms of Some ms \<Rightarrow> if due then mark_resume_baseline_taken row i ms T3 else T3 | None \<Rightarrow> T3)
         in case (if accepts then None else v) of
              None \<Rightarrow> T4\<lparr>t_watch := (t_watch T4)(i := None)\<rparr>
            | Some view \<Rightarrow>
                (let n = (case t_watch T4 i of Some (k, c) \<Rightarrow> if k = view then c + 1 else 1 | None \<Rightarrow> 1)
                 in if n < ORDER_TERMS_CONFIRMATIONS then T4\<lparr>t_watch := (t_watch T4)(i \<mapsto> (view, n))\<rparr>
                    else report_foreign_order_edit i view T4)))"

section \<open>Cancels of the venue\<close>

definition foreign_expiry :: "row option \<Rightarrow> order \<Rightarrow> terms \<Rightarrow> bool" where
  "foreign_expiry row o' T \<longleftrightarrow>
     (let e = or_else 0 (o_expirationTimestamp o')
      in e \<noteq> 0 \<and> o_orderId o' \<noteq> 0 \<and>
         (case row of None \<Rightarrow> False | Some r \<Rightarrow> list_all (\<lambda>a. expiry_of a \<noteq> e) (known_order_attrs T r)))"

text \<open>Whether \<open>_venue_cancel_reason\<close> names the venue.\<close>

definition venue_cancel_reason :: "row option \<Rightarrow> order \<Rightarrow> bool \<Rightarrow> bool \<Rightarrow> bool \<Rightarrow> terms \<Rightarrow> bool" where
  "venue_cancel_reason row o' expired server_event rejected T =
     (if expired then \<not> foreign_expiry row o' T else server_event \<or> rejected)"

end
