(* ===== verification/Share.thy ===== *)
theory Share
  imports Replay Terms
begin

text \<open>
  The bot's share of a position (\<open>protection.py\<close>): bounds of it as of a deal, the fills the journal and the event
  stream see at different times, the exposure a partial close retires and a correction gives back, and the
  closes whose verdict waits for an entry in flight. The code of this layer runs without awaiting, on the
  plugin's attributes, which are the record \<open>ledger\<close>; objects the code shares are references into it.
\<close>

section \<open>Events of the engine\<close>

datatype event_kind = Ev_created | Ev_filled | Ev_partial | Ev_cancelled | Ev_rejected
datatype leg_type = Leg_entry | Leg_close

text \<open>The engine's order event, without the constant fields.\<close>

record order_event =
  ev_order :: exchange_order
  ev_kind :: event_kind
  ev_price :: "rat option"
  ev_qty :: "rat option"
  ev_time :: rat
  ev_pine :: "string option"
  ev_from :: "string option"
  ev_leg :: "leg_type option"
  ev_fee :: rat
  ev_fill_id :: "string option"
  ev_venue_cancel :: bool

section \<open>The ledger\<close>

text \<open>The literal \<open>0.005\<close>.\<close>

definition VOLUME_TOL :: rat where "VOLUME_TOL = fl (5 / 1000)"

definition SHARE_EFFECT_TTL :: rat where "SHARE_EFFECT_TTL = 60"
definition OWN_CLOSE_GRACE :: rat where "OWN_CLOSE_GRACE = 300"
definition CLOCK_SKEW_MS :: int where "CLOCK_SKEW_MS = 60000"

record claimed_fill =
  cf_order_id :: int
  cf_deal_id :: "int option"
  cf_fill_qty :: rat
  cf_order_type :: order_type
  cf_client_order_id :: string
  cf_from_entry :: "string option"
  cf_terminal :: bool
  cf_executed_ms :: "int option"
  cf_share_before :: "rat option"
  cf_share_high :: "rat option"
  cf_venue_after :: rat
  cf_booked :: rat
  cf_venue :: bool
  cf_event :: "order_event option"
  cf_settles_share :: bool

record own_answer_fill =
  af_deal_id :: int
  af_executed_ms :: "int option"
  af_closed :: rat

text \<open>\<open>oc_expires\<close> is \<open>None\<close> for an infinite deadline; \<open>oc_claims\<close> are references to claimed fills.\<close>

record own_close =
  oc_position :: int
  oc_sent_ms :: int
  oc_order_id :: "int option"
  oc_expires :: "rat option"
  oc_answered_ms :: "int option"
  oc_key :: nat
  oc_claims :: "nat list"
  oc_volume :: "rat option"
  oc_from_entry :: "string option"
  oc_executed :: rat
  oc_deals :: "int list"
  oc_complete :: bool

record share_effect =
  se_position :: int
  se_delta :: rat
  se_counted :: bool
  se_executed_ms :: "int option"
  se_deal_id :: "int option"
  se_order_id :: int
  se_recorded_at :: rat

record share_bounds =
  sb_low :: rat
  sb_high :: rat
  sb_side :: "side option"

text \<open>The context of a manual-close report; the texts are left out.\<close>

record close_context =
  cc_position :: int
  cc_order_id :: int
  cc_deal_ids :: "int list"
  cc_closed :: rat
  cc_share :: "(rat \<times> rat) option"
  cc_booked :: "rat option"
  cc_claimed_as_own :: bool

record held_verdict =
  hv_position :: int
  hv_deal_id :: "int option"
  hv_executed_ms :: "int option"
  hv_net_low :: rat
  hv_net_high :: rat
  hv_venue_after :: rat
  hv_fill_qty :: rat
  hv_booked :: rat
  hv_context :: close_context
  hv_waiting :: "(string \<times> rat) list"
  hv_counted :: "(string \<times> rat) list"
  hv_applied :: rat
  hv_unknown :: "rat list"

text \<open>What the layer writes to the journal besides the writes to rows: the state of an own close, the closing
  deals whose origin is decided, a manual-close report and its handling, and audit events of a position.\<close>

datatype lop =
    Row_op jop
  | Own_close_event own_close bool
  | Close_judged "int list" "(int \<times> close_origin) list"
  | Report_pending nat close_context "string option"
  | Report_done nat
  | Noted string int

text \<open>The calls of the event stream into the level guard, which is not modelled.\<close>

datatype guard_call =
    Pushed_protection position
  | Fired_protection int order rat
  | Absorbed_protection position bool
  | Took_protection position

record ledger =
  g_past :: "lop list"
  g_journal :: "lop list"
  g_loaded :: bool
  g_mono :: rat
  g_clock :: rat
  g_hedging :: bool
  g_fresh :: nat
  g_closes :: "nat \<Rightarrow> own_close"
  g_fills :: "nat \<Rightarrow> claimed_fill"
  g_live :: "nat list"
  g_history :: "nat list"
  g_effects :: "share_effect list"
  g_held :: "held_verdict list"
  g_seen :: "int set"
  g_dispatches :: "(string \<times> string \<times> rat) list"
  g_close_pine :: "int \<rightharpoonup> string option"
  g_judged :: "int set"
  g_origins :: "int \<rightharpoonup> close_origin"
  g_reported :: "int set"
  g_unhandled :: "nat set"
  g_reports :: "(nat \<times> close_context \<times> string option) list"
  g_released :: "order_event list"
  g_wakeups :: nat
  g_ambiguous :: "int \<rightharpoonup> nat"
  g_covered :: "int \<rightharpoonup> int"
  g_vacated :: "int list"
  g_calls :: "guard_call list"
  g_names :: "int \<rightharpoonup> string"
  g_shared :: "int list"
  g_ticks :: "int \<rightharpoonup> rat"
  g_terms :: terms

text \<open>\<open>g_mono\<close> is the loop's clock, \<open>g_clock\<close> is \<open>epoch_time()\<close>, both in seconds.\<close>

definition wall_ms :: "ledger \<Rightarrow> int" where
  "wall_ms L = \<lfloor>fmul (g_clock L) 1000\<rfloor>"

type_synonym 'a act = "(ledger, exn, 'a) eff"

definition row_writes :: "ledger \<Rightarrow> jop list" where
  "row_writes L = List.map_filter (\<lambda>op. case op of Row_op j \<Rightarrow> Some j | _ \<Rightarrow> None) (g_journal L)"

definition post :: "floor \<Rightarrow> lop \<Rightarrow> unit act" where
  "post X op = modify (\<lambda>L. if journaled X then L\<lparr>g_journal := g_journal L @ [op]\<rparr> else L)"

definition try_exn :: "exn + 'a \<Rightarrow> 'a act" where
  "try_exn r = (case r of Inl e \<Rightarrow> throw e | Inr x \<Rightarrow> ret x)"

section \<open>Bounds of the share\<close>

fun widen :: "rat \<Rightarrow> rat \<Rightarrow> rat list \<Rightarrow> rat \<times> rat" where
  "widen lo hi [] = (lo, hi)"
| "widen lo hi (v # vs) = widen (fadd lo (min 0 v)) (fadd hi (max 0 v)) vs"

definition bounds_of_net :: "rat \<Rightarrow> rat \<Rightarrow> rat list \<Rightarrow> share_bounds" where
  "bounds_of_net lo hi flying =
     (case widen lo hi flying of (lo, hi) \<Rightarrow>
        if - VOLUME_TOL \<le> lo \<and> hi \<le> VOLUME_TOL then \<lparr>sb_low = 0, sb_high = 0, sb_side = None\<rparr>
        else if - VOLUME_TOL \<le> lo then \<lparr>sb_low = max 0 lo, sb_high = hi, sb_side = Some Buy\<rparr>
        else if hi \<le> VOLUME_TOL then \<lparr>sb_low = max 0 (- hi), sb_high = - lo, sb_side = Some Sell\<rparr>
        else \<lparr>sb_low = 0, sb_high = max (- lo) hi, sb_side = None\<rparr>)"

definition net_side :: "rat option \<Rightarrow> side option" where
  "net_side net =
     (case net of None \<Rightarrow> None | Some n \<Rightarrow> if \<bar>n\<bar> \<le> VOLUME_TOL then None else if 0 < n then Some Buy else Some Sell)"

definition net_share :: "floor \<Rightarrow> ledger \<Rightarrow> int \<Rightarrow> rat option" where
  "net_share X L p = signed_share X (row_writes L) p"

definition own_share :: "floor \<Rightarrow> ledger \<Rightarrow> int \<Rightarrow> rat option" where
  "own_share X L p = map_option abs (net_share X L p)"

definition share_side :: "floor \<Rightarrow> ledger \<Rightarrow> int \<Rightarrow> side option" where
  "share_side X L p = net_side (net_share X L p)"

definition share_vacated :: "floor \<Rightarrow> ledger \<Rightarrow> int \<Rightarrow> bool" where
  "share_vacated X L p \<longleftrightarrow> (case own_share X L p of None \<Rightarrow> False | Some s \<Rightarrow> s \<le> VOLUME_TOL)"

definition claimed_volume :: "ledger \<Rightarrow> own_close \<Rightarrow> rat" where
  "claimed_volume L c =
     foldl fadd 0 (map (\<lambda>f. cf_booked (g_fills L f)) (filter (\<lambda>f. \<not> cf_venue (g_fills L f)) (oc_claims c)))"

definition count_executed :: "int option \<Rightarrow> rat \<Rightarrow> own_close \<Rightarrow> own_close" where
  "count_executed deal_id volume c =
     (case deal_id of
        None \<Rightarrow> c\<lparr>oc_executed := fadd (oc_executed c) volume\<rparr>
      | Some i \<Rightarrow> (if i \<in> set (oc_deals c) then c
                   else c\<lparr>oc_deals := i # oc_deals c, oc_executed := fadd (oc_executed c) volume\<rparr>))"

definition unresolved :: "ledger \<Rightarrow> own_close \<Rightarrow> rat" where
  "unresolved L c =
     (case (oc_answered_ms c, oc_volume c) of
        (Some _, Some v) \<Rightarrow>
          (if oc_complete c then 0
           else max 0 (fsub (fsub v (oc_executed c))
                  (foldl fadd 0 (map (\<lambda>f. cf_fill_qty (g_fills L f)) (filter (\<lambda>f. \<not> cf_venue (g_fills L f)) (oc_claims c))))))
      | _ \<Rightarrow> 0)"

definition claims_recovered :: "own_close \<Rightarrow> int \<Rightarrow> int \<Rightarrow> int \<Rightarrow> bool" where
  "claims_recovered c position_id order_id executed_ms \<longleftrightarrow>
     (case oc_order_id c of
        Some i \<Rightarrow> i = order_id
      | None \<Rightarrow>
          (if oc_position c \<noteq> position_id \<or> executed_ms < oc_sent_ms c - CLOCK_SKEW_MS then False
           else case oc_answered_ms c of
                  None \<Rightarrow> True
                | Some ms \<Rightarrow> rat_of_int executed_ms \<le> fadd (fadd (of_int ms) (fmul OWN_CLOSE_GRACE 1000)) (of_int CLOCK_SKEW_MS)))"

definition record_share_effect ::
    "int \<Rightarrow> rat \<Rightarrow> bool \<Rightarrow> int option \<Rightarrow> int option \<Rightarrow> int \<Rightarrow> unit act" where
  "record_share_effect p delta was_counted executed_ms deal_id order_id = modify (\<lambda>L.
     (let nonzero = (\<lambda>x. if x = Some 0 then None else x) in
      if p = 0 \<or> \<bar>delta\<bar> \<le> VOLUME_TOL \<or> (case nonzero deal_id of None \<Rightarrow> False | Some i \<Rightarrow> i \<in> g_seen L) then L
      else L\<lparr>g_effects := g_effects L @ [\<lparr>se_position = p, se_delta = delta, se_counted = was_counted,
               se_executed_ms = nonzero executed_ms, se_deal_id = nonzero deal_id, se_order_id = order_id,
               se_recorded_at = g_mono L\<rparr>]\<rparr>))"

definition settle_share_effects :: "int \<Rightarrow> int option \<Rightarrow> unit act" where
  "settle_share_effects order_id deal_id = modify (\<lambda>L. L\<lparr>g_effects := filter (\<lambda>e.
     \<not> ((deal_id \<noteq> None \<and> se_deal_id e = deal_id) \<or> (se_deal_id e = None \<and> se_order_id e = order_id))) (g_effects L)\<rparr>)"

definition live_share_effects :: "int \<Rightarrow> share_effect list act" where
  "live_share_effects p =
     seq (modify (\<lambda>L. L\<lparr>g_effects := filter (\<lambda>e. fsub (g_mono L) (se_recorded_at e) < SHARE_EFFECT_TTL) (g_effects L)\<rparr>)) (\<lambda>_.
     asks (\<lambda>L. filter (\<lambda>e. se_position e = p) (g_effects L)))"

text \<open>One effect: applied, left out, or allowed for either way.\<close>

definition shift_net :: "int option \<Rightarrow> rat \<times> rat \<Rightarrow> share_effect \<Rightarrow> rat \<times> rat" where
  "shift_net executed_ms net e =
     (case net of (lo, hi) \<Rightarrow>
       (let later = (case (se_executed_ms e, executed_ms) of (Some a, Some b) \<Rightarrow> b < a | _ \<Rightarrow> False);
            earlier = (case (se_executed_ms e, executed_ms) of (Some a, Some b) \<Rightarrow> a < b | _ \<Rightarrow> False);
            certain = (if se_counted e then later else earlier);
            shift = (if se_counted e then - se_delta e else se_delta e);
            excluded = (if se_counted e then earlier else later)
        in if certain then (fadd lo shift, fadd hi shift)
           else if excluded then (lo, hi) else (fadd lo (min 0 shift), fadd hi (max 0 shift))))"

definition unresolved_own_close :: "ledger \<Rightarrow> int \<Rightarrow> rat" where
  "unresolved_own_close L p =
     foldl fadd 0 (map (\<lambda>c. unresolved L (g_closes L c)) (filter (\<lambda>c. oc_position (g_closes L c) = p) (g_history L)))"

definition toward_zero :: "rat \<Rightarrow> rat \<times> rat \<Rightarrow> rat \<times> rat" where
  "toward_zero unseen net =
     (case net of (lo, hi) \<Rightarrow>
        if VOLUME_TOL < unseen
        then (if 0 < lo then (max 0 (fsub lo unseen), hi) else if hi < 0 then (lo, min 0 (fadd hi unseen)) else (lo, hi))
        else (lo, hi))"

definition rows_net :: "floor \<Rightarrow> row list \<Rightarrow> rat" where
  "rows_net X rows = foldl (\<lambda>sum r. fadd sum (signed (r_side r) (row_exposure X r))) 0 rows"

definition net_bounds :: "floor \<Rightarrow> int \<Rightarrow> row list \<Rightarrow> int option \<Rightarrow> (rat \<times> rat) act" where
  "net_bounds X p rows executed_ms =
     seq (live_share_effects p) (\<lambda>effects.
     asks (\<lambda>L. toward_zero (unresolved_own_close L p)
       (foldl (shift_net executed_ms) (rows_net X rows, rows_net X rows) effects)))"

definition with_sign :: "rat \<Rightarrow> rat \<Rightarrow> rat" where
  "with_sign q v = (if v < 0 then - \<bar>q\<bar> else \<bar>q\<bar>)"

definition lookup_row :: "string \<Rightarrow> row list \<Rightarrow> row option" where
  "lookup_row coid rows = find (\<lambda>r. r_coid r = coid) (rev rows)"

definition entries_in_flight :: "ledger \<Rightarrow> row list \<Rightarrow> (string \<times> rat) list" where
  "entries_in_flight L rows =
     (if g_hedging L then []
      else List.map_filter (\<lambda>(coid, symbol, volume).
             (let rest = fsub \<bar>volume\<bar> (case lookup_row coid rows of None \<Rightarrow> 0 | Some r \<Rightarrow> r_filled r)
              in if symbol \<in> r_symbol ` set rows \<and> VOLUME_TOL < rest then Some (coid, with_sign rest volume) else None))
           (g_dispatches L))"

definition bounds_as_of :: "floor \<Rightarrow> int \<Rightarrow> int option \<Rightarrow> bool \<Rightarrow> share_bounds option act" where
  "bounds_as_of X p executed_ms flying =
     seq (asks (\<lambda>L. position_entry_rows X (row_writes L) p)) (\<lambda>rows.
     if rows = [] then ret None
     else seq (net_bounds X p rows executed_ms) (\<lambda>(lo, hi).
          asks (\<lambda>L. Some (bounds_of_net lo hi (if flying then map snd (entries_in_flight L rows) else [])))))"

text \<open>The volume a fill left on the bot's side.\<close>

definition venue_after :: "position option \<Rightarrow> side option \<Rightarrow> rat" where
  "venue_after pos s =
     (case pos of
        None \<Rightarrow> 0
      | Some p \<Rightarrow>
          (if p_positionStatus p = POSITION_STATUS_CLOSED then 0
           else if s \<noteq> None \<and> s \<noteq> Some (if td_tradeSide (p_tradeData p) = BUY then Buy else Sell) then 0
           else volume_to_units (td_volume (p_tradeData p))))"

section \<open>Retired exposure\<close>

definition matches_position :: "int \<Rightarrow> row \<Rightarrow> exn + bool" where
  "matches_position p r =
     (case extra r ''position_id'' of
        None \<Rightarrow> Inr (r_exchange_id r = Some (py_str p))
      | Some v \<Rightarrow> map_sum id (\<lambda>i. i = p \<or> r_exchange_id r = Some (py_str p)) (parse_protocol_id v ''position_id''))"

definition retired_of :: "floor \<Rightarrow> row \<Rightarrow> rat" where
  "retired_of X r = number_or_zero (extra r (retired_mark X))"

definition set_retired :: "floor \<Rightarrow> row \<Rightarrow> rat \<Rightarrow> lop" where
  "set_retired X r v = Row_op (Set_extras (r_coid r) ((r_extras r)(retired_mark X \<mapsto> PyFloat v)))"

fun retire_rows :: "floor \<Rightarrow> int \<Rightarrow> side option \<Rightarrow> row list \<Rightarrow> rat \<Rightarrow> unit act" where
  "retire_rows X p s [] remaining = ret ()"
| "retire_rows X p s (r # rs) remaining =
     (if remaining \<le> NANO then ret ()
      else if s \<noteq> None \<and> s \<noteq> Some (r_side r) then retire_rows X p s rs remaining
      else case matches_position p r of
             Inl e \<Rightarrow> throw e
           | Inr False \<Rightarrow> retire_rows X p s rs remaining
           | Inr True \<Rightarrow>
               (let take_qty = min (max 0 (fsub (r_filled r) (retired_of X r))) remaining
                in if take_qty \<le> NANO then retire_rows X p s rs remaining
                   else seq (post X (set_retired X r (fadd (retired_of X r) take_qty))) (\<lambda>_.
                        seq (post X (Row_op (Audit ''journal_exposure_retired'' (Some (r_coid r))))) (\<lambda>_.
                        retire_rows X p s rs (fsub remaining take_qty)))))"

definition retire_partial_close :: "floor \<Rightarrow> int \<Rightarrow> rat \<Rightarrow> unit act" where
  "retire_partial_close X p qty =
     (if \<not> journaled X \<or> p = 0 \<or> qty \<le> 0 then ret ()
      else seq (asks (\<lambda>L. (net_share X L p, live_rows X (row_writes L)))) (\<lambda>(net, rows).
        case net of
          None \<Rightarrow> retire_rows X p None rows qty
        | Some n \<Rightarrow> (if net_side net = None then ret () else retire_rows X p (net_side net) rows (min qty \<bar>n\<bar>))))"

fun restore_rows :: "floor \<Rightarrow> int \<Rightarrow> row list \<Rightarrow> rat \<Rightarrow> rat act" where
  "restore_rows X p [] remaining = ret remaining"
| "restore_rows X p (r # rs) remaining =
     (if remaining \<le> NANO then ret remaining
      else case matches_position p r of
             Inl e \<Rightarrow> throw e
           | Inr False \<Rightarrow> restore_rows X p rs remaining
           | Inr True \<Rightarrow>
               (let give = min (retired_of X r) remaining
                in if give \<le> NANO then restore_rows X p rs remaining
                   else seq (post X (set_retired X r (fsub (retired_of X r) give))) (\<lambda>_.
                        seq (post X (Row_op (Audit ''journal_exposure_restored'' (Some (r_coid r))))) (\<lambda>_.
                        restore_rows X p rs (fsub remaining give)))))"

definition restore_retired :: "floor \<Rightarrow> int \<Rightarrow> rat \<Rightarrow> rat act" where
  "restore_retired X p qty =
     (if \<not> journaled X \<or> p = 0 \<or> qty \<le> 0 then ret 0
      else seq (asks (\<lambda>L. rev (live_rows X (row_writes L)))) (\<lambda>rows.
           seq (restore_rows X p rows qty) (\<lambda>remaining. ret (fsub qty remaining))))"

text \<open>What is forgotten with a position the bot holds nothing of; the calls into the level guard are kept.\<close>

definition vacate_position :: "int \<Rightarrow> unit act" where
  "vacate_position p = modify (\<lambda>L. L\<lparr>g_close_pine := (g_close_pine L)(p := None), g_vacated := g_vacated L @ [p]\<rparr>)"

definition settle_own_partial_close :: "floor \<Rightarrow> int \<Rightarrow> unit act" where
  "settle_own_partial_close X p =
     seq (asks (\<lambda>L. (own_share X L p, g_hedging L))) (\<lambda>(share, hedged).
     case share of
       None \<Rightarrow> (if hedged then ret () else modify (\<lambda>L. L\<lparr>g_close_pine := (g_close_pine L)(p := None)\<rparr>))
     | Some s \<Rightarrow> (if s \<le> VOLUME_TOL then vacate_position p else ret ()))"

end
