(* ===== verification/Closes.thy ===== *)
theory Closes
  imports Share "HOL-Library.AList"
begin

text \<open>
  The closes the run sent and the classification of closing fills (\<open>protection.py\<close>): who caused a fill, the fills an
  own close takes before its order is known and their judgement once it is answered, the closes that wait for an
  entry in flight, the reports of someone else's closes and their delivery, and what a restarted process takes
  over from the journal.
\<close>

section \<open>Identities\<close>

definition is_run_client_order_id :: "floor \<Rightarrow> ledger \<Rightarrow> string \<Rightarrow> bool" where
  "is_run_client_order_id X L coid \<longleftrightarrow>
     journaled X \<and> coid \<noteq> []
     \<and> (get_row X (row_writes L) coid \<noteq> None \<or> starts_with coid (run_tag X @ ''-''))"

definition row_of_order :: "floor \<Rightarrow> ledger \<Rightarrow> int \<Rightarrow> row option" where
  "row_of_order X L order_id =
     (if journaled X \<and> order_id \<noteq> 0 then ref_row X (row_writes L) ''order_id'' (py_str order_id) else None)"

definition is_own_entry_order :: "floor \<Rightarrow> ledger \<Rightarrow> int \<Rightarrow> bool" where
  "is_own_entry_order X L order_id \<longleftrightarrow>
     journaled X \<and> order_id \<noteq> 0 \<and> ref_row X (row_writes L) ''order_id'' (py_str order_id) \<noteq> None"

section \<open>Reports\<close>

fun first_row :: "floor \<Rightarrow> int \<Rightarrow> row list \<Rightarrow> string option \<Rightarrow> string option" where
  "first_row X p [] fallback = fallback"
| "first_row X p (r # rs) fallback =
     (case extra r ''position_id'' of
        None \<Rightarrow> first_row X p rs fallback
      | Some v \<Rightarrow>
          (if \<not> py_truth (map_option PyStr (r_pine_id r)) \<or> parse_protocol_id v ''position_id'' \<noteq> Inr p
           then first_row X p rs fallback
           else if keeps_levels X r p then Some (r_coid r)
           else first_row X p rs (if fallback = None then Some (r_coid r) else fallback)))"

definition protection_row :: "floor \<Rightarrow> ledger \<Rightarrow> int \<Rightarrow> string option" where
  "protection_row X L p = (if journaled X then first_row X p (live_rows X (row_writes L)) None else None)"

definition queue_external_close :: "floor \<Rightarrow> int \<Rightarrow> close_context \<Rightarrow> unit act" where
  "queue_external_close X p ctx =
     seq (asks (\<lambda>L. (p \<in> g_reported L, protection_row X L p, g_fresh L))) (\<lambda>(waits_already, coid, key).
     if waits_already then ret ()
     else seq (modify (\<lambda>L. L\<lparr>g_reported := insert p (g_reported L), g_fresh := Suc key\<rparr>)) (\<lambda>_.
          seq (post X (Report_pending key ctx coid)) (\<lambda>_.
          modify (\<lambda>L. L\<lparr>g_unhandled := insert key (g_unhandled L), g_reports := g_reports L @ [(key, ctx, coid)]\<rparr>))))"

definition mark_close_judged :: "floor \<Rightarrow> int list \<Rightarrow> (int \<times> close_origin) list \<Rightarrow> unit act" where
  "mark_close_judged X deal_ids origins =
     seq (asks (\<lambda>L. filter (\<lambda>i. i \<notin> g_judged L \<or> (map_of origins i \<noteq> None \<and> g_origins L i \<noteq> map_of origins i)) deal_ids)) (\<lambda>fresh.
     if fresh = [] then ret ()
     else (let recorded = List.map_filter (\<lambda>i. map_option (\<lambda>g. (i, g)) (map_of origins i)) fresh in
       seq (modify (\<lambda>L. L\<lparr>g_judged := g_judged L \<union> set fresh, g_origins := g_origins L ++ map_of recorded\<rparr>)) (\<lambda>_.
       post X (Close_judged fresh recorded))))"

definition note_share_unknown :: "floor \<Rightarrow> int \<Rightarrow> unit act" where
  "note_share_unknown X p = post X (Noted ''ctrader_close_share_unknown'' p)"

definition note_share_ambiguous :: "floor \<Rightarrow> int \<Rightarrow> unit act" where
  "note_share_ambiguous X p = post X (Noted ''ctrader_close_share_ambiguous'' p)"

definition note_server_close :: "floor \<Rightarrow> int \<Rightarrow> unit act" where
  "note_server_close X p = post X (Noted ''ctrader_server_close'' p)"

section \<open>What earlier processes left\<close>

definition loaded_close :: "own_close \<Rightarrow> own_close" where
  "loaded_close c = \<lparr>oc_position = oc_position c, oc_sent_ms = oc_sent_ms c,
     oc_order_id = (if oc_order_id c = Some 0 then None else oc_order_id c), oc_expires = Some 0,
     oc_answered_ms = (case oc_answered_ms c of None \<Rightarrow> Some (oc_sent_ms c) | Some ms \<Rightarrow> Some ms), oc_key = oc_key c,
     oc_claims = [], oc_volume = None, oc_from_entry = oc_from_entry c, oc_executed = 0, oc_deals = [], oc_complete = False\<rparr>"

fun load_closes :: "nat set \<Rightarrow> (nat \<times> own_close option) list \<Rightarrow> lop list \<Rightarrow> (nat \<times> own_close option) list" where
  "load_closes present m [] = m"
| "load_closes present m (Own_close_event c refused # es) =
     (if oc_key c \<in> present \<or> map_of m (oc_key c) = Some None then load_closes present m es
      else load_closes present (AList.update (oc_key c) (if refused then None else Some (loaded_close c)) m) es)"
| "load_closes present m (_ # es) = load_closes present m es"

fun load_judged :: "lop list \<Rightarrow> int set \<Rightarrow> (int \<rightharpoonup> close_origin) \<Rightarrow> int set \<times> (int \<rightharpoonup> close_origin)" where
  "load_judged [] deals origins = (deals, origins)"
| "load_judged (Close_judged ids gs # es) deals origins = load_judged es (deals \<union> set ids) (origins ++ map_of gs)"
| "load_judged (_ # es) deals origins = load_judged es deals origins"

definition handled_keys :: "lop list \<Rightarrow> nat set" where
  "handled_keys es = set (List.map_filter (\<lambda>e. case e of Report_done k \<Rightarrow> Some k | _ \<Rightarrow> None) es)"

text \<open>The reports an earlier process queued and none handled are queued again.\<close>

fun replay_reports :: "nat set \<Rightarrow> lop list \<Rightarrow> ledger \<Rightarrow> ledger" where
  "replay_reports handled [] L = L"
| "replay_reports handled (Report_pending k ctx coid # es) L =
     replay_reports handled es
       (if k \<in> handled \<or> k \<in> g_unhandled L then L
        else L\<lparr>g_reported := insert (cc_position ctx) (g_reported L), g_unhandled := insert k (g_unhandled L),
               g_reports := g_reports L @ [(k, ctx, coid)]\<rparr>)"
| "replay_reports handled (_ # es) L = replay_reports handled es L"

text \<open>A loaded close gets a reference of its own.\<close>

fun adopt_closes :: "own_close list \<Rightarrow> ledger \<Rightarrow> ledger" where
  "adopt_closes [] L = L"
| "adopt_closes (c # cs) L =
     adopt_closes cs (L\<lparr>g_closes := (g_closes L)(g_fresh L := c), g_history := g_history L @ [g_fresh L], g_fresh := Suc (g_fresh L)\<rparr>)"

definition load_close_evidence :: "floor \<Rightarrow> unit act" where
  "load_close_evidence X = modify (\<lambda>L.
     if \<not> journaled X \<or> g_loaded L then L
     else let es = g_past L @ g_journal L;
              closes = List.map_filter snd (load_closes (oc_key ` g_closes L ` set (g_history L)) [] es);
              L1 = adopt_closes closes (L\<lparr>g_loaded := True\<rparr>);
              (judged, origins) = load_judged es (g_judged L1) (g_origins L1)
          in replay_reports (handled_keys es) es (L1\<lparr>g_judged := judged, g_origins := origins\<rparr>))"

section \<open>Whose fill it is\<close>

definition drop_expired :: "unit act" where
  "drop_expired = modify (\<lambda>L. L\<lparr>g_live := filter (\<lambda>k. case oc_expires (g_closes L k) of
     None \<Rightarrow> True | Some t \<Rightarrow> g_mono L < t) (g_live L)\<rparr>)"

definition own_close_by_order :: "floor \<Rightarrow> int \<Rightarrow> bool \<Rightarrow> nat option act" where
  "own_close_by_order X order_id terminal =
     (if order_id = 0 then ret None
      else seq (load_close_evidence X) (\<lambda>_. seq drop_expired (\<lambda>_.
           seq (asks (\<lambda>L. (find (\<lambda>k. oc_order_id (g_closes L k) = Some order_id) (g_live L),
                           find (\<lambda>k. oc_order_id (g_closes L k) = Some order_id) (g_history L)))) (\<lambda>(now_live, ever).
           case now_live of
             Some k \<Rightarrow> seq (if terminal then modify (\<lambda>L. L\<lparr>g_live := remove1 k (g_live L)\<rparr>) else ret ()) (\<lambda>_. ret (Some k))
           | None \<Rightarrow> ret ever))))"

definition own_close_of_order :: "floor \<Rightarrow> int \<Rightarrow> int \<Rightarrow> nat option act" where
  "own_close_of_order X order_id p =
     (if order_id = 0 then ret None
      else seq (load_close_evidence X) (\<lambda>_.
           asks (\<lambda>L. find (\<lambda>k. oc_order_id (g_closes L k) = Some order_id \<and> oc_position (g_closes L k) = p) (g_history L))))"

definition own_close_of_deal :: "ledger \<Rightarrow> int \<Rightarrow> position_deal \<Rightarrow> nat option" where
  "own_close_of_deal L p d =
     (case find (\<lambda>k. oc_order_id (g_closes L k) = Some (pd_order_id d)) (g_history L) of
        Some k \<Rightarrow> Some k
      | None \<Rightarrow> find (\<lambda>k. oc_order_id (g_closes L k) = None
                   \<and> claims_recovered (g_closes L k) p (pd_order_id d) (pd_executed_ms d)) (g_history L))"

definition own_close_wildcard :: "int \<Rightarrow> nat option act" where
  "own_close_wildcard p =
     seq drop_expired (\<lambda>_.
     asks (\<lambda>L. find (\<lambda>k. oc_position (g_closes L k) = p \<and> oc_order_id (g_closes L k) = None) (g_live L)))"

definition close_fill_origin :: "floor \<Rightarrow> exec_event \<Rightarrow> (close_origin \<times> nat option) act" where
  "close_fill_origin X x =
     (let o' = x_order x in
      if o_orderType o' = STOP_LOSS_TAKE_PROFIT \<or> o_isStopOut o' \<or> x_isServerEvent x then ret (Venue, None)
      else seq (own_close_by_order X (o_orderId o') (x_executionType x = ORDER_FILLED)) (\<lambda>mine.
        if mine \<noteq> None then ret (Own, mine)
        else seq (asks (\<lambda>L. is_run_client_order_id X L (o_clientOrderId o') \<or> is_own_entry_order X L (o_orderId o'))) (\<lambda>runs.
          if runs then ret (Own, None)
          else seq (own_close_wildcard (o_positionId o')) (\<lambda>wildcard.
            ret (if wildcard \<noteq> None then (Own, wildcard) else (External, None))))))"

section \<open>Fills taken for a close\<close>

definition flag_ambiguous_claim :: "floor \<Rightarrow> nat \<Rightarrow> unit act" where
  "flag_ambiguous_claim X k =
     seq (asks (\<lambda>L. oc_position (g_closes L k))) (\<lambda>p.
     seq (post X (Noted ''ctrader_close_claim_ambiguous'' p)) (\<lambda>_.
     modify (\<lambda>L. L\<lparr>g_ambiguous := (g_ambiguous L)(p \<mapsto> k)\<rparr>)))"

definition record_claim :: "floor \<Rightarrow> nat \<Rightarrow> claimed_fill \<Rightarrow> nat act" where
  "record_claim X k claim =
     seq (asks g_fresh) (\<lambda>f.
     seq (modify (\<lambda>L. L\<lparr>g_fresh := Suc f, g_fills := (g_fills L)(f := claim),
            g_closes := (g_closes L)(k := (g_closes L k)\<lparr>oc_claims := oc_claims (g_closes L k) @ [f]\<rparr>)\<rparr>)) (\<lambda>_.
     seq (asks (\<lambda>L. g_closes L k)) (\<lambda>c.
     seq (if oc_answered_ms c \<noteq> None \<and> oc_order_id c = None \<and> \<not> cf_venue claim then flag_ambiguous_claim X k else ret ()) (\<lambda>_.
     ret f))))"

text \<open>A fill taken for a close that turned out to be another order's: the part of the share it took.\<close>

definition rejudge_claim :: "floor \<Rightarrow> int \<Rightarrow> claimed_fill \<Rightarrow> (rat \<times> rat) option \<Rightarrow> rat act" where
  "rejudge_claim X p claim share =
     seq (asks (\<lambda>L. (is_run_client_order_id X L (cf_client_order_id claim) \<or> is_own_entry_order X L (cf_order_id claim)
              \<or> (\<exists>k \<in> set (g_history L). oc_order_id (g_closes L k) = Some (cf_order_id claim)), g_hedging L))) (\<lambda>(mine, hedged).
     if mine then ret (cf_booked claim)
     else
       (let deals = (case cf_deal_id claim of None \<Rightarrow> [] | Some i \<Rightarrow> [i]);
            ctx = \<lparr>cc_position = p, cc_order_id = cf_order_id claim, cc_deal_ids = deals, cc_closed = cf_fill_qty claim,
                   cc_share = share, cc_booked = None, cc_claimed_as_own = True\<rparr>;
            judged = mark_close_judged X deals (map (\<lambda>i. (i, External)) deals)
        in case share of
             None \<Rightarrow>
               seq (if hedged then queue_external_close X p ctx else note_share_unknown X p) (\<lambda>_.
               seq judged (\<lambda>_. ret (cf_booked claim)))
           | Some (low, high) \<Rightarrow>
               (let part = min (cf_fill_qty claim) (max 0 (fsub low (cf_venue_after claim)));
                    part_high = min (cf_fill_qty claim) (max 0 (fsub high (cf_venue_after claim)))
                in seq (if VOLUME_TOL < part then queue_external_close X p (ctx\<lparr>cc_booked := Some part\<rparr>)
                        else if VOLUME_TOL < part_high then note_share_ambiguous X p else ret ()) (\<lambda>_.
                   seq judged (\<lambda>_. ret part)))))"

text \<open>The share a fill is judged against: that of its moment, with what earlier fills booked beyond what they
  took, less what the answer's own fill closed before it.\<close>

definition lead_of :: "own_answer_fill option \<Rightarrow> claimed_fill \<Rightarrow> rat \<times> rat" where
  "lead_of ahead claim =
     (case ahead of
        None \<Rightarrow> (0, 0)
      | Some a \<Rightarrow>
          (let after = (case (af_executed_ms a, cf_executed_ms claim) of (Some s, Some t) \<Rightarrow> s < t | _ \<Rightarrow> False);
               before = (case (af_executed_ms a, cf_executed_ms claim) of (Some s, Some t) \<Rightarrow> t < s | _ \<Rightarrow> False)
           in if before then (0, 0) else (if after then af_closed a else 0, af_closed a)))"

definition share_at :: "claimed_fill \<Rightarrow> rat \<Rightarrow> rat \<times> rat \<Rightarrow> (rat \<times> rat) option" where
  "share_at claim credit lead =
     (case (cf_share_before claim, cf_share_high claim) of
        (Some before, Some high) \<Rightarrow>
          Some (max 0 (fsub (fadd before credit) (snd lead)), max 0 (fsub (fadd high credit) (fst lead)))
      | _ \<Rightarrow> None)"

definition own_credit :: "claimed_fill \<Rightarrow> rat \<Rightarrow> rat" where
  "own_credit claim credit =
     (case cf_share_high claim of
        None \<Rightarrow> credit
      | Some high \<Rightarrow> fsub credit (max 0 (fsub (min (cf_fill_qty claim) (fadd high credit)) (cf_booked claim))))"

fun rejudge_walk ::
    "floor \<Rightarrow> int \<Rightarrow> int option \<Rightarrow> own_answer_fill option \<Rightarrow> nat list \<Rightarrow> rat \<Rightarrow> nat list \<Rightarrow> (nat \<times> rat) list
     \<Rightarrow> (rat \<times> nat list \<times> (nat \<times> rat) list) act" where
  "rejudge_walk X p order_id ahead [] credit own excess = ret (credit, own, excess)"
| "rejudge_walk X p order_id ahead (f # fs) credit own excess =
     seq (asks (\<lambda>L. g_fills L f)) (\<lambda>claim.
     if order_id = Some (cf_order_id claim)
     then rejudge_walk X p order_id ahead fs (own_credit claim credit) (own @ [f]) excess
     else
       (let share = share_at claim credit (lead_of ahead claim) in
        seq (if cf_venue claim
             then ret (case share of None \<Rightarrow> cf_booked claim
                       | Some (low, _) \<Rightarrow> min (cf_fill_qty claim) (max 0 (fsub low (cf_venue_after claim))))
             else rejudge_claim X p claim share) (\<lambda>part.
        rejudge_walk X p order_id ahead fs (fadd credit (fsub (cf_booked claim) part)) own
          (if VOLUME_TOL < fsub (cf_booked claim) part then excess @ [(f, fsub (cf_booked claim) part)] else excess))))"

fun share_out :: "(nat \<times> rat) list \<Rightarrow> rat \<Rightarrow> (nat \<times> rat) list" where
  "share_out [] left = []"
| "share_out ((f, surplus) # xs) left =
     (if VOLUME_TOL < min surplus left then (f, min surplus left) # share_out xs (fsub left (min surplus left))
      else share_out xs left)"

definition rejudge_claims :: "floor \<Rightarrow> nat \<Rightarrow> own_answer_fill option \<Rightarrow> (nat \<times> rat) list act" where
  "rejudge_claims X k answered_by =
     seq (asks (\<lambda>L. (g_closes L k, map (g_fills L) (oc_claims (g_closes L k))))) (\<lambda>(c, claims).
     (let ahead = (case answered_by of
            None \<Rightarrow> None
          | Some a \<Rightarrow> (if \<exists>f \<in> set claims. cf_deal_id f = Some (af_deal_id a) then None else Some a))
      in seq (rejudge_walk X (oc_position c) (oc_order_id c) ahead (oc_claims c) 0 [] []) (\<lambda>(credit, own, excess).
         seq (modify (\<lambda>L. L\<lparr>g_closes := (g_closes L)(k := (g_closes L k)\<lparr>oc_claims := own\<rparr>)\<rparr>)) (\<lambda>_.
         ret (share_out excess (max 0 credit))))))"

text \<open>The events of held fills are delivered, less what their fills booked beyond the share.\<close>

definition cut_of :: "(nat \<times> rat) list \<Rightarrow> nat \<Rightarrow> rat" where
  "cut_of cuts f = (case map_of (rev cuts) f of None \<Rightarrow> 0 | Some c \<Rightarrow> c)"

fun release_walk :: "(nat \<times> rat) list \<Rightarrow> nat list \<Rightarrow> ledger \<Rightarrow> rat \<Rightarrow> bool \<Rightarrow> bool \<Rightarrow> (rat \<times> bool \<times> bool) \<times> ledger" where
  "release_walk cuts [] L total_cut released settles = ((total_cut, released, settles), L)"
| "release_walk cuts (f # fs) L total_cut released settles =
     (case cf_event (g_fills L f) of
        None \<Rightarrow> release_walk cuts fs L total_cut released settles
      | Some ev \<Rightarrow>
          (let booked = (case ev_qty ev of None \<Rightarrow> 0 | Some q \<Rightarrow> q);
               cut = min (cut_of cuts f) booked;
               L' = L\<lparr>g_fills := (g_fills L)(f := (g_fills L f)\<lparr>cf_event := None\<rparr>),
                      g_released := (if VOLUME_TOL < fsub booked cut
                        then g_released L @ [if 0 < cut then ev\<lparr>ev_qty := Some (fsub booked cut)\<rparr> else ev]
                        else g_released L)\<rparr>
           in release_walk cuts fs L' (fadd total_cut cut) True (settles \<or> cf_settles_share (g_fills L f))))"

text \<open>\<open>streaming\<close> says whether the event queue exists; the wake-up put on it translates to nothing.\<close>

definition release_held_claims :: "floor \<Rightarrow> bool \<Rightarrow> nat \<Rightarrow> nat list \<Rightarrow> (nat \<times> rat) list \<Rightarrow> unit act" where
  "release_held_claims X streaming k claims cuts =
     seq (\<lambda>L. case release_walk cuts claims L 0 False False of (res, L') \<Rightarrow> (Inr res, L')) (\<lambda>(total_cut, released, settles).
     seq (asks (\<lambda>L. oc_position (g_closes L k))) (\<lambda>p.
     seq (if VOLUME_TOL < total_cut
          then seq (restore_retired X p total_cut) (\<lambda>_. post X (Noted ''ctrader_close_claim_rebooked'' p)) else ret ()) (\<lambda>_.
     seq (if settles then settle_own_partial_close X p else ret ()) (\<lambda>_.
     if released \<and> streaming then modify (\<lambda>L. L\<lparr>g_wakeups := Suc (g_wakeups L)\<rparr>) else ret ()))))"

section \<open>Sending a close\<close>

definition open_own_close :: "floor \<Rightarrow> int \<Rightarrow> rat option \<Rightarrow> nat act" where
  "open_own_close X p volume =
     seq (asks (\<lambda>L. (g_fresh L, \<lparr>oc_position = p, oc_sent_ms = wall_ms L, oc_order_id = None, oc_expires = None,
            oc_answered_ms = None, oc_key = g_fresh L, oc_claims = [], oc_volume = volume,
            oc_from_entry = (case g_close_pine L p of None \<Rightarrow> None | Some e \<Rightarrow> e), oc_executed = 0, oc_deals = [],
            oc_complete = False\<rparr>))) (\<lambda>(k, c).
     seq (modify (\<lambda>L. L\<lparr>g_fresh := Suc k, g_closes := (g_closes L)(k := c), g_live := g_live L @ [k],
            g_history := g_history L @ [k]\<rparr>)) (\<lambda>_.
     seq (post X (Own_close_event c False)) (\<lambda>_. ret k)))"

definition settle_own_close :: "floor \<Rightarrow> bool \<Rightarrow> nat \<Rightarrow> int option \<Rightarrow> own_answer_fill option \<Rightarrow> bool \<Rightarrow> unit act" where
  "settle_own_close X streaming k order_id answered_by finished =
     seq (modify (\<lambda>L. L\<lparr>g_closes := (g_closes L)(k := (g_closes L k)\<lparr>
            oc_order_id := (case order_id of Some i \<Rightarrow> (if i \<noteq> 0 then Some i else oc_order_id (g_closes L k)) | None \<Rightarrow> oc_order_id (g_closes L k)),
            oc_expires := Some (fadd (g_mono L) OWN_CLOSE_GRACE), oc_answered_ms := Some (wall_ms L),
            oc_complete := oc_complete (g_closes L k) \<or> finished\<rparr>)\<rparr>)) (\<lambda>_.
     seq (asks (\<lambda>L. g_closes L k)) (\<lambda>c.
     seq (post X (Own_close_event c False)) (\<lambda>_.
     if oc_order_id c = None
     then seq (foldr (\<lambda>f m. seq (asks (\<lambda>L. cf_venue (g_fills L f))) (\<lambda>v. seq (if v then ret () else flag_ambiguous_claim X k) (\<lambda>_. m)))
                (oc_claims c) (ret ())) (\<lambda>_.
          release_held_claims X streaming k (oc_claims c) [])
     else seq (rejudge_claims X k answered_by) (\<lambda>cuts.
          seq (release_held_claims X streaming k (oc_claims c) cuts) (\<lambda>_.
          modify (\<lambda>L.
            let claims = map (g_fills L) (oc_claims (g_closes L k));
                counted = (case answered_by of
                   Some a \<Rightarrow> (if \<exists>f \<in> set claims. cf_deal_id f = Some (af_deal_id a) then g_closes L k
                             else count_executed (Some (af_deal_id a)) (af_closed a) (g_closes L k))
                 | None \<Rightarrow> g_closes L k)
            in if \<exists>f \<in> set claims. cf_terminal f
               then L\<lparr>g_closes := (g_closes L)(k := counted\<lparr>oc_complete := True\<rparr>), g_live := remove1 k (g_live L)\<rparr>
               else L\<lparr>g_closes := (g_closes L)(k := counted)\<rparr>))))))"

definition drop_own_close :: "floor \<Rightarrow> bool \<Rightarrow> nat \<Rightarrow> unit act" where
  "drop_own_close X streaming k =
     seq (modify (\<lambda>L. L\<lparr>g_live := remove1 k (g_live L), g_history := remove1 k (g_history L)\<rparr>)) (\<lambda>_.
     seq (asks (\<lambda>L. g_closes L k)) (\<lambda>c.
     seq (post X (Own_close_event c True)) (\<lambda>_.
     seq (rejudge_claims X k None) (release_held_claims X streaming k (oc_claims c)))))"

text \<open>\<open>_foreign_claims_taken\<close>: what the fills that were not the close's own took of the share.\<close>

fun foreign_taken :: "claimed_fill list \<Rightarrow> int set \<Rightarrow> rat \<Rightarrow> rat \<Rightarrow> rat \<Rightarrow> rat \<times> rat" where
  "foreign_taken [] own_orders credit low high = (low, high)"
| "foreign_taken (claim # cs) own_orders credit low high =
     (if \<not> cf_venue claim \<and> cf_order_id claim \<in> own_orders
      then foreign_taken cs own_orders (own_credit claim credit) low high
      else
        (let (part_low, part_high) =
           (case (cf_share_before claim, cf_share_high claim) of
              (Some before, Some upper) \<Rightarrow>
                (min (cf_fill_qty claim) (max 0 (fsub (max 0 (fadd before credit)) (cf_venue_after claim))),
                 min (cf_fill_qty claim) (max 0 (fsub (max 0 (fadd upper credit)) (cf_venue_after claim))))
            | _ \<Rightarrow> (cf_booked claim, cf_booked claim))
         in foreign_taken cs own_orders (fadd credit (fsub (cf_booked claim) part_low))
              (if cf_venue claim then low else fadd low part_low) (if cf_venue claim then high else fadd high part_high)))"

definition foreign_claims_taken :: "claimed_fill list \<Rightarrow> int set \<Rightarrow> rat \<times> rat" where
  "foreign_claims_taken claims own_orders = foreign_taken claims own_orders 0 0 0"

section \<open>Closes that wait for an entry in flight\<close>

definition judge_held_close :: "floor \<Rightarrow> held_verdict \<Rightarrow> unit act" where
  "judge_held_close X v =
     (let b = bounds_of_net (fadd (hv_net_low v) (hv_applied v)) (fadd (hv_net_high v) (hv_applied v)) (hv_unknown v);
          part = min (hv_fill_qty v) (max 0 (fsub (sb_low b) (hv_venue_after v)));
          part_high = min (hv_fill_qty v) (max 0 (fsub (sb_high b) (hv_venue_after v)));
          deals = (case hv_deal_id v of None \<Rightarrow> [] | Some i \<Rightarrow> [i]);
          judged = mark_close_judged X deals (map (\<lambda>i. (i, External)) deals)
      in if VOLUME_TOL < part
         then seq (queue_external_close X (hv_position v)
                ((hv_context v)\<lparr>cc_share := Some (sb_low b, sb_high b), cc_booked := Some (hv_booked v)\<rparr>)) (\<lambda>_. judged)
         else if VOLUME_TOL < part_high then note_share_ambiguous X (hv_position v)
         else judged)"

text \<open>What an answered entry says about a close that waited for it.\<close>

definition answer_verdict :: "string \<Rightarrow> exec_event option \<Rightarrow> bool \<Rightarrow> rat \<Rightarrow> held_verdict \<Rightarrow> held_verdict" where
  "answer_verdict coid reply refused volume v =
     (let w = v\<lparr>hv_waiting := filter (\<lambda>(c, _). c \<noteq> coid) (hv_waiting v)\<rparr> in
      case reply of
        None \<Rightarrow> (if refused then w else w\<lparr>hv_unknown := hv_unknown w @ [volume]\<rparr>)
      | Some x \<Rightarrow>
          (let filled = fsub (volume_to_units (o_executedVolume (x_order x)))
                          (case map_of (hv_counted v) coid of None \<Rightarrow> 0 | Some q \<Rightarrow> q);
               part = with_sign (min filled \<bar>volume\<bar>) volume;
               deal_ms = (case x_deal x of None \<Rightarrow> None
                          | Some d \<Rightarrow> if d_executionTimestamp d = 0 then None else Some (d_executionTimestamp d))
           in if VOLUME_TOL < filled \<and> o_positionId (x_order x) = hv_position v
              then (case (deal_ms, hv_executed_ms v) of
                      (Some a, Some b) \<Rightarrow>
                        (if a = b then w\<lparr>hv_unknown := hv_unknown w @ [part]\<rparr>
                         else if a < b then w\<lparr>hv_applied := fadd (hv_applied w) part\<rparr> else w)
                    | _ \<Rightarrow> w\<lparr>hv_unknown := hv_unknown w @ [part]\<rparr>)
              else w))"

fun settle_held :: "floor \<Rightarrow> string \<Rightarrow> exec_event option \<Rightarrow> bool \<Rightarrow> held_verdict list \<Rightarrow> held_verdict list act" where
  "settle_held X coid reply refused [] = ret []"
| "settle_held X coid reply refused (v # vs) =
     (case map_of (hv_waiting v) coid of
        None \<Rightarrow> seq (settle_held X coid reply refused vs) (\<lambda>rest. ret (v # rest))
      | Some volume \<Rightarrow>
          (let w = answer_verdict coid reply refused volume v in
           seq (if hv_waiting w = [] then judge_held_close X w else ret ()) (\<lambda>_.
           seq (settle_held X coid reply refused vs) (\<lambda>rest.
           ret (if hv_waiting w = [] then rest else w # rest)))))"

definition settle_entry_answer :: "floor \<Rightarrow> string \<Rightarrow> exec_event option \<Rightarrow> bool \<Rightarrow> unit act" where
  "settle_entry_answer X coid reply refused =
     seq (asks g_held) (\<lambda>vs. seq (settle_held X coid reply refused vs) (\<lambda>rest. modify (\<lambda>L. L\<lparr>g_held := rest\<rparr>)))"

definition hold_close_verdict :: "held_verdict \<Rightarrow> unit act" where
  "hold_close_verdict v = modify (\<lambda>L. L\<lparr>g_held := g_held L @ [v]\<rparr>)"

section \<open>Delivery of reports\<close>

text \<open>\<open>halts\<close> says whether the core's intervention policy raises \<open>UnexpectedCancelError\<close> on a report; the exception is
  the report it halted on.\<close>

fun flush_reports :: "floor \<Rightarrow> (close_context \<Rightarrow> bool) \<Rightarrow> (nat \<times> close_context \<times> string option) list \<Rightarrow> bool act" where
  "flush_reports X halts [] = ret False"
| "flush_reports X halts ((k, ctx, coid) # rs) =
     seq (modify (\<lambda>L. L\<lparr>g_reports := rs, g_unhandled := g_unhandled L - {k}\<rparr>)) (\<lambda>_.
     seq (post X (Report_done k)) (\<lambda>_.
     if halts ctx then ret True
     else seq (modify (\<lambda>L. if \<exists>(k', ctx', coid') \<in> set rs. cc_position ctx' = cc_position ctx then L
                            else L\<lparr>g_reported := g_reported L - {cc_position ctx}\<rparr>)) (\<lambda>_.
          flush_reports X halts rs)))"

definition flush_external_interventions :: "floor \<Rightarrow> (close_context \<Rightarrow> bool) \<Rightarrow> bool act" where
  "flush_external_interventions X halts =
     seq (load_close_evidence X) (\<lambda>_.
     seq (modify (\<lambda>L. L\<lparr>g_terms := judge_held_replaced_orders (g_ticks L) (row_of_order X L) (g_terms L)\<rparr>)) (\<lambda>_.
     seq (asks g_reports) (flush_reports X halts)))"

definition writes_allowed :: "floor \<Rightarrow> bool \<Rightarrow> unit act" where
  "writes_allowed X quarantined =
     seq (load_close_evidence X) (\<lambda>_. seq (asks g_unhandled) (\<lambda>ks.
     if ks \<noteq> {} then throw (VenueWritesQuarantinedError ''a manual-close report is not handled yet'')
     else if quarantined then throw (VenueWritesQuarantinedError ''venue write'') else ret ()))"

end
