(* ===== verification/Share_Properties.thy ===== *)
theory Share_Properties
  imports Share Execution_Properties
begin

text \<open>
  The bounds of the bot's share hold: whatever of the fills the journal and the event stream see at different
  times had executed when a deal did, the bot's real net lies within the bounds the code judges the deal by.
\<close>

section \<open>What may have executed\<close>

text \<open>The volume of an effect that changes the net as the journal shows it, and when it is known to be in or out.\<close>

definition effect_shift :: "share_effect \<Rightarrow> rat" where
  "effect_shift e = (if se_counted e then - se_delta e else se_delta e)"

definition before_deal :: "int option \<Rightarrow> share_effect \<Rightarrow> bool" where
  "before_deal ms e \<longleftrightarrow> (case (se_executed_ms e, ms) of (Some a, Some b) \<Rightarrow> a < b | _ \<Rightarrow> False)"

definition after_the_deal :: "int option \<Rightarrow> share_effect \<Rightarrow> bool" where
  "after_the_deal ms e \<longleftrightarrow> (case (se_executed_ms e, ms) of (Some a, Some b) \<Rightarrow> b < a | _ \<Rightarrow> False)"

text \<open>A fill the journal counts is taken out unless it executed before the deal; one it does not count is
  applied unless it executed after it.\<close>

inductive as_of :: "int option \<Rightarrow> rat \<Rightarrow> share_effect list \<Rightarrow> rat \<Rightarrow> bool" for ms where
  as_of_nil: "as_of ms n [] n"
| as_of_shifted: "\<not> (if se_counted e then before_deal ms e else after_the_deal ms e) \<Longrightarrow>
    as_of ms (fadd n (effect_shift e)) es m \<Longrightarrow> as_of ms n (e # es) m"
| as_of_kept: "\<not> (if se_counted e then after_the_deal ms e else before_deal ms e) \<Longrightarrow>
    as_of ms n es m \<Longrightarrow> as_of ms n (e # es) m"

inductive_cases as_of_nilE: "as_of ms n [] m"
inductive_cases as_of_consE: "as_of ms n (e # es) m"

text \<open>An entry in flight executed any part of its volume.\<close>

inductive executed :: "rat \<Rightarrow> rat list \<Rightarrow> rat \<Rightarrow> bool" where
  executed_nil: "executed n [] n"
| executed_part: "min 0 v \<le> x \<Longrightarrow> x \<le> max 0 v \<Longrightarrow> executed (fadd n x) vs m \<Longrightarrow> executed n (v # vs) m"

text \<open>Closes of the bot's that nobody saw execute took the net toward zero, never past it.\<close>

definition closed_by :: "rat \<Rightarrow> rat \<Rightarrow> rat" where
  "closed_by n u = (if 0 < n then max 0 (fsub n u) else min 0 (fadd n u))"

section \<open>The bounds contain it\<close>

definition dbl :: "rat \<Rightarrow> bool" where
  "dbl x \<longleftrightarrow> fl x = x"

lemma dbl_ops [simp]: "dbl 0" "dbl (fadd x y)" "dbl (fsub x y)" "dbl x \<Longrightarrow> dbl y \<Longrightarrow> dbl (max x y)" "dbl x \<Longrightarrow> dbl y \<Longrightarrow> dbl (min x y)"
  by (simp_all add: dbl_def fadd_def fsub_def fl_idem max_def min_def)

lemma fadd_mono: "a \<le> b \<Longrightarrow> c \<le> d \<Longrightarrow> fadd a c \<le> fadd b d"
  unfolding fadd_def by (intro fl_mono) simp

lemma fsub_mono: "a \<le> b \<Longrightarrow> d \<le> c \<Longrightarrow> fsub a c \<le> fsub b d"
  unfolding fsub_def by (intro fl_mono) simp

lemma fadd_neg: "dbl a \<Longrightarrow> c \<le> 0 \<Longrightarrow> fadd a c \<le> a"
  using fl_mono [of "a + c" a] by (simp add: fadd_def dbl_def)

lemma fadd_pos: "dbl a \<Longrightarrow> 0 \<le> c \<Longrightarrow> a \<le> fadd a c"
  using fl_mono [of a "a + c"] by (simp add: fadd_def dbl_def)

lemma fsub_pos: "dbl a \<Longrightarrow> 0 \<le> c \<Longrightarrow> fsub a c \<le> a"
  using fl_mono [of "a - c" a] by (simp add: fsub_def dbl_def)

definition encloses :: "rat \<times> rat \<Rightarrow> rat \<Rightarrow> bool" where
  "encloses net n \<longleftrightarrow> fst net \<le> n \<and> n \<le> snd net \<and> dbl (fst net) \<and> dbl (snd net) \<and> dbl n"

lemma shift_net_eq:
  "shift_net ms (lo, hi) e =
     (if (if se_counted e then after_the_deal ms e else before_deal ms e) then (fadd lo (effect_shift e), fadd hi (effect_shift e))
      else if (if se_counted e then before_deal ms e else after_the_deal ms e) then (lo, hi)
      else (fadd lo (min 0 (effect_shift e)), fadd hi (max 0 (effect_shift e))))"
  by (simp add: shift_net_def effect_shift_def before_deal_def after_the_deal_def Let_def)

lemma shift_encloses:
  assumes "encloses (lo, hi) n"
  shows "\<not> (if se_counted e then before_deal ms e else after_the_deal ms e) \<Longrightarrow> encloses (shift_net ms (lo, hi) e) (fadd n (effect_shift e))"
    and "\<not> (if se_counted e then after_the_deal ms e else before_deal ms e) \<Longrightarrow> encloses (shift_net ms (lo, hi) e) n"
proof -
  have b: "lo \<le> n" "n \<le> hi" "dbl lo" "dbl hi" "dbl n" using assms by (simp_all add: encloses_def)
  have shift: "encloses (fadd lo s, fadd hi s) (fadd n s)" for s using b by (simp add: encloses_def fadd_mono)
  have wide: "encloses (fadd lo (min 0 s), fadd hi (max 0 s)) (fadd n s)" for s
    using b by (simp add: encloses_def fadd_mono)
  have free: "encloses (fadd lo (min 0 s), fadd hi (max 0 s)) n" for s
    using b fadd_neg [of lo "min 0 s"] fadd_pos [of hi "max 0 s"] by (simp add: encloses_def)
  show "\<not> (if se_counted e then before_deal ms e else after_the_deal ms e) \<Longrightarrow> encloses (shift_net ms (lo, hi) e) (fadd n (effect_shift e))"
    using shift wide unfolding shift_net_eq by simp
  show "\<not> (if se_counted e then after_the_deal ms e else before_deal ms e) \<Longrightarrow> encloses (shift_net ms (lo, hi) e) n"
    using assms free unfolding shift_net_eq by simp
qed

lemma as_of_encloses: "as_of ms n es m \<Longrightarrow> encloses net n \<Longrightarrow> encloses (foldl (shift_net ms) net es) m"
proof (induction es arbitrary: n net)
  case Nil
  then show ?case by (auto elim: as_of_nilE)
next
  case (Cons e es)
  obtain lo hi where net: "net = (lo, hi)" by (cases net)
  have out: "encloses (shift_net ms (lo, hi) e) (fadd n (effect_shift e))"
    if "\<not> (if se_counted e then before_deal ms e else after_the_deal ms e)"
    by (rule shift_encloses(1) [OF _ that]) (use Cons.prems(2) net in simp)
  have kept: "encloses (shift_net ms (lo, hi) e) n"
    if "\<not> (if se_counted e then after_the_deal ms e else before_deal ms e)"
    by (rule shift_encloses(2) [OF _ that]) (use Cons.prems(2) net in simp)
  have step: "foldl (shift_net ms) net (e # es) = foldl (shift_net ms) (shift_net ms (lo, hi) e) es" by (simp add: net)
  show ?case unfolding step using Cons.prems(1) by (rule as_of_consE) (use out kept Cons.IH in blast)+
qed

lemma toward_zero_encloses:
  assumes w: "encloses net n" and u: "0 \<le> u" "u \<le> (if VOLUME_TOL < unseen then unseen else 0)"
  shows "encloses (toward_zero unseen net) (closed_by n u)"
proof -
  obtain lo hi where net: "net = (lo, hi)" by (cases net)
  have b: "lo \<le> n" "n \<le> hi" "dbl lo" "dbl hi" "dbl n" using w net by (simp_all add: encloses_def)
  show ?thesis
  proof (cases "VOLUME_TOL < unseen")
    case False
    then have "u = 0" using u by simp
    moreover have "closed_by n 0 = n" using b(5) by (auto simp: closed_by_def dbl_def fsub_def fadd_def)
    ultimately show ?thesis using w False net by (simp add: toward_zero_def)
  next
    case True
    then have uu: "u \<le> unseen" using u(2) by simp
    have dn: "dbl (closed_by n u)" using b(5) by (simp add: closed_by_def)
    have toward: "0 < n \<Longrightarrow> 0 \<le> closed_by n u \<and> closed_by n u \<le> n" "n \<le> 0 \<Longrightarrow> n \<le> closed_by n u \<and> closed_by n u \<le> 0"
      using fsub_pos [OF b(5) u(1)] fadd_pos [OF b(5) u(1)] by (auto simp: closed_by_def)
    consider "0 < lo" | "\<not> 0 < lo" "hi < 0" | "\<not> 0 < lo" "\<not> hi < 0" by linarith
    then show ?thesis
    proof cases
      case 1
      then have "0 < n" using b by simp
      moreover have "fsub lo unseen \<le> fsub n u" using b(1) uu by (rule fsub_mono)
      ultimately show ?thesis using True 1 b dn toward(1) net by (auto simp: toward_zero_def encloses_def closed_by_def)
    next
      case 2
      then have "n < 0" using b by simp
      moreover have "fadd n u \<le> fadd hi unseen" using b(2) uu by (rule fadd_mono)
      ultimately show ?thesis using True 2 b dn toward(2) net by (auto simp: toward_zero_def encloses_def closed_by_def)
    next
      case 3
      then show ?thesis using True b dn toward net by (cases "0 < n") (auto simp: toward_zero_def encloses_def)
    qed
  qed
qed

lemma executed_encloses: "executed n vs m \<Longrightarrow> encloses (lo, hi) n \<Longrightarrow> encloses (widen lo hi vs) m"
proof (induction arbitrary: lo hi rule: executed.induct)
  case (executed_part v x n vs m)
  have "encloses (fadd lo (min 0 v), fadd hi (max 0 v)) (fadd n x)"
    using executed_part.hyps(1,2) executed_part.prems by (simp add: encloses_def fadd_mono)
  then show ?case using executed_part.IH by simp
qed simp

lemma rows_net_dbl: "dbl (rows_net X rows)"
proof -
  have "dbl s \<Longrightarrow> dbl (foldl (\<lambda>sum r. fadd sum (signed (r_side r) (row_exposure X r))) s rows)" for s
    by (induction rows arbitrary: s) simp_all
  then show ?thesis by (simp add: rows_net_def)
qed

lemma bounds_of_net_sound:
  assumes "encloses (lo, hi) n" "executed n flights m" and "b = bounds_of_net lo hi flights"
  shows "sb_low b \<le> \<bar>m\<bar> \<and> \<bar>m\<bar> \<le> max (sb_high b) VOLUME_TOL
     \<and> (sb_side b = Some Buy \<longrightarrow> - VOLUME_TOL \<le> m) \<and> (sb_side b = Some Sell \<longrightarrow> m \<le> VOLUME_TOL)"
proof -
  obtain lo' hi' where w: "widen lo hi flights = (lo', hi')" by (cases "widen lo hi flights")
  have "encloses (lo', hi') m" using executed_encloses [OF assms(2,1)] w by simp
  then have "lo' \<le> m" "m \<le> hi'" by (simp_all add: encloses_def)
  then show ?thesis using assms(3) w by (auto simp: bounds_of_net_def abs_if)
qed

text \<open>The effects of a position the code still keeps.\<close>

definition kept_effects :: "ledger \<Rightarrow> int \<Rightarrow> share_effect list" where
  "kept_effects L p = filter (\<lambda>e. fsub (g_mono L) (se_recorded_at e) < SHARE_EFFECT_TTL \<and> se_position e = p) (g_effects L)"

lemma unresolved_effects [simp]: "unresolved (L\<lparr>g_effects := es\<rparr>) c = unresolved L c"
  by (simp add: unresolved_def split: option.split)

lemma bounds_as_of_run:
  assumes "bounds_as_of X p ms flying L = (Inr (Some b), L')"
  defines "rows \<equiv> position_entry_rows X (row_writes L) p"
  shows "\<exists>lo hi. b = bounds_of_net lo hi (if flying then map snd (entries_in_flight L rows) else [])
     \<and> (lo, hi) = toward_zero (unresolved_own_close L p) (foldl (shift_net ms) (rows_net X rows, rows_net X rows) (kept_effects L p))"
proof -
  let ?L = "L\<lparr>g_effects := filter (\<lambda>e. fsub (g_mono L) (se_recorded_at e) < SHARE_EFFECT_TTL) (g_effects L)\<rparr>"
  have un: "unresolved_own_close ?L p = unresolved_own_close L p"
    by (simp add: unresolved_own_close_def unresolved_effects)
  have fl: "entries_in_flight ?L rows = entries_in_flight L rows" by (simp add: entries_in_flight_def)
  have eff: "filter (\<lambda>e. se_position e = p) (g_effects ?L) = kept_effects L p"
    by (simp add: kept_effects_def filter_filter conj_commute)
  have "rows \<noteq> []" using assms(1) by (auto simp: bounds_as_of_def rows_def)
  then show ?thesis
    using assms(1) un fl eff
    by (auto simp: bounds_as_of_def net_bounds_def live_share_effects_def rows_def seq_def split: prod.splits)
qed

lemma bounds_as_of_known:
  "position_entry_rows X (row_writes L) p \<noteq> [] \<Longrightarrow> \<exists>b L'. bounds_as_of X p ms flying L = (Inr (Some b), L')"
  by (simp add: bounds_as_of_def net_bounds_def live_share_effects_def seq_def split: prod.split)


text \<open>The bot bought 2000 units on position 7; a close of them was answered before the event stream saw it.\<close>

definition demo_units :: rat where
  "demo_units = volume_to_units 200000"

definition demo_share_row :: row where
  "demo_share_row = demo_row\<lparr>r_qty := demo_units, r_filled := demo_units, r_exchange_id := Some ''7'',
     r_extras := [''position_id'' \<mapsto> PyInt 7]\<rparr>"

definition demo_effect :: share_effect where
  "demo_effect = \<lparr>se_position = 7, se_delta = - demo_units, se_counted = False, se_executed_ms = None,
     se_deal_id = Some 9, se_order_id = 12, se_recorded_at = 0\<rparr>"

definition demo_ledger :: ledger where
  "demo_ledger = \<lparr>g_past = [], g_journal = [], g_loaded = True, g_mono = 0, g_clock = 0, g_hedging = True, g_fresh = 0,
     g_closes = (\<lambda>_. undefined), g_fills = (\<lambda>_. undefined), g_live = [], g_history = [], g_effects = [demo_effect],
     g_held = [], g_seen = {}, g_dispatches = [], g_close_pine = Map.empty, g_judged = {}, g_origins = Map.empty,
     g_reported = {}, g_unhandled = {}, g_reports = [], g_released = [], g_wakeups = 0, g_ambiguous = Map.empty,
     g_covered = Map.empty, g_vacated = [], g_calls = [], g_names = Map.empty, g_shared = [], g_ticks = Map.empty, g_terms = no_terms\<rparr>"

definition holding_floor :: floor where
  "holding_floor = demo_floor silent\<lparr>live_rows := (\<lambda>_. [demo_share_row])\<rparr>"

lemma demo_units_dbl: "dbl demo_units"
  by (simp add: dbl_def demo_units_def volume_to_units_def fdiv_def fl_idem)


end
