(* ===== verification/Closes_Properties.thy ===== *)
theory Closes_Properties
  imports Closes Share_Properties "HOL-Library.Sublist"
begin

text \<open>
  What the layer of closes promises: a report of someone else's close is handled exactly once, also over
  restarts, and stops every write until it is; the fills an own close held are delivered once the close is
  answered, in their order and never for more than they booked.
\<close>

section \<open>Reports over restarts\<close>

text \<open>The reports queued in a journal, and those no process handled.\<close>

definition reports_in :: "lop list \<Rightarrow> (nat \<times> close_context \<times> string option) list" where
  "reports_in es = List.map_filter (\<lambda>e. case e of Report_pending k c i \<Rightarrow> Some (k, c, i) | _ \<Rightarrow> None) es"

definition open_reports :: "lop list \<Rightarrow> (nat \<times> close_context \<times> string option) list" where
  "open_reports es = filter (\<lambda>(k, c, i). k \<notin> handled_keys es) (reports_in es)"

text \<open>A process that has read nothing yet.\<close>

definition unread :: "ledger \<Rightarrow> bool" where
  "unread L \<longleftrightarrow> \<not> g_loaded L \<and> g_unhandled L = {} \<and> g_reports L = []"

lemma reports_in_append [simp]: "reports_in (xs @ ys) = reports_in xs @ reports_in ys"
  by (simp add: reports_in_def map_filter_def)

lemma handled_keys_append [simp]: "handled_keys (xs @ ys) = handled_keys xs \<union> handled_keys ys"
  by (simp add: handled_keys_def map_filter_def)

lemma reports_in_simps [simp]:
  "reports_in [] = []" "reports_in (Report_pending k c i # es) = (k, c, i) # reports_in es"
  "(\<And>k c i. e \<noteq> Report_pending k c i) \<Longrightarrow> reports_in (e # es) = reports_in es"
  by (auto simp: reports_in_def map_filter_def split: lop.split)

lemma done_reports [simp]:
  "reports_in (map (\<lambda>r. Report_done (fst r)) rs) = []" "handled_keys (map (\<lambda>r. Report_done (fst r)) rs) = fst ` set rs"
  by (induction rs) (simp_all add: reports_in_def handled_keys_def)

lemma replay_reports_run:
  "distinct (map fst (reports_in es)) \<Longrightarrow> fst ` set (reports_in es) \<inter> g_unhandled L = {} \<Longrightarrow>
   (let fresh = filter (\<lambda>(k, c, i). k \<notin> handled) (reports_in es); L' = replay_reports handled es L in
      g_reports L' = g_reports L @ fresh \<and> g_unhandled L' = g_unhandled L \<union> fst ` set fresh
      \<and> g_journal L' = g_journal L \<and> g_past L' = g_past L \<and> g_loaded L' = g_loaded L)"
proof (induction handled es L rule: replay_reports.induct)
  case (2 handled k ctx coid es L)
  then show ?case by (simp add: Let_def)
qed (simp_all add: Let_def)

lemma adopt_closes_keeps [simp]:
  "g_reports (adopt_closes cs L) = g_reports L" "g_unhandled (adopt_closes cs L) = g_unhandled L"
  "g_journal (adopt_closes cs L) = g_journal L" "g_past (adopt_closes cs L) = g_past L"
  "g_loaded (adopt_closes cs L) = g_loaded L"
  by (induction cs arbitrary: L) simp_all

lemma load_unread:
  assumes "journaled X" "unread L" "distinct (map fst (reports_in (g_past L @ g_journal L)))"
  obtains L' where "load_close_evidence X L = (Inr (), L')" "g_reports L' = open_reports (g_past L @ g_journal L)"
    "g_unhandled L' = fst ` set (open_reports (g_past L @ g_journal L))" "g_journal L' = g_journal L" "g_past L' = g_past L"
proof -
  let ?es = "g_past L @ g_journal L"
  let ?L1 = "adopt_closes (List.map_filter snd (load_closes (oc_key ` g_closes L ` set (g_history L)) [] ?es)) (L\<lparr>g_loaded := True\<rparr>)"
  obtain judged origins where jo: "load_judged ?es (g_judged ?L1) (g_origins ?L1) = (judged, origins)" by fastforce
  let ?L' = "replay_reports (handled_keys ?es) ?es (?L1\<lparr>g_judged := judged, g_origins := origins\<rparr>)"
  have "load_close_evidence X L = (Inr (), ?L')"
    using assms(1,2) jo by (simp add: load_close_evidence_def unread_def Let_def)
  then show thesis
    using replay_reports_run [of ?es "?L1\<lparr>g_judged := judged, g_origins := origins\<rparr>" "handled_keys ?es"] assms(2,3)
    by (intro that [of ?L']) (simp_all add: unread_def open_reports_def Let_def)
qed

lemma flush_reports_run:
  assumes "journaled X" and "distinct (map fst rs)" and "fst ` set rs = g_unhandled L"
  shows "\<exists>h delivered rest L'. flush_reports X halts rs L = (Inr h, L') \<and> rs = delivered @ rest
     \<and> g_journal L' = g_journal L @ map (\<lambda>r. Report_done (fst r)) delivered \<and> g_past L' = g_past L
     \<and> g_unhandled L' = fst ` set rest \<and> (rs = g_reports L \<longrightarrow> g_reports L' = rest)
     \<and> (if h then \<exists>ds d. delivered = ds @ [d] \<and> halts (fst (snd d)) \<and> (\<forall>r \<in> set ds. \<not> halts (fst (snd r)))
        else rest = [] \<and> (\<forall>r \<in> set delivered. \<not> halts (fst (snd r))))"
  using assms(2,3)
proof (induction rs arbitrary: L)
  case (Cons r rs)
  obtain k ctx coid where r: "r = (k, ctx, coid)" by (cases r)
  let ?L1 = "L\<lparr>g_reports := rs, g_unhandled := g_unhandled L - {k}\<rparr>"
  let ?L2 = "?L1\<lparr>g_journal := g_journal L @ [Report_done k]\<rparr>"
  have u: "g_unhandled L - {k} = fst ` set rs" using Cons.prems r by (auto simp: image_iff)
  show ?case
  proof (cases "halts ctx")
    case True
    then have "flush_reports X halts (r # rs) L = (Inr True, ?L2)" using assms(1) r by (simp add: post_def)
    moreover have "r # rs = [r] @ rs" by simp
    ultimately show ?thesis using u True r
      by (intro exI [of _ True] exI [of _ "[r]"] exI [of _ rs] exI [of _ ?L2]) (auto intro: exI [of _ "[]"])
  next
    case False
    define L3 where "L3 = (if \<exists>(k', ctx', coid') \<in> set rs. cc_position ctx' = cc_position ctx then ?L2
               else ?L2\<lparr>g_reported := g_reported ?L2 - {cc_position ctx}\<rparr>)"
    have L3: "g_journal L3 = g_journal L @ [Report_done k]" "g_past L3 = g_past L" "g_reports L3 = rs"
      "g_unhandled L3 = g_unhandled L - {k}" by (simp_all add: L3_def)
    have run: "flush_reports X halts (r # rs) L = flush_reports X halts rs L3"
      using False assms(1) r by (simp add: post_def L3_def)
    have "distinct (map fst rs)" "fst ` set rs = g_unhandled L3" using Cons.prems(1) u L3 by simp_all
    from Cons.IH [OF this] obtain h delivered rest L' where ih: "flush_reports X halts rs L3 = (Inr h, L')" "rs = delivered @ rest"
      "g_journal L' = g_journal L3 @ map (\<lambda>r. Report_done (fst r)) delivered" "g_past L' = g_past L3"
      "g_unhandled L' = fst ` set rest" "rs = g_reports L3 \<longrightarrow> g_reports L' = rest"
      "if h then \<exists>ds d. delivered = ds @ [d] \<and> halts (fst (snd d)) \<and> (\<forall>r \<in> set ds. \<not> halts (fst (snd r)))
        else rest = [] \<and> (\<forall>r \<in> set delivered. \<not> halts (fst (snd r)))" by blast
    have last: "if h then \<exists>ds d. r # delivered = ds @ [d] \<and> halts (fst (snd d)) \<and> (\<forall>r \<in> set ds. \<not> halts (fst (snd r)))
        else rest = [] \<and> (\<forall>r \<in> set (r # delivered). \<not> halts (fst (snd r)))"
    proof (cases h)
      case True
      then obtain ds d where "delivered = ds @ [d]" "halts (fst (snd d))" "\<forall>r \<in> set ds. \<not> halts (fst (snd r))" using ih(7) by auto
      then show ?thesis using True False r by (intro if_P [THEN iffD2]) (auto intro!: exI [of _ "r # ds"])
    qed (use ih(7) False r in auto)
    show ?thesis
      using ih(1-6) last run r L3
      by (intro exI [of _ h] exI [of _ "r # delivered"] exI [of _ rest] exI [of _ L']) simp
  qed
qed (auto intro!: exI [of _ False])

lemma open_reports_after:
  assumes "open_reports es = delivered @ rest" "distinct (map fst (reports_in es))"
  shows "open_reports (es @ map (\<lambda>r. Report_done (fst r)) delivered) = rest"
proof -
  have "open_reports (es @ map (\<lambda>r. Report_done (fst r)) delivered)
      = filter (\<lambda>r. fst r \<notin> fst ` set delivered) (open_reports es)"
    by (auto simp: open_reports_def intro!: filter_cong) force+
  also have "\<dots> = filter (\<lambda>r. fst r \<notin> fst ` set delivered) delivered @ filter (\<lambda>r. fst r \<notin> fst ` set delivered) rest"
    using assms(1) by simp
  also have "filter (\<lambda>r. fst r \<notin> fst ` set delivered) delivered = []" by (auto simp: filter_empty_conv)
  also have "filter (\<lambda>r. fst r \<notin> fst ` set delivered) rest = rest"
  proof -
    have "distinct (map fst (open_reports es))"
      unfolding open_reports_def by (rule distinct_map_filter [OF assms(2)])
    then show ?thesis using assms(1) by (auto simp: filter_id_conv)
  qed
  finally show ?thesis by simp
qed


text \<open>An earlier process queued two reports and handled the first.\<close>

definition demo_context :: close_context where
  "demo_context = \<lparr>cc_position = 7, cc_order_id = 12, cc_deal_ids = [9], cc_closed = 100, cc_share = None, cc_booked = None,
     cc_claimed_as_own = False\<rparr>"

definition reporting_ledger :: ledger where
  "reporting_ledger = demo_ledger\<lparr>g_effects := [], g_loaded := False,
     g_past := [Report_pending 1 demo_context None, Report_pending 2 demo_context None, Report_done 1]\<rparr>"


section \<open>The fills an own close held\<close>

text \<open>The held events in the order their fills were taken, and an event as booked or for less.\<close>

definition held_events :: "(nat \<Rightarrow> claimed_fill) \<Rightarrow> nat list \<Rightarrow> order_event list" where
  "held_events F fs = List.map_filter (\<lambda>f. cf_event (F f)) fs"

definition booked_of :: "order_event \<Rightarrow> rat" where
  "booked_of ev = (case ev_qty ev of None \<Rightarrow> 0 | Some q \<Rightarrow> q)"

definition shortened :: "order_event \<Rightarrow> order_event \<Rightarrow> bool" where
  "shortened ev e \<longleftrightarrow> VOLUME_TOL < booked_of e \<and> booked_of e \<le> booked_of ev \<and> (\<exists>q. e = ev\<lparr>ev_qty := q\<rparr>)"

text \<open>What the layer does besides delivering leaves the held events and the delivered ones alone.\<close>

definition stays :: "(nat \<Rightarrow> claimed_fill) \<Rightarrow> order_event list \<Rightarrow> ledger \<Rightarrow> bool" where
  "stays F R L \<longleftrightarrow> g_fills L = F \<and> g_released L = R"

named_theorems stays_rules \<open>the operations that leave the held events alone\<close>

lemma stays_modify: "(\<And>L. g_fills (f L) = g_fills L \<and> g_released (f L) = g_released L) \<Longrightarrow> keeps (stays F R) (modify f)"
  by (rule keeps_modify) (simp add: stays_def)

lemma stays_post [stays_rules]: "keeps (stays F R) (post X op)"
  by (simp add: post_def stays_modify)

lemma stays_Pair [simp]: "keeps (stays F R) (Pair r)"
  by (simp add: keeps_def)

lemmas stays_intros = keeps_seq keeps_if stays_modify stays_post

lemma stays_queue [stays_rules]: "keeps (stays F R) (queue_external_close X p ctx)"
  unfolding queue_external_close_def by (intro keeps_seq) (auto intro!: stays_intros split: prod.split)

lemma stays_judged [stays_rules]: "keeps (stays F R) (mark_close_judged X ids gs)"
  unfolding mark_close_judged_def Let_def by (intro keeps_seq) (auto intro!: stays_intros)

lemma stays_notes [stays_rules]:
  "keeps (stays F R) (note_share_unknown X p)" "keeps (stays F R) (note_share_ambiguous X p)"
  by (simp_all add: note_share_unknown_def note_share_ambiguous_def stays_post)

lemma stays_flag [stays_rules]: "keeps (stays F R) (flag_ambiguous_claim X k)"
  unfolding flag_ambiguous_claim_def by (intro keeps_seq) (auto intro!: stays_intros)

lemma stays_rejudge [stays_rules]: "keeps (stays F R) (rejudge_claim X p c s)"
  unfolding rejudge_claim_def Let_def
  by (rule keeps_seq [OF keeps_asks]) (auto intro!: keeps_seq keeps_if stays_rules split: prod.split option.split)

lemma stays_rejudge_walk [stays_rules]: "keeps (stays F R) (rejudge_walk X p oid ahead fs credit own excess)"
proof (induction fs arbitrary: credit own excess)
  case (Cons f fs)
  show ?case unfolding rejudge_walk.simps Let_def by (intro keeps_seq keeps_if stays_rules Cons.IH keeps_asks keeps_ret)
qed simp

lemma stays_rejudge_claims [stays_rules]: "keeps (stays F R) (rejudge_claims X k ab)"
  unfolding rejudge_claims_def Let_def
  by (rule keeps_seq [OF keeps_asks]) (auto intro!: keeps_seq stays_intros stays_rules split: prod.split)

lemma stays_restore [stays_rules]: "keeps (stays F R) (restore_retired X p q)"
proof -
  have "keeps (stays F R) (restore_rows X p rs q)" for rs q
    by (induction X p rs q rule: restore_rows.induct)
       (auto intro!: keeps_seq stays_intros simp: Let_def split: sum.split bool.split)
  then show ?thesis unfolding restore_retired_def by (intro keeps_if keeps_seq keeps_asks keeps_ret)
qed

lemma stays_settle_partial [stays_rules]: "keeps (stays F R) (settle_own_partial_close X p)"
  unfolding settle_own_partial_close_def vacate_position_def
  by (rule keeps_seq [OF keeps_asks]) (auto intro!: stays_modify split: prod.split option.split)

text \<open>Delivery: each held event once, in order, less its cut.\<close>

definition cut_event :: "(nat \<times> rat) list \<Rightarrow> nat \<times> order_event \<Rightarrow> order_event option" where
  "cut_event cuts fe = (case fe of (f, ev) \<Rightarrow>
     (let cut = min (cut_of cuts f) (booked_of ev) in
      if VOLUME_TOL < fsub (booked_of ev) cut
      then Some (if 0 < cut then ev\<lparr>ev_qty := Some (fsub (booked_of ev) cut)\<rparr> else ev) else None))"

definition delivered_events :: "(nat \<times> rat) list \<Rightarrow> (nat \<Rightarrow> claimed_fill) \<Rightarrow> nat list \<Rightarrow> order_event list" where
  "delivered_events cuts F fs =
     List.map_filter (\<lambda>f. Option.bind (cf_event (F f)) (\<lambda>ev. cut_event cuts (f, ev))) fs"

lemma delivered_events_cong:
  "(\<And>f. f \<in> set fs \<Longrightarrow> cf_event (F f) = cf_event (G f)) \<Longrightarrow> delivered_events cuts F fs = delivered_events cuts G fs"
  by (induction fs) (simp_all add: delivered_events_def split: option.split)

lemma release_walk_run:
  "distinct fs \<Longrightarrow> release_walk cuts fs L tc rel sett = (res, L') \<Longrightarrow>
     g_released L' = g_released L @ delivered_events cuts (g_fills L) fs
     \<and> (\<forall>f \<in> set fs. cf_event (g_fills L' f) = None) \<and> (\<forall>f. f \<notin> set fs \<longrightarrow> g_fills L' f = g_fills L f)
     \<and> g_closes L' = g_closes L"
proof (induction fs arbitrary: L tc rel sett)
  case (Cons f fs)
  show ?case
  proof (cases "cf_event (g_fills L f)")
    case None
    with Cons show ?thesis by (auto simp: delivered_events_def)
  next
    case (Some ev)
    let ?cut = "min (cut_of cuts f) (booked_of ev)"
    let ?F = "(g_fills L)(f := (g_fills L f)\<lparr>cf_event := None\<rparr>)"
    define L1 where "L1 = L\<lparr>g_fills := ?F,
        g_released := (if VOLUME_TOL < fsub (booked_of ev) ?cut
          then g_released L @ [if 0 < ?cut then ev\<lparr>ev_qty := Some (fsub (booked_of ev) ?cut)\<rparr> else ev] else g_released L)\<rparr>"
    have run: "release_walk cuts fs L1 (fadd tc ?cut) True (sett \<or> cf_settles_share (g_fills L f)) = (res, L')"
      using Cons.prems(2) unfolding release_walk.simps Some Let_def option.case booked_of_def [symmetric] by (simp only: L1_def)
    have d: "distinct fs" "f \<notin> set fs" using Cons.prems(1) by simp_all
    have L1: "g_fills L1 = ?F" "g_closes L1 = g_closes L"
      "g_released L1 = g_released L @ (case cut_event cuts (f, ev) of None \<Rightarrow> [] | Some e \<Rightarrow> [e])"
      by (simp_all add: L1_def cut_event_def Let_def)
    have "delivered_events cuts ?F fs = delivered_events cuts (g_fills L) fs"
      using d(2) by (intro delivered_events_cong) auto
    with Cons.IH [OF d(1) run] L1 Some d(2) show ?thesis
      by (auto simp: delivered_events_def split: option.split)
  qed
qed (simp add: delivered_events_def)

lemma release_run:
  assumes "distinct fs" "release_held_claims X streaming k fs cuts L = (r, L')"
  shows "g_released L' = g_released L @ delivered_events cuts (g_fills L) fs \<and> (\<forall>f \<in> set fs. cf_event (g_fills L' f) = None)"
proof -
  obtain res L1 where w: "release_walk cuts fs L 0 False False = (res, L1)" by fastforce
  obtain tc rel sett where res: "res = (tc, rel, sett)" by (cases res)
  let ?rest = "seq (asks (\<lambda>L. oc_position (g_closes L k))) (\<lambda>p.
     seq (if VOLUME_TOL < tc
          then seq (restore_retired X p tc) (\<lambda>_. post X (Noted ''ctrader_close_claim_rebooked'' p)) else ret ()) (\<lambda>_.
     seq (if sett then settle_own_partial_close X p else ret ()) (\<lambda>_.
     if rel \<and> streaming then modify (\<lambda>L. L\<lparr>g_wakeups := Suc (g_wakeups L)\<rparr>) else ret ())))"
  have "release_held_claims X streaming k fs cuts L = ?rest L1"
    unfolding release_held_claims_def by (subst seq_def) (simp add: w res)
  then have out: "?rest L1 = (r, L')" using assms(2) by simp
  have "keeps (stays (g_fills L1) (g_released L1)) ?rest"
    by (intro keeps_seq keeps_if stays_rules keeps_asks keeps_ret stays_modify) simp
  from keepsD [OF this, of L1] have "stays (g_fills L1) (g_released L1) L'"
    unfolding out snd_conv by (simp add: stays_def)
  then show ?thesis using release_walk_run [OF assms(1) w] by (simp add: stays_def)
qed

text \<open>The judgement of claims raises nothing, and it cuts only volumes above the tolerance.\<close>

definition returns :: "'a act \<Rightarrow> bool" where
  "returns m \<longleftrightarrow> (\<forall>L. \<exists>x. fst (m L) = Inr x)"

named_theorems returns_rules \<open>the operations that raise nothing\<close>

lemma returns_basic [returns_rules]: "returns (ret x)" "returns (asks f)" "returns (modify g)"
  by (simp_all add: returns_def)

lemma returns_seq [returns_rules]: "returns m \<Longrightarrow> (\<And>x. returns (f x)) \<Longrightarrow> returns (seq m f)"
  unfolding returns_def
proof (rule allI)
  fix L
  assume "\<forall>L. \<exists>x. fst (m L) = Inr x" and f: "\<And>x. \<forall>L. \<exists>y. fst (f x L) = Inr y"
  then obtain x t where "m L = (Inr x, t)" by (metis prod.collapse)
  then show "\<exists>y. fst (seq m f L) = Inr y" using f by (simp add: seq_def)
qed

lemma returns_if [returns_rules]: "returns m \<Longrightarrow> returns n \<Longrightarrow> returns (if b then m else n)"
  by simp

lemma returns_post [returns_rules]: "returns (post X op)"
  unfolding post_def by (rule returns_basic)

lemma returns_pair [returns_rules]: "(\<And>a b. returns (f a b)) \<Longrightarrow> returns (case p of (a, b) \<Rightarrow> f a b)"
  by (cases p) simp

lemma returns_option [returns_rules]: "returns m \<Longrightarrow> (\<And>x. returns (f x)) \<Longrightarrow> returns (case x of None \<Rightarrow> m | Some y \<Rightarrow> f y)"
  by (cases x) simp_all

lemma returns_reports [returns_rules]:
  "returns (queue_external_close X p ctx)" "returns (mark_close_judged X ids gs)"
  "returns (note_share_unknown X p)" "returns (note_share_ambiguous X p)" "returns (flag_ambiguous_claim X k)"
  unfolding queue_external_close_def mark_close_judged_def note_share_unknown_def note_share_ambiguous_def
    flag_ambiguous_claim_def Let_def by (intro returns_rules)+

lemma returns_rejudge [returns_rules]: "returns (rejudge_claim X p c s)"
  unfolding rejudge_claim_def Let_def by (intro returns_rules)

lemma returns_rejudge_walk [returns_rules]: "returns (rejudge_walk X p oid ahead fs credit own excess)"
proof (induction fs arbitrary: credit own excess)
  case Nil
  show ?case unfolding rejudge_walk.simps by (rule returns_basic)
next
  case (Cons f fs)
  show ?case unfolding rejudge_walk.simps Let_def by (intro returns_rules Cons.IH)
qed

lemma share_out_pos: "c \<in> snd ` set (share_out xs left) \<Longrightarrow> VOLUME_TOL < c"
  by (induction xs left rule: share_out.induct) (auto split: if_splits)

lemma rejudge_claims_run:
  obtains cuts L1 where "rejudge_claims X k ab L = (Inr cuts, L1)" "g_fills L1 = g_fills L" "g_released L1 = g_released L"
    "\<And>c. c \<in> snd ` set cuts \<Longrightarrow> VOLUME_TOL < c"
proof -
  have "returns (rejudge_claims X k ab)" unfolding rejudge_claims_def Let_def by (intro returns_rules)
  then obtain cuts L1 where run: "rejudge_claims X k ab L = (Inr cuts, L1)" by (metis prod.collapse returns_def)
  have "stays (g_fills L) (g_released L) L1"
    using keepsD [OF stays_rejudge_claims, of "g_fills L" "g_released L" L X k ab] run by (simp add: stays_def)
  moreover have "\<exists>xs left. cuts = share_out xs left"
    using run by (auto simp: rejudge_claims_def Let_def seq_Inr_iff split: prod.splits)
  ultimately show thesis using run share_out_pos by (intro that [of cuts L1]) (auto simp: stays_def)
qed

lemma cut_event_shortened:
  assumes "cut_event cuts (f, ev) = Some e" "\<And>c. c \<in> snd ` set cuts \<Longrightarrow> 0 \<le> c" "dbl (booked_of ev)" "0 \<le> booked_of ev"
  shows "shortened ev e"
proof -
  let ?cut = "min (cut_of cuts f) (booked_of ev)"
  have "0 \<le> cut_of cuts f"
    using assms(2) by (auto simp: cut_of_def image_iff split: option.split dest!: map_of_SomeD) force
  then have "0 \<le> ?cut" using assms(4) by simp
  then have "fsub (booked_of ev) ?cut \<le> booked_of ev" using assms(3) by (intro fsub_pos)
  then show ?thesis using assms(1,3) \<open>0 \<le> ?cut\<close>
    by (auto simp: cut_event_def shortened_def Let_def booked_of_def fsub_def dbl_def split: if_splits)
       (metis order_event.surjective order_event.update_convs(4))+
qed

definition sound_quantities :: "(nat \<Rightarrow> claimed_fill) \<Rightarrow> nat list \<Rightarrow> bool" where
  "sound_quantities F fs \<longleftrightarrow> (\<forall>ev \<in> set (held_events F fs). dbl (booked_of ev) \<and> 0 \<le> booked_of ev)"

lemma delivered_shortened:
  assumes "sound_quantities F fs" "\<And>c. c \<in> snd ` set cuts \<Longrightarrow> 0 \<le> c"
  shows "\<exists>held. subseq held (held_events F fs) \<and> list_all2 shortened held (delivered_events cuts F fs)"
  using assms(1)
proof (induction fs)
  case (Cons f fs)
  then obtain held where ih: "subseq held (held_events F fs)" "list_all2 shortened held (delivered_events cuts F fs)"
    by (auto simp: sound_quantities_def held_events_def split: option.splits)
  show ?case
  proof (cases "cf_event (F f)")
    case None
    then show ?thesis using ih by (auto simp: held_events_def delivered_events_def)
  next
    case (Some ev)
    then have he: "held_events F (f # fs) = ev # held_events F fs" by (simp add: held_events_def)
    show ?thesis
    proof (cases "cut_event cuts (f, ev)")
      case None
      then show ?thesis using ih Some he by (auto simp: delivered_events_def intro!: exI [of _ held])
    next
      case (Some e)
      have "shortened ev e"
        using cut_event_shortened [OF Some assms(2)] Cons.prems he by (simp add: sound_quantities_def)
      then have "subseq (ev # held) (held_events F (f # fs))" "list_all2 shortened (ev # held) (delivered_events cuts F (f # fs))"
        using ih he Some \<open>cf_event (F f) = Some ev\<close> by (simp_all add: delivered_events_def)
      then show ?thesis by blast
    qed
  qed
qed (simp add: held_events_def delivered_events_def)

lemma delivered_uncut:
  "sound_quantities F fs \<Longrightarrow> delivered_events [] F fs = filter (\<lambda>ev. VOLUME_TOL < booked_of ev) (held_events F fs)"
proof (induction fs)
  case (Cons f fs)
  then show ?case
    by (cases "cf_event (F f)")
       (auto simp: delivered_events_def held_events_def sound_quantities_def cut_event_def cut_of_def Let_def dbl_def fsub_def)
qed (simp add: delivered_events_def held_events_def)

lemma flags_stay:
  "keeps (stays F R) (foldr (\<lambda>f m. seq (asks (\<lambda>L. cf_venue (g_fills L f))) (\<lambda>v. seq (if v then ret () else flag_ambiguous_claim X k) (\<lambda>_. m))) fs (ret ()))"
proof (induction fs)
  case (Cons f fs)
  show ?case unfolding foldr.simps comp_def by (intro keeps_seq keeps_if stays_rules keeps_asks keeps_ret Cons.IH)
qed simp

lemma flags_return:
  "returns (foldr (\<lambda>f m. seq (asks (\<lambda>L. cf_venue (g_fills L f))) (\<lambda>v. seq (if v then ret () else flag_ambiguous_claim X k) (\<lambda>_. m))) fs (ret ()))"
proof (induction fs)
  case Nil
  show ?case unfolding foldr.simps id_def by (rule returns_basic)
next
  case (Cons f fs)
  show ?case unfolding foldr.simps comp_def by (intro returns_rules Cons.IH)
qed

lemma stays_returns:
  assumes "keeps (stays (g_fills L) (g_released L)) m" "returns m"
  obtains x L1 where "m L = (Inr x, L1)" "g_fills L1 = g_fills L" "g_released L1 = g_released L"
proof -
  obtain x L1 where "m L = (Inr x, L1)" using assms(2) by (metis prod.collapse returns_def)
  then show thesis using keepsD [OF assms(1), of L] by (intro that [of x L1]) (simp_all add: stays_def)
qed

text \<open>An answer ends in the delivery of the claims the close had.\<close>

lemma settle_delivers:
  assumes "settle_own_close X streaming k order_id ab finished L = (r, L')" "c = g_closes L k"
    and "unknown = ((order_id = None \<or> order_id = Some 0) \<and> oc_order_id c = None)"
  shows "\<exists>cuts L1 L2 r1. release_held_claims X streaming k (oc_claims c) cuts L1 = (r1, L2)
     \<and> g_fills L1 = g_fills L \<and> g_released L1 = g_released L \<and> g_fills L' = g_fills L2 \<and> g_released L' = g_released L2
     \<and> (\<forall>x \<in> snd ` set cuts. VOLUME_TOL < x) \<and> (unknown \<longrightarrow> cuts = [])"
proof -
  let ?c = "c\<lparr>oc_order_id := (case order_id of Some i \<Rightarrow> (if i \<noteq> 0 then Some i else oc_order_id c) | None \<Rightarrow> oc_order_id c),
            oc_expires := Some (fadd (g_mono L) OWN_CLOSE_GRACE), oc_answered_ms := Some (wall_ms L),
            oc_complete := oc_complete c \<or> finished\<rparr>"
  let ?L0 = "L\<lparr>g_closes := (g_closes L)(k := ?c)\<rparr>"
  obtain La where La: "post X (Own_close_event ?c False) ?L0 = (Inr (), La)" "g_fills La = g_fills L" "g_released La = g_released L"
    by (simp add: post_def)
  show ?thesis
  proof (cases "oc_order_id ?c = None")
    case True
    obtain x L1 where f: "foldr (\<lambda>f m. seq (asks (\<lambda>L. cf_venue (g_fills L f))) (\<lambda>v. seq (if v then ret () else flag_ambiguous_claim X k) (\<lambda>_. m)))
        (oc_claims c) (ret ()) La = (Inr x, L1)" "g_fills L1 = g_fills La" "g_released L1 = g_released La"
      by (rule stays_returns [OF flags_stay flags_return])
    have "settle_own_close X streaming k order_id ab finished L = release_held_claims X streaming k (oc_claims c) [] L1"
      unfolding settle_own_close_def using True [unfolded assms(2)] f La [unfolded assms(2)] assms(2) by (simp add: seq_def)
    then show ?thesis using assms(1) f La by (intro exI [of _ "[]"] exI [of _ L1] exI [of _ L'] exI [of _ r]) simp
  next
    case False
    obtain cuts L1 where j: "rejudge_claims X k ab La = (Inr cuts, L1)" "g_fills L1 = g_fills La" "g_released L1 = g_released La"
      "\<And>x. x \<in> snd ` set cuts \<Longrightarrow> VOLUME_TOL < x"
      by (rule rejudge_claims_run [of X k ab La]) blast
    obtain r1 L2 where l: "release_held_claims X streaming k (oc_claims c) cuts L1 = (r1, L2)" by fastforce
    have "g_fills L' = g_fills L2 \<and> g_released L' = g_released L2"
      using assms(1) False [unfolded assms(2)] La [unfolded assms(2)] j l [unfolded assms(2)] unfolding settle_own_close_def
      by (cases r1) (auto simp: seq_def Let_def split: if_splits)
    then show ?thesis using j l La False assms(3)
      by (intro exI [of _ cuts] exI [of _ L1] exI [of _ L2] exI [of _ r1]) (auto split: option.splits if_splits)
  qed
qed


text \<open>A close in flight took one fill, whose event waits for the answer.\<close>

definition demo_event :: order_event where
  "demo_event = \<lparr>ev_order = \<lparr>xo_id = ''12'', xo_symbol = ''EURUSD'', xo_side = Sell, xo_type = Market, xo_qty = 1, xo_filled = 1,
       xo_remaining = 0, xo_price = None, xo_stop = None, xo_average = None, xo_status = Order_filled, xo_reduce_only = True,
       xo_client_id = None\<rparr>,
     ev_kind = Ev_filled, ev_price = Some 1, ev_qty = Some 1, ev_time = 0, ev_pine = None, ev_from = Some ''long'',
     ev_leg = Some Leg_close, ev_fee = 0, ev_fill_id = Some ''9'', ev_venue_cancel = False\<rparr>"

definition demo_fill :: claimed_fill where
  "demo_fill = \<lparr>cf_order_id = 12, cf_deal_id = Some 9, cf_fill_qty = 1, cf_order_type = MARKET, cf_client_order_id = [],
     cf_from_entry = None, cf_terminal = True, cf_executed_ms = None, cf_share_before = None, cf_share_high = None,
     cf_venue_after = 0, cf_booked = 1, cf_venue = False, cf_event = Some demo_event, cf_settles_share = False\<rparr>"

definition demo_own_close :: own_close where
  "demo_own_close = \<lparr>oc_position = 7, oc_sent_ms = 0, oc_order_id = None, oc_expires = None, oc_answered_ms = None, oc_key = 0,
     oc_claims = [1], oc_volume = None, oc_from_entry = None, oc_executed = 0, oc_deals = [], oc_complete = False\<rparr>"

definition holding_ledger :: ledger where
  "holding_ledger = demo_ledger\<lparr>g_closes := (\<lambda>_. demo_own_close), g_fills := (\<lambda>_. demo_fill), g_live := [0], g_history := [0]\<rparr>"


end
