(* ===== verification/Terms_Properties.thy ===== *)
theory Terms_Properties
  imports Terms
begin

text \<open>
  The bot's own orders are never taken for edited ones: a venue that executes and amends an order only as the bot
  asks, and shows it in its own way, with every view delivered late, twice or out of order.
\<close>

section \<open>A venue and the bot's writes\<close>

text \<open>A state of the order: limit and stop (zero when absent), the whole volume, and what of it executed.\<close>

type_synonym working = "rat \<times> rat \<times> int \<times> int"

definition done_of :: "working \<Rightarrow> int" where "done_of q = snd (snd (snd q))"
definition whole_of :: "working \<Rightarrow> int" where "whole_of q = fst (snd (snd q))"

text \<open>How the venue shows the volume.\<close>

definition shown_volume :: "volume_meaning \<Rightarrow> int \<Rightarrow> int \<Rightarrow> int" where
  "shown_volume m v e = (case m of Whole \<Rightarrow> v | Remainder \<Rightarrow> v - e)"

definition shows_view :: "volume_meaning \<Rightarrow> attrs \<Rightarrow> int \<Rightarrow> order \<Rightarrow> working \<Rightarrow> bool" where
  "shows_view m A i o' q \<longleftrightarrow>
     (case q of (l, s, v, e) \<Rightarrow>
        o_orderId o' = i \<and> is_pending_type o' \<and> o_limitPrice o' = l \<and> o_stopPrice o' = s
        \<and> td_volume (o_tradeData o') = shown_volume m v e \<and> o_executedVolume o' = e \<and> order_attrs o' = A)"

text \<open>The terms, every state the venue showed, the present one, and the amend in flight: what it wrote, the terms
  before it, and the state it left once the venue applied it.\<close>

record world =
  w_terms :: terms
  w_shown :: "working set"
  w_now :: working
  w_amend :: "((rat option \<times> rat option \<times> int) \<times> term_entry list \<times> working option) option"

text \<open>A write leaves its prices, and its volume as the whole volume or (\<open>rem\<close>) as what is left to execute.\<close>

definition leaves :: "bool \<Rightarrow> rat option \<times> rat option \<times> int \<Rightarrow> int \<Rightarrow> working \<Rightarrow> bool" where
  "leaves rem wrote e q \<longleftrightarrow>
     (case q of (l, s, v, e') \<Rightarrow> (view_price l, view_price s) = (fst wrote, fst (snd wrote))
        \<and> v = snd (snd wrote) + (if rem then e else 0) \<and> e' = e)"

text \<open>The order was placed and answered: one entry of terms, answered with what the venue showed.\<close>

definition placed :: "volume_meaning \<Rightarrow> bool \<Rightarrow> attrs \<Rightarrow> row \<Rightarrow> int \<Rightarrow> world \<Rightarrow> bool" where
  "placed m rem A r i W \<longleftrightarrow>
     (\<exists>e q. terms_of (w_terms W) r = [e] \<and> w_now W = q \<and> w_shown W = {q} \<and> w_amend W = None
        \<and> leaves rem (te_limit e, te_stop e, te_volume e) (done_of q) q
        \<and> te_answer e = Some (shown_volume m (whole_of q) (done_of q), done_of q))
     \<and> A \<in> set (known_order_attrs (w_terms W) r) \<and> t_reports (w_terms W) = [] \<and> t_accepted (w_terms W) = []
     \<and> t_unexplained (w_terms W) = [] \<and> t_semantics (w_terms W) = None \<and> t_held (w_terms W) = []
     \<and> t_amends (w_terms W) i = None \<and> i \<notin> t_reported (w_terms W)"

text \<open>The steps: executions, deliveries of any view the venue ever showed (a partial fill, a replaced order, a
  snapshot), the flush of held views, and an amend that is answered, refused or lost. With a volume that
  means what is left, an amend repeats no earlier terms and its answer is not lost.\<close>

inductive life :: "volume_meaning \<Rightarrow> bool \<Rightarrow> attrs \<Rightarrow> (int \<Rightarrow> rat option) \<Rightarrow> row \<Rightarrow> int \<Rightarrow> world \<Rightarrow> bool"
  for m rem A tick r i where
  life_placed: "placed m rem A r i W \<Longrightarrow> life m rem A tick r i W"
| life_fill: "life m rem A tick r i W \<Longrightarrow> w_now W = (l, s, v, e) \<Longrightarrow> e \<le> e' \<Longrightarrow>
    life m rem A tick r i (W\<lparr>w_now := (l, s, v, e'), w_shown := insert (l, s, v, e') (w_shown W)\<rparr>)"
| life_partial: "life m rem A tick r i W \<Longrightarrow> q \<in> w_shown W \<Longrightarrow> shows_view m A i o' q \<Longrightarrow>
    life m rem A tick r i (W\<lparr>w_terms := learn_order_volume_semantics (Some r) o' (w_terms W)\<rparr>)"
| life_replaced: "life m rem A tick r i W \<Longrightarrow> q \<in> w_shown W \<Longrightarrow> shows_view m A i o' q \<Longrightarrow>
    life m rem A tick r i (W\<lparr>w_terms := judge_replaced_order tick [i \<mapsto> r] o' (w_terms W)\<rparr>)"
| life_flush: "life m rem A tick r i W \<Longrightarrow>
    life m rem A tick r i (W\<lparr>w_terms := judge_held_replaced_orders tick [i \<mapsto> r] (w_terms W)\<rparr>)"
| life_snapshot: "life m rem A tick r i W \<Longrightarrow> q \<in> w_shown W \<Longrightarrow> shows_view m A i o' q \<Longrightarrow>
    life m rem A tick r i (W\<lparr>w_terms := observe_working_order tick created resume (Some r) o' started (w_terms W)\<rparr>)"
| life_amend: "life m rem A tick r i W \<Longrightarrow> w_amend W = None \<Longrightarrow> wrote = amended_terms r req (w_terms W) \<Longrightarrow>
    (rem \<Longrightarrow> \<forall>e \<in> set (terms_of (w_terms W) r). \<not> same_terms wrote e) \<Longrightarrow>
    life m rem A tick r i (W\<lparr>w_terms := begin_own_amend i (remember_own_order_terms (Some r) wrote (w_terms W)),
      w_amend := Some (wrote, own_order_terms (Some r) (w_terms W), None)\<rparr>)"
| life_applied: "life m rem A tick r i W \<Longrightarrow> w_amend W = Some (wrote, before, None) \<Longrightarrow> leaves rem wrote (done_of (w_now W)) q \<Longrightarrow>
    life m rem A tick r i (W\<lparr>w_now := q, w_shown := insert q (w_shown W), w_amend := Some (wrote, before, Some q)\<rparr>)"
| life_answered: "life m rem A tick r i W \<Longrightarrow> w_amend W = Some (wrote, before, Some q) \<Longrightarrow> shows_view m A i o' q \<Longrightarrow>
    life m rem A tick r i (W\<lparr>w_terms := end_own_amend True (Some r) i (Some o') (Some wrote) clock (w_terms W), w_amend := None\<rparr>)"
| life_refused: "life m rem A tick r i W \<Longrightarrow> w_amend W = Some (wrote, before, None) \<Longrightarrow>
    life m rem A tick r i (W\<lparr>w_terms := end_own_amend True (Some r) i None None clock
      (withdraw_own_order_terms (Some r) wrote before (w_terms W)), w_amend := None\<rparr>)"
| life_lost: "life m rem A tick r i W \<Longrightarrow> w_amend W = Some (wrote, before, applied) \<Longrightarrow> \<not> rem \<Longrightarrow>
    life m rem A tick r i (W\<lparr>w_terms := end_own_amend True (Some r) i None None clock (w_terms W), w_amend := None\<rparr>)"

section \<open>The invariant\<close>

definition triple :: "term_entry \<Rightarrow> rat option \<times> rat option \<times> int" where
  "triple e = (te_limit e, te_stop e, te_volume e)"

lemma same_terms_triple: "same_terms wrote e \<longleftrightarrow> triple e = wrote"
  by (simp add: same_terms_def triple_def)

text \<open>An entry explains a state: the prices, and the volume through its answer or (unanswered) by itself.\<close>

definition explains :: "volume_meaning \<Rightarrow> bool \<Rightarrow> term_entry \<Rightarrow> working \<Rightarrow> bool" where
  "explains m rem e q \<longleftrightarrow>
     te_limit e = view_price (fst q) \<and> te_stop e = view_price (fst (snd q)) \<and> (\<not> rem \<longrightarrow> te_volume e = whole_of q)
     \<and> (case te_answer e of Some (sv, se) \<Rightarrow> sv = shown_volume m (whole_of q) se | None \<Rightarrow> \<not> rem)"

definition covered :: "volume_meaning \<Rightarrow> bool \<Rightarrow> world \<Rightarrow> term_entry list \<Rightarrow> bool" where
  "covered m rem W L \<longleftrightarrow> (\<forall>q \<in> w_shown W. (\<exists>e \<in> set L. explains m rem e q)
     \<or> (\<exists>wrote before q'. rem \<and> w_amend W = Some (wrote, before, Some q') \<and> fst q = fst q' \<and> fst (snd q) = fst (snd q')
          \<and> whole_of q = whole_of q'))"

text \<open>The last entry, when answered, was answered for the present volume, and whatever executed more than its
  answer showed did so at that volume.\<close>

definition teaches :: "volume_meaning \<Rightarrow> world \<Rightarrow> term_entry list \<Rightarrow> bool" where
  "teaches m W L \<longleftrightarrow>
     (L \<noteq> [] \<longrightarrow> (case te_answer (last L) of None \<Rightarrow> True | Some (sv, se) \<Rightarrow>
        sv = shown_volume m (whole_of (w_now W)) se
        \<and> (\<forall>q \<in> w_shown W. se < done_of q \<longrightarrow> whole_of q = whole_of (w_now W))))"

definition quiet :: "volume_meaning \<Rightarrow> attrs \<Rightarrow> row \<Rightarrow> int \<Rightarrow> world \<Rightarrow> bool" where
  "quiet m A r i W \<longleftrightarrow>
     t_reports (w_terms W) = [] \<and> t_accepted (w_terms W) = [] \<and> t_unexplained (w_terms W) = [] \<and> i \<notin> t_reported (w_terms W)
     \<and> t_semantics (w_terms W) \<in> {None, Some m} \<and> A \<in> set (known_order_attrs (w_terms W) r)
     \<and> (\<forall>(j, h) \<in> set (t_held (w_terms W)). j = i \<and> (\<exists>q \<in> w_shown W. shows_view m A i h q))"

definition sane :: "volume_meaning \<Rightarrow> bool \<Rightarrow> attrs \<Rightarrow> row \<Rightarrow> int \<Rightarrow> world \<Rightarrow> bool" where
  "sane m rem A r i W \<longleftrightarrow>
     quiet m A r i W \<and> w_now W \<in> w_shown W \<and> (\<forall>q \<in> w_shown W. done_of q \<le> done_of (w_now W))
     \<and> distinct (map triple (terms_of (w_terms W) r)) \<and> covered m rem W (terms_of (w_terms W) r)
     \<and> (case w_amend W of
          None \<Rightarrow> t_amends (w_terms W) i = None \<and> teaches m W (terms_of (w_terms W) r)
        | Some (wrote, before, q) \<Rightarrow>
            t_amends (w_terms W) i = Some 1
            \<and> terms_of (w_terms W) r = filter (\<lambda>e. \<not> same_terms wrote e) before @ [sent_entry wrote]
            \<and> distinct (map triple before)
            \<and> (rem \<longrightarrow> (\<forall>e \<in> set before. \<not> same_terms wrote e))
            \<and> (case q of
                 None \<Rightarrow> teaches m W before \<and> covered m rem W before
               | Some (l, s, v, e) \<Rightarrow> (l, s, v, e) \<in> w_shown W \<and> leaves rem wrote e (l, s, v, e)
                   \<and> (\<exists>e'. w_now W = (l, s, v, e')) \<and> (\<forall>p \<in> w_shown W. e < done_of p \<longrightarrow> whole_of p = v)))"

section \<open>The verdict on a shown state\<close>

lemma price_tolerance_nonneg: "0 \<le> price_tolerance t p q"
  unfolding price_tolerance_def fadd_def fmul_def
  by (intro dbl.rnd_nonneg add_nonneg_nonneg mult_nonneg_nonneg) (auto intro!: dbl.rnd_nonneg split: option.split)

lemma own_view_explained:
  assumes "explains m rem e (l, s, v, d)" "t_semantics T \<in> {None, Some m}" "shows_view m A i o' (l, s, v, d)"
  shows "own_volume (t_semantics T) (td_volume (o_tradeData o')) (o_executedVolume o') e"
  using assms
  by (cases m) (auto simp: explains_def own_volume_def shows_view_def shown_volume_def whole_of_def Let_def split: option.splits)

lemma same_price_refl: "0 \<le> t \<Longrightarrow> same_price p p t"
  by (simp add: same_price_def fsub_def split: option.split)

text \<open>A view the entries explain is the bot's: only the attributes seen last change.\<close>

lemma own_view_not_foreign:
  assumes "explains m rem e q" "e \<in> set (terms_of T r)" "t_semantics T \<in> {None, Some m}" "shows_view m A i o' q"
    "A \<in> set (known_order_attrs T r)"
  shows "\<exists>a. foreign_order_view tick (Some r) o' T = (None, T\<lparr>t_attrs_seen := a\<rparr>)"
proof -
  obtain l s v d where q: "q = (l, s, v, d)" by (cases q)
  let ?t = "price_tolerance (tick (td_symbolId (o_tradeData o'))) (view_price (o_limitPrice o')) (view_price (o_stopPrice o'))"
  have ex: "\<exists>e \<in> set (terms_of T r). same_price (te_limit e) (view_price (o_limitPrice o')) ?t
      \<and> same_price (te_stop e) (view_price (o_stopPrice o')) ?t
      \<and> own_volume (t_semantics T) (td_volume (o_tradeData o')) (o_executedVolume o') e"
    using assms q own_view_explained [of m rem e l s v d T A i o'] same_price_refl [OF price_tolerance_nonneg]
    by (intro bexI [of _ e]) (auto simp: explains_def shows_view_def)
  have at: "order_attrs o' \<in> set (known_order_attrs T r)" using assms(4,5) q by (simp add: shows_view_def)
  have keep: "\<exists>a. (None :: seen_view option, T) = (None, T\<lparr>t_attrs_seen := a\<rparr>)" by (rule exI [of _ "t_attrs_seen T"]) simp
  show ?thesis using ex at keep unfolding foreign_order_view_def Let_def by auto
qed

text \<open>What the verdicts and the bookkeeping of attributes leave alone.\<close>

lemma attrs_seen_keeps [simp]:
  "terms_of (T\<lparr>t_attrs_seen := a\<rparr>) r = terms_of T r" "known_order_attrs (T\<lparr>t_attrs_seen := a\<rparr>) r = known_order_attrs T r"
  "terms_of (T\<lparr>t_held := h\<rparr>) r = terms_of T r" "known_order_attrs (T\<lparr>t_held := h\<rparr>) r = known_order_attrs T r"
  "terms_of (T\<lparr>t_watch := w\<rparr>) r = terms_of T r" "known_order_attrs (T\<lparr>t_watch := w\<rparr>) r = known_order_attrs T r"
  "terms_of (T\<lparr>t_semantics := k\<rparr>) r = terms_of T r" "known_order_attrs (T\<lparr>t_semantics := k\<rparr>) r = known_order_attrs T r"
  by (simp_all add: terms_of_def known_order_attrs_def)

text \<open>A step that leaves the order's entries, the amend in flight and the venue alone keeps the invariant if it stays quiet.\<close>

lemma sane_quiet:
  assumes "sane m rem A r i W" "quiet m A r i (W\<lparr>w_terms := T\<rparr>)"
    "terms_of T r = terms_of (w_terms W) r" "t_amends T i = t_amends (w_terms W) i"
  shows "sane m rem A r i (W\<lparr>w_terms := T\<rparr>)"
  using assms unfolding sane_def covered_def teaches_def by (auto split: option.splits prod.splits)

definition like :: "terms \<Rightarrow> terms \<Rightarrow> bool" where
  "like T U \<longleftrightarrow> t_terms U = t_terms T \<and> t_attrs U = t_attrs T \<and> t_semantics U = t_semantics T \<and> t_reports U = t_reports T
     \<and> t_accepted U = t_accepted T \<and> t_unexplained U = t_unexplained T \<and> t_reported U = t_reported T \<and> t_held U = t_held T
     \<and> t_amends U = t_amends T"

lemma sane_like:
  assumes "sane m rem A r i W" "like (w_terms W) U"
  shows "sane m rem A r i (W\<lparr>w_terms := U\<rparr>)"
proof (rule sane_quiet [OF assms(1)])
  show "quiet m A r i (W\<lparr>w_terms := U\<rparr>)"
    using assms by (simp add: sane_def quiet_def like_def known_order_attrs_def)
qed (use assms(2) in \<open>simp_all add: like_def terms_of_def\<close>)

lemma covered_idle:
  assumes "sane m rem A r i W" "t_amends (w_terms W) i = None" "q \<in> w_shown W"
  obtains e where "e \<in> set (terms_of (w_terms W) r)" "explains m rem e q"
  using assms unfolding sane_def covered_def by (force split: option.splits prod.splits)

lemma learned_right:
  assumes "teaches m W (terms_of T r)" "q \<in> w_shown W" "shows_view m A i o' q" "terms_of T r \<noteq> []"
    "te_answer (last (terms_of T r)) = Some shown"
  shows "learned_meaning shown o' \<in> {None, Some m}"
proof -
  obtain sv se l s v d where p: "shown = (sv, se)" "q = (l, s, v, d)" by (cases shown, cases q)
  have t: "sv = shown_volume m (whole_of (w_now W)) se" "se < d \<longrightarrow> v = whole_of (w_now W)"
    using assms p by (auto simp: teaches_def done_of_def whole_of_def)
  show ?thesis using t assms(3) p
    by (cases m) (auto simp: learned_meaning_def shows_view_def shown_volume_def Let_def)
qed

lemma learn_quiet:
  assumes "sane m rem A r i W" "q \<in> w_shown W" "shows_view m A i o' q"
  shows "sane m rem A r i (W\<lparr>w_terms := learn_order_volume_semantics (Some r) o' (w_terms W)\<rparr>)"
proof -
  let ?T = "w_terms W" and ?U = "learn_order_volume_semantics (Some r) o' (w_terms W)"
  have q: "quiet m A r i W" using assms(1) by (simp add: sane_def)
  have sem: "t_semantics ?T \<in> {None, Some m}" using q by (simp add: quiet_def)
  have lm: "learned_meaning shown o' \<in> {None, Some m}"
    if a: "te_answer (last (terms_of ?T r)) = Some shown" and b: "terms_of ?T r \<noteq> []" for shown
  proof (cases "w_amend W")
    case None
    then have "teaches m W (terms_of ?T r)" using assms(1) by (simp add: sane_def)
    from learned_right [OF this assms(2,3) b a] show ?thesis .
  next
    case (Some x)
    obtain wrote before p where x: "x = (wrote, before, p)" by (cases x)
    have "terms_of ?T r = filter (\<lambda>e. \<not> same_terms wrote e) before @ [sent_entry wrote]"
      using assms(1) Some x by (simp add: sane_def)
    then show ?thesis using a by (simp add: sent_entry_def split: prod.splits)
  qed
  have id: "?T = ?T\<lparr>t_semantics := t_semantics ?T\<rparr>" by simp
  have "\<exists>k. ?U = ?T\<lparr>t_semantics := k\<rparr> \<and> k \<in> {None, Some m}"
  proof (cases "o_orderId o' = 0 \<or> \<not> is_pending_type o' \<or> terms_of ?T r = []")
    case True
    then show ?thesis using sem id unfolding learn_order_volume_semantics_def own_order_terms_def by (metis option.case(2))
  next
    case False
    show ?thesis
    proof (cases "te_answer (last (terms_of ?T r))")
      case None
      then show ?thesis using sem id False by (intro exI [of _ "t_semantics ?T"]) (simp add: learn_order_volume_semantics_def own_order_terms_def)
    next
      case (Some shown)
      then have "learned_meaning shown o' \<in> {None, Some m}" using lm False by simp
      moreover have "?U = (case learned_meaning shown o' of None \<Rightarrow> ?T
          | Some k \<Rightarrow> (case t_semantics ?T of None \<Rightarrow> ?T\<lparr>t_semantics := Some k\<rparr>
              | Some known \<Rightarrow> if known = k then ?T else ?T\<lparr>t_semantics := None\<rparr>))"
        using False Some by (simp add: learn_order_volume_semantics_def own_order_terms_def)
      ultimately show ?thesis using sem id by (cases "t_semantics ?T") (auto intro: exI [of _ "t_semantics ?T"])
    qed
  qed
  then obtain k where k: "?U = ?T\<lparr>t_semantics := k\<rparr>" "k \<in> {None, Some m}" by blast
  show ?thesis unfolding k(1)
    by (rule sane_quiet [OF assms(1)]) (use q k(2) in \<open>auto simp: quiet_def\<close>)
qed

lemma sane_parts:
  assumes "sane m rem A r i W"
  shows "quiet m A r i W" "w_amend W = None \<longleftrightarrow> t_amends (w_terms W) i = None"
    "w_amend W \<noteq> None \<Longrightarrow> t_amends (w_terms W) i = Some 1"
  using assms by (auto simp: sane_def split: option.splits prod.splits)

lemma update_held:
  "(j, h) \<in> set (AList.update k v l) \<Longrightarrow> (j, h) = (k, v) \<or> (j, h) \<in> set l"
  by (induction l) (auto split: if_splits)

lemma quiet_view:
  assumes "sane m rem A r i W" "t_amends (w_terms W) i = None" "q \<in> w_shown W" "shows_view m A i o' q"
  shows "\<exists>a. foreign_order_view tick (Some r) o' (w_terms W) = (None, (w_terms W)\<lparr>t_attrs_seen := a\<rparr>)"
proof -
  obtain e where "e \<in> set (terms_of (w_terms W) r)" "explains m rem e q" by (rule covered_idle [OF assms(1-3)])
  moreover have "t_semantics (w_terms W) \<in> {None, Some m}" "A \<in> set (known_order_attrs (w_terms W) r)"
    using sane_parts(1) [OF assms(1)] by (simp_all add: quiet_def)
  ultimately show ?thesis using assms(4) by (intro own_view_not_foreign)
qed

lemma replaced_quiet:
  assumes "sane m rem A r i W" "q \<in> w_shown W" "shows_view m A i o' q"
  shows "sane m rem A r i (W\<lparr>w_terms := judge_replaced_order tick [i \<mapsto> r] o' (w_terms W)\<rparr>)"
proof -
  let ?T = "w_terms W"
  have i: "o_orderId o' = i" using assms(3) by (cases q) (simp add: shows_view_def)
  have qt: "quiet m A r i W" by (rule sane_parts(1) [OF assms(1)])
  show ?thesis
  proof (cases "t_amends ?T i = None")
    case True
    then obtain a where "foreign_order_view tick (Some r) o' ?T = (None, ?T\<lparr>t_attrs_seen := a\<rparr>)"
      using quiet_view [OF assms(1) _ assms(2,3)] by blast
    then have "judge_replaced_order tick [i \<mapsto> r] o' ?T = ?T\<lparr>t_attrs_seen := a\<rparr>"
      using True i by (simp add: judge_replaced_order_def or_else_def)
    then show ?thesis using qt by (simp only:) (rule sane_quiet [OF assms(1)], auto simp: quiet_def)
  next
    case False
    then have "t_amends ?T i = Some 1" using sane_parts(2,3) [OF assms(1)] by simp
    then have 1: "judge_replaced_order tick [i \<mapsto> r] o' ?T = ?T\<lparr>t_held := AList.update i o' (t_held ?T)\<rparr>" if "i \<noteq> 0"
      using i that by (simp add: judge_replaced_order_def or_else_def)
    show ?thesis
    proof (cases "i = 0")
      case False
      show ?thesis unfolding 1 [OF False]
        by (rule sane_quiet [OF assms(1)]) (use qt assms(2,3) in \<open>auto simp: quiet_def dest!: update_held\<close>)
    next
      case True
      have "?T\<lparr>t_attrs_seen := t_attrs_seen ?T\<rparr> = ?T" by simp
      with True i have "judge_replaced_order tick [i \<mapsto> r] o' ?T = ?T"
        by (simp add: judge_replaced_order_def foreign_order_view_def)
      then show ?thesis using assms(1) by simp
    qed
  qed
qed

lemma held_quiet:
  assumes "sane m rem A r i W" "t_amends (w_terms W) i = None" "set hs \<subseteq> {(j, h). j = i \<and> (\<exists>q \<in> w_shown W. shows_view m A i h q)}"
  shows "sane m rem A r i (W\<lparr>w_terms := judge_held tick [i \<mapsto> r] hs (w_terms W)\<rparr>)"
  using assms
proof (induction hs arbitrary: W)
  case (Cons x hs)
  obtain h q where x: "x = (i, h)" "q \<in> w_shown W" "shows_view m A i h q" using Cons.prems(3) by auto
  let ?W = "W\<lparr>w_terms := (w_terms W)\<lparr>t_held := AList.delete i (t_held (w_terms W))\<rparr>\<rparr>"
  have "sane m rem A r i ?W"
    by (rule sane_quiet [OF Cons.prems(1)])
       (use sane_parts(1) [OF Cons.prems(1)] in \<open>auto simp: quiet_def AList.delete_eq\<close>)
  from replaced_quiet [OF this, of q h tick]
  have s: "sane m rem A r i (W\<lparr>w_terms := judge_replaced_order tick [i \<mapsto> r] h (w_terms ?W)\<rparr>)" using x by simp
  then have "t_amends (judge_replaced_order tick [i \<mapsto> r] h (w_terms ?W)) i = None"
    using Cons.prems(1,2) sane_parts(2) [OF s] sane_parts(2) [OF Cons.prems(1)] by simp
  with Cons.IH [OF s] Cons.prems(3) x(1) show ?case by (simp del: fun_upd_apply)
qed simp

lemma flush_quiet:
  assumes "sane m rem A r i W"
  shows "sane m rem A r i (W\<lparr>w_terms := judge_held_replaced_orders tick [i \<mapsto> r] (w_terms W)\<rparr>)"
proof -
  let ?T = "w_terms W" and ?hs = "filter (\<lambda>(j, h). or_else 0 (t_amends (w_terms W) j) = 0) (t_held (w_terms W))"
  have h: "set (t_held ?T) \<subseteq> {(j, h). j = i \<and> (\<exists>q \<in> w_shown W. shows_view m A i h q)}"
    using sane_parts(1) [OF assms] by (auto simp: quiet_def)
  show ?thesis
  proof (cases "t_amends ?T i = None")
    case True
    have "set ?hs \<subseteq> {(j, h). j = i \<and> (\<exists>q \<in> w_shown W. shows_view m A i h q)}" using h by auto
    from held_quiet [OF assms True this] show ?thesis unfolding judge_held_replaced_orders_def .
  next
    case False
    then have "t_amends ?T i = Some 1" using sane_parts(2,3) [OF assms] by simp
    then have "?hs = []" using h by (auto simp: filter_empty_conv or_else_def)
    then show ?thesis using assms by (simp add: judge_held_replaced_orders_def)
  qed
qed

lemma snapshot_quiet:
  assumes "sane m rem A r i W" "q \<in> w_shown W" "shows_view m A i o' q"
  shows "sane m rem A r i (W\<lparr>w_terms := observe_working_order tick created resume (Some r) o' started (w_terms W)\<rparr>)"
proof -
  let ?T = "w_terms W" and ?U = "observe_working_order tick created resume (Some r) o' started (w_terms W)"
  have i: "o_orderId o' = i" using assms(3) by (cases q) (simp add: shows_view_def)
  have qt: "quiet m A r i W" by (rule sane_parts(1) [OF assms(1)])
  have "like ?T ?U"
  proof (cases "t_amends ?T i = None \<and> \<not> (case t_settled_at ?T i of None \<Rightarrow> False | Some s \<Rightarrow> started < s)")
    case True
    then obtain a where v: "foreign_order_view tick (Some r) o' ?T = (None, ?T\<lparr>t_attrs_seen := a\<rparr>)"
      using quiet_view [OF assms(1) _ assms(2,3)] by blast
    show ?thesis
      using True i v
      by (auto simp: like_def observe_working_order_def Let_def or_else_def resume_baseline_due_def mark_resume_baseline_taken_def
          split: option.splits prod.splits)
  next
    case False
    then show ?thesis
      using i sane_parts(2,3) [OF assms(1)]
      by (cases "t_amends ?T i") (auto simp: like_def observe_working_order_def Let_def or_else_def)
  qed
  then show ?thesis by (rule sane_like [OF assms(1)])
qed

section \<open>Writes\<close>

lemma done_whole_simps [simp]: "done_of (l, s, v, e) = e" "whole_of (l, s, v, e) = v"
  by (simp_all add: done_of_def whole_of_def)

lemma explains_done: "explains m rem x (l, s, v, e) = explains m rem x (l, s, v, e')"
  by (simp add: explains_def split: option.split)

lemma fill_sane:
  assumes "sane m rem A r i W" "w_now W = (l, s, v, e)" "e \<le> e'"
  shows "sane m rem A r i (W\<lparr>w_now := (l, s, v, e'), w_shown := insert (l, s, v, e') (w_shown W)\<rparr>)" (is "sane m rem A r i ?W")
proof -
  have sh: "(l, s, v, e) \<in> w_shown W" using assms(1,2) by (simp add: sane_def)
  have q: "quiet m A r i ?W" using sane_parts(1) [OF assms(1)] by (fastforce simp: quiet_def)
  have t: "teaches m W L \<Longrightarrow> teaches m ?W L" for L
    using assms(2) by (auto simp: teaches_def split: option.splits)
  have c: "covered m rem ?W L" if "covered m rem W L" for L
    unfolding covered_def
  proof
    fix q assume "q \<in> w_shown ?W"
    then consider "q \<in> w_shown W" | "q = (l, s, v, e')" by auto
    then show "(\<exists>x \<in> set L. explains m rem x q) \<or> (\<exists>wrote before q'. rem \<and> w_amend ?W = Some (wrote, before, Some q')
        \<and> fst q = fst q' \<and> fst (snd q) = fst (snd q') \<and> whole_of q = whole_of q')"
      using that sh explains_done [of m rem _ l s v e' e] by cases (auto simp: covered_def)
  qed
  have le: "\<forall>q \<in> w_shown W. done_of q \<le> e" using assms(1,2) by (simp add: sane_def)
  show ?thesis
  proof (cases "w_amend W")
    case None
    then show ?thesis using assms q t c le by (auto simp: sane_def)
  next
    case (Some x)
    obtain wrote before p where x: "x = (wrote, before, p)" by (cases x)
    show ?thesis
    proof (cases p)
      case None
      then show ?thesis using assms q t c le Some x by (auto simp: sane_def)
    next
      case (Some p')
      obtain l' s' v' d where p': "p' = (l', s', v', d)" by (cases p')
      then show ?thesis using assms q c le \<open>w_amend W = Some x\<close> x Some by (auto simp: sane_def)
    qed
  qed
qed

lemma filter_distinct_triple: "distinct (map triple L) \<Longrightarrow> distinct (map triple (filter P L))"
  by (rule distinct_map_filter)

lemma amend_sane:
  assumes "sane m rem A r i W" "w_amend W = None" "rem \<Longrightarrow> \<forall>e \<in> set (terms_of (w_terms W) r). \<not> same_terms wrote e"
  shows "sane m rem A r i (W\<lparr>w_terms := begin_own_amend i (remember_own_order_terms (Some r) wrote (w_terms W)),
      w_amend := Some (wrote, own_order_terms (Some r) (w_terms W), None)\<rparr>)" (is "sane m rem A r i ?W")
proof -
  let ?L = "terms_of (w_terms W) r"
  have am: "t_amends (w_terms W) i = None" using sane_parts(2) [OF assms(1)] assms(2) by simp
  have L: "terms_of (w_terms ?W) r = filter (\<lambda>e. \<not> same_terms wrote e) ?L @ [sent_entry wrote]"
    "t_amends (w_terms ?W) i = Some 1"
    using am by (simp_all add: begin_own_amend_def remember_own_order_terms_def terms_of_def or_else_def Let_def)
  have q: "quiet m A r i ?W" using sane_parts(1) [OF assms(1)]
    by (simp add: quiet_def begin_own_amend_def remember_own_order_terms_def known_order_attrs_def Let_def)
  have d: "distinct (map triple ?L)" using assms(1) by (simp add: sane_def)
  have s: "triple (sent_entry wrote) = wrote" by (simp add: triple_def sent_entry_def split: prod.split)
  have d': "distinct (map triple (terms_of (w_terms ?W) r))"
    unfolding L using filter_distinct_triple [OF d] s by (auto simp: same_terms_triple)
  have cW: "covered m rem W ?L" using assms(1) by (simp add: sane_def)
  have c: "covered m rem ?W ?L" using cW assms(2) by (auto simp: covered_def)
  have c': "covered m rem ?W (terms_of (w_terms ?W) r)" unfolding covered_def L
  proof
    fix q assume "q \<in> w_shown ?W"
    then obtain e where e: "e \<in> set ?L" "explains m rem e q" using c assms(2) by (auto simp: covered_def)
    have "\<exists>x \<in> set (filter (\<lambda>e. \<not> same_terms wrote e) ?L @ [sent_entry wrote]). explains m rem x q"
    proof (cases "same_terms wrote e")
      case False
      then show ?thesis using e by auto
    next
      case True
      then have "\<not> rem" using assms(3) e(1) by blast
      then have "explains m rem (sent_entry wrote) q"
        using e(2) True by (auto simp: explains_def same_terms_def sent_entry_def split: prod.splits)
      then show ?thesis by simp
    qed
    then show "(\<exists>x \<in> set (filter (\<lambda>e. \<not> same_terms wrote e) ?L @ [sent_entry wrote]). explains m rem x q)
      \<or> (\<exists>wrote before q'. rem \<and> w_amend ?W = Some (wrote, before, Some q') \<and> fst q = fst q' \<and> fst (snd q) = fst (snd q')
          \<and> whole_of q = whole_of q')" ..
  qed
  have t: "teaches m ?W ?L" using assms(1,2) by (auto simp: sane_def teaches_def split: option.splits)
  have o: "own_order_terms (Some r) (w_terms W) = ?L" by (simp add: own_order_terms_def)
  show ?thesis unfolding sane_def using q d' c c' t L assms o d
    by (auto simp: sane_def)
qed

text \<open>The cases of an amend in flight.\<close>

lemma sane_amend:
  assumes "sane m rem A r i W" "w_amend W = Some (wrote, before, p)"
  shows "terms_of (w_terms W) r = filter (\<lambda>e. \<not> same_terms wrote e) before @ [sent_entry wrote]" "distinct (map triple before)"
    "rem \<Longrightarrow> \<forall>e \<in> set before. \<not> same_terms wrote e" "t_amends (w_terms W) i = Some 1"
    "p = None \<Longrightarrow> teaches m W before \<and> covered m rem W before"
    "p = Some (l, s, v, e) \<Longrightarrow> (l, s, v, e) \<in> w_shown W \<and> leaves rem wrote e (l, s, v, e)
       \<and> (\<exists>e'. w_now W = (l, s, v, e')) \<and> (\<forall>p \<in> w_shown W. e < done_of p \<longrightarrow> whole_of p = v)"
    "covered m rem W (terms_of (w_terms W) r)" "w_now W \<in> w_shown W" "\<forall>q \<in> w_shown W. done_of q \<le> done_of (w_now W)"
    "distinct (map triple (terms_of (w_terms W) r))" "quiet m A r i W"
  using assms by (auto simp only: sane_def option.case prod.case)

lemma applied_sane:
  assumes "sane m rem A r i W" "w_amend W = Some (wrote, before, None)" "leaves rem wrote (done_of (w_now W)) q"
  shows "sane m rem A r i (W\<lparr>w_now := q, w_shown := insert q (w_shown W), w_amend := Some (wrote, before, Some q)\<rparr>)"
    (is "sane m rem A r i ?W")
proof -
  note p = sane_amend [OF assms(1,2)]
  obtain l s v e where q: "q = (l, s, v, e)" by (cases q)
  have e: "e = done_of (w_now W)" "leaves rem wrote e (l, s, v, e)" using assms(3) q by (auto simp: leaves_def)
  have qt: "quiet m A r i ?W" using p(11) by (fastforce simp: quiet_def)
  have ex: "\<not> rem \<Longrightarrow> explains m rem (sent_entry wrote) q"
    using e(2) q by (auto simp: explains_def leaves_def sent_entry_def split: prod.splits)
  have c: "covered m rem ?W (terms_of (w_terms W) r)" unfolding covered_def
  proof
    fix x assume "x \<in> w_shown ?W"
    then consider "x \<in> w_shown W" | "x = q" by auto
    then show "(\<exists>e \<in> set (terms_of (w_terms W) r). explains m rem e x) \<or> (\<exists>wrote before q'. rem
        \<and> w_amend ?W = Some (wrote, before, Some q') \<and> fst x = fst q' \<and> fst (snd x) = fst (snd q') \<and> whole_of x = whole_of q')"
    proof cases
      case 1
      then show ?thesis using p(7) assms(2) by (auto simp: covered_def)
    next
      case 2
      show ?thesis
      proof (cases rem)
        case True
        then have "rem \<and> w_amend ?W = Some (wrote, before, Some q) \<and> fst x = fst q \<and> fst (snd x) = fst (snd q) \<and> whole_of x = whole_of q"
          using 2 by simp
        then show ?thesis by blast
      next
        case False
        then show ?thesis using ex p(1) 2 by auto
      qed
    qed
  qed
  have lt: "\<not> e < done_of x" if "x \<in> w_shown W" for x using p(9) that e(1) by (simp add: not_less)
  show ?thesis using qt c p q e lt by (auto simp: sane_def)
qed

lemma end_amend_terms:
  "terms_of (end_own_amend True (Some r) i None w clock T) r = terms_of T r"
  "t_amends T i = Some 1 \<Longrightarrow> t_amends (end_own_amend True (Some r) i None w clock T) i = None"
  by (simp_all add: end_own_amend_def terms_of_def Let_def or_else_def)

lemma end_amend_quiet:
  "quiet m A r i (W\<lparr>w_terms := T\<rparr>) \<Longrightarrow> quiet m A r i (W\<lparr>w_terms := end_own_amend True (Some r) i None w clock T\<rparr>)"
  by (simp add: quiet_def end_own_amend_def known_order_attrs_def Let_def)

lemma reinsert_none: "(\<And>e. e \<in> set before \<Longrightarrow> \<not> same e) \<Longrightarrow> reinsert i same before L = L"
  by (induction before arbitrary: i) auto

text \<open>Withdrawing a refused write puts the terms back as they were.\<close>

lemma withdraw_restores:
  assumes "distinct (map triple before)"
  shows "reinsert 0 (same_terms wrote) before (filter (\<lambda>e. \<not> same_terms wrote e) before) = before"
proof -
  have "reinsert (length pre) (same_terms wrote) L (pre @ filter (\<lambda>e. \<not> same_terms wrote e) L) = pre @ L"
    if "distinct (map triple L)" for pre L
    using that
  proof (induction L arbitrary: pre)
    case (Cons e L)
    show ?case
    proof (cases "same_terms wrote e")
      case True
      then have "filter (\<lambda>e. \<not> same_terms wrote e) L = L"
        using Cons.prems by (auto simp: same_terms_triple filter_id_conv image_iff)
      then show ?thesis using True by simp
    next
      case False
      then show ?thesis using Cons.IH [of "pre @ [e]"] Cons.prems by simp
    qed
  qed simp
  from this [OF assms, of "[]"] show ?thesis by simp
qed

lemma refused_sane:
  assumes "sane m rem A r i W" "w_amend W = Some (wrote, before, None)"
  shows "sane m rem A r i (W\<lparr>w_terms := end_own_amend True (Some r) i None None clock
      (withdraw_own_order_terms (Some r) wrote before (w_terms W)), w_amend := None\<rparr>)" (is "sane m rem A r i ?W")
proof -
  note p = sane_amend [OF assms]
  let ?T = "withdraw_own_order_terms (Some r) wrote before (w_terms W)"
  have f: "filter (\<lambda>e. \<not> same_terms wrote e) (terms_of (w_terms W) r) = filter (\<lambda>e. \<not> same_terms wrote e) before"
    using p(1) by (simp add: same_terms_triple triple_def sent_entry_def split: prod.splits)
  have L: "terms_of ?T r = before"
    using f withdraw_restores [OF p(2), of wrote] by (simp add: withdraw_own_order_terms_def terms_of_def or_else_def)
  have "t_amends ?T = t_amends (w_terms W)" by (simp add: withdraw_own_order_terms_def)
  then have am: "t_amends (w_terms ?W) i = None" "terms_of (w_terms ?W) r = before"
    using p(4) L end_amend_terms [where T = ?T and r = r and i = i and w = None and clock = clock] by simp_all
  have "quiet m A r i (W\<lparr>w_terms := ?T\<rparr>)"
    using p(11) by (simp add: quiet_def withdraw_own_order_terms_def known_order_attrs_def)
  then have q: "quiet m A r i ?W" using end_amend_quiet [where W = W and T = ?T and m = m and A = A and r = r and i = i] by (simp add: quiet_def)
  have c: "covered m rem ?W before" using p(5) assms(2) by (auto simp: covered_def)
  have t: "teaches m ?W before" using p(5) by (auto simp: teaches_def split: option.splits)
  show ?thesis using q am c t p(2,8,9) by (simp add: sane_def)
qed

lemma lost_sane:
  assumes "sane m rem A r i W" "w_amend W = Some (wrote, before, p)" "\<not> rem"
  shows "sane m rem A r i (W\<lparr>w_terms := end_own_amend True (Some r) i None None clock (w_terms W), w_amend := None\<rparr>)"
    (is "sane m rem A r i ?W")
proof -
  note s = sane_amend [OF assms(1,2)]
  have am: "t_amends (w_terms ?W) i = None" "terms_of (w_terms ?W) r = terms_of (w_terms W) r"
    using s(4) end_amend_terms [where T = "w_terms W" and r = r and i = i and w = None and clock = clock] by simp_all
  have "quiet m A r i (W\<lparr>w_terms := w_terms W\<rparr>)" using s(11) by simp
  then have q: "quiet m A r i ?W" using end_amend_quiet [where W = W and T = "w_terms W" and m = m and A = A and r = r and i = i] by (simp add: quiet_def)
  have c: "covered m rem ?W (terms_of (w_terms W) r)" using s(7) assms(3) by (auto simp: covered_def)
  have t: "teaches m ?W (terms_of (w_terms W) r)"
    unfolding s(1) by (simp add: teaches_def sent_entry_def split: prod.splits)
  show ?thesis using q am c t s(8-10) by (simp add: sane_def)
qed

lemma answer_first_last:
  "(\<And>e. e \<in> set L \<Longrightarrow> \<not> same e) \<Longrightarrow> same x \<Longrightarrow> answer_first same shown (L @ [x]) = L @ [x\<lparr>te_answer := Some shown\<rparr>]"
  by (induction L) auto

text \<open>An answer of known attributes is kept on the write's entry, and nothing else of the terms changes.\<close>

lemma answered_terms:
  fixes clock :: rat
  assumes "terms_of T r = L @ [sent_entry wrote]" "\<And>e. e \<in> set L \<Longrightarrow> \<not> same_terms wrote e" "o_orderId o' = i"
    "order_attrs o' \<in> set (known_order_attrs T r)" "t_amends T i = Some 1"
  defines "U \<equiv> end_own_amend True (Some r) i (Some o') (Some wrote) clock T"
  shows "terms_of U r = L @ [(sent_entry wrote)\<lparr>te_answer := Some (td_volume (o_tradeData o'), o_executedVolume o')\<rparr>]"
    and "t_amends U i = None" and "known_order_attrs U r = known_order_attrs T r" and "t_reports U = t_reports T"
    and "t_accepted U = t_accepted T" and "t_unexplained U = t_unexplained T" and "t_reported U = t_reported T"
    and "t_semantics U = t_semantics T" and "t_held U = t_held T"
proof -
  have s: "same_terms wrote (sent_entry wrote)" by (simp add: same_terms_def sent_entry_def split: prod.split)
  have a: "answer_first (same_terms wrote) (td_volume (o_tradeData o'), o_executedVolume o') (L @ [sent_entry wrote])
      = L @ [(sent_entry wrote)\<lparr>te_answer := Some (td_volume (o_tradeData o'), o_executedVolume o')\<rparr>]"
    using assms(2) s by (rule answer_first_last)
  define T2 where "T2 = T\<lparr>t_amends := (t_amends T)(i := None), t_before_amend := (t_before_amend T)(i := None),
      t_settled_at := (t_settled_at T)(i \<mapsto> clock), t_watch := (t_watch T)(i := None),
      t_attrs_seen := (t_attrs_seen T)(i \<mapsto> order_attrs o')\<rparr>"
  have L2: "terms_of T2 r = L @ [sent_entry wrote]" using assms(1) by (simp add: T2_def terms_of_def)
  define T3 where "T3 = remember_own_order_answer (Some r) wrote o' T2"
  have t3: "T3 = T2\<lparr>t_terms := (t_terms T2)(r_coid r \<mapsto> L @ [(sent_entry wrote)\<lparr>te_answer :=
      Some (td_volume (o_tradeData o'), o_executedVolume o')\<rparr>])\<rparr>"
    using s a L2 by (simp add: T3_def remember_own_order_answer_def)
  have k: "known_order_attrs T3 r = known_order_attrs T r" by (simp add: t3 T2_def known_order_attrs_def)
  have "U = T3"
    using assms(3-5) k by (simp add: U_def end_own_amend_def Let_def or_else_def T3_def T2_def)
  then show "terms_of U r = L @ [(sent_entry wrote)\<lparr>te_answer := Some (td_volume (o_tradeData o'), o_executedVolume o')\<rparr>]"
    and "t_amends U i = None" and "known_order_attrs U r = known_order_attrs T r" and "t_reports U = t_reports T"
    and "t_accepted U = t_accepted T" and "t_unexplained U = t_unexplained T" and "t_reported U = t_reported T"
    and "t_semantics U = t_semantics T" and "t_held U = t_held T"
    using k by (simp_all add: t3 T2_def terms_of_def or_else_def)
qed

lemma answered_sane:
  assumes "sane m rem A r i W" "w_amend W = Some (wrote, before, Some q)" "shows_view m A i o' q"
  shows "sane m rem A r i (W\<lparr>w_terms := end_own_amend True (Some r) i (Some o') (Some wrote) clock (w_terms W), w_amend := None\<rparr>)"
    (is "sane m rem A r i ?W")
proof -
  note p = sane_amend [OF assms(1,2)]
  obtain l s v e where q: "q = (l, s, v, e)" by (cases q)
  note p6 = p(6) [of l s v e, unfolded q, OF refl]
  let ?B = "filter (\<lambda>e. \<not> same_terms wrote e) before"
  have o: "o_orderId o' = i" "order_attrs o' = A" "td_volume (o_tradeData o') = shown_volume m v e" "o_executedVolume o' = e"
    using assms(3) q by (simp_all add: shows_view_def)
  have A: "order_attrs o' \<in> set (known_order_attrs (w_terms W) r)" using p(11) o by (simp add: quiet_def)
  have B: "\<And>e. e \<in> set ?B \<Longrightarrow> \<not> same_terms wrote e" by simp
  note t = answered_terms [OF p(1) B o(1) A p(4), where clock = clock, unfolded o(3,4)]
  let ?new = "(sent_entry wrote)\<lparr>te_answer := Some (shown_volume m v e, e)\<rparr>"
  have tr: "triple ?new = triple (sent_entry wrote)" by (simp add: triple_def)
  have qt: "quiet m A r i ?W" using p(11) t by (simp add: quiet_def)
  have d: "distinct (map triple (terms_of (w_terms ?W) r))" using p(10) t(1) unfolding p(1) by (simp add: tr)
  have lv: "(view_price l, view_price s) = (fst wrote, fst (snd wrote))" "v = snd (snd wrote) + (if rem then e else 0)"
    using p6 q by (simp_all add: leaves_def)
  have new: "explains m rem ?new (l, s, v, x)" for x
    using lv by (cases wrote) (auto simp: explains_def sent_entry_def)
  have c: "covered m rem ?W (terms_of (w_terms ?W) r)" unfolding covered_def
  proof
    fix x assume "x \<in> w_shown ?W"
    then have "(\<exists>y \<in> set (?B @ [sent_entry wrote]). explains m rem y x) \<or> (fst x = l \<and> fst (snd x) = s \<and> whole_of x = v)"
      using p(7) assms(2) q unfolding p(1) by (auto simp: covered_def)
    then have "\<exists>y \<in> set (?B @ [?new]). explains m rem y x"
    proof
      assume "\<exists>y \<in> set (?B @ [sent_entry wrote]). explains m rem y x"
      then obtain y where y: "y \<in> set (?B @ [sent_entry wrote])" "explains m rem y x" by blast
      show ?thesis
      proof (cases "y = sent_entry wrote")
        case True
        then have "fst x = fst x \<and> \<not> rem \<and> whole_of x = snd (snd wrote) \<and> view_price (fst x) = fst wrote \<and> view_price (fst (snd x)) = fst (snd wrote)"
          using y(2) by (cases wrote) (auto simp: explains_def sent_entry_def)
        then have "explains m rem ?new x" using lv by (cases wrote) (auto simp: explains_def sent_entry_def)
        then show ?thesis by simp
      qed (use y in auto)
    next
      assume "fst x = l \<and> fst (snd x) = s \<and> whole_of x = v"
      then have "explains m rem ?new x" using new by (cases x) auto
      then show ?thesis by simp
    qed
    then show "(\<exists>y \<in> set (terms_of (w_terms ?W) r). explains m rem y x) \<or> (\<exists>wrote before q'. rem
        \<and> w_amend ?W = Some (wrote, before, Some q') \<and> fst x = fst q' \<and> fst (snd x) = fst (snd q') \<and> whole_of x = whole_of q')"
      using t(1) by simp
  qed
  have w: "whole_of (w_now W) = v" using p6 q by auto
  have te: "teaches m ?W (terms_of (w_terms ?W) r)"
    unfolding teaches_def using t(1) p6 w q by simp
  show ?thesis using qt d c te t(2) p(8,9) by (simp add: sane_def)
qed

lemma placed_sane:
  assumes "placed m rem A r i W"
  shows "sane m rem A r i W"
proof -
  obtain e q where p: "terms_of (w_terms W) r = [e]" "w_now W = q" "w_shown W = {q}" "w_amend W = None"
    "leaves rem (te_limit e, te_stop e, te_volume e) (done_of q) q"
    "te_answer e = Some (shown_volume m (whole_of q) (done_of q), done_of q)"
    using assms unfolding placed_def by blast
  have "explains m rem e q" using p(5,6) by (cases q) (auto simp: explains_def leaves_def)
  then have "covered m rem W [e]" using p(3) by (auto simp: covered_def)
  moreover have "teaches m W [e]" using p(2,3,6) by (simp add: teaches_def)
  moreover have "quiet m A r i W" "t_amends (w_terms W) i = None" using assms by (simp_all add: placed_def quiet_def)
  ultimately show ?thesis using p(1-4) by (simp add: sane_def)
qed

lemma life_sane: "life m rem A tick r i W \<Longrightarrow> sane m rem A r i W"
proof (induction rule: life.induct)
  case (life_amend W wrote req)
  then show ?case by (intro amend_sane) auto
qed (auto intro: placed_sane fill_sane learn_quiet replaced_quiet flush_quiet snapshot_quiet applied_sane answered_sane
     refused_sane lost_sane simp del: fun_upd_apply)


text \<open>A limit order of 100 at price 1 on a venue that shows what is left; 40 of it execute.\<close>

definition pending_row :: row where
  "pending_row = \<lparr>r_coid = ''r1-long-0'', r_symbol = ''EURUSD'', r_side = Buy, r_state = ''confirmed'', r_qty = 1, r_filled = 0,
     r_intent_key = None, r_pine_id = Some ''long'', r_exchange_id = None, r_extras = Map.empty, r_closed = False,
     r_from_entry = None, r_created_ms = 0\<rparr>"

definition pending_order :: "int \<Rightarrow> int \<Rightarrow> order" where
  "pending_order left_volume executed_volume = \<lparr>o_orderId = 5, o_tradeData = \<lparr>td_symbolId = 1, td_volume = left_volume, td_tradeSide = BUY,
     td_openTimestamp = 0, td_label = []\<rparr>, o_orderType = LIMIT, o_orderStatus = ORDER_STATUS_ACCEPTED, o_executionPrice = 0,
     o_executedVolume = executed_volume, o_utcLastUpdateTimestamp = 0, o_closingOrder = False, o_limitPrice = 1, o_stopPrice = 0,
     o_clientOrderId = [], o_positionId = 0, o_isStopOut = False, o_stopLoss = None, o_takeProfit = None, o_relativeStopLoss = None,
     o_relativeTakeProfit = None, o_expirationTimestamp = None, o_timeInForce = None\<rparr>"

definition pending_world :: world where
  "pending_world = \<lparr>w_terms = no_terms\<lparr>t_terms := [''r1-long-0'' \<mapsto> [\<lparr>te_limit = Some 1, te_stop = None, te_volume = 100,
       te_answer = Some (100, 0)\<rparr>]]\<rparr>,
     w_shown = {(1, 0, 100, 0)}, w_now = (1, 0, 100, 0), w_amend = None\<rparr>"


end
