(* ===== verification/Events.thy ===== *)
theory Events
  imports Closes Execution Account_State
begin

text \<open>
  The order-event stream (\<open>events.py\<close>): the translation of one pushed execution event into an event of the
  engine, with the identity it resolves to, the judgement of a closing fill and the writes to the journal; and
  the loop that delivers events around the reconcile passes. What a call into the level guard does is not
  modelled; the calls are kept in their order.
\<close>

section \<open>Orders as the engine sees them\<close>

definition symbol_label :: "ledger \<Rightarrow> int \<Rightarrow> string" where
  "symbol_label L i = (case g_names L i of Some n \<Rightarrow> n | None \<Rightarrow> py_str i)"

definition coid_for_order :: "floor \<Rightarrow> ledger \<Rightarrow> order \<Rightarrow> string option" where
  "coid_for_order X L o' = map_option r_coid (row_of_order X L (o_orderId o'))"

definition order_from_proto :: "floor \<Rightarrow> ledger \<Rightarrow> order \<Rightarrow> exchange_order" where
  "order_from_proto X L o' =
     (let qty = volume_to_units (td_volume (o_tradeData o')); filled = volume_to_units (o_executedVolume o')
      in \<lparr>xo_id = py_str (o_orderId o'), xo_symbol = symbol_label L (td_symbolId (o_tradeData o')),
          xo_side = side_of (td_tradeSide (o_tradeData o')), xo_type = or_else Market (plain_type (o_orderType o')),
          xo_qty = qty, xo_filled = filled, xo_remaining = max 0 (fsub qty filled),
          xo_price = or_none (o_limitPrice o'), xo_stop = or_none (o_stopPrice o'),
          xo_average = or_none (o_executionPrice o'), xo_status = plain_status (o_orderStatus o'),
          xo_reduce_only = o_closingOrder o',
          xo_client_id = (if o_clientOrderId o' \<noteq> [] then Some (o_clientOrderId o') else coid_for_order X L o')\<rparr>)"

definition event_kind_of :: "exec_type \<Rightarrow> event_kind option" where
  "event_kind_of t = (case t of ORDER_ACCEPTED \<Rightarrow> Some Ev_created | ORDER_FILLED \<Rightarrow> Some Ev_filled
     | ORDER_PARTIAL_FILL \<Rightarrow> Some Ev_partial | ORDER_CANCELLED \<Rightarrow> Some Ev_cancelled | ORDER_REJECTED \<Rightarrow> Some Ev_rejected
     | ORDER_EXPIRED \<Rightarrow> Some Ev_cancelled | _ \<Rightarrow> None)"

definition is_fill_kind :: "event_kind \<Rightarrow> bool" where
  "is_fill_kind k \<longleftrightarrow> k = Ev_filled \<or> k = Ev_partial"

section \<open>Whose fill it is\<close>

definition is_closing_fill :: "order \<Rightarrow> deal option \<Rightarrow> bool" where
  "is_closing_fill o' d \<longleftrightarrow>
     o_closingOrder o' \<or> (case d of None \<Rightarrow> False | Some d \<Rightarrow> (case d_closedVolume d of None \<Rightarrow> False | Some v \<Rightarrow> 0 < v))"

definition own_live_entry_coid :: "floor \<Rightarrow> ledger \<Rightarrow> order \<Rightarrow> bool" where
  "own_live_entry_coid X L o' \<longleftrightarrow>
     journaled X \<and> o_clientOrderId o' \<noteq> [] \<and> \<not> o_closingOrder o'
     \<and> (case get_row X (row_writes L) (o_clientOrderId o') of
          None \<Rightarrow> False | Some r \<Rightarrow> r_pine_id r \<noteq> None \<and> \<not> r_closed r)"

definition bracket_owner :: "floor \<Rightarrow> int \<Rightarrow> row \<Rightarrow> bool" where
  "bracket_owner X p r \<longleftrightarrow>
     py_truth (map_option PyStr (r_from_entry r))
     \<and> (case extra r (leg_mark X) of None \<Rightarrow> False | Some v \<Rightarrow> parse_protocol_id v ''bracket_own_leg_id'' = Inr p)"

definition entry_holds :: "floor \<Rightarrow> int \<Rightarrow> row \<Rightarrow> bool" where
  "entry_holds X p r \<longleftrightarrow>
     r_state r \<in> set (entry_states X) \<and> py_truth (map_option PyStr (r_pine_id r))
     \<and> (case extra r ''position_id'' of None \<Rightarrow> False | Some v \<Rightarrow> parse_protocol_id v ''position_id'' = Inr p)"

definition run_owned_position_entry :: "floor \<Rightarrow> ledger \<Rightarrow> int \<Rightarrow> string option" where
  "run_owned_position_entry X L p =
     (if \<not> journaled X then None
      else case find (bracket_owner X p) (bracket_rows X (row_writes L)) of
             Some r \<Rightarrow> r_from_entry r
           | None \<Rightarrow> (case find (entry_holds X p) (live_rows X (row_writes L)) of
                        Some r \<Rightarrow> r_pine_id r | None \<Rightarrow> None))"

type_synonym identity = "string option \<times> string option \<times> leg_type option"

definition resolve_identity :: "floor \<Rightarrow> order \<Rightarrow> deal option \<Rightarrow> identity act" where
  "resolve_identity X o' d =
     (if \<not> journaled X then ret (None, None, None)
      else seq (asks (\<lambda>L. (row_of_order X L (o_orderId o'), own_live_entry_coid X L o', g_close_pine L (o_positionId o'))))
             (\<lambda>(row, parked, dispatched).
        case row of
          Some r \<Rightarrow> ret (if o_closingOrder o' then (None, r_pine_id r, Some Leg_close) else (r_pine_id r, None, Some Leg_entry))
        | None \<Rightarrow>
            (let closing = is_closing_fill o' d in
             if parked then ret (None, None, None)
             else case (if closing then dispatched else None) of
               Some entry \<Rightarrow> ret (None, entry, Some Leg_close)
             | None \<Rightarrow>
                 seq (if closing then own_close_of_order X (o_orderId o') (o_positionId o') else ret None) (\<lambda>record.
                 seq (asks (\<lambda>L. (map_option (\<lambda>k. oc_from_entry (g_closes L k)) record, run_owned_position_entry X L (o_positionId o'))))
                   (\<lambda>(sent_for, owner).
                 case sent_for of
                   Some entry \<Rightarrow> ret (None, entry, Some Leg_close)
                 | None \<Rightarrow>
                     (if closing \<and> o_positionId o' \<noteq> 0 \<and> owner \<noteq> None
                      then seq (post X (Noted ''venue_close_attributed_to_entry'' (o_positionId o'))) (\<lambda>_.
                           ret (None, owner, Some Leg_close))
                      else ret (None, None, None)))))))"

section \<open>The journal of a fill\<close>

text \<open>\<open>_link_position_ref\<close> on the ledger.\<close>

definition link_ref :: "floor \<Rightarrow> string \<Rightarrow> int \<Rightarrow> unit act" where
  "link_ref X coid p =
     (if \<not> journaled X \<or> p = 0 then ret ()
      else seq (asks (\<lambda>L. (ref_row X (row_writes L) ''position_id'' (py_str p), p \<in> set (g_shared L)))) (\<lambda>(existing, logged).
        case existing of
          None \<Rightarrow> post X (Row_op (Add_ref coid ''position_id'' (py_str p)))
        | Some r \<Rightarrow>
            (if r_coid r = coid \<or> logged then ret ()
             else seq (modify (\<lambda>L. L\<lparr>g_shared := p # g_shared L\<rparr>)) (\<lambda>_.
                  post X (Row_op (Audit ''ctrader_position_id_shared'' (Some coid)))))))"

definition recover_parked_entry_by_coid :: "floor \<Rightarrow> order \<Rightarrow> string option act" where
  "recover_parked_entry_by_coid X o' =
     (if \<not> journaled X \<or> o_clientOrderId o' = [] \<or> o_closingOrder o' then ret None
      else seq (asks (\<lambda>L. (get_row X (row_writes L) (o_clientOrderId o'), wall_ms L))) (\<lambda>(row, now_ms).
        case row of
          None \<Rightarrow> ret None
        | Some r \<Rightarrow>
            (if r_pine_id r = None \<or> r_closed r then ret None
             else
               (let at_ms = (if o_utcLastUpdateTimestamp o' \<noteq> 0 then o_utcLastUpdateTimestamp o' else now_ms);
                    venue_id = (if o_positionId o' \<noteq> 0 then o_positionId o' else o_orderId o')
                in seq (post X (Row_op (Confirm_parked (r_coid r) (volume_to_units (o_executedVolume o')) (py_str venue_id)
                          (entry_extras o' at_ms (r_extras r))))) (\<lambda>_.
                   seq (post X (Row_op (Add_ref (r_coid r) ''order_id'' (py_str (o_orderId o'))))) (\<lambda>_.
                   seq (link_ref X (r_coid r) (o_positionId o')) (\<lambda>_.
                   seq (post X (Row_op (Unpark (r_coid r)))) (\<lambda>_.
                   seq (post X (Row_op (Audit ''recovered_parked_entry_by_coid'' (Some (r_coid r))))) (\<lambda>_.
                   ret (r_pine_id r))))))))))"

definition entry_fill_cursor :: "floor \<Rightarrow> ledger \<Rightarrow> order \<Rightarrow> rat option" where
  "entry_fill_cursor X L o' = map_option r_filled (row_of_order X L (o_orderId o'))"

definition advance_fill_cursor :: "floor \<Rightarrow> order \<Rightarrow> unit act" where
  "advance_fill_cursor X o' =
     seq (asks (\<lambda>L. row_of_order X L (o_orderId o'))) (\<lambda>row.
     case row of
       None \<Rightarrow> ret ()
     | Some r \<Rightarrow>
         (let cumulative = min (r_qty r) (max (r_filled r) (volume_to_units (o_executedVolume o')))
          in if fadd (r_filled r) NANO < cumulative then post X (Row_op (Set_filled (r_coid r) cumulative)) else ret ()))"

definition link_position :: "floor \<Rightarrow> order \<Rightarrow> string option \<Rightarrow> unit act" where
  "link_position X o' coid =
     (if \<not> journaled X \<or> o_positionId o' = 0 then ret ()
      else seq (asks (\<lambda>L. (if py_truth (map_option PyStr coid) then coid else coid_for_order X L o'))) (\<lambda>target.
        case target of
          None \<Rightarrow> ret ()
        | Some c \<Rightarrow>
            seq (asks (\<lambda>L. get_row X (row_writes L) c)) (\<lambda>row.
            case row of
              None \<Rightarrow> ret ()
            | Some r \<Rightarrow>
                seq (post X (Row_op (Set_extras c ((r_extras r)(''position_id'' \<mapsto> PyInt (o_positionId o')))))) (\<lambda>_.
                link_ref X c (o_positionId o')))))"

definition position_is_flat :: "exec_event \<Rightarrow> bool" where
  "position_is_flat x \<longleftrightarrow>
     (case x_position x of
        None \<Rightarrow> True
      | Some p \<Rightarrow> p_positionStatus p = POSITION_STATUS_CLOSED \<or> td_volume (p_tradeData p) = 0)"

fun rows_of_position :: "int \<Rightarrow> row list \<Rightarrow> exn + string list" where
  "rows_of_position p [] = Inr []"
| "rows_of_position p (r # rs) =
     (case matches_position p r of
        Inl e \<Rightarrow> Inl e
      | Inr hit \<Rightarrow> map_sum id (\<lambda>l. if hit then r_coid r # l else l) (rows_of_position p rs))"

fun close_rows :: "floor \<Rightarrow> string list \<Rightarrow> unit act" where
  "close_rows X [] = ret ()"
| "close_rows X (c # cs) = seq (post X (Row_op (Close_row c))) (\<lambda>_. close_rows X cs)"

definition mark_position_closed :: "floor \<Rightarrow> int \<Rightarrow> unit act" where
  "mark_position_closed X p =
     (if \<not> journaled X \<or> p = 0 then ret ()
      else seq (vacate_position p) (\<lambda>_.
           seq (asks (\<lambda>L. (live_rows X (row_writes L), ref_row X (row_writes L) ''position_id'' (py_str p)))) (\<lambda>(rows, alias).
           seq (try_exn (rows_of_position p rows)) (\<lambda>targets.
           close_rows X (if targets \<noteq> [] then targets else case alias of None \<Rightarrow> [] | Some r \<Rightarrow> [r_coid r])))))"

text \<open>\<open>_retire_cancelled_working_order\<close> on the ledger; the reason only goes into the audit.\<close>

definition retire_working_order :: "floor \<Rightarrow> int \<Rightarrow> unit act" where
  "retire_working_order X order_id =
     seq (asks (\<lambda>L. row_of_order X L order_id)) (\<lambda>row.
     case row of
       None \<Rightarrow> ret ()
     | Some r \<Rightarrow>
         (if NANO < r_filled r then ret ()
          else seq (post X (Row_op (Close_row (r_coid r)))) (\<lambda>_. post X (Row_op (Audit ''cancelled'' (Some (r_coid r)))))))"

section \<open>A closing fill\<close>

definition guard :: "guard_call \<Rightarrow> unit act" where
  "guard c = modify (\<lambda>L. L\<lparr>g_calls := g_calls L @ [c]\<rparr>)"

definition executed_ms_of :: "exec_event \<Rightarrow> int option" where
  "executed_ms_of x = (case x_deal x of None \<Rightarrow> None | Some d \<Rightarrow> if d_executionTimestamp d = 0 then None else Some (d_executionTimestamp d))"

text \<open>The close's own fill is counted on its record.\<close>

definition count_own_fill :: "nat \<Rightarrow> int option \<Rightarrow> rat \<Rightarrow> bool \<Rightarrow> unit act" where
  "count_own_fill k deal_id qty terminal = modify (\<lambda>L.
     let c = count_executed deal_id qty (g_closes L k)
     in L\<lparr>g_closes := (g_closes L)(k := c\<lparr>oc_complete := oc_complete c \<or> terminal\<rparr>)\<rparr>)"

definition note_venue_close :: "floor \<Rightarrow> exec_event \<Rightarrow> share_bounds option \<Rightarrow> rat \<Rightarrow> unit act" where
  "note_venue_close X x bounds qty =
     (if o_orderType (x_order x) = STOP_LOSS_TAKE_PROFIT
      then (if (case bounds of None \<Rightarrow> True | Some b \<Rightarrow> VOLUME_TOL < sb_high b)
            then guard (Fired_protection (o_positionId (x_order x)) (x_order x) qty) else ret ())
      else if x_isServerEvent x \<and> \<not> o_isStopOut (x_order x) then note_server_close X (o_positionId (x_order x)) else ret ())"

text \<open>How much of a fill is booked, the share a claim judges it against again, whether it provably took the share,
  whether the evidence leaves it open, and the verdict that waits for entries in flight.\<close>

record booking =
  bk_booked :: rat
  bk_low :: "rat option"
  bk_took :: bool
  bk_ambiguous :: bool
  bk_held :: "held_verdict option"

definition close_report :: "exec_event \<Rightarrow> rat \<Rightarrow> (rat \<times> rat) option \<Rightarrow> rat option \<Rightarrow> close_context" where
  "close_report x qty share booked =
     \<lparr>cc_position = o_positionId (x_order x), cc_order_id = o_orderId (x_order x),
      cc_deal_ids = (case x_deal x of None \<Rightarrow> [] | Some d \<Rightarrow> [d_dealId d]), cc_closed = qty, cc_share = share,
      cc_booked = booked, cc_claimed_as_own = False\<rparr>"

definition book_own :: "nat option \<Rightarrow> share_bounds \<Rightarrow> rat \<Rightarrow> booking act" where
  "book_own claimer b qty =
     asks (\<lambda>L. \<lparr>bk_booked = (case claimer of
                  None \<Rightarrow> min qty (sb_high b)
                | Some k \<Rightarrow> (case oc_volume (g_closes L k) of
                      None \<Rightarrow> min qty (sb_high b)
                    | Some v \<Rightarrow> min (min qty (sb_high b)) (max 0 (fsub v (claimed_volume L (g_closes L k)))))),
                bk_low = Some (sb_low b), bk_took = False, bk_ambiguous = False, bk_held = None\<rparr>)"

definition book_other :: "floor \<Rightarrow> exec_event \<Rightarrow> close_origin \<Rightarrow> share_bounds \<Rightarrow> rat \<Rightarrow> rat \<Rightarrow> booking act" where
  "book_other X x g b after_volume qty =
     (let p = o_positionId (x_order x); ms = executed_ms_of x;
          short_low = max 0 (fsub (sb_low b) after_volume); short_high = max 0 (fsub (sb_high b) after_volume);
          ambiguous = (g = External \<and> short_low \<le> VOLUME_TOL \<and> VOLUME_TOL < short_high)
      in seq (bounds_as_of X p ms False) (\<lambda>later.
         case later of
           None \<Rightarrow> throw (AttributeError ''side'')
         | Some s \<Rightarrow>
             (let settled_after = (if sb_side s = sb_side b then after_volume else venue_after (x_position x) (sb_side s));
                  booked = min qty (max short_low (fsub (sb_low s) settled_after));
                  bk = \<lparr>bk_booked = booked, bk_low = Some (max (sb_low b) (sb_low s)), bk_took = (VOLUME_TOL < short_low),
                          bk_ambiguous = ambiguous, bk_held = None\<rparr>
              in seq (asks (\<lambda>L. position_entry_rows X (row_writes L) p)) (\<lambda>rows.
                 seq (asks (\<lambda>L. if ambiguous then entries_in_flight L rows else [])) (\<lambda>waiting.
                 if waiting = [] then ret bk
                 else seq (net_bounds X p rows ms) (\<lambda>(lo, hi).
                      ret (bk\<lparr>bk_held := Some \<lparr>hv_position = p, hv_deal_id = map_option d_dealId (x_deal x), hv_executed_ms = ms,
                        hv_net_low = lo, hv_net_high = hi, hv_venue_after = after_volume, hv_fill_qty = qty, hv_booked = booked,
                        hv_context = close_report x qty None None, hv_waiting = waiting,
                        hv_counted = map (\<lambda>r. (r_coid r, r_filled r)) (filter (\<lambda>r. r_coid r \<in> fst ` set waiting) rows),
                        hv_applied = 0, hv_unknown = []\<rparr>\<rparr>)))))))"

text \<open>The verdict is reported, held, noted or journalled.\<close>

definition settle_verdict :: "floor \<Rightarrow> exec_event \<Rightarrow> close_origin \<Rightarrow> share_bounds option \<Rightarrow> booking \<Rightarrow> rat \<Rightarrow> unit act" where
  "settle_verdict X x g bounds bk qty =
     (let p = o_positionId (x_order x); deals = (case x_deal x of None \<Rightarrow> [] | Some d \<Rightarrow> [d_dealId d])
      in seq (asks g_hedging) (\<lambda>hedged.
         seq (if bounds = None \<and> g = External \<and> \<not> hedged then note_share_unknown X p
              else if g = External \<and> bk_took bk \<and> VOLUME_TOL < bk_booked bk
                then queue_external_close X p (close_report x qty (map_option (\<lambda>b. (sb_low b, sb_high b)) bounds)
                       (map_option (\<lambda>_. bk_booked bk) bounds))
              else ret ()) (\<lambda>_.
         case bk_held bk of
           Some v \<Rightarrow> hold_close_verdict v
         | None \<Rightarrow> (if bk_ambiguous bk then note_share_ambiguous X p
                    else if deals = [] then ret () else mark_close_judged X deals (map (\<lambda>i. (i, g)) deals)))))"

text \<open>The result: the booked volume, the origin, and the claim whose event waits for the answer of an own close.\<close>

definition judge_close_fill ::
    "floor \<Rightarrow> exec_event \<Rightarrow> rat \<Rightarrow> string option \<Rightarrow> (rat \<times> close_origin \<times> nat option) option act" where
  "judge_close_fill X x qty from_entry =
     (let o' = x_order x; p = o_positionId o'; deal_id = map_option d_dealId (x_deal x); ms = executed_ms_of x;
          terminal = (x_executionType x = ORDER_FILLED)
      in seq (close_fill_origin X x) (\<lambda>(g, record).
         seq (asks (\<lambda>L. case record of Some k \<Rightarrow> if oc_order_id (g_closes L k) = None then Some k else None | None \<Rightarrow> None)) (\<lambda>claimer.
         seq (bounds_as_of X p ms True) (\<lambda>bounds.
         seq (asks (\<lambda>L. venue_after (x_position x) (case bounds of Some b \<Rightarrow> sb_side b | None \<Rightarrow> share_side X L p))) (\<lambda>after_volume.
         seq (case (record, claimer) of (Some k, None) \<Rightarrow> count_own_fill k deal_id qty terminal | _ \<Rightarrow> ret ()) (\<lambda>_.
         seq (if g = Venue then note_venue_close X x bounds qty else ret ()) (\<lambda>_.
         seq (case bounds of
                None \<Rightarrow> ret \<lparr>bk_booked = qty, bk_low = None, bk_took = True, bk_ambiguous = False, bk_held = None\<rparr>
              | Some b \<Rightarrow> (if g = Own then book_own claimer b qty else book_other X x g b after_volume qty)) (\<lambda>bk.
         seq (if g = Venue \<and> bounds \<noteq> None then own_close_wildcard p else ret claimer) (\<lambda>holder.
         seq (case holder of
                None \<Rightarrow> ret None
              | Some k \<Rightarrow>
                  seq (record_claim X k \<lparr>cf_order_id = o_orderId o', cf_deal_id = deal_id, cf_fill_qty = qty,
                         cf_order_type = o_orderType o', cf_client_order_id = o_clientOrderId o', cf_from_entry = from_entry,
                         cf_terminal = terminal, cf_executed_ms = ms, cf_share_before = bk_low bk,
                         cf_share_high = map_option sb_high bounds, cf_venue_after = after_volume, cf_booked = bk_booked bk,
                         cf_venue = (g = Venue \<and> bounds \<noteq> None), cf_event = None, cf_settles_share = False\<rparr>)
                    (\<lambda>f. asks (\<lambda>L. if oc_answered_ms (g_closes L k) = None then Some f else None))) (\<lambda>held.
         seq (settle_verdict X x g bounds bk qty) (\<lambda>_.
         if bk_booked bk \<le> VOLUME_TOL
         then seq (post X (Row_op (Audit ''external_activity_ignored'' None))) (\<lambda>_.
              seq (if after_volume \<le> VOLUME_TOL then mark_position_closed X p else ret ()) (\<lambda>_. ret None))
         else ret (Some (bk_booked bk, g, held)))))))))))))"

section \<open>One execution event\<close>

text \<open>The price, volume, id, fee and time of the event.\<close>

record fill_facts =
  ff_price :: "rat option"
  ff_qty :: "rat option"
  ff_id :: "string option"
  ff_fee :: rat
  ff_time :: rat

definition fill_facts_of :: "ledger \<Rightarrow> exec_event \<Rightarrow> fill_facts" where
  "fill_facts_of L x =
     (case x_deal x of
        None \<Rightarrow> \<lparr>ff_price = or_none (o_executionPrice (x_order x)), ff_qty = None, ff_id = None, ff_fee = 0, ff_time = g_clock L\<rparr>
      | Some d \<Rightarrow> \<lparr>ff_price = or_none (d_executionPrice d), ff_qty = Some (volume_to_units (d_filledVolume d)),
          ff_id = Some (py_str (d_dealId d)), ff_fee = money_value (d_commission d) (d_moneyDigits d),
          ff_time = (if d_executionTimestamp d \<noteq> 0 then fdiv (of_int (d_executionTimestamp d)) 1000 else g_clock L)\<rparr>)"

definition applies :: "fill_facts \<Rightarrow> bool" where
  "applies f \<longleftrightarrow> 0 < or_else 0 (ff_qty f) \<and> 0 < or_else 0 (ff_price f)"

text \<open>A refused or cancelled closing order executes nothing more.\<close>

definition complete_closes :: "int \<Rightarrow> unit act" where
  "complete_closes order_id = modify (\<lambda>L. L\<lparr>g_closes := (\<lambda>k.
     if k \<in> set (g_history L) \<and> oc_order_id (g_closes L k) = Some order_id then (g_closes L k)\<lparr>oc_complete := True\<rparr> else g_closes L k)\<rparr>)"

text \<open>The identity of a fill nobody knows: a parked entry's, or none (\<open>None\<close>: the fill is dropped).\<close>

definition identify :: "floor \<Rightarrow> event_kind \<Rightarrow> exec_event \<Rightarrow> identity option act" where
  "identify X k x =
     (let o' = x_order x in
      seq (resolve_identity X o' (x_deal x)) (\<lambda>(pine, entry, leg).
      if \<not> (is_fill_kind k \<and> leg = None \<and> journaled X) then ret (Some (pine, entry, leg))
      else seq (recover_parked_entry_by_coid X o') (\<lambda>recovered.
        if recovered \<noteq> None then ret (Some (recovered, None, Some Leg_entry))
        else seq (post X (Row_op (Audit ''external_activity_ignored'' None))) (\<lambda>_.
             seq (asks (\<lambda>L. is_run_client_order_id X L (o_clientOrderId o') \<or> td_label (o_tradeData o') = run_tag X)) (\<lambda>tagged.
             seq (if tagged then post X (Row_op (Audit ''ctrader_own_fill_untracked'' None)) else ret ()) (\<lambda>_.
             ret None))))))"

definition covered_by_reconcile :: "ledger \<Rightarrow> exec_event \<Rightarrow> bool" where
  "covered_by_reconcile L x \<longleftrightarrow>
     (case x_deal x of None \<Rightarrow> False
      | Some d \<Rightarrow> d_executionTimestamp d \<noteq> 0 \<and> d_executionTimestamp d < or_else 0 (g_covered L (o_positionId (x_order x))))"

text \<open>The closing part of another party's opposite order.\<close>

definition close_qty :: "exec_event \<Rightarrow> rat \<Rightarrow> rat" where
  "close_qty x qty =
     (case x_deal x of
        Some d \<Rightarrow> (if o_closingOrder (x_order x) then qty else volume_to_units (or_else 0 (d_closedVolume d)))
      | None \<Rightarrow> qty)"

text \<open>What is decided before the journal changes: the volume booked, the origin, the held claim (\<open>None\<close>: dropped).\<close>

definition judge_fill ::
    "floor \<Rightarrow> event_kind \<Rightarrow> exec_event \<Rightarrow> fill_facts \<Rightarrow> identity \<Rightarrow> (rat option \<times> close_origin option \<times> nat option) option act" where
  "judge_fill X k x f who =
     (case who of (pine, entry, leg) \<Rightarrow>
       (let qty = or_else 0 (ff_qty f); is_fill = (is_fill_kind k \<and> 0 < qty)
        in if is_fill \<and> leg = Some Leg_close
           then seq (asks (\<lambda>L. covered_by_reconcile L x)) (\<lambda>covered.
             if covered then seq (post X (Row_op (Audit ''external_activity_ignored'' None))) (\<lambda>_. ret None)
             else seq (judge_close_fill X x (close_qty x qty) entry) (\<lambda>judged.
               ret (map_option (\<lambda>(q, g, held). (Some q, Some g, held)) judged)))
           else if is_fill \<and> leg \<noteq> None \<and> is_closing_fill (x_order x) (x_deal x)
           then seq (case x_deal x of None \<Rightarrow> ret () | Some d \<Rightarrow> mark_close_judged X [d_dealId d] [(d_dealId d, Own)]) (\<lambda>_.
                ret (Some (ff_qty f, None, None)))
           else ret (Some (ff_qty f, None, None))))"

text \<open>An entry fill advances the cursor, unless a reconcile pass already counted it (\<open>False\<close>: dropped).\<close>

definition count_entry_fill :: "floor \<Rightarrow> event_kind \<Rightarrow> exec_event \<Rightarrow> rat option \<Rightarrow> bool act" where
  "count_entry_fill X k x prior =
     (let o' = x_order x in
      seq (if k = Ev_partial
           then modify (\<lambda>L. L\<lparr>g_terms := learn_order_volume_semantics (row_of_order X L (o_orderId o')) o' (g_terms L)\<rparr>)
           else ret ()) (\<lambda>_.
      if (case prior of None \<Rightarrow> False | Some c \<Rightarrow> volume_to_units (o_executedVolume o') \<le> fadd c NANO) then ret False
      else seq (advance_fill_cursor X o') (\<lambda>_.
           seq (case x_position x of None \<Rightarrow> ret () | Some p \<Rightarrow> guard (Absorbed_protection p (is_closing_fill o' (x_deal x)))) (\<lambda>_.
           ret True))))"

text \<open>The journal after the fill, or after a cancel.\<close>

definition book_journal ::
    "floor \<Rightarrow> event_kind \<Rightarrow> exec_event \<Rightarrow> exchange_order \<Rightarrow> leg_type option \<Rightarrow> rat option \<Rightarrow> close_origin option \<Rightarrow> nat option \<Rightarrow> unit act" where
  "book_journal X k x xo leg qty g held =
     (let o' = x_order x; p = o_positionId o'; closing = is_closing_fill o' (x_deal x);
          is_fill = (is_fill_kind k \<and> 0 < or_else 0 qty)
      in seq (asks (\<lambda>L. position_is_flat x \<or> venue_after (x_position x) (share_side X L p) \<le> VOLUME_TOL)) (\<lambda>flat.
         if k = Ev_filled \<and> closing \<and> leg \<noteq> Some Leg_entry \<and> flat then mark_position_closed X p
         else if is_fill \<and> closing \<and> leg = Some Leg_close
         then seq (retire_partial_close X p (or_else 0 qty)) (\<lambda>_.
              case held of
                Some f \<Rightarrow> modify (\<lambda>L. L\<lparr>g_fills := (g_fills L)(f := (g_fills L f)\<lparr>cf_settles_share := (g = Some Own)\<rparr>)\<rparr>)
              | None \<Rightarrow> (if g = Some Own then settle_own_partial_close X p else ret ()))
         else if is_fill_kind k \<and> p \<noteq> 0 \<and> \<not> o_closingOrder o' \<and> leg \<noteq> Some Leg_close then link_position X o' (xo_client_id xo)
         else if k = Ev_cancelled \<and> \<not> o_closingOrder o' \<and> o_orderId o' \<noteq> 0 then retire_working_order X (o_orderId o')
         else ret ()))"

definition apply_exec_event ::
    "floor \<Rightarrow> event_kind \<Rightarrow> exec_event \<Rightarrow> bool \<Rightarrow> rat option \<Rightarrow> exchange_order \<Rightarrow> fill_facts \<Rightarrow> identity \<Rightarrow> order_event option act" where
  "apply_exec_event X k x venue_cancel prior xo f who =
     seq (judge_fill X k x f who) (\<lambda>judged.
     case judged of
       None \<Rightarrow> ret None
     | Some (qty, g, held) \<Rightarrow>
         (case who of (pine, entry, leg) \<Rightarrow>
           (let counts_entry = (is_fill_kind k \<and> leg = Some Leg_entry \<and> 0 < or_else 0 qty \<and> 0 < or_else 0 (ff_price f)) in
            seq (if counts_entry then count_entry_fill X k x prior else ret True) (\<lambda>news.
            if \<not> news then ret None
            else
              seq (book_journal X k x xo leg qty g held) (\<lambda>_.
              seq (case (if counts_entry then x_position x else None) of None \<Rightarrow> ret () | Some p \<Rightarrow> guard (Took_protection p)) (\<lambda>_.
              (let ev = \<lparr>ev_order = xo, ev_kind = k, ev_price = ff_price f, ev_qty = qty, ev_time = ff_time f, ev_pine = pine,
                     ev_from = entry, ev_leg = leg, ev_fee = ff_fee f, ev_fill_id = ff_id f, ev_venue_cancel = venue_cancel\<rparr>
               in case held of
                    None \<Rightarrow> ret (Some ev)
                  | Some c \<Rightarrow> seq (modify (\<lambda>L. L\<lparr>g_fills := (g_fills L)(c := (g_fills L c)\<lparr>cf_event := Some ev\<rparr>)\<rparr>)) (\<lambda>_. ret None))))))))"

definition translate_execution :: "floor \<Rightarrow> exec_event \<Rightarrow> order_event option act" where
  "translate_execution X x =
     (let o' = x_order x in
      seq (case x_position x of Some p \<Rightarrow> if is_fill x then ret () else guard (Pushed_protection p) | None \<Rightarrow> ret ()) (\<lambda>_.
      if x_executionType x = ORDER_REPLACED
      then seq (modify (\<lambda>L. L\<lparr>g_terms := judge_replaced_order (g_ticks L) (row_of_order X L) o' (g_terms L)\<rparr>)) (\<lambda>_. ret None)
      else case event_kind_of (x_executionType x) of
        None \<Rightarrow> ret None
      | Some k \<Rightarrow>
          seq (if (k = Ev_cancelled \<or> k = Ev_rejected) \<and> o_closingOrder o' then complete_closes (o_orderId o') else ret ()) (\<lambda>_.
          seq (asks (\<lambda>L. (k = Ev_cancelled \<and> venue_cancel_reason (row_of_order X L (o_orderId o')) o'
                  (x_executionType x = ORDER_EXPIRED) (x_isServerEvent x) False (g_terms L), entry_fill_cursor X L o')))
            (\<lambda>(venue_cancel, prior).
          seq (case x_deal x of Some d \<Rightarrow> if is_fill x then settle_share_effects (o_orderId o') (Some (d_dealId d)) else ret ()
               | None \<Rightarrow> ret ()) (\<lambda>_.
          seq (asks (\<lambda>L. case x_deal x of None \<Rightarrow> False | Some d \<Rightarrow> d_dealId d \<in> g_seen L)) (\<lambda>again.
          if again then ret None
          else seq (asks (\<lambda>L. (order_from_proto X L o', fill_facts_of L x))) (\<lambda>(xo, f).
            seq (case x_deal x of Some d \<Rightarrow> if applies f then modify (\<lambda>L. L\<lparr>g_seen := insert (d_dealId d) (g_seen L)\<rparr>) else ret ()
                 | None \<Rightarrow> ret ()) (\<lambda>_.
            seq (identify X k x) (\<lambda>who.
            case who of
              None \<Rightarrow> ret None
            | Some i \<Rightarrow> apply_exec_event X k x venue_cancel prior xo f i)))))))))"

definition order_error_to_event :: "floor \<Rightarrow> order_error \<Rightarrow> order_event option act" where
  "order_error_to_event X e =
     asks (\<lambda>L. map_option (\<lambda>r.
       \<lparr>ev_order = \<lparr>xo_id = py_str (e_orderId e), xo_symbol = r_symbol r, xo_side = r_side r, xo_type = Market, xo_qty = r_qty r,
            xo_filled = r_filled r, xo_remaining = max 0 (fsub (r_qty r) (r_filled r)), xo_price = None, xo_stop = None,
            xo_average = None, xo_status = Order_rejected, xo_reduce_only = False, xo_client_id = Some (r_coid r)\<rparr>,
        ev_kind = Ev_rejected, ev_price = None, ev_qty = None, ev_time = g_clock L, ev_pine = r_pine_id r, ev_from = None,
        ev_leg = None, ev_fee = 0, ev_fill_id = None, ev_venue_cancel = False\<rparr>) (row_of_order X L (e_orderId e)))"

definition translate_exec_event :: "floor \<Rightarrow> msg \<Rightarrow> order_event option act" where
  "translate_exec_event X m =
     (case m of
        ProtoOAOrderErrorEvent e \<Rightarrow> order_error_to_event X e
      | ProtoOAExecutionEvent x \<Rightarrow> translate_execution X x
      | _ \<Rightarrow> ret None)"

section \<open>The stream\<close>

text \<open>What the loop of \<open>watch_orders\<close> meets: a message off the queue, the deadline of a reconcile pass with the
  events it yields, or what the plugin's other tasks do to the ledger meanwhile.\<close>

datatype turn = Message msg | Reconcile_pass "(ledger \<Rightarrow> order_event list \<times> ledger)" | Elsewhere "ledger \<Rightarrow> ledger"

definition take_released :: "order_event list act" where
  "take_released L = (Inr (g_released L), L\<lparr>g_released := []\<rparr>)"

definition run_pass :: "(ledger \<Rightarrow> order_event list \<times> ledger) \<Rightarrow> order_event list act" where
  "run_pass f L = (case f L of (evs, L') \<Rightarrow> (Inr evs, L'))"

text \<open>The events one turn yields, and whether the policy halted the run on a report. A message whose
  translation fails is dropped.\<close>

definition stream_turn :: "floor \<Rightarrow> (close_context \<Rightarrow> bool) \<Rightarrow> turn \<Rightarrow> (order_event list \<times> bool) act" where
  "stream_turn X halts t =
     seq take_released (\<lambda>early.
     case t of
       Elsewhere f \<Rightarrow> seq (modify f) (\<lambda>_. ret (early, False))
     | Reconcile_pass f \<Rightarrow>
         seq (run_pass f) (\<lambda>evs.
         seq take_released (\<lambda>late.
         seq (flush_external_interventions X halts) (\<lambda>h. ret (early @ evs @ late, h))))
     | Message m \<Rightarrow>
         seq (catch (translate_exec_event X m)
               (\<lambda>e. seq (post X (Row_op (Audit ''exec_event_translation_failed'' None))) (\<lambda>_. ret None))) (\<lambda>ev.
         seq (flush_external_interventions X halts) (\<lambda>h.
         ret (early @ (case ev of None \<Rightarrow> [] | Some e \<Rightarrow> [e]), h))))"

text \<open>Before the loop, the released events and the reports an earlier process left are delivered.\<close>

definition stream_start :: "floor \<Rightarrow> (close_context \<Rightarrow> bool) \<Rightarrow> (order_event list \<times> bool) act" where
  "stream_start X halts = seq take_released (\<lambda>early. seq (flush_external_interventions X halts) (\<lambda>h. ret (early, h)))"

fun stream_turns :: "floor \<Rightarrow> (close_context \<Rightarrow> bool) \<Rightarrow> turn list \<Rightarrow> (order_event list \<times> bool) act" where
  "stream_turns X halts [] = ret ([], False)"
| "stream_turns X halts (t # ts) =
     seq (stream_turn X halts t) (\<lambda>(evs, halted).
     if halted then ret (evs, True) else seq (stream_turns X halts ts) (\<lambda>(more, h). ret (evs @ more, h)))"

end
