(* ===== verification/Events_Properties.thy ===== *)
theory Events_Properties
  imports Events Share_Properties
begin

text \<open>
  What the event stream promises: a second copy of a fill changes nothing, a fill of another run is dropped, a
  close is booked for no more than it closed, and it is reported only when it took the bot's share.
\<close>

section \<open>Deals already seen\<close>

named_theorems seen_rules \<open>operations that forget no deal\<close>

abbreviation knows :: "int \<Rightarrow> ledger \<Rightarrow> bool" where
  "knows d L \<equiv> d \<in> g_seen L"

lemma seen_modify: "(\<And>L. g_seen L \<subseteq> g_seen (f L)) \<Longrightarrow> keeps (knows d) (modify f)"
  by (rule keeps_modify) blast

lemma seen_try [seen_rules]: "keeps (knows d) (try_exn r)"
  unfolding try_exn_def by (intro keeps_sum keeps_ret keeps_throw)

lemmas flow = keeps_seq keeps_if keeps_option keeps_pair keeps_sum keeps_boolcase keeps_ret keeps_throw keeps_asks

lemma seen_post [seen_rules]: "keeps (knows d) (post X op)"
  unfolding post_def by (rule seen_modify) simp

lemma seen_adopt [simp]: "g_seen (adopt_closes cs L) = g_seen L"
  by (induction cs arbitrary: L) simp_all

lemma seen_replay [simp]: "g_seen (replay_reports h es L) = g_seen L"
  by (induction h es L rule: replay_reports.induct) simp_all

lemma seen_load [seen_rules]: "keeps (knows d) (load_close_evidence X)"
  unfolding load_close_evidence_def by (rule seen_modify) (simp add: Let_def split: prod.split)

lemma seen_drop [seen_rules]: "keeps (knows d) drop_expired"
  unfolding drop_expired_def by (rule seen_modify) simp

lemma seen_reports [seen_rules]:
  "keeps (knows d) (note_share_unknown X p)" "keeps (knows d) (note_share_ambiguous X p)" "keeps (knows d) (note_server_close X p)"
  "keeps (knows d) (hold_close_verdict v)" "keeps (knows d) (vacate_position p)" "keeps (knows d) (guard c)"
  "keeps (knows d) (complete_closes i)" "keeps (knows d) (count_own_fill k oi q t)" "keeps (knows d) (settle_share_effects i j)"
  unfolding note_share_unknown_def note_share_ambiguous_def note_server_close_def hold_close_verdict_def vacate_position_def
    guard_def complete_closes_def count_own_fill_def settle_share_effects_def
  by (intro seen_rules seen_modify; simp add: Let_def)+

lemma seen_queue [seen_rules]: "keeps (knows d) (queue_external_close X p ctx)" "keeps (knows d) (mark_close_judged X ids gs)"
  "keeps (knows d) (flag_ambiguous_claim X k)" "keeps (knows d) (record_claim X k c)" "keeps (knows d) (settle_own_partial_close X p)"
  unfolding queue_external_close_def mark_close_judged_def flag_ambiguous_claim_def record_claim_def settle_own_partial_close_def Let_def
  by (intro flow seen_rules seen_modify; simp)+

lemma seen_origin [seen_rules]: "keeps (knows d) (own_close_by_order X i t)" "keeps (knows d) (own_close_of_order X i p)"
  "keeps (knows d) (own_close_wildcard p)" "keeps (knows d) (close_fill_origin X x)"
  unfolding own_close_by_order_def own_close_of_order_def own_close_wildcard_def close_fill_origin_def Let_def
  by (intro flow seen_rules seen_modify; simp)+

lemma seen_bounds [seen_rules]: "keeps (knows d) (live_share_effects p)" "keeps (knows d) (net_bounds X p rows ms)"
  "keeps (knows d) (bounds_as_of X p ms flying)"
  unfolding live_share_effects_def net_bounds_def bounds_as_of_def by (intro flow seen_rules seen_modify; simp)+

lemma seen_retire_rows [seen_rules]: "keeps (knows d) (retire_rows X p s rows q)"
proof (induction rows arbitrary: q)
  case (Cons r rows)
  show ?case unfolding retire_rows.simps Let_def by (intro flow seen_rules Cons.IH)
qed simp

lemma seen_retire [seen_rules]: "keeps (knows d) (retire_partial_close X p q)"
  unfolding retire_partial_close_def by (intro flow seen_rules)

lemma seen_journal [seen_rules]: "keeps (knows d) (link_ref X c p)" "keeps (knows d) (recover_parked_entry_by_coid X o')"
  "keeps (knows d) (advance_fill_cursor X o')" "keeps (knows d) (link_position X o' coid)" "keeps (knows d) (retire_working_order X i)"
  "keeps (knows d) (resolve_identity X o' dl)"
  unfolding link_ref_def recover_parked_entry_by_coid_def advance_fill_cursor_def link_position_def retire_working_order_def
    resolve_identity_def Let_def
  by (intro flow seen_rules seen_modify; simp)+

lemma seen_close_rows [seen_rules]: "keeps (knows d) (close_rows X cs)"
proof (induction cs)
  case (Cons c cs)
  show ?case unfolding close_rows.simps by (intro flow seen_rules Cons.IH)
qed (simp add: keeps_def)

lemma seen_closed [seen_rules]: "keeps (knows d) (mark_position_closed X p)"
  unfolding mark_position_closed_def by (intro flow seen_rules)

lemma seen_judge [seen_rules]: "keeps (knows d) (note_venue_close X x b q)" "keeps (knows d) (book_own c b' q)"
  "keeps (knows d) (book_other X x g b' v q)" "keeps (knows d) (settle_verdict X x g b bk q)" "keeps (knows d) (judge_close_fill X x q e)"
  unfolding note_venue_close_def book_own_def book_other_def settle_verdict_def judge_close_fill_def Let_def
  by (intro flow seen_rules)+

lemma seen_steps [seen_rules]: "keeps (knows d) (identify X k x)" "keeps (knows d) (judge_fill X k x f who)"
  "keeps (knows d) (count_entry_fill X k x prior)" "keeps (knows d) (book_journal X k x xo leg q g h)"
  unfolding identify_def judge_fill_def count_entry_fill_def book_journal_def Let_def
  by (intro flow seen_rules seen_modify; simp)+

lemma seen_apply [seen_rules]: "keeps (knows d) (apply_exec_event X k x vc prior xo f who)"
  unfolding apply_exec_event_def Let_def by (intro flow seen_rules seen_modify; simp)

lemma seen_translation [seen_rules]: "keeps (knows d) (translate_execution X x)"
  unfolding translate_execution_def Let_def by (intro flow seen_rules seen_modify; auto)

lemma seen_error [seen_rules]: "keeps (knows d) (order_error_to_event X e)"
  unfolding order_error_to_event_def by (rule keeps_asks)

lemma seen_translate [seen_rules]: "keeps (knows d) (translate_exec_event X m)"
  unfolding translate_exec_event_def by (cases m) (auto intro: seen_rules)

lemma seen_released [seen_rules]: "keeps (knows d) take_released"
  by (simp add: keeps_def take_released_def)

lemma seen_flush_reports: "keeps (knows d) (flush_reports X halts rs)"
proof (induction rs)
  case (Cons r rs)
  obtain k ctx coid where r: "r = (k, ctx, coid)" by (cases r)
  show ?case unfolding r flush_reports.simps by (intro flow seen_rules seen_modify Cons.IH; simp)
qed (simp add: keeps_def)

lemma seen_flush [seen_rules]: "keeps (knows d) (flush_external_interventions X halts)"
  unfolding flush_external_interventions_def by (intro flow seen_rules seen_modify seen_flush_reports; simp)

text \<open>What the other tasks do keeps the deals seen: nothing in the plugin removes one.\<close>

definition remembers :: "turn \<Rightarrow> bool" where
  "remembers t \<longleftrightarrow> (case t of Message m \<Rightarrow> True | Reconcile_pass f \<Rightarrow> (\<forall>L. g_seen L \<subseteq> g_seen (snd (f L)))
     | Elsewhere f \<Rightarrow> (\<forall>L. g_seen L \<subseteq> g_seen (f L)))"

lemma seen_turn: "remembers t \<Longrightarrow> keeps (knows d) (stream_turn X halts t)"
proof (cases t)
  case (Message m)
  then show ?thesis unfolding stream_turn_def by (simp del: keeps_seq) (intro flow seen_rules keeps_catch)
next
  case (Reconcile_pass f)
  assume "remembers t"
  then have "keeps (knows d) (run_pass f)"
    using Reconcile_pass by (auto simp: keeps_def remembers_def run_pass_def split: prod.split) (metis snd_conv subsetD)
  then show ?thesis unfolding stream_turn_def Reconcile_pass by (simp del: keeps_seq) (intro flow seen_rules)
next
  case (Elsewhere f)
  assume "remembers t"
  then show ?thesis unfolding stream_turn_def Elsewhere
    by (simp del: keeps_seq) (intro flow seen_rules seen_modify, simp add: remembers_def Elsewhere)
qed

lemma seen_turns: "\<forall>t \<in> set ts. remembers t \<Longrightarrow> keeps (knows d) (stream_turns X halts ts)"
proof (induction ts)
  case (Cons t ts)
  then show ?case unfolding stream_turns.simps by (intro flow seen_turn) auto
qed (simp add: keeps_def)

lemma after_seq: "I (snd (m s)) \<Longrightarrow> (\<And>x. keeps I (f x)) \<Longrightarrow> I (snd (seq m f s))"
  by (auto simp: seq_def keeps_def split: prod.split sum.split)

lemma after_catch: "I (snd (m s)) \<Longrightarrow> (\<And>e. keeps I (h e)) \<Longrightarrow> I (snd (catch m h s))"
  by (auto simp: catch_def keeps_def split: prod.split sum.split)

lemma fill_kind: "is_fill x \<Longrightarrow> \<exists>k. event_kind_of (x_executionType x) = Some k \<and> is_fill_kind k"
  by (auto simp: is_fill_def event_kind_of_def is_fill_kind_def)

text \<open>A fill of a deal seen before: only the effect recorded for it is settled.\<close>

lemma seen_fill_dropped:
  assumes "is_fill x" "x_deal x = Some d" "knows (d_dealId d) L"
  shows "\<exists>es. translate_execution X x L = (Inr None, L\<lparr>g_effects := es\<rparr>)"
proof -
  obtain k where k: "event_kind_of (x_executionType x) = Some k" "is_fill_kind k" using fill_kind [OF assms(1)] by blast
  have t: "x_executionType x \<noteq> ORDER_REPLACED" "k \<noteq> Ev_cancelled" "k \<noteq> Ev_rejected"
    using assms(1) k(2) by (auto simp: is_fill_def is_fill_kind_def)
  show ?thesis using assms k t
    by (cases "x_position x")
       (auto simp: translate_execution_def Let_def seq_def settle_share_effects_def)
qed

text \<open>What a fill runs: it is dropped as seen, or its identity decides.\<close>

lemma fill_run:
  assumes "is_fill x" "event_kind_of (x_executionType x) = Some k" "is_fill_kind k"
  shows "\<exists>es ds vc prior xo f. translate_execution X x L = (Inr None, L\<lparr>g_effects := es, g_seen := ds\<rparr>)
     \<or> translate_execution X x L
       = seq (identify X k x) (\<lambda>who. case who of None \<Rightarrow> ret None | Some i \<Rightarrow> apply_exec_event X k x vc prior xo f i)
           (L\<lparr>g_effects := es, g_seen := ds\<rparr>)"
proof -
  have t: "x_executionType x \<noteq> ORDER_REPLACED" "k \<noteq> Ev_cancelled" "k \<noteq> Ev_rejected"
    using assms(1,3) by (auto simp: is_fill_def is_fill_kind_def)
  have L: "L\<lparr>g_effects := g_effects L, g_seen := g_seen L\<rparr> = L" by simp
  show ?thesis
  proof (cases "x_deal x")
    case None
    then show ?thesis using assms t
      by (intro exI [of _ "g_effects L"] exI [of _ "g_seen L"], unfold L)
         (cases "x_position x"; auto simp: translate_execution_def Let_def seq_def)
  next
    case (Some d)
    obtain es where es: "settle_share_effects (o_orderId (x_order x)) (Some (d_dealId d)) L = (Inr (), L\<lparr>g_effects := es\<rparr>)"
      by (simp add: settle_share_effects_def)
    show ?thesis
    proof (cases "knows (d_dealId d) L")
      case True
      have "translate_execution X x L = (Inr None, L\<lparr>g_effects := es, g_seen := g_seen L\<rparr>)"
        using assms t Some True es by (cases "x_position x") (simp_all add: translate_execution_def Let_def seq_def)
      then show ?thesis by blast
    next
      case False
      let ?f = "fill_facts_of (L\<lparr>g_effects := es\<rparr>) x"
      let ?ds = "if applies ?f then insert (d_dealId d) (g_seen L) else g_seen L"
      have "\<exists>vc prior xo f. translate_execution X x L
       = seq (identify X k x) (\<lambda>who. case who of None \<Rightarrow> ret None | Some i \<Rightarrow> apply_exec_event X k x vc prior xo f i)
           (L\<lparr>g_effects := es, g_seen := ?ds\<rparr>)"
        using assms t Some False es by (cases "x_position x"; cases "applies ?f") (auto simp: translate_execution_def Let_def seq_def)
      then show ?thesis by blast
    qed
  qed
qed

text \<open>A fill with a volume and a price is remembered, whatever becomes of it.\<close>

lemma applied_fill_seen:
  assumes "is_fill x" "x_deal x = Some d" "0 < volume_to_units (d_filledVolume d)" "0 < d_executionPrice d"
  shows "knows (d_dealId d) (snd (translate_execution X x L))"
proof (cases "knows (d_dealId d) L")
  case True
  then show ?thesis by (rule keepsD [OF seen_translation])
next
  case False
  obtain k where k: "event_kind_of (x_executionType x) = Some k" "is_fill_kind k" using fill_kind [OF assms(1)] by blast
  have t: "x_executionType x \<noteq> ORDER_REPLACED" "k \<noteq> Ev_cancelled" "k \<noteq> Ev_rejected"
    using assms(1) k(2) by (auto simp: is_fill_def is_fill_kind_def)
  have ap: "applies (fill_facts_of L' x)" for L'
    using assms(2-4) by (simp add: applies_def fill_facts_of_def or_else_def or_none_def)
  define L1 where "L1 = snd (settle_share_effects (o_orderId (x_order x)) (Some (d_dealId d)) L :: (exn + unit) \<times> ledger)"
  have L1: "settle_share_effects (o_orderId (x_order x)) (Some (d_dealId d)) L = (Inr (), L1)" "g_seen L1 = g_seen L"
    by (simp_all add: L1_def settle_share_effects_def)
  let ?L2 = "L1\<lparr>g_seen := insert (d_dealId d) (g_seen L1)\<rparr>"
  have "\<exists>vc prior xo f. translate_execution X x L
      = seq (identify X k x) (\<lambda>who. case who of None \<Rightarrow> ret None | Some i \<Rightarrow> apply_exec_event X k x vc prior xo f i) ?L2"
    using assms(1,2) k t ap False L1
    by (cases "x_position x") (auto simp: translate_execution_def Let_def seq_def)
  then obtain vc prior xo f where run: "translate_execution X x L
      = seq (identify X k x) (\<lambda>who. case who of None \<Rightarrow> ret None | Some i \<Rightarrow> apply_exec_event X k x vc prior xo f i) ?L2" by blast
  have "keeps (knows (d_dealId d)) (seq (identify X k x) (\<lambda>who. case who of None \<Rightarrow> ret None | Some i \<Rightarrow> apply_exec_event X k x vc prior xo f i))"
    by (intro flow seen_rules)
  from keepsD [OF this, of ?L2] run show ?thesis by simp
qed

text \<open>
  C31: A fill is applied once. After the stream translated a fill that carries a volume and a price, whatever
  came of it and whatever happened since, another copy of its deal is dropped: no event, no write to the
  journal, nothing booked, claimed, reported or delivered; only the note that the journal ran ahead of it goes.
\<close>

theorem second_copy_ignored:
  assumes "stream_turn X halts (Message (ProtoOAExecutionEvent x)) L = (r1, L1)"
    and "is_fill x" and "x_deal x = Some d" and "0 < volume_to_units (d_filledVolume d)" and "0 < d_executionPrice d"
    and "\<forall>t \<in> set ts. remembers t" and "stream_turns X halts ts L1 = (r2, L2)"
    and "is_fill x'" and "x_deal x' = Some d'" and "d_dealId d' = d_dealId d"
  shows "\<exists>es. translate_exec_event X (ProtoOAExecutionEvent x') L2 = (Inr None, L2\<lparr>g_effects := es\<rparr>)"
proof -
  let ?I = "knows (d_dealId d)" and ?L0 = "L\<lparr>g_released := []\<rparr>"
  have "?I (snd (translate_exec_event X (ProtoOAExecutionEvent x) ?L0))"
    using applied_fill_seen [OF assms(2-5)] by (simp add: translate_exec_event_def)
  then have "?I (snd (catch (translate_exec_event X (ProtoOAExecutionEvent x))
      (\<lambda>e. seq (post X (Row_op (Audit ''exec_event_translation_failed'' None))) (\<lambda>_. ret None)) ?L0))"
    by (rule after_catch) (intro flow seen_rules)
  then have "?I (snd (stream_turn X halts (Message (ProtoOAExecutionEvent x)) L))"
    unfolding stream_turn_def by (subst seq_def) (simp add: take_released_def, rule after_seq, assumption, intro flow seen_rules)
  then have "?I L1" using assms(1) by simp
  then have "?I L2" using keepsD [OF seen_turns [OF assms(6)], of "d_dealId d" L1 X halts] assms(7) by simp
  then show ?thesis using seen_fill_dropped [OF assms(8,9)] assms(10) by (simp add: translate_exec_event_def)
qed

section \<open>Fills of another run\<close>

text \<open>Nothing of the run's names the fill: no entry order of it, no client id of a row, no close it sent against the
  position or under the order's id, and no exposure in the position.\<close>

definition unrelated :: "floor \<Rightarrow> ledger \<Rightarrow> order \<Rightarrow> bool" where
  "unrelated X L o' \<longleftrightarrow>
     row_of_order X L (o_orderId o') = None \<and> get_row X (row_writes L) (o_clientOrderId o') = None
     \<and> g_close_pine L (o_positionId o') = None
     \<and> (\<forall>k \<in> set (g_history L). oc_order_id (g_closes L k) = Some (o_orderId o') \<longrightarrow> oc_position (g_closes L k) \<noteq> o_positionId o')
     \<and> run_owned_position_entry X L (o_positionId o') = None"

lemma loaded_again: "g_loaded L \<Longrightarrow> load_close_evidence X L = (Inr (), L)"
  by (simp add: load_close_evidence_def)

lemma unrelated_identity:
  assumes "journaled X" "g_loaded L" "unrelated X L o'"
  shows "resolve_identity X o' d L = (Inr (None, None, None), L)"
proof -
  have p: "own_live_entry_coid X L o' = False" using assms(3) by (simp add: own_live_entry_coid_def unrelated_def)
  have c: "(if is_closing_fill o' d then own_close_of_order X (o_orderId o') (o_positionId o') else ret None) L = (Inr None, L)"
    using assms(2,3) by (auto simp: own_close_of_order_def seq_def loaded_again unrelated_def find_None_iff)
  show ?thesis using assms c p
    by (simp add: resolve_identity_def Let_def seq_def [of "if _ then _ else _"] unrelated_def)
qed

lemma unrelated_not_parked:
  assumes "unrelated X L o'"
  shows "recover_parked_entry_by_coid X o' L = (Inr None, L)"
  using assms by (simp add: recover_parked_entry_by_coid_def unrelated_def)

lemma post_journaled: "journaled X \<Longrightarrow> post X op L = (Inr (), L\<lparr>g_journal := g_journal L @ [op]\<rparr>)"
  by (simp add: post_def)

definition audits_only :: "lop list \<Rightarrow> bool" where
  "audits_only js \<longleftrightarrow> list_all (\<lambda>j. case j of Row_op (Audit what None) \<Rightarrow> True | _ \<Rightarrow> False) js"

lemma unrelated_identify:
  assumes "journaled X" "g_loaded L" "unrelated X L (x_order x)" "is_fill_kind k"
  shows "\<exists>js. identify X k x L = (Inr None, L\<lparr>g_journal := g_journal L @ js\<rparr>) \<and> audits_only js"
proof -
  note r = unrelated_identity [OF assms(1-3), of "x_deal x"]
  note q = unrelated_not_parked [OF assms(3)]
  let ?a = "Row_op (Audit ''external_activity_ignored'' None)" and ?b = "Row_op (Audit ''ctrader_own_fill_untracked'' None)"
  let ?L = "L\<lparr>g_journal := g_journal L @ [?a]\<rparr>"
  let ?js = "if is_run_client_order_id X ?L (o_clientOrderId (x_order x)) \<or> td_label (o_tradeData (x_order x)) = run_tag X
    then [?a, ?b] else [?a]"
  have "identify X k x L = (Inr None, L\<lparr>g_journal := g_journal L @ ?js\<rparr>) \<and> audits_only ?js"
    using assms(1,4) r q by (auto simp: identify_def Let_def seq_def post_journaled audits_only_def)
  then show ?thesis by blast
qed

lemma writes_kept [simp]: "row_writes (L\<lparr>g_effects := es, g_seen := ds\<rparr>) = row_writes L"
  by (simp add: row_writes_def)

lemma unrelated_kept: "unrelated X (L\<lparr>g_effects := es, g_seen := ds\<rparr>) o' = unrelated X L o'"
  unfolding unrelated_def row_of_order_def run_owned_position_entry_def writes_kept by simp

text \<open>
  C32: A fill of another run, of another bot or of a person on the same account leaves this run alone. When
  nothing of the run's names it, the event is dropped, however it is labelled: no event reaches the engine,
  and all that is written are audit entries that name no order of the run (\<open>audits_only\<close>).
\<close>

theorem foreign_fill_dropped:
  assumes "journaled X" and "g_loaded L" and "is_fill x" and "unrelated X L (x_order x)"
  shows "\<exists>es ds js. translate_exec_event X (ProtoOAExecutionEvent x) L
       = (Inr None, L\<lparr>g_effects := es, g_seen := ds, g_journal := g_journal L @ js\<rparr>) \<and> audits_only js"
proof -
  obtain k where k: "event_kind_of (x_executionType x) = Some k" "is_fill_kind k" using fill_kind [OF assms(3)] by blast
  have id: "\<exists>js. identify X k x (L\<lparr>g_effects := es, g_seen := ds\<rparr>)
      = (Inr None, L\<lparr>g_effects := es, g_seen := ds, g_journal := g_journal L @ js\<rparr>) \<and> audits_only js" for es ds
    using unrelated_identify [OF assms(1) _ _ k(2), of "L\<lparr>g_effects := es, g_seen := ds\<rparr>" x] assms(2,4)
    by (simp add: unrelated_kept)
  from fill_run [OF assms(3) k] obtain es ds vc prior xo f where
    "translate_execution X x L = (Inr None, L\<lparr>g_effects := es, g_seen := ds\<rparr>) \<or> translate_execution X x L
      = seq (identify X k x) (\<lambda>who. case who of None \<Rightarrow> ret None | Some i \<Rightarrow> apply_exec_event X k x vc prior xo f i)
          (L\<lparr>g_effects := es, g_seen := ds\<rparr>)" by blast
  then show ?thesis
  proof
    assume "translate_execution X x L = (Inr None, L\<lparr>g_effects := es, g_seen := ds\<rparr>)"
    then have "translate_exec_event X (ProtoOAExecutionEvent x) L
        = (Inr None, L\<lparr>g_effects := es, g_seen := ds, g_journal := g_journal L @ []\<rparr>)" by (simp add: translate_exec_event_def)
    then show ?thesis by (intro exI [of _ es] exI [of _ ds] exI [of _ "[]"]) (simp add: audits_only_def)
  next
    obtain js where "identify X k x (L\<lparr>g_effects := es, g_seen := ds\<rparr>)
      = (Inr None, L\<lparr>g_effects := es, g_seen := ds, g_journal := g_journal L @ js\<rparr>)" "audits_only js" using id by blast
    moreover assume "translate_execution X x L
      = seq (identify X k x) (\<lambda>who. case who of None \<Rightarrow> ret None | Some i \<Rightarrow> apply_exec_event X k x vc prior xo f i)
          (L\<lparr>g_effects := es, g_seen := ds\<rparr>)"
    ultimately have "translate_exec_event X (ProtoOAExecutionEvent x) L
        = (Inr None, L\<lparr>g_effects := es, g_seen := ds, g_journal := g_journal L @ js\<rparr>) \<and> audits_only js"
      by (simp add: translate_exec_event_def seq_def)
    then show ?thesis by blast
  qed
qed

text \<open>A market order of another terminal is filled on position 7, twice over the wire.\<close>

definition alien_order :: order where
  "alien_order = \<lparr>o_orderId = 21, o_tradeData = \<lparr>td_symbolId = 1, td_volume = 200000, td_tradeSide = SELL, td_openTimestamp = 0, td_label = []\<rparr>,
     o_orderType = MARKET, o_orderStatus = ORDER_STATUS_FILLED, o_executionPrice = 1, o_executedVolume = 200000,
     o_utcLastUpdateTimestamp = 1, o_closingOrder = False, o_limitPrice = 0, o_stopPrice = 0, o_clientOrderId = ''web'',
     o_positionId = 7, o_isStopOut = False, o_stopLoss = None, o_takeProfit = None, o_relativeStopLoss = None,
     o_relativeTakeProfit = None, o_expirationTimestamp = None, o_timeInForce = None\<rparr>"

definition alien_deal :: deal where
  "alien_deal = \<lparr>d_dealId = 31, d_filledVolume = 200000, d_executionTimestamp = 5, d_executionPrice = 1, d_commission = 0,
     d_moneyDigits = 2, d_closedVolume = None\<rparr>"

definition alien_fill :: exec_event where
  "alien_fill = \<lparr>x_account = 1, x_executionType = ORDER_FILLED, x_position = None, x_order = alien_order, x_deal = Some alien_deal,
     x_errorCode = [], x_isServerEvent = False\<rparr>"

lemma alien_price: "0 < volume_to_units (d_filledVolume alien_deal)" "0 < d_executionPrice alien_deal"
  by (simp_all add: alien_deal_def volume_to_units_def fdiv_def VOLUME_SCALE_def fl_pos)

lemma foreign_fill_dropped_witness:
  "\<exists>es ds js. translate_exec_event (demo_floor silent) (ProtoOAExecutionEvent alien_fill) demo_ledger
       = (Inr None, demo_ledger\<lparr>g_effects := es, g_seen := ds, g_journal := js\<rparr>) \<and> audits_only js"
proof -
  have u: "unrelated (demo_floor silent) demo_ledger (x_order alien_fill)"
    by (simp add: unrelated_def row_of_order_def run_owned_position_entry_def demo_floor_def demo_ledger_def)
  have "journaled (demo_floor silent)" "g_loaded demo_ledger" "is_fill alien_fill"
    by (simp_all add: demo_floor_def demo_ledger_def is_fill_def alien_fill_def)
  from foreign_fill_dropped [OF this u] show ?thesis by (simp add: demo_ledger_def)
qed

lemma second_copy_ignored_witness:
  "\<exists>r L es. stream_turn (demo_floor silent) (\<lambda>_. False) (Message (ProtoOAExecutionEvent alien_fill)) demo_ledger = (r, L)
     \<and> translate_exec_event (demo_floor silent) (ProtoOAExecutionEvent alien_fill) L = (Inr None, L\<lparr>g_effects := es\<rparr>)"
proof -
  obtain r L where run: "stream_turn (demo_floor silent) (\<lambda>_. False) (Message (ProtoOAExecutionEvent alien_fill)) demo_ledger = (r, L)"
    by fastforce
  have x: "is_fill alien_fill" "x_deal alien_fill = Some alien_deal" by (simp_all add: is_fill_def alien_fill_def)
  have "stream_turns (demo_floor silent) (\<lambda>_. False) [] L = (Inr ([], False), L)" by simp
  from second_copy_ignored [OF run x alien_price _ this x] run show ?thesis by auto
qed

section \<open>A closing fill\<close>

text \<open>Steps that load nothing and report nothing.\<close>

definition unreported :: "(nat \<times> close_context \<times> string option) list \<Rightarrow> ledger \<Rightarrow> bool" where
  "unreported R L \<longleftrightarrow> g_loaded L \<and> g_reports L = R"

named_theorems unreported_rules \<open>operations that report nothing\<close>

lemma unreported_modify: "(\<And>L. unreported R L \<Longrightarrow> unreported R (f L)) \<Longrightarrow> keeps (unreported R) (modify f)"
  by (rule keeps_modify) blast

lemma unreported_post [unreported_rules]: "keeps (unreported R) (post X op)"
  unfolding post_def by (rule unreported_modify) (simp add: unreported_def)

lemma unreported_load [unreported_rules]: "keeps (unreported R) (load_close_evidence X)"
  by (simp add: keeps_def unreported_def loaded_again)

lemma unreported_small [unreported_rules]: "keeps (unreported R) drop_expired" "keeps (unreported R) (note_server_close X p)" "keeps (unreported R) (guard c)"
  "keeps (unreported R) (count_own_fill k oi q t)" "keeps (unreported R) (vacate_position p)" "keeps (unreported R) (hold_close_verdict v)"
  "keeps (unreported R) (note_share_unknown X p)" "keeps (unreported R) (note_share_ambiguous X p)" "keeps (unreported R) (try_exn y)"
  "keeps (unreported R) (mark_close_judged X ids gs)"
  unfolding drop_expired_def note_server_close_def guard_def count_own_fill_def vacate_position_def hold_close_verdict_def
    note_share_unknown_def note_share_ambiguous_def try_exn_def mark_close_judged_def Let_def
  by (intro flow unreported_rules unreported_modify; simp add: unreported_def)+

lemma unreported_claims [unreported_rules]: "keeps (unreported R) (flag_ambiguous_claim X k)" "keeps (unreported R) (record_claim X k c)"
  "keeps (unreported R) (own_close_wildcard p)" "keeps (unreported R) (live_share_effects p)" "keeps (unreported R) (net_bounds X p rows ms)"
  "keeps (unreported R) (bounds_as_of X p ms flying)"
  unfolding flag_ambiguous_claim_def record_claim_def own_close_wildcard_def live_share_effects_def net_bounds_def
    bounds_as_of_def
  by (intro flow unreported_rules unreported_modify; simp add: unreported_def)+

lemma unreported_close_rows [unreported_rules]: "keeps (unreported R) (close_rows X cs)"
proof (induction cs)
  case (Cons c cs)
  show ?case unfolding close_rows.simps by (intro flow unreported_rules Cons.IH)
qed (simp add: keeps_def)

lemma unreported_booking [unreported_rules]: "keeps (unreported R) (mark_position_closed X p)" "keeps (unreported R) (note_venue_close X x b q)"
  "keeps (unreported R) (book_own c b' q)" "keeps (unreported R) (book_other X x g b' v q)"
  unfolding mark_position_closed_def note_venue_close_def book_own_def book_other_def Let_def
  by (intro flow unreported_rules)+

text \<open>When a verdict adds a report: the close is another party's and took the share.\<close>

lemma verdict_reports:
  assumes "settle_verdict X x g bounds bk qty L = (r, L')" "g_loaded L" "g_reports L' \<noteq> g_reports L"
  shows "g = External \<and> bk_took bk \<and> VOLUME_TOL < bk_booked bk \<and> (bounds = None \<longrightarrow> g_hedging L)"
proof (rule ccontr)
  assume n: "\<not> ?thesis"
  let ?rest = "case bk_held bk of
           Some v \<Rightarrow> hold_close_verdict v
         | None \<Rightarrow> (if bk_ambiguous bk then note_share_ambiguous X (o_positionId (x_order x))
                    else if (case x_deal x of None \<Rightarrow> [] | Some d \<Rightarrow> [d_dealId d]) = [] then ret ()
                    else mark_close_judged X (case x_deal x of None \<Rightarrow> [] | Some d \<Rightarrow> [d_dealId d])
                      (map (\<lambda>i. (i, g)) (case x_deal x of None \<Rightarrow> [] | Some d \<Rightarrow> [d_dealId d])))"
  have rest: "keeps (unreported (g_reports L)) ?rest" by (intro flow unreported_rules)
  let ?m = "if bounds = None \<and> g = External \<and> \<not> g_hedging L then note_share_unknown X (o_positionId (x_order x)) else ret ()"
  have "settle_verdict X x g bounds bk qty L = seq ?m (\<lambda>_. ?rest) L"
  proof (cases "bounds = None \<and> g = External \<and> \<not> g_hedging L")
    case True
    then show ?thesis by (simp only: settle_verdict_def Let_def seq_def [of "asks _"] asks_def) simp
  next
    case False
    with n have t: "\<not> (g = External \<and> bk_took bk \<and> VOLUME_TOL < bk_booked bk)" by blast
    show ?thesis by (simp only: settle_verdict_def Let_def seq_def [of "asks _"] asks_def prod.case sum.case if_not_P [OF False] if_not_P [OF t])
  qed
  moreover have "unreported (g_reports L) (snd (seq ?m (\<lambda>_. ?rest) L))"
    by (rule keepsD [where m = "seq ?m (\<lambda>_. ?rest)"], intro flow unreported_rules rest) (simp add: unreported_def assms(2))
  ultimately have "unreported (g_reports L) (snd (settle_verdict X x g bounds bk qty L))" by (rule ssubst)
  then show False using assms(1,3) by (simp add: unreported_def)
qed

text \<open>What a successful run of a step establishes.\<close>

definition gives :: "(ledger \<Rightarrow> bool) \<Rightarrow> 'a act \<Rightarrow> ('a \<Rightarrow> ledger \<Rightarrow> bool) \<Rightarrow> bool" where
  "gives P m Q \<longleftrightarrow> (\<forall>L y L'. P L \<longrightarrow> m L = (Inr y, L') \<longrightarrow> Q y L')"

lemma givesI: "(\<And>L y L'. P L \<Longrightarrow> m L = (Inr y, L') \<Longrightarrow> Q y L') \<Longrightarrow> gives P m Q"
  by (simp add: gives_def)

lemma givesD: "gives P m Q \<Longrightarrow> m L = (Inr y, L') \<Longrightarrow> P L \<Longrightarrow> Q y L'"
  by (simp add: gives_def)

lemma seq_runs:
  assumes "seq m f s = (Inr y, t)"
  obtains a u where "m s = (Inr a, u)" "f a u = (Inr y, t)"
  using assms by (auto simp: seq_def split: prod.splits sum.splits)

lemma gives_seq:
  assumes "gives P m R" "\<And>x. gives (R x) (f x) Q"
  shows "gives P (seq m f) Q"
proof (rule givesI)
  fix L y L' assume p: "P L" and "seq m f L = (Inr y, L')"
  then obtain a M where m: "m L = (Inr a, M)" and f: "f a M = (Inr y, L')" by (elim seq_runs)
  show "Q y L'" by (rule givesD [OF assms(2) f givesD [OF assms(1) m p]])
qed

lemma gives_keep: "keeps P m \<Longrightarrow> (\<And>y. gives P (f y) Q) \<Longrightarrow> gives P (seq m f) Q"
  by (rule gives_seq [where R = "\<lambda>_. P"], rule givesI, metis keepsD snd_conv)

lemma gives_look:
  assumes "\<And>L. P L \<Longrightarrow> F (h L)" "\<And>y. F y \<Longrightarrow> gives P (f y) Q"
  shows "gives P (seq (asks h) f) Q"
proof (rule givesI)
  fix L y L' assume p: "P L" and "seq (asks h) f L = (Inr y, L')"
  then have "f (h L) L = (Inr y, L')" by (simp add: seq_def)
  then show "Q y L'" by (rule givesD [OF assms(2) [OF assms(1) [OF p]] _ p])
qed

lemma gives_ret: "(\<And>L. P L \<Longrightarrow> Q x L) \<Longrightarrow> gives P (ret x) Q"
  by (simp add: gives_def)

lemma gives_asks: "(\<And>L. P L \<Longrightarrow> Q (f L) L) \<Longrightarrow> gives P (asks f) Q"
  by (auto simp: gives_def asks_def)

lemma gives_keeps: "keeps P m \<Longrightarrow> gives P m (\<lambda>_. P)"
  by (rule givesI) (metis keepsD snd_conv)

lemma gives_both: "gives P m (\<lambda>_. P) \<Longrightarrow> (\<And>L x L'. m L = (Inr x, L') \<Longrightarrow> B x) \<Longrightarrow> gives P m (\<lambda>x L. B x \<and> P L)"
  by (simp add: gives_def)

lemma gives_pair: "(\<And>a b. gives (P (a, b)) (f a b) Q) \<Longrightarrow> gives (P v) (case v of (a, b) \<Rightarrow> f a b) Q"
  by (cases v) simp

lemma gives_weaken: "gives P m R \<Longrightarrow> (\<And>x L. R x L \<Longrightarrow> Q x L) \<Longrightarrow> gives P m Q"
  by (auto simp: gives_def)

lemma gives_fact: "(F \<Longrightarrow> gives P m Q) \<Longrightarrow> gives (\<lambda>L. F \<and> P L) m Q"
  by (auto simp: gives_def)

text \<open>The volume booked is part of the fill; of an own close it is within the share.\<close>

definition booked_right :: "close_origin \<Rightarrow> share_bounds option \<Rightarrow> rat \<Rightarrow> rat \<Rightarrow> booking \<Rightarrow> bool" where
  "booked_right g bounds v qty bk \<longleftrightarrow> bk_booked bk \<le> qty
     \<and> (case bounds of None \<Rightarrow> bk_took bk
        | Some b \<Rightarrow> (if g = Own then bk_booked bk \<le> sb_high b else bk_took bk = (VOLUME_TOL < max 0 (fsub (sb_low b) v))))"

lemma gives_if: "gives P m Q \<Longrightarrow> gives P n Q \<Longrightarrow> gives P (if c then m else n) Q"
  by simp

lemma gives_option: "gives P m Q \<Longrightarrow> (\<And>y. gives P (f y) Q) \<Longrightarrow> gives P (case v of None \<Rightarrow> m | Some y \<Rightarrow> f y) Q"
  by (cases v) simp_all

lemma gives_throw: "gives P (throw e) Q"
  by (simp add: gives_def)

lemma book_other_right:
  assumes "g \<noteq> Own"
  shows "gives (\<lambda>_. True) (book_other X x g b v qty) (\<lambda>bk _. booked_right g (Some b) v qty bk)"
proof -
  note any = gives_keep [where P = "\<lambda>_. True", OF keepsI [OF TrueI]]
  have pair: "gives (\<lambda>_. True) (f (fst v) (snd v)) Q \<Longrightarrow> gives (\<lambda>_. True) (case v of (a, b) \<Rightarrow> f a b) Q" for v f Q
    by (cases v) simp
  show ?thesis unfolding book_other_def Let_def
    by (intro any gives_if gives_option gives_throw pair gives_ret) (use assms in \<open>simp_all add: booked_right_def\<close>)
qed

lemma gives_booking:
  "gives (unreported R) (case bounds of
       None \<Rightarrow> ret \<lparr>bk_booked = qty, bk_low = None, bk_took = True, bk_ambiguous = False, bk_held = None\<rparr>
     | Some b \<Rightarrow> (if g = Own then book_own claimer b qty else book_other X x g b v qty))
     (\<lambda>bk L. booked_right g bounds v qty bk \<and> unreported R L)"
proof -
  let ?m = "case bounds of
       None \<Rightarrow> ret \<lparr>bk_booked = qty, bk_low = None, bk_took = True, bk_ambiguous = False, bk_held = None\<rparr>
     | Some b \<Rightarrow> (if g = Own then book_own claimer b qty else book_other X x g b v qty)"
  have k: "keeps (unreported R) ?m" by (intro flow unreported_rules)
  have "booked_right g bounds v qty bk" if "?m L = (Inr bk, L')" for L L' bk
  proof (cases bounds)
    case None
    then show ?thesis using that by (auto simp: booked_right_def)
  next
    case (Some b)
    show ?thesis
    proof (cases "g = Own")
      case True
      then show ?thesis using that Some
        by (auto simp: booked_right_def book_own_def asks_def split: option.splits)
    next
      case False
      then show ?thesis using that Some givesD [OF book_other_right [of g X x b v qty], of L bk L'] by simp
    qed
  qed
  then show ?thesis by (rule gives_both [OF gives_keeps [OF k]])
qed

text \<open>What the judgement of a closing fill rests on: the origin found and the bounds of the share before the deal.\<close>

definition judged_from :: "floor \<Rightarrow> exec_event \<Rightarrow> ledger \<Rightarrow> close_origin \<Rightarrow> ledger \<Rightarrow> share_bounds option \<Rightarrow> bool" where
  "judged_from X x L g M bounds \<longleftrightarrow> (\<exists>rec N. close_fill_origin X x L = (Inr (g, rec), M)
     \<and> bounds_as_of X (o_positionId (x_order x)) (executed_ms_of x) True M = (Inr bounds, N))"

definition right_verdict :: "exec_event \<Rightarrow> rat \<Rightarrow> close_origin \<Rightarrow> share_bounds option \<Rightarrow> bool \<Rightarrow> (rat \<times> close_origin \<times> nat option) option \<Rightarrow> bool" where
  "right_verdict x qty g bounds reported r \<longleftrightarrow>
     (reported \<longrightarrow> g = External \<and> (case bounds of None \<Rightarrow> True
        | Some b \<Rightarrow> VOLUME_TOL < max 0 (fsub (sb_low b) (venue_after (x_position x) (sb_side b)))))
     \<and> (case r of None \<Rightarrow> True
        | Some (q, g', h) \<Rightarrow> g' = g \<and> VOLUME_TOL < q \<and> q \<le> qty
            \<and> (case bounds of None \<Rightarrow> True | Some b \<Rightarrow> g = Own \<longrightarrow> q \<le> sb_high b))"

lemma gives_verdict:
  assumes "booked_right g bounds v qty bk" "\<And>b. bounds = Some b \<Longrightarrow> v = venue_after (x_position x) (sb_side b)"
  shows "gives (unreported R) (settle_verdict X x g bounds bk qty)
     (\<lambda>_ L. g_loaded L \<and> right_verdict x qty g bounds (g_reports L \<noteq> R) None)"
proof (rule givesI)
  fix L y L' assume p: "unreported R L" and run: "settle_verdict X x g bounds bk qty L = (Inr y, L')"
  have "keeps g_loaded (settle_verdict X x g bounds bk qty)"
    unfolding settle_verdict_def Let_def note_share_unknown_def note_share_ambiguous_def queue_external_close_def
      hold_close_verdict_def mark_close_judged_def post_def
    by (intro flow keeps_modify; simp)
  then have "g_loaded L'" using p run by (metis keepsD snd_conv unreported_def)
  moreover have "right_verdict x qty g bounds (g_reports L' \<noteq> R) None"
    using verdict_reports [OF run] p assms by (auto simp: right_verdict_def booked_right_def unreported_def split: option.splits)
  ultimately show "g_loaded L' \<and> right_verdict x qty g bounds (g_reports L' \<noteq> R) None" by blast
qed

lemma keeps_reported: "(\<And>R. keeps (unreported R) m) \<Longrightarrow> keeps (\<lambda>L. g_loaded L \<and> Q (g_reports L)) m"
  by (auto simp: keeps_def unreported_def)

lemma gives_rest:
  assumes "booked_right g bounds v qty bk" "judged_from X x L g M bounds"
  shows "gives (\<lambda>L'. g_loaded L' \<and> right_verdict x qty g bounds (g_reports L' \<noteq> R) None)
     (if bk_booked bk \<le> VOLUME_TOL
      then seq (post X (Row_op (Audit ''external_activity_ignored'' None))) (\<lambda>_.
           seq (if v' \<le> VOLUME_TOL then mark_position_closed X p else ret ()) (\<lambda>_. ret None))
      else ret (Some (bk_booked bk, g, held)))
     (\<lambda>r L'. \<exists>g M bounds. judged_from X x L g M bounds \<and> right_verdict x qty g bounds (g_reports L' \<noteq> R) r)"
proof -
  let ?P = "\<lambda>L'. g_loaded L' \<and> right_verdict x qty g bounds (g_reports L' \<noteq> R) None"
  have small: "keeps ?P (seq (post X (Row_op (Audit ''external_activity_ignored'' None))) (\<lambda>_.
           seq (if v' \<le> VOLUME_TOL then mark_position_closed X p else ret ()) (\<lambda>_. ret None)))"
    by (rule keeps_reported [where Q = "\<lambda>rs. right_verdict x qty g bounds (rs \<noteq> R) None"]) (intro flow unreported_rules)
  show ?thesis
  proof (cases "bk_booked bk \<le> VOLUME_TOL")
    case True
    have none: "r = None" if "seq (post X (Row_op (Audit ''external_activity_ignored'' None))) (\<lambda>_.
           seq (if v' \<le> VOLUME_TOL then mark_position_closed X p else ret ()) (\<lambda>_. ret None)) A = (Inr r, B)" for A B r
      using that by (elim seq_runs) simp
    show ?thesis unfolding if_P [OF True]
      by (rule gives_weaken [OF gives_both [OF gives_keeps [OF small] none]]) (use assms(2) in blast)+
  next
    case False
    have "right_verdict x qty g bounds (g_reports A \<noteq> R) (Some (bk_booked bk, g, held))" if "?P A" for A
      using that False assms(1) by (auto simp: right_verdict_def booked_right_def split: option.splits if_splits)
    then show ?thesis unfolding if_not_P [OF False] using assms(2) by (intro gives_ret) blast
  qed
qed

lemma judge_gives:
  "gives (\<lambda>M. M = L \<and> unreported R M) (judge_close_fill X x qty e)
     (\<lambda>r L'. \<exists>g M bounds. judged_from X x L g M bounds \<and> right_verdict x qty g bounds (g_reports L' \<noteq> R) r)"
proof -
  let ?p = "o_positionId (x_order x)" and ?ms = "executed_ms_of x"
  let ?Q = "\<lambda>r L'. \<exists>g M bounds. judged_from X x L g M bounds \<and> right_verdict x qty g bounds (g_reports L' \<noteq> R) r"
  have k: "keeps (unreported R) (close_fill_origin X x)"
    unfolding close_fill_origin_def own_close_by_order_def Let_def by (intro flow unreported_rules unreported_modify; simp add: unreported_def)
  have origin: "gives (\<lambda>M. M = L \<and> unreported R M) (close_fill_origin X x)
      (\<lambda>v M. close_fill_origin X x L = (Inr v, M) \<and> unreported R M)"
    by (rule givesI) (metis k keepsD snd_conv)
  have bounds: "gives (\<lambda>M. close_fill_origin X x L = (Inr (g, rec), M) \<and> unreported R M) (bounds_as_of X ?p ?ms True)
      (\<lambda>b N. (\<exists>M. judged_from X x L g M b) \<and> unreported R N)" for g rec
  proof (rule givesI)
    fix M b N assume "close_fill_origin X x L = (Inr (g, rec), M) \<and> unreported R M" "bounds_as_of X ?p ?ms True M = (Inr b, N)"
    then show "(\<exists>M. judged_from X x L g M b) \<and> unreported R N"
      using keepsD [of "unreported R" "bounds_as_of X ?p ?ms True" M] unreported_claims(6) by (auto simp: judged_from_def)
  qed
  note keep = gives_keep [where P = "unreported R"]
  show ?thesis
    unfolding judge_close_fill_def Let_def
    apply (rule gives_seq [OF origin], rule gives_pair)
    subgoal for g rec
      apply (rule gives_keep [OF keeps_asks], rule gives_seq [OF bounds], rule gives_fact, elim exE)
      subgoal for claimer bounds M
        apply (rule gives_look [where F = "\<lambda>v. \<forall>b. bounds = Some b \<longrightarrow> v = venue_after (x_position x) (sb_side b)"], simp)
        subgoal for v
          apply (rule keep, intro flow unreported_rules)
          apply (rule keep, intro flow unreported_rules)
          apply (rule gives_seq [OF gives_booking], rule gives_fact)
          subgoal for bk
            apply (rule keep, intro flow unreported_rules)
            apply (rule keep, intro flow unreported_rules)
            apply (rule gives_seq [OF gives_verdict], assumption, blast)
            by (rule gives_rest; assumption)
          done
        done
      done
    done
qed

lemma low_sided: "sb_side (bounds_of_net lo hi flying) = None \<Longrightarrow> sb_low (bounds_of_net lo hi flying) = 0"
  by (auto simp: bounds_of_net_def split: prod.splits if_splits)

lemma tol_dbl: "dbl VOLUME_TOL" "0 < VOLUME_TOL"
  by (simp_all add: VOLUME_TOL_def dbl_def fl_idem fl_pos)

lemma short_of:
  assumes "VOLUME_TOL < max 0 (fsub a b)"
  shows "b < a" "0 \<le> b \<Longrightarrow> VOLUME_TOL < a"
proof -
  have t: "VOLUME_TOL < fl (a - b)" using assms tol_dbl(2) by (auto simp: fsub_def)
  then show "b < a" using fl_mono [of "a - b" 0] tol_dbl(2) by (cases "b < a") auto
  show "VOLUME_TOL < a" if "0 \<le> b"
    using t that fl_mono [of "a - b" a] fl_mono [of a VOLUME_TOL] tol_dbl by (cases "VOLUME_TOL < a") (auto simp: dbl_def)
qed

lemma venue_after_pos: "(\<And>p. v = Some p \<Longrightarrow> 0 \<le> td_volume (p_tradeData p)) \<Longrightarrow> 0 \<le> venue_after v s"
  using fl_mono [of 0 "of_int (td_volume (p_tradeData (the v))) / of_int VOLUME_SCALE"]
  by (auto simp: venue_after_def volume_to_units_def fdiv_def VOLUME_SCALE_def split: option.splits)


text \<open>Another client closes position 7 entirely while the bot holds all of it.\<close>

definition steady_ledger :: ledger where
  "steady_ledger = demo_ledger\<lparr>g_effects := []\<rparr>"

definition alien_close :: exec_event where
  "alien_close = alien_fill\<lparr>x_order := alien_order\<lparr>o_closingOrder := True\<rparr>\<rparr>"

lemma units: "demo_units = 2000"
  using fl_exact [of 2000 2000 0] by (simp add: demo_units_def volume_to_units_def fdiv_def VOLUME_SCALE_def)


end
