(* ===== verification/Deals.thy ===== *)
theory Deals
  imports Closes Account_State
begin

text \<open>
  The deal history behind the reconcile passes and crash recovery (\<open>_DealWalk\<close> and \<open>_find_fill_deal\<close> of
  \<open>reconcile.py\<close>): the pages of a time window are read backwards over as many calls as it takes, what they show is
  kept per order, and a fully read window is summed up as the evidence of what the order filled and what closed.
\<close>

section \<open>Rows of the deal history\<close>

datatype deal_status = DEAL_FILLED | DEAL_PARTIALLY_FILLED | DEAL_REJECTED | DEAL_INTERNALLY_REJECTED | DEAL_ERROR | DEAL_MISSED

record history_deal =
  h_dealId :: int
  h_orderId :: int
  h_positionId :: int
  h_filledVolume :: int
  h_createTimestamp :: int
  h_executionTimestamp :: int
  h_dealStatus :: deal_status
  h_tradeSide :: trade_side
  h_executionPrice :: rat
  h_commission :: int
  h_moneyDigits :: nat
  h_closedVolume :: "int option"

definition deal_ms :: "history_deal \<Rightarrow> int" where
  "deal_ms d = (if h_executionTimestamp d \<noteq> 0 then h_executionTimestamp d else h_createTimestamp d)"

definition executed_deal :: "deal_status \<Rightarrow> bool" where
  "executed_deal s \<longleftrightarrow> s = DEAL_FILLED \<or> s = DEAL_PARTIALLY_FILLED"

section \<open>The walk\<close>

record closing =
  cl_position :: int
  cl_volume :: int
  cl_order :: int
  cl_ms :: int

text \<open>The dictionaries keep their keys in the order of insertion. A row of \<open>deals\<close> is a \<open>position_deal\<close> with the
  position it is on; its closed volume is cut to the filled one only in the result.\<close>

record deal_walk =
  wk_from :: int
  wk_high :: int
  wk_segments :: "(int \<times> int) list"
  wk_fills :: "(int \<times> history_deal) list"
  wk_closes :: "(int \<times> closing) list"
  wk_deals :: "(int \<times> int \<times> position_deal) list"
  wk_last :: "rat option"

definition fresh_walk :: "int \<Rightarrow> deal_walk" where
  "fresh_walk from_ms = \<lparr>wk_from = from_ms, wk_high = from_ms, wk_segments = [], wk_fills = [], wk_closes = [], wk_deals = [], wk_last = None\<rparr>"

definition note_closing :: "history_deal \<Rightarrow> deal_walk \<Rightarrow> deal_walk" where
  "note_closing d w =
     (case h_closedVolume d of
        None \<Rightarrow> w
      | Some v \<Rightarrow> (if 0 < v then w\<lparr>wk_closes := AList.update (h_dealId d)
                       \<lparr>cl_position = h_positionId d, cl_volume = v, cl_order = h_orderId d, cl_ms = deal_ms d\<rparr> (wk_closes w)\<rparr>
                   else w))"

definition note_executed :: "history_deal \<Rightarrow> deal_walk \<Rightarrow> deal_walk" where
  "note_executed d w =
     (if 0 < h_filledVolume d \<and> executed_deal (h_dealStatus d)
      then w\<lparr>wk_deals := AList.update (h_dealId d)
             (h_positionId d, \<lparr>pd_deal_id = h_dealId d, pd_order_id = h_orderId d, pd_executed_ms = deal_ms d,
               pd_filled = h_filledVolume d, pd_closed = or_else 0 (h_closedVolume d), pd_side = side_of (h_tradeSide d),
               pd_price = h_executionPrice d, pd_fee = money_value (h_commission d) (h_moneyDigits d)\<rparr>) (wk_deals w)\<rparr>
      else w)"

definition note_fill :: "int \<Rightarrow> history_deal \<Rightarrow> deal_walk \<Rightarrow> deal_walk" where
  "note_fill order_id d w =
     (if h_orderId d = order_id \<and> h_dealStatus d = DEAL_FILLED
      then w\<lparr>wk_fills := AList.update (h_dealId d) d (wk_fills w)\<rparr> else w)"

definition ingest :: "int \<Rightarrow> history_deal \<Rightarrow> deal_walk \<Rightarrow> deal_walk" where
  "ingest order_id d w = note_fill order_id d (note_executed d (note_closing d w))"

section \<open>The evidence\<close>

record deal_bridge =
  br_deal :: "history_deal option"
  br_filled :: int
  br_avg :: "rat option"
  br_conclusive :: bool
  br_closed :: int
  br_deal_ids :: "int list"
  br_closing_ids :: "int list"
  br_fills :: "(int \<times> int \<times> int \<times> rat \<times> rat) list"
  br_position_deals :: "position_deal list"

definition no_bridge :: deal_bridge where
  "no_bridge = \<lparr>br_deal = None, br_filled = 0, br_avg = None, br_conclusive = False, br_closed = 0, br_deal_ids = [],
     br_closing_ids = [], br_fills = [], br_position_deals = []\<rparr>"

text \<open>Sorted by time, then by deal id: both sorts are stable.\<close>

definition fills_sorted :: "deal_walk \<Rightarrow> history_deal list" where
  "fills_sorted w = sort_key deal_ms (sort_key h_dealId (map snd (wk_fills w)))"

definition average_price :: "history_deal list \<Rightarrow> int \<Rightarrow> rat option" where
  "average_price fills cents =
     (if cents = 0 then None
      else Some (fdiv (foldl (\<lambda>s d. fadd s (fmul (h_executionPrice d) (of_int (h_filledVolume d)))) 0 fills) (of_int cents)))"

definition walk_result :: "int option \<Rightarrow> deal_walk \<Rightarrow> deal_bridge" where
  "walk_result close_position_id w =
     (let fills = fills_sorted w; cents = sum_list (map h_filledVolume fills);
          target = (case find (\<lambda>d. h_positionId d \<noteq> 0) (rev fills) of Some d \<Rightarrow> Some (h_positionId d) | None \<Rightarrow> close_position_id);
          closings = filter (\<lambda>(i, c). target = Some (cl_position c)) (wk_closes w)
      in \<lparr>br_deal = (if fills = [] then None else Some (last fills)), br_filled = cents, br_avg = average_price fills cents,
          br_conclusive = True, br_closed = sum_list (map (\<lambda>(i, c). cl_volume c) closings),
          br_deal_ids = map h_dealId (rev fills), br_closing_ids = map fst closings,
          br_fills = map (\<lambda>d. (deal_ms d, h_dealId d, h_filledVolume d, h_executionPrice d,
                              money_value (h_commission d) (h_moneyDigits d))) fills,
          br_position_deals = sort_key pd_executed_ms (sort_key pd_deal_id
            (map (\<lambda>(i, p, d). d\<lparr>pd_closed := min (pd_closed d) (pd_filled d)\<rparr>)
              (filter (\<lambda>(i, p, d). target = Some p) (wk_deals w))))\<rparr>)"

section \<open>Reading the history\<close>

text \<open>The venue's history and the time that passes: the answer to the \<open>k\<close>-th request, asked at a wall time in ms for
  a window (a time-out is an error of it), and what the other tasks and the clock do while it is waited for. A page
  holds only deals of the window asked for, as the protocol documents.\<close>

record archive =
  deal_page :: "nat \<Rightarrow> int \<Rightarrow> int \<Rightarrow> int \<Rightarrow> exn + history_deal list \<times> bool"
  order_page :: "nat \<Rightarrow> int \<Rightarrow> int \<Rightarrow> int \<Rightarrow> exn + order list \<times> bool"
  details_page :: "nat \<Rightarrow> int \<Rightarrow> exn + order"
  snapshot_page :: "nat \<Rightarrow> exn + position list \<times> order list"
  cancel_sent :: "nat \<Rightarrow> int \<Rightarrow> exn + unit"
  meanwhile :: "nat \<Rightarrow> ledger \<Rightarrow> ledger"

record trail =
  led :: ledger
  walks :: "int \<rightharpoonup> deal_walk"
  asked :: nat
  wired :: bool

type_synonym 'a job = "(trail, exn, 'a) eff"

definition waited :: "archive \<Rightarrow> trail \<Rightarrow> trail" where
  "waited V s = s\<lparr>asked := Suc (asked s), led := meanwhile V (asked s) (led s)\<rparr>"

definition in_window :: "int \<Rightarrow> int \<Rightarrow> history_deal list \<Rightarrow> history_deal list" where
  "in_window a b ds = filter (\<lambda>d. a \<le> deal_ms d \<and> deal_ms d \<le> b) ds"

definition SINCE_ANCHOR_SKEW_MS :: int where
  "SINCE_ANCHOR_SKEW_MS = 60000"

text \<open>The walk a call resumes: a walk anchored later starts over, and the window is extended to now.\<close>

definition open_walk :: "int \<Rightarrow> deal_walk option \<Rightarrow> deal_walk" where
  "open_walk from_ms w =
     (case w of None \<Rightarrow> fresh_walk from_ms | Some w \<Rightarrow> if from_ms < wk_from w then fresh_walk from_ms else w)"

definition extend_walk :: "int \<Rightarrow> deal_walk \<Rightarrow> deal_walk" where
  "extend_walk now_ms w =
     (if wk_high w < now_ms
      then w\<lparr>wk_segments := (if wk_segments w \<noteq> [] \<and> snd (last (wk_segments w)) = wk_high w
                then butlast (wk_segments w) @ [(fst (last (wk_segments w)), now_ms)]
                else wk_segments w @ [(max (wk_from w) (wk_high w - SINCE_ANCHOR_SKEW_MS), now_ms)]),
             wk_high := now_ms\<rparr>
      else w)"

text \<open>What one page leaves owed of its segment.\<close>

definition owed_after :: "int \<Rightarrow> int \<Rightarrow> history_deal list \<Rightarrow> bool \<Rightarrow> (int \<times> int) list" where
  "owed_after a b ds has_more =
     (if \<not> has_more \<or> ds = [] then []
      else (let oldest = Min (deal_ms ` set ds) in if oldest \<le> a then [] else [(a, oldest - 1)]))"

definition take_page :: "int \<Rightarrow> history_deal list \<Rightarrow> bool \<Rightarrow> deal_walk \<Rightarrow> deal_walk" where
  "take_page order_id ds has_more w =
     (case wk_segments w of
        [] \<Rightarrow> w
      | (a, b) # rest \<Rightarrow> (foldl (\<lambda>w d. ingest order_id d w) w ds)\<lparr>wk_segments := owed_after a b ds has_more @ rest\<rparr>)"

definition past_deadline :: "rat option \<Rightarrow> ledger \<Rightarrow> bool" where
  "past_deadline until L \<longleftrightarrow> (case until of None \<Rightarrow> False | Some t \<Rightarrow> fsub t (g_mono L) \<le> 0)"

definition owed_ms :: "(int \<times> int) list \<Rightarrow> nat" where
  "owed_ms segs = sum_list (map (\<lambda>(a, b). Suc (nat (b - a + 1))) segs)"

lemma owed_page: "owed_ms (owed_after a b (in_window a b ds) has_more @ rest) < owed_ms ((a, b) # rest)"
proof (cases "\<not> has_more \<or> in_window a b ds = []")
  case False
  let ?S = "deal_ms ` set (in_window a b ds)"
  have "finite ?S" "?S \<noteq> {}" using False by auto
  then have "Min ?S \<in> ?S" by (rule Min_in)
  then have "a \<le> Min ?S \<and> Min ?S \<le> b" by (auto simp: in_window_def)
  then show ?thesis using False by (auto simp: owed_after_def owed_ms_def Let_def)
qed (auto simp: owed_after_def owed_ms_def)

text \<open>The pages still owed, oldest segment first: whether all were read, or the deadline passed. An error ends the
  reading; the walk keeps what it has.\<close>

function walk_pages :: "archive \<Rightarrow> int \<Rightarrow> rat option \<Rightarrow> deal_walk \<Rightarrow> trail \<Rightarrow> (exn + bool) \<times> deal_walk \<times> trail" where
  "walk_pages V order_id until w s =
     (case wk_segments w of
        [] \<Rightarrow> (Inr True, w, s)
      | (a, b) # rest \<Rightarrow>
          (if past_deadline until (led s) then (Inr False, w, s)
           else (let w' = w\<lparr>wk_last := Some (g_mono (led s))\<rparr>
                 in case deal_page V (asked s) (wall_ms (led s)) a b of
                      Inl e \<Rightarrow> (Inl e, w', waited V s)
                    | Inr (ds, has_more) \<Rightarrow> walk_pages V order_id until (take_page order_id (in_window a b ds) has_more w') (waited V s))))"
  by pat_completeness auto

termination
proof (relation "measure (\<lambda>(V, oid, dl, w, s). owed_ms (wk_segments w))", goal_cases)
  case (2 V order_id until w s p rest a b w' pg ds has_more)
  then show ?case using owed_page [of a b ds has_more rest] by (cases p) (auto simp: take_page_def)
qed simp

definition find_fill_deal :: "archive \<Rightarrow> int \<Rightarrow> int \<Rightarrow> int option \<Rightarrow> rat option \<Rightarrow> deal_bridge job" where
  "find_fill_deal V order_id from_ms close_position_id until s =
     (if \<not> wired s then (Inr no_bridge, s)
      else (let w = extend_walk (wall_ms (led s)) (open_walk from_ms (walks s order_id))
            in case walk_pages V order_id until w s of
                 (r, w', s') \<Rightarrow> (Inr (if r = Inr True then walk_result close_position_id w' else no_bridge),
                                 s'\<lparr>walks := (walks s')(order_id \<mapsto> w')\<rparr>)))"

end
