(* ===== verification/Deals_Properties.thy ===== *)
theory Deals_Properties
  imports Deals Share_Properties
begin

text \<open>
  A walk over the deal history misses nothing: whatever calls were cut short, failed or resumed before, evidence
  called conclusive holds every deal of the order's window.
\<close>

section \<open>What a deal leaves in a walk\<close>

definition closing_of :: "history_deal \<Rightarrow> closing" where
  "closing_of h = \<lparr>cl_position = h_positionId h, cl_volume = or_else 0 (h_closedVolume h), cl_order = h_orderId h, cl_ms = deal_ms h\<rparr>"

definition closes_volume :: "history_deal \<Rightarrow> bool" where
  "closes_volume h \<longleftrightarrow> 0 < or_else 0 (h_closedVolume h)"

definition fills_order :: "int \<Rightarrow> history_deal \<Rightarrow> bool" where
  "fills_order oid h \<longleftrightarrow> h_orderId h = oid \<and> h_dealStatus h = DEAL_FILLED"

definition held_in :: "int \<Rightarrow> deal_walk \<Rightarrow> history_deal \<Rightarrow> bool" where
  "held_in oid w h \<longleftrightarrow> (fills_order oid h \<longrightarrow> map_of (wk_fills w) (h_dealId h) = Some h)
     \<and> (closes_volume h \<longrightarrow> map_of (wk_closes w) (h_dealId h) = Some (closing_of h))"

text \<open>A walk holds nothing but deals of the history, each under its id.\<close>

definition sound_walk :: "history_deal set \<Rightarrow> int \<Rightarrow> deal_walk \<Rightarrow> bool" where
  "sound_walk H oid w \<longleftrightarrow>
     distinct (map fst (wk_fills w)) \<and> (\<forall>(i, h) \<in> set (wk_fills w). h \<in> H \<and> h_dealId h = i \<and> fills_order oid h)
     \<and> distinct (map fst (wk_closes w))
     \<and> (\<forall>(i, c) \<in> set (wk_closes w). \<exists>h \<in> H. h_dealId h = i \<and> closes_volume h \<and> c = closing_of h)"

lemma ingest_fields [simp]:
  "wk_from (ingest oid d w) = wk_from w" "wk_high (ingest oid d w) = wk_high w" "wk_segments (ingest oid d w) = wk_segments w"
  by (simp_all add: ingest_def note_fill_def note_executed_def note_closing_def split: option.split)

lemma ingest_fills: "wk_fills (ingest oid d w) = (if fills_order oid d then AList.update (h_dealId d) d (wk_fills w) else wk_fills w)"
  by (simp add: ingest_def note_fill_def note_executed_def note_closing_def fills_order_def split: option.split)

lemma ingest_closes: "wk_closes (ingest oid d w)
    = (if closes_volume d then AList.update (h_dealId d) (closing_of d) (wk_closes w) else wk_closes w)"
  by (cases "h_closedVolume d")
     (simp_all add: ingest_def note_fill_def note_executed_def note_closing_def closes_volume_def closing_of_def or_else_def)

lemma ingest_held:
  assumes "inj_on h_dealId H" "d \<in> H" "h \<in> H" "held_in oid w h \<or> h = d"
  shows "held_in oid (ingest oid d w) h"
proof (cases "h = d")
  case True
  then show ?thesis by (simp add: held_in_def ingest_fills ingest_closes update_conv')
next
  case False
  then have "h_dealId h \<noteq> h_dealId d" using assms(1-3) by (auto dest: inj_onD)
  then show ?thesis using assms(4) False by (simp add: held_in_def ingest_fills ingest_closes update_conv')
qed

lemma update_set: "(k, v) \<in> set (AList.update i x al) \<Longrightarrow> (k, v) \<in> set al \<or> (k = i \<and> v = x)"
proof (induction al)
  case (Cons a al)
  then show ?case by (cases a) (auto split: if_split_asm)
qed simp

lemma update_all:
  assumes "\<forall>(i, x) \<in> set al. P i x" "P k v"
  shows "\<forall>(i, x) \<in> set (AList.update k v al). P i x"
  using assms update_set [of _ _ k v al] by (auto split: prod.splits)

lemma ingest_sound:
  assumes "sound_walk H oid w" "d \<in> H"
  shows "sound_walk H oid (ingest oid d w)"
proof -
  note s = assms(1) [unfolded sound_walk_def]
  have "distinct (map fst (wk_fills (ingest oid d w)))" "distinct (map fst (wk_closes (ingest oid d w)))"
    using s by (simp_all add: ingest_fills ingest_closes distinct_update)
  moreover have "\<forall>(i, h) \<in> set (wk_fills (ingest oid d w)). h \<in> H \<and> h_dealId h = i \<and> fills_order oid h"
    unfolding ingest_fills using s assms(2) by (cases "fills_order oid d") (simp_all, intro update_all, simp_all)
  moreover have "\<forall>(i, c) \<in> set (wk_closes (ingest oid d w)). \<exists>h \<in> H. h_dealId h = i \<and> closes_volume h \<and> c = closing_of h"
    unfolding ingest_closes using s assms(2) by (cases "closes_volume d") (simp_all, intro update_all, blast+)
  ultimately show ?thesis by (simp add: sound_walk_def)
qed

abbreviation ingested :: "int \<Rightarrow> deal_walk \<Rightarrow> history_deal list \<Rightarrow> deal_walk" where
  "ingested oid w ds \<equiv> foldl (\<lambda>w d. ingest oid d w) w ds"

lemma ingested_fields [simp]: "wk_from (ingested oid w ds) = wk_from w" "wk_high (ingested oid w ds) = wk_high w"
  by (induction ds arbitrary: w) simp_all

lemma ingested_sound: "sound_walk H oid w \<Longrightarrow> set ds \<subseteq> H \<Longrightarrow> sound_walk H oid (ingested oid w ds)"
  by (induction ds arbitrary: w) (simp_all add: ingest_sound)

lemma ingested_held:
  assumes "inj_on h_dealId H" "h \<in> H"
  shows "set ds \<subseteq> H \<Longrightarrow> held_in oid w h \<or> h \<in> set ds \<Longrightarrow> held_in oid (ingested oid w ds) h"
proof (induction ds arbitrary: w)
  case (Cons d ds)
  then have d: "d \<in> H" "set ds \<subseteq> H" by simp_all
  have "held_in oid (ingest oid d w) h \<or> h \<in> set ds" using Cons.prems(2) ingest_held [OF assms(1) d(1) assms(2)] by auto
  then show ?case using Cons.IH [OF d(2)] by simp
qed simp

section \<open>Coverage\<close>

text \<open>Every deal old enough for the venue to show it is held or in a segment still owed.\<close>

definition covers :: "history_deal set \<Rightarrow> int \<Rightarrow> deal_walk \<Rightarrow> bool" where
  "covers H oid w \<longleftrightarrow> (\<forall>h \<in> H. wk_from w \<le> deal_ms h \<and> deal_ms h \<le> wk_high w - SINCE_ANCHOR_SKEW_MS \<longrightarrow>
       held_in oid w h \<or> (\<exists>(a, b) \<in> set (wk_segments w). a \<le> deal_ms h \<and> deal_ms h \<le> b))"

definition anchored_low :: "deal_walk \<Rightarrow> bool" where
  "anchored_low w \<longleftrightarrow> (\<forall>(a, b) \<in> set (wk_segments w). a \<le> max (wk_from w) (wk_high w - SINCE_ANCHOR_SKEW_MS))"

definition good_walk :: "history_deal set \<Rightarrow> int \<Rightarrow> deal_walk \<Rightarrow> bool" where
  "good_walk H oid w \<longleftrightarrow> sound_walk H oid w \<and> covers H oid w \<and> anchored_low w"

lemma fresh_good: "good_walk H oid (fresh_walk from_ms)"
  by (simp add: good_walk_def sound_walk_def covers_def anchored_low_def fresh_walk_def SINCE_ANCHOR_SKEW_MS_def, auto)

lemma held_segments [simp]: "held_in oid (w\<lparr>wk_segments := xs, wk_high := n\<rparr>) h = held_in oid w h"
  "held_in oid (w\<lparr>wk_segments := xs\<rparr>) h = held_in oid w h" "held_in oid (w\<lparr>wk_last := l\<rparr>) h = held_in oid w h"
  by (simp_all add: held_in_def)

lemma sound_segments [simp]: "sound_walk H oid (w\<lparr>wk_segments := xs, wk_high := n\<rparr>) = sound_walk H oid w"
  "sound_walk H oid (w\<lparr>wk_segments := xs\<rparr>) = sound_walk H oid w" "sound_walk H oid (w\<lparr>wk_last := l\<rparr>) = sound_walk H oid w"
  by (simp_all add: sound_walk_def)

lemma extend_good:
  assumes "good_walk H oid w"
  shows "good_walk H oid (extend_walk t w)"
proof (cases "wk_high w < t")
  case False
  then show ?thesis using assms by (simp add: extend_walk_def)
next
  case up: True
  let ?S = "SINCE_ANCHOR_SKEW_MS"
  note g = assms [unfolded good_walk_def covers_def anchored_low_def]
  show ?thesis
  proof (cases "wk_segments w \<noteq> [] \<and> snd (last (wk_segments w)) = wk_high w")
    case True
    then obtain ss a where s: "wk_segments w = ss @ [(a, wk_high w)]" by (metis append_butlast_last_id prod.collapse)
    have x: "extend_walk t w = w\<lparr>wk_segments := ss @ [(a, t)], wk_high := t\<rparr>"
      using up by (simp add: extend_walk_def s)
    have a: "a \<le> max (wk_from w) (wk_high w - ?S)" using g s by simp
    have "held_in oid w h \<or> (\<exists>(a, b) \<in> set (ss @ [(a, t)]). a \<le> deal_ms h \<and> deal_ms h \<le> b)"
      if "h \<in> H" "wk_from w \<le> deal_ms h" "deal_ms h \<le> t - ?S" for h
    proof (cases "deal_ms h \<le> wk_high w - ?S")
      case True
      then have "held_in oid w h \<or> (\<exists>(a, b) \<in> set (ss @ [(a, wk_high w)]). a \<le> deal_ms h \<and> deal_ms h \<le> b)" using g that s by auto
      then show ?thesis using up by auto
    next
      case False
      then show ?thesis using a that by (auto simp: SINCE_ANCHOR_SKEW_MS_def)
    qed
    then show ?thesis using g s up a by (auto simp: x good_walk_def covers_def anchored_low_def)
  next
    case False
    let ?a = "max (wk_from w) (wk_high w - ?S)"
    have x: "extend_walk t w = w\<lparr>wk_segments := wk_segments w @ [(?a, t)], wk_high := t\<rparr>"
      using up False by (auto simp: extend_walk_def)
    have "held_in oid w h \<or> (\<exists>(a, b) \<in> set (wk_segments w @ [(?a, t)]). a \<le> deal_ms h \<and> deal_ms h \<le> b)"
      if "h \<in> H" "wk_from w \<le> deal_ms h" "deal_ms h \<le> t - ?S" for h
    proof (cases "deal_ms h \<le> wk_high w - ?S")
      case True
      then have "held_in oid w h \<or> (\<exists>(a, b) \<in> set (wk_segments w). a \<le> deal_ms h \<and> deal_ms h \<le> b)" using g that by blast
      then show ?thesis by auto
    next
      case False
      then show ?thesis using that by (auto simp: SINCE_ANCHOR_SKEW_MS_def)
    qed
    then show ?thesis using g up by (auto simp: x good_walk_def covers_def anchored_low_def)
  qed
qed

section \<open>Pages\<close>

text \<open>The venue keeps the deals \<open>H\<close>, each under its own id. A page holds deals of the window asked for; it may lack
  those executed within the skew before the request (not indexed yet), and, when it says there are more, those older
  than its oldest. A page is not cut between deals of one millisecond.\<close>

definition files :: "archive \<Rightarrow> history_deal set \<Rightarrow> bool" where
  "files V H \<longleftrightarrow> inj_on h_dealId H \<and> (\<forall>k t a b ds has_more. deal_page V k t a b = Inr (ds, has_more) \<longrightarrow>
     set ds \<subseteq> H \<and> (\<forall>h \<in> H. a \<le> deal_ms h \<and> deal_ms h \<le> b \<and> deal_ms h \<le> t - SINCE_ANCHOR_SKEW_MS
       \<and> (has_more \<and> in_window a b ds \<noteq> [] \<longrightarrow> Min (deal_ms ` set (in_window a b ds)) \<le> deal_ms h) \<longrightarrow> h \<in> set ds))"

text \<open>The clock goes forward while a request is waited for.\<close>

definition clock_runs :: "archive \<Rightarrow> bool" where
  "clock_runs V \<longleftrightarrow> (\<forall>k L. wall_ms L \<le> wall_ms (meanwhile V k L))"

lemma in_window_set: "set (in_window a b ds) = {d \<in> set ds. a \<le> deal_ms d \<and> deal_ms d \<le> b}"
  by (auto simp: in_window_def)

lemma page_good:
  assumes v: "files V H" "deal_page V k t a b = Inr (ds, has_more)" and w: "good_walk H oid w" "wk_segments w = (a, b) # rest"
    and t: "wk_high w \<le> max (wk_from w) t"
  shows "good_walk H oid (take_page oid (in_window a b ds) has_more w)"
proof -
  let ?ds = "in_window a b ds" and ?S = "SINCE_ANCHOR_SKEW_MS"
  let ?w = "ingested oid w ?ds" and ?segs = "owed_after a b ?ds has_more @ rest"
  have inj: "inj_on h_dealId H" and sub: "set ?ds \<subseteq> H"
    and all: "\<And>h. h \<in> H \<Longrightarrow> a \<le> deal_ms h \<Longrightarrow> deal_ms h \<le> b \<Longrightarrow> deal_ms h \<le> t - ?S
      \<Longrightarrow> (has_more \<and> ?ds \<noteq> [] \<Longrightarrow> Min (deal_ms ` set ?ds) \<le> deal_ms h) \<Longrightarrow> h \<in> set ?ds"
    using v in_window_set unfolding files_def by blast+
  note g = w(1) [unfolded good_walk_def covers_def anchored_low_def]
  have x: "take_page oid ?ds has_more w = ?w\<lparr>wk_segments := ?segs\<rparr>" by (simp add: take_page_def w(2))
  have cov: "held_in oid ?w h \<or> (\<exists>(a, b) \<in> set ?segs. a \<le> deal_ms h \<and> deal_ms h \<le> b)"
    if h: "h \<in> H" "wk_from w \<le> deal_ms h" "deal_ms h \<le> wk_high w - ?S" for h
  proof -
    have old: "deal_ms h \<le> t - ?S" using h t by (auto simp: SINCE_ANCHOR_SKEW_MS_def)
    have "held_in oid w h \<or> (a \<le> deal_ms h \<and> deal_ms h \<le> b) \<or> (\<exists>(a, b) \<in> set rest. a \<le> deal_ms h \<and> deal_ms h \<le> b)"
      using g h w(2) by auto
    then consider "held_in oid w h" | "a \<le> deal_ms h" "deal_ms h \<le> b" | "\<exists>(a, b) \<in> set rest. a \<le> deal_ms h \<and> deal_ms h \<le> b" by blast
    then show ?thesis
    proof cases
      case 1
      then show ?thesis using ingested_held [OF inj h(1) sub] by blast
    next
      case 2
      show ?thesis
      proof (cases "h \<in> set ?ds")
        case True
        then show ?thesis using ingested_held [OF inj h(1) sub] by blast
      next
        case False
        then have "has_more \<and> ?ds \<noteq> [] \<and> \<not> Min (deal_ms ` set ?ds) \<le> deal_ms h" using all [OF h(1) 2 old] by blast
        then have m: "has_more" "?ds \<noteq> []" "deal_ms h < Min (deal_ms ` set ?ds)" unfolding not_le by blast+
        then have "\<not> Min (deal_ms ` set ?ds) \<le> a" using 2 by linarith
        then have "owed_after a b ?ds has_more = [(a, Min (deal_ms ` set ?ds) - 1)]"
          unfolding owed_after_def Let_def using m by (simp only: if_False simp_thms)
        then show ?thesis using 2 m by auto
      qed
    next
      case 3
      then show ?thesis by auto
    qed
  qed
  have "anchored_low (?w\<lparr>wk_segments := ?segs\<rparr>)"
    using g w(2) by (auto simp: anchored_low_def owed_after_def Let_def)
  then show ?thesis using cov g ingested_sound [OF _ sub] by (simp add: x good_walk_def covers_def)
qed

lemma good_last [simp]: "good_walk H oid (w\<lparr>wk_last := l\<rparr>) = good_walk H oid w"
  by (simp add: good_walk_def covers_def anchored_low_def)

lemma waited_ms: "clock_runs V \<Longrightarrow> wall_ms (led s) \<le> wall_ms (led (waited V s))"
  by (simp add: clock_runs_def waited_def)

lemma take_page_fields [simp]: "wk_from (take_page oid ds has_more w) = wk_from w" "wk_high (take_page oid ds has_more w) = wk_high w"
  by (simp_all add: take_page_def split: list.split)

declare walk_pages.simps [simp del]

lemma walk_pages_run:
  "wk_segments w = [] \<Longrightarrow> walk_pages V oid until w s = (Inr True, w, s)"
  "wk_segments w = (a, b) # rest \<Longrightarrow> past_deadline until (led s) \<Longrightarrow> walk_pages V oid until w s = (Inr False, w, s)"
  "wk_segments w = (a, b) # rest \<Longrightarrow> \<not> past_deadline until (led s) \<Longrightarrow> deal_page V (asked s) (wall_ms (led s)) a b = Inl e
     \<Longrightarrow> walk_pages V oid until w s = (Inl e, w\<lparr>wk_last := Some (g_mono (led s))\<rparr>, waited V s)"
  "wk_segments w = (a, b) # rest \<Longrightarrow> \<not> past_deadline until (led s) \<Longrightarrow> deal_page V (asked s) (wall_ms (led s)) a b = Inr (ds, has_more)
     \<Longrightarrow> walk_pages V oid until w s
         = walk_pages V oid until (take_page oid (in_window a b ds) has_more (w\<lparr>wk_last := Some (g_mono (led s))\<rparr>)) (waited V s)"
  by (subst walk_pages.simps, simp add: Let_def)+

lemma walk_pages_good:
  assumes v: "files V H" "clock_runs V"
  shows "walk_pages V oid until w s = (r, w', s') \<Longrightarrow> good_walk H oid w \<Longrightarrow> wk_high w \<le> max (wk_from w) (wall_ms (led s))
    \<Longrightarrow> good_walk H oid w' \<and> (r = Inr True \<longrightarrow> wk_segments w' = []) \<and> wk_from w' = wk_from w \<and> wk_high w' = wk_high w
        \<and> wall_ms (led s) \<le> wall_ms (led s') \<and> walks s' = walks s"
using v proof (induction V oid until w s rule: walk_pages.induct)
  case (1 V oid until w s)
  note run = "1.prems"(1) and good = "1.prems"(2) and high = "1.prems"(3) and v = "1.prems"(4,5)
  show ?case
  proof (cases "wk_segments w")
    case Nil
    then show ?thesis using run good by (simp add: walk_pages_run(1))
  next
    case (Cons p rest)
    obtain a b where p: "p = (a, b)" by (cases p)
    let ?w = "w\<lparr>wk_last := Some (g_mono (led s))\<rparr>" and ?s = "waited V s"
    have walks: "walks ?s = walks s" by (simp add: waited_def)
    note clock = waited_ms [OF v(2), of s]
    show ?thesis
    proof (cases "past_deadline until (led s)")
      case True
      then show ?thesis using run good Cons p by (auto simp: walk_pages_run(2))
    next
      case False
      show ?thesis
      proof (cases "deal_page V (asked s) (wall_ms (led s)) a b")
        case (Inl e)
        then have "(r, w', s') = (Inl e, ?w, ?s)" using run Cons p False walk_pages_run(3) by simp
        then show ?thesis using good clock walks by simp
      next
        case (Inr q)
        obtain ds has_more where q: "q = (ds, has_more)" by (cases q)
        let ?t = "take_page oid (in_window a b ds) has_more ?w"
        have next_run: "walk_pages V oid until ?t ?s = (r, w', s')" using run Cons p False Inr q walk_pages_run(4) by simp
        have g: "good_walk H oid ?t"
          by (rule page_good [OF v(1) Inr [unfolded q], of oid ?w rest]) (use good Cons p high in simp_all)
        have h: "wk_high ?t \<le> max (wk_from ?t) (wall_ms (led ?s))" using high clock by auto
        have "good_walk H oid w' \<and> (r = Inr True \<longrightarrow> wk_segments w' = []) \<and> wk_from w' = wk_from ?t \<and> wk_high w' = wk_high ?t
          \<and> wall_ms (led ?s) \<le> wall_ms (led s') \<and> walks s' = walks ?s"
          using "1.IH" [OF Cons p [symmetric] False refl Inr q [symmetric] next_run g h v] by blast
        then show ?thesis using clock walks by auto
      qed
    qed
  qed
qed

lemma walk_pages_end:
  assumes "\<forall>k t a b. \<exists>pg. deal_page V k t a b = Inr pg"
  shows "walk_pages V oid until w s = (r, w', s') \<Longrightarrow> until = None \<Longrightarrow> r = Inr True"
using assms proof (induction V oid until w s rule: walk_pages.induct)
  case (1 V oid until w s)
  show ?case
  proof (cases "wk_segments w")
    case Nil
    then show ?thesis using "1.prems" by (simp add: walk_pages_run(1))
  next
    case (Cons p rest)
    obtain a b where p: "p = (a, b)" by (cases p)
    obtain ds has_more where q: "deal_page V (asked s) (wall_ms (led s)) a b = Inr (ds, has_more)"
      using "1.prems"(3) by (metis surj_pair)
    have late: "\<not> past_deadline until (led s)" using "1.prems"(2) by (simp add: past_deadline_def)
    have "walk_pages V oid until (take_page oid (in_window a b ds) has_more (w\<lparr>wk_last := Some (g_mono (led s))\<rparr>)) (waited V s)
        = (r, w', s')" using "1.prems"(1) Cons p late q walk_pages_run(4) by simp
    then show ?thesis using "1.IH" [OF Cons p [symmetric] late refl q refl] "1.prems"(2,3) by blast
  qed
qed

text \<open>Any run of the readers: reads of any order's history, over any lost or slow request, and anything in between that
  lets the clock go on.\<close>

inductive surveyed :: "archive \<Rightarrow> trail \<Rightarrow> bool" for V where
  nothing_read: "walks s = Map.empty \<Longrightarrow> surveyed V s"
| history_read: "surveyed V s \<Longrightarrow> find_fill_deal V oid from_ms cp until s = (r, t) \<Longrightarrow> surveyed V t"
| time_passes: "surveyed V s \<Longrightarrow> walks t = walks s \<Longrightarrow> wall_ms (led s) \<le> wall_ms (led t) \<Longrightarrow> surveyed V t"

definition good_walks :: "history_deal set \<Rightarrow> trail \<Rightarrow> bool" where
  "good_walks H s \<longleftrightarrow> (\<forall>oid w. walks s oid = Some w \<longrightarrow> good_walk H oid w \<and> wk_high w \<le> max (wk_from w) (wall_ms (led s)))"

lemma opened_good:
  fixes s :: trail and oid from_ms :: int
  assumes "good_walks H s"
  defines "w \<equiv> extend_walk (wall_ms (led s)) (open_walk from_ms (walks s oid))"
  shows "good_walk H oid w" "wk_high w \<le> max (wk_from w) (wall_ms (led s))" "wk_from w \<le> from_ms"
    "wk_from w \<le> wall_ms (led s) \<Longrightarrow> wall_ms (led s) \<le> wk_high w"
proof -
  let ?o = "open_walk from_ms (walks s oid)"
  have "good_walk H oid ?o \<and> wk_high ?o \<le> max (wk_from ?o) (wall_ms (led s)) \<and> wk_from ?o \<le> from_ms"
    using assms(1) fresh_good by (auto simp: open_walk_def good_walks_def fresh_walk_def split: option.splits)
  then show "good_walk H oid w" "wk_high w \<le> max (wk_from w) (wall_ms (led s))" "wk_from w \<le> from_ms"
    "wk_from w \<le> wall_ms (led s) \<Longrightarrow> wall_ms (led s) \<le> wk_high w"
    unfolding w_def using extend_good by (auto simp: extend_walk_def)
qed

lemma good_walks_later: "good_walks H s \<Longrightarrow> walks t = walks s \<Longrightarrow> wall_ms (led s) \<le> wall_ms (led t) \<Longrightarrow> good_walks H t"
  by (fastforce simp: good_walks_def)

lemma surveyed_good:
  assumes "files V H" "clock_runs V"
  shows "surveyed V s \<Longrightarrow> good_walks H s"
proof (induction rule: surveyed.induct)
  case (nothing_read s)
  then show ?case by (simp add: good_walks_def)
next
  case (history_read s oid from_ms cp until r t)
  show ?case
  proof (cases "wired s")
    case False
    then show ?thesis using history_read by (simp add: find_fill_deal_def)
  next
    case True
    let ?w = "extend_walk (wall_ms (led s)) (open_walk from_ms (walks s oid))"
    obtain q w' s' where run: "walk_pages V oid until ?w s = (q, w', s')" by (metis prod_cases3)
    have t: "t = s'\<lparr>walks := (walks s')(oid \<mapsto> w')\<rparr>" using history_read.hyps(2) True run by (simp add: find_fill_deal_def)
    note o = opened_good [OF history_read.IH, where oid = oid and from_ms = from_ms]
    note r = walk_pages_good [OF assms run o(1,2)]
    then have "good_walks H s'" using good_walks_later [OF history_read.IH] by blast
    then show ?thesis using r o(2) by (auto simp: good_walks_def t)
  qed
next
  case (time_passes s t)
  then show ?case using good_walks_later by blast
qed

section \<open>The evidence\<close>

lemma find_fill_deal_returns: "\<exists>b t. find_fill_deal V oid from_ms cp until s = (Inr b, t)"
proof -
  obtain q w s' where "walk_pages V oid until (extend_walk (wall_ms (led s)) (open_walk from_ms (walks s oid))) s = (q, w, s')"
    by (metis prod_cases3)
  then show ?thesis by (cases "wired s") (simp_all add: find_fill_deal_def)
qed

definition settled :: "history_deal set \<Rightarrow> int \<Rightarrow> trail \<Rightarrow> history_deal set" where
  "settled H from_ms s = {h \<in> H. from_ms \<le> deal_ms h \<and> deal_ms h \<le> wall_ms (led s) - SINCE_ANCHOR_SKEW_MS}"

lemma keyed_values:
  assumes "distinct (map fst al)" "\<forall>(i, h) \<in> set al. h_dealId h = i"
  shows "distinct (map snd al)" "inj_on h_dealId (snd ` set al)"
proof -
  have "map fst al = map h_dealId (map snd al)" using assms(2) by (induction al) auto
  then have "distinct (map h_dealId (map snd al))" using assms(1) by (simp only:)
  then have "distinct (map snd al) \<and> inj_on h_dealId (set (map snd al))" by (simp only: distinct_map [of h_dealId "map snd al"])
  then show "distinct (map snd al)" "inj_on h_dealId (snd ` set al)" by (blast, simp)
qed

lemma fills_sorted_set [simp]: "set (fills_sorted w) = snd ` set (wk_fills w)" "distinct (fills_sorted w) = distinct (map snd (wk_fills w))"
  by (simp_all add: fills_sorted_def)

lemma closings_counted:
  fixes p :: int
  assumes "sound_walk H oid w" "inj_on h_dealId H"
  defines "C \<equiv> {h \<in> H. (h_dealId h, closing_of h) \<in> set (wk_closes w) \<and> h_positionId h = p}"
    and "cs \<equiv> filter (\<lambda>(i, c). cl_position c = p) (wk_closes w)"
  shows "fst ` set cs = h_dealId ` C" "sum_list (map (\<lambda>(i, c). cl_volume c) cs) = (\<Sum>h \<in> C. or_else 0 (h_closedVolume h))" "finite C"
    "C \<subseteq> {h \<in> H. closes_volume h \<and> h_positionId h = p}"
proof -
  let ?f = "\<lambda>h. (h_dealId h, closing_of h)"
  note s = assms(1) [unfolded sound_walk_def]
  have im: "?f ` C = set cs"
  proof (intro equalityI subsetI)
    fix x assume "x \<in> set cs"
    then obtain i c where x: "x = (i, c)" "(i, c) \<in> set (wk_closes w)" "cl_position c = p" by (auto simp: cs_def)
    then obtain h where "h \<in> H" "h_dealId h = i" "closes_volume h" "c = closing_of h" using s by blast
    then have "x = ?f h" "h \<in> C" using x by (simp_all add: C_def closing_of_def)
    then show "x \<in> ?f ` C" by (rule image_eqI)
  next
    fix x assume "x \<in> ?f ` C"
    then obtain h where "x = ?f h" "h \<in> C" by blast
    then show "x \<in> set cs" by (simp add: C_def cs_def) (simp add: closing_of_def)
  qed
  have inj: "inj_on ?f C" using assms(2) by (auto simp: C_def inj_on_def)
  show fin: "finite C" by (rule finite_imageD [OF _ inj]) (simp only: im finite_set)
  show "fst ` set cs = h_dealId ` C" by (simp add: im [symmetric] image_image)
  have d: "distinct cs" using s by (simp add: cs_def distinct_map)
  have "sum_list (map (\<lambda>(i, c). cl_volume c) cs) = (\<Sum>x \<in> set cs. (case x of (i, c) \<Rightarrow> cl_volume c))"
    using d by (simp add: sum_list_distinct_conv_sum_set)
  also have "\<dots> = (\<Sum>h \<in> C. or_else 0 (h_closedVolume h))"
    unfolding im [symmetric] using inj by (simp add: sum.reindex closing_of_def)
  finally show "sum_list (map (\<lambda>(i, c). cl_volume c) cs) = (\<Sum>h \<in> C. or_else 0 (h_closedVolume h))" .
  show "C \<subseteq> {h \<in> H. closes_volume h \<and> h_positionId h = p}"
  proof
    fix h assume h: "h \<in> C"
    then have hc: "(h_dealId h, closing_of h) \<in> set (wk_closes w)" "h \<in> H" by (simp_all add: C_def)
    then have "\<exists>h' \<in> H. h_dealId h' = h_dealId h \<and> closes_volume h' \<and> closing_of h = closing_of h'" using s by blast
    then obtain h' where h': "h' \<in> H" "h_dealId h' = h_dealId h" "closes_volume h'" by blast
    then have "h' = h" using hc(2) assms(2) by (simp add: inj_onD)
    then show "h \<in> {h \<in> H. closes_volume h \<and> h_positionId h = p}" using h h'(3) by (simp add: C_def)
  qed
qed

lemma evidence_counts:
  assumes "files V H" and "clock_runs V" and "surveyed V s"
    and "find_fill_deal V oid from_ms cp until s = (Inr b, t)"
  shows "(br_conclusive b \<longrightarrow>
     (\<exists>F. {h \<in> settled H from_ms s. fills_order oid h} \<subseteq> F \<and> F \<subseteq> {h \<in> H. fills_order oid h} \<and> finite F
        \<and> distinct (br_deal_ids b) \<and> set (br_deal_ids b) = h_dealId ` F \<and> br_filled b = sum h_filledVolume F
        \<and> (\<forall>p. cp = Some p \<and> (\<forall>h \<in> F. h_positionId h = p) \<longrightarrow>
             (\<exists>C. {h \<in> settled H from_ms s. closes_volume h \<and> h_positionId h = p} \<subseteq> C
                \<and> C \<subseteq> {h \<in> H. closes_volume h \<and> h_positionId h = p} \<and> finite C
                \<and> set (br_closing_ids b) = h_dealId ` C \<and> br_closed b = (\<Sum>h \<in> C. or_else 0 (h_closedVolume h))))))
   \<and> (wired s \<and> until = None \<and> (\<forall>k t a b. \<exists>pg. deal_page V k t a b = Inr pg) \<longrightarrow> br_conclusive b)"
proof -
  have "inj_on h_dealId H" using assms(1) by (simp add: files_def)
  note good = surveyed_good [OF assms(1-3)]
  let ?w = "extend_walk (wall_ms (led s)) (open_walk from_ms (walks s oid))"
  obtain q w s' where run: "walk_pages V oid until ?w s = (q, w, s')" by (metis prod_cases3)
  note o = opened_good [OF good, where oid = oid and from_ms = from_ms]
  note r = walk_pages_good [OF assms(1,2) run o(1,2)]
  have b: "b = (if wired s \<and> q = Inr True then walk_result cp w else no_bridge)"
    using assms(4) run by (auto simp: find_fill_deal_def split: if_splits)
  have conclusive: "br_conclusive b \<longleftrightarrow> wired s \<and> q = Inr True" by (simp add: b walk_result_def no_bridge_def Let_def)
  have ends: "q = Inr True" if "until = None" "\<forall>k t a b. \<exists>pg. deal_page V k t a b = Inr pg"
    using walk_pages_end [OF that(2) run that(1)] .
  have "\<exists>F. {h \<in> settled H from_ms s. fills_order oid h} \<subseteq> F \<and> F \<subseteq> {h \<in> H. fills_order oid h} \<and> finite F
        \<and> distinct (br_deal_ids b) \<and> set (br_deal_ids b) = h_dealId ` F \<and> br_filled b = sum h_filledVolume F
        \<and> (\<forall>p. cp = Some p \<and> (\<forall>h \<in> F. h_positionId h = p) \<longrightarrow>
             (\<exists>C. {h \<in> settled H from_ms s. closes_volume h \<and> h_positionId h = p} \<subseteq> C
                \<and> C \<subseteq> {h \<in> H. closes_volume h \<and> h_positionId h = p} \<and> finite C
                \<and> set (br_closing_ids b) = h_dealId ` C \<and> br_closed b = (\<Sum>h \<in> C. or_else 0 (h_closedVolume h))))"
    (is "\<exists>F. ?P F") if w: "wired s" "q = Inr True"
  proof
    let ?F = "snd ` set (wk_fills w)"
    have b: "b = walk_result cp w" using b w by simp
    have snd: "sound_walk H oid w" using r by (simp add: good_walk_def)
    note k = snd [unfolded sound_walk_def]
    have held: "held_in oid w h" if "h \<in> settled H from_ms s" for h
    proof -
      have "wk_segments w = []" "covers H oid w" "wk_from w \<le> from_ms" "wk_from w \<le> wall_ms (led s) \<Longrightarrow> wall_ms (led s) \<le> wk_high w"
        using r w o(3,4) by (auto simp: good_walk_def)
      then show ?thesis using that by (auto simp: covers_def settled_def SINCE_ANCHOR_SKEW_MS_def)
    qed
    have keyed: "\<forall>(i, h) \<in> set (wk_fills w). h_dealId h = i" using k by auto
    note v = keyed_values [OF _ keyed]
    have sub: "{h \<in> settled H from_ms s. fills_order oid h} \<subseteq> ?F"
    proof
      fix h assume "h \<in> {h \<in> settled H from_ms s. fills_order oid h}"
      then have "map_of (wk_fills w) (h_dealId h) = Some h" using held by (simp add: held_in_def)
      then show "h \<in> ?F" using map_of_SomeD by force
    qed
    have ids: "br_deal_ids b = map h_dealId (rev (fills_sorted w))" "br_filled b = sum_list (map h_filledVolume (fills_sorted w))"
      by (simp_all add: b walk_result_def Let_def)
    have "distinct (fills_sorted w)" using v k by simp
    then have filled: "br_filled b = sum h_filledVolume ?F" using ids by (simp add: sum_list_distinct_conv_sum_set)
    have dist: "distinct (br_deal_ids b)" "set (br_deal_ids b) = h_dealId ` ?F"
      using v k ids by (simp_all add: distinct_map)
    have closings: "\<exists>C. {h \<in> settled H from_ms s. closes_volume h \<and> h_positionId h = p} \<subseteq> C
                \<and> C \<subseteq> {h \<in> H. closes_volume h \<and> h_positionId h = p} \<and> finite C
                \<and> set (br_closing_ids b) = h_dealId ` C \<and> br_closed b = (\<Sum>h \<in> C. or_else 0 (h_closedVolume h))"
      if p: "cp = Some p" "\<forall>h \<in> ?F. h_positionId h = p" for p
    proof -
      let ?t = "case find (\<lambda>d. h_positionId d \<noteq> 0) (rev (fills_sorted w)) of Some d \<Rightarrow> Some (h_positionId d) | None \<Rightarrow> cp"
      have "?t = Some p"
      proof (cases "find (\<lambda>d. h_positionId d \<noteq> 0) (rev (fills_sorted w))")
        case (Some d)
        then have "d \<in> set (rev (fills_sorted w))" by (metis find_Some_iff nth_mem)
        then show ?thesis using Some p by auto
      qed (simp add: p)
      then have cs: "br_closing_ids b = map fst (filter (\<lambda>(i, c). cl_position c = p) (wk_closes w))"
        "br_closed b = sum_list (map (\<lambda>(i, c). cl_volume c) (filter (\<lambda>(i, c). cl_position c = p) (wk_closes w)))"
        by (simp_all add: b walk_result_def Let_def eq_commute [of p])
      note c = closings_counted [OF snd \<open>inj_on h_dealId H\<close>, of p]
      show ?thesis
      proof (intro exI conjI)
        show "{h \<in> settled H from_ms s. closes_volume h \<and> h_positionId h = p}
            \<subseteq> {h \<in> H. (h_dealId h, closing_of h) \<in> set (wk_closes w) \<and> h_positionId h = p}"
          using held by (auto simp: held_in_def settled_def dest: map_of_SomeD)
      qed (use c cs in simp_all)
    qed
    have "?F \<subseteq> {h \<in> H. fills_order oid h}" using k by auto
    then show "?P ?F" using sub filled dist closings by simp
  qed
  then show ?thesis using conclusive ends by blast
qed


text \<open>One deal filled the order.\<close>

definition lone_deal :: history_deal where
  "lone_deal = \<lparr>h_dealId = 31, h_orderId = 5, h_positionId = 7, h_filledVolume = 200000, h_createTimestamp = 0, h_executionTimestamp = 5,
     h_dealStatus = DEAL_FILLED, h_tradeSide = BUY, h_executionPrice = 1, h_commission = 0, h_moneyDigits = 2, h_closedVolume = None\<rparr>"

definition lone_archive :: archive where
  "lone_archive = \<lparr>deal_page = (\<lambda>k t a b. Inr ([lone_deal], False)), order_page = (\<lambda>k t a b. Inr ([], False)),
     details_page = (\<lambda>k i. Inl (CTraderTimeoutError [])), snapshot_page = (\<lambda>k. Inr ([], [])), cancel_sent = (\<lambda>k i. Inr ()), meanwhile = (\<lambda>k L. L)\<rparr>"

definition lone_trail :: trail where
  "lone_trail = \<lparr>led = demo_ledger\<lparr>g_clock := 1000\<rparr>, walks = Map.empty, asked = 0, wired = True\<rparr>"

lemma lone_ms: "wall_ms (led lone_trail) = 1000000"
  using fl_exact [of 1000000 1000000 0] by (simp add: lone_trail_def wall_ms_def fmul_def)

lemma lone_archive_laws: "files lone_archive {lone_deal}" "clock_runs lone_archive"
  by (simp_all add: files_def clock_runs_def lone_archive_def)


end
