(* ===== verification/Verdicts.thy ===== *)
theory Verdicts
  imports Deals
begin

text \<open>
  The judgement of closes the event stream missed (\<open>_judge_recovered_closes\<close> of \<open>protection.py\<close>): who sent each closing
  order the deal history shows, what the replay of the position's deals says it took of the bot's share, and the
  report, the notes and the marks that follow. The verdict on a fired protection order is an argument: the level
  guard is not modelled.
\<close>

text \<open>The subclasses of the core's \<open>BrokerError\<close>.\<close>

definition is_broker_error :: "exn \<Rightarrow> bool" where
  "is_broker_error e \<longleftrightarrow>
     (case e of ExchangeConnectionError _ \<Rightarrow> True | VenueWritesQuarantinedError _ \<Rightarrow> True | ExchangeRateLimitError _ _ \<Rightarrow> True
      | InsufficientMarginError _ \<Rightarrow> True | MarketClosedError _ \<Rightarrow> True | ExchangeOrderRejectedError _ \<Rightarrow> True
      | OrderDispositionUnknownError _ _ _ \<Rightarrow> True | BracketAttachAfterFillRejectedError _ _ _ _ \<Rightarrow> True
      | CTraderBrokerError _ \<Rightarrow> True | _ \<Rightarrow> False)"

definition lookup_deferred :: "exn \<Rightarrow> bool" where
  "lookup_deferred e \<longleftrightarrow> is_broker_error e \<or> is_wire_error e \<or> e = AsyncTimeoutError"

text \<open>A step of the layer on the ledger, and a request.\<close>

definition on_led :: "'a act \<Rightarrow> 'a job" where
  "on_led m s = (case m (led s) of (r, L) \<Rightarrow> (r, s\<lparr>led := L\<rparr>))"

definition request :: "archive \<Rightarrow> (nat \<Rightarrow> exn + 'a) \<Rightarrow> (exn + 'a) job" where
  "request V f s = (Inr (f (asked s)), waited V s)"

definition closing_order_kind ::
    "floor \<Rightarrow> archive \<Rightarrow> (ledger \<Rightarrow> int \<Rightarrow> order \<Rightarrow> close_origin) \<Rightarrow> int \<Rightarrow> int \<Rightarrow> bool \<Rightarrow> close_origin option job" where
  "closing_order_kind X V fired p order_id judge_protection =
     seq (asks (\<lambda>s. is_own_entry_order X (led s) order_id
            \<or> (\<exists>k \<in> set (g_history (led s)). oc_order_id (g_closes (led s) k) = Some order_id))) (\<lambda>mine.
     if mine then ret (Some Own)
     else seq (asks wired) (\<lambda>up.
          if \<not> up then ret None
          else seq (request V (\<lambda>k. details_page V k order_id)) (\<lambda>a.
               case a of
                 Inl e \<Rightarrow> (if is_protocol_error e then ret (if is_not_found (error_code e) then Some Unknown else None)
                           else if lookup_deferred e then ret None else throw e)
               | Inr o' \<Rightarrow>
                   (if o_orderType o' = STOP_LOSS_TAKE_PROFIT \<and> judge_protection
                    then asks (\<lambda>s. Some (fired (led s) p o'))
                    else if o_orderType o' = STOP_LOSS_TAKE_PROFIT \<or> o_isStopOut o' then ret (Some Venue)
                    else if o_clientOrderId o' \<noteq> []
                         then asks (\<lambda>s. Some (if is_run_client_order_id X (led s) (o_clientOrderId o') then Own else External))
                    else ret (Some Unattributed)))))"

definition recovered_close_origin ::
    "floor \<Rightarrow> archive \<Rightarrow> (ledger \<Rightarrow> int \<Rightarrow> order \<Rightarrow> close_origin) \<Rightarrow> int \<Rightarrow> int \<Rightarrow> int \<Rightarrow> int list \<Rightarrow> close_origin option job" where
  "recovered_close_origin X V fired p order_id executed_ms own_orders =
     seq (asks (\<lambda>s. order_id \<in> set own_orders
            \<or> (\<exists>k \<in> set (g_history (led s)). claims_recovered (g_closes (led s) k) p order_id executed_ms))) (\<lambda>mine.
     if mine then ret (Some Own) else closing_order_kind X V fired p order_id True)"

text \<open>Each closing order is looked up once.\<close>

fun origins_of ::
    "floor \<Rightarrow> archive \<Rightarrow> (ledger \<Rightarrow> int \<Rightarrow> order \<Rightarrow> close_origin) \<Rightarrow> int \<Rightarrow> int list \<Rightarrow> (int \<times> close_origin) list \<Rightarrow> position_deal list
     \<Rightarrow> (int \<times> close_origin) list option job" where
  "origins_of X V fired p own_orders by_order [] = ret (Some [])"
| "origins_of X V fired p own_orders by_order (d # ds) =
     seq (case map_of by_order (pd_order_id d) of
            Some g \<Rightarrow> ret (Some g)
          | None \<Rightarrow> recovered_close_origin X V fired p (pd_order_id d) (pd_executed_ms d) own_orders) (\<lambda>g.
     case g of
       None \<Rightarrow> ret None
     | Some g \<Rightarrow> seq (origins_of X V fired p own_orders ((pd_order_id d, g) # by_order) ds)
                   (\<lambda>gs. ret (map_option (\<lambda>gs. (pd_deal_id d, g) # gs) gs)))"

definition by_time :: "position_deal list \<Rightarrow> position_deal list" where
  "by_time ds = sort_key pd_executed_ms (sort_key pd_deal_id ds)"

text \<open>The verdict of the replay; without a known share every close is taken whole.\<close>

definition recovered_replay ::
    "floor \<Rightarrow> ledger \<Rightarrow> position_deal list \<Rightarrow> position_deal list \<Rightarrow> (int \<rightharpoonup> close_origin) \<Rightarrow> rat \<Rightarrow> rat option \<Rightarrow> int set \<Rightarrow> int list
     \<Rightarrow> share_replay" where
  "recovered_replay X L ds unjudged origins venue_now share counted own_orders =
     (case share of
        None \<Rightarrow> \<lparr>rp_reported = map (\<lambda>d. (d, pd_closed d)) (filter (\<lambda>d. foreign (the (origins (pd_deal_id d)))) unjudged),
                 rp_ambiguous = [], rp_taken = sum_list (map pd_closed unjudged), rp_booked = map (\<lambda>d. (d, pd_closed d)) unjudged\<rparr>
      | Some s \<Rightarrow> replay_share_closes ds origins (g_origins L)
                  (\<lambda>d. pd_order_id d \<in> set own_orders \<or> is_own_entry_order X L (pd_order_id d))
                  (g_seen L \<union> counted) (raw_volume venue_now) (raw_volume s))"

definition recovered_report :: "int \<Rightarrow> (position_deal \<times> int) list \<Rightarrow> close_context" where
  "recovered_report p ext =
     \<lparr>cc_position = p, cc_order_id = pd_order_id (fst (hd ext)), cc_deal_ids = map (\<lambda>(d, t). pd_deal_id d) ext,
      cc_closed = volume_to_units (sum_list (map (\<lambda>(d, t). pd_closed d) ext)), cc_share = None,
      cc_booked = Some (volume_to_units (sum_list (map snd ext))), cc_claimed_as_own = False\<rparr>"

fun count_own_deals :: "int \<Rightarrow> (int \<rightharpoonup> close_origin) \<Rightarrow> position_deal list \<Rightarrow> ledger \<Rightarrow> ledger" where
  "count_own_deals p origins [] L = L"
| "count_own_deals p origins (d # ds) L =
     count_own_deals p origins ds
       (if origins (pd_deal_id d) = Some Own
        then (case own_close_of_deal L p d of
                None \<Rightarrow> L
              | Some k \<Rightarrow> L\<lparr>g_closes := (g_closes L)(k := count_executed (Some (pd_deal_id d)) (volume_to_units (pd_closed d)) (g_closes L k))\<rparr>)
        else L)"

text \<open>The report, the notes and the marks of a verdict.\<close>

definition apply_recovered ::
    "floor \<Rightarrow> int \<Rightarrow> position_deal list \<Rightarrow> (int \<times> close_origin) list \<Rightarrow> bool \<Rightarrow> share_replay \<Rightarrow> unit act" where
  "apply_recovered X p unjudged origins known replay =
     (let org = map_of origins;
          ext = filter (\<lambda>(d, t). org (pd_deal_id d) = Some External) (rp_reported replay);
          unattributed = filter (\<lambda>(d, t). org (pd_deal_id d) \<noteq> Some External) (rp_reported replay)
      in seq (asks g_hedging) (\<lambda>hedged.
         seq (if ext \<noteq> [] \<and> \<not> known \<and> \<not> hedged then note_share_unknown X p
              else if ext \<noteq> [] then queue_external_close X p (recovered_report p ext) else ret ()) (\<lambda>_.
         seq (if unattributed \<noteq> [] then post X (Noted ''ctrader_close_unattributed'' p) else ret ()) (\<lambda>_.
         seq (if rp_ambiguous replay \<noteq> [] then note_share_ambiguous X p else ret ()) (\<lambda>_.
         seq (modify (count_own_deals p org unjudged)) (\<lambda>_.
         mark_close_judged X (map pd_deal_id unjudged) origins))))))"

definition judge_recovered_close_deals ::
    "floor \<Rightarrow> archive \<Rightarrow> (ledger \<Rightarrow> int \<Rightarrow> order \<Rightarrow> close_origin) \<Rightarrow> int \<Rightarrow> position_deal list \<Rightarrow> rat \<Rightarrow> rat option \<Rightarrow> int set \<Rightarrow> int list
     \<Rightarrow> share_replay option job" where
  "judge_recovered_close_deals X V fired p deals venue_now share_now counted own_orders =
     seq (asks (\<lambda>s. p \<in> g_reported (led s))) (\<lambda>waits.
     if waits then ret (Some no_replay)
     else seq (on_led (load_close_evidence X)) (\<lambda>_.
          let ds = by_time deals in
          seq (asks (\<lambda>s. filter (\<lambda>d. 0 < pd_closed d \<and> pd_deal_id d \<notin> g_judged (led s)) ds)) (\<lambda>unjudged.
          if unjudged = [] then ret (Some no_replay)
          else seq (origins_of X V fired p own_orders [] unjudged) (\<lambda>gs.
               case gs of
                 None \<Rightarrow> ret None
               | Some origins \<Rightarrow>
                   seq (asks (\<lambda>s. if share_now \<noteq> None then share_now else own_share X (led s) p)) (\<lambda>share.
                   seq (asks (\<lambda>s. recovered_replay X (led s) ds unjudged (map_of origins) venue_now share counted own_orders)) (\<lambda>replay.
                   seq (on_led (apply_recovered X p unjudged origins (share \<noteq> None) replay)) (\<lambda>_.
                   ret (Some replay))))))))"

definition judge_recovered_closes ::
    "floor \<Rightarrow> archive \<Rightarrow> (ledger \<Rightarrow> int \<Rightarrow> order \<Rightarrow> close_origin) \<Rightarrow> int \<Rightarrow> position_deal list \<Rightarrow> rat \<Rightarrow> rat option \<Rightarrow> int set \<Rightarrow> int list
     \<Rightarrow> rat option job" where
  "judge_recovered_closes X V fired p deals venue_now share_now counted own_orders =
     seq (judge_recovered_close_deals X V fired p deals venue_now share_now counted own_orders) (\<lambda>r.
     ret (map_option (\<lambda>r. volume_to_units (rp_taken r)) r))"

end
