(* ===== verification/Verdicts_Properties.thy ===== *)
theory Verdicts_Properties
  imports Verdicts Deals_Properties
begin

text \<open>
  A close the event stream missed is judged once: a judgement that ran through leaves nothing for a second one, and one
  that could not look an order up leaves no trace.
\<close>

text \<open>The part of the ledger a judgement writes; the waits of the lookups leave it alone.\<close>

definition verdicts :: "ledger \<Rightarrow> int set \<times> lop list \<times> (nat \<times> close_context \<times> string option) list \<times> int set \<times> bool" where
  "verdicts L = (g_judged L, g_journal L, g_reports L, g_reported L, g_loaded L)"

definition calm_waits :: "archive \<Rightarrow> bool" where
  "calm_waits V \<longleftrightarrow> (\<forall>k L. verdicts (meanwhile V k L) = verdicts L)"

abbreviation verdict_at :: "int set \<times> lop list \<times> (nat \<times> close_context \<times> string option) list \<times> int set \<times> bool \<Rightarrow> trail \<Rightarrow> bool" where
  "verdict_at v s \<equiv> verdicts (led s) = v"

lemma keeps_request: "calm_waits V \<Longrightarrow> keeps (verdict_at v) (request V f)"
  by (simp add: keeps_def request_def waited_def calm_waits_def)

lemmas steps = keeps_seq keeps_if keeps_option keeps_sum keeps_ret keeps_throw keeps_asks

lemma keeps_kind: "calm_waits V \<Longrightarrow> keeps (verdict_at v) (closing_order_kind X V fired p i j)"
  unfolding closing_order_kind_def by (intro steps keeps_request)

lemma keeps_origin: "calm_waits V \<Longrightarrow> keeps (verdict_at v) (recovered_close_origin X V fired p i ms own)"
  unfolding recovered_close_origin_def by (intro steps keeps_kind)

lemma keeps_origins: "calm_waits V \<Longrightarrow> keeps (verdict_at v) (origins_of X V fired p own by_order ds)"
proof (induction ds arbitrary: by_order)
  case (Cons d ds)
  show ?case unfolding origins_of.simps by (intro steps keeps_origin Cons)
qed simp

lemma origins_run:
  assumes "calm_waits V" "origins_of X V fired p own by_order ds s = (r, t)"
  shows "verdicts (led t) = verdicts (led s)"
proof -
  have "verdict_at (verdicts (led s)) (snd (origins_of X V fired p own by_order ds s))"
    by (rule keepsD [OF keeps_origins [OF assms(1)]]) simp
  then show ?thesis using assms(2) by simp
qed

lemma replay_loaded [simp]: "g_loaded (replay_reports h es L) = g_loaded L"
  by (induction h es L rule: replay_reports.induct) simp_all

lemma adopt_loaded [simp]: "g_loaded (adopt_closes cs L) = g_loaded L"
  by (induction cs arbitrary: L) simp_all

lemma load_run:
  obtains L1 where "load_close_evidence X L = (Inr (), L1)" "load_close_evidence X L1 = (Inr (), L1)"
    "g_journal L1 = g_journal L" "\<not> journaled X \<or> g_loaded L1"
proof -
  define L1 where "L1 = snd (load_close_evidence X L)"
  have a: "load_close_evidence X L = (Inr (), L1)" by (simp add: L1_def load_close_evidence_def)
  have o: "\<not> journaled X \<and> L1 = L \<or> g_loaded L1"
    by (auto simp: L1_def load_close_evidence_def Let_def split: prod.split)
  then have b: "load_close_evidence X L1 = (Inr (), L1)" by (auto simp: load_close_evidence_def)
  have j: "g_journal (adopt_closes cs M) = g_journal M" for cs M by (induction cs arbitrary: M) simp_all
  have k: "g_journal (replay_reports h es M) = g_journal M" for h es M by (induction h es M rule: replay_reports.induct) simp_all
  have "g_journal L1 = g_journal L"
    by (auto simp: L1_def load_close_evidence_def Let_def j k split: prod.split)
  then show ?thesis using that [OF a b] o by blast
qed

lemma count_own_verdicts [simp]: "verdicts (count_own_deals p org ds L) = verdicts L"
  by (induction p org ds L rule: count_own_deals.induct) (simp_all add: verdicts_def split: option.split)

text \<open>What a step that returns leaves of the marks and the reports.\<close>

definition leaves :: "close_context list \<Rightarrow> ledger \<Rightarrow> (exn + unit) \<times> ledger \<Rightarrow> bool" where
  "leaves ctxs L rt \<longleftrightarrow> fst rt = Inr () \<and> g_judged (snd rt) = g_judged L \<and> g_loaded (snd rt) = g_loaded L
     \<and> (\<exists>rs. g_reports (snd rt) = g_reports L @ rs \<and> (rs = [] \<or> map (fst \<circ> snd) rs = ctxs))"

lemma leavesE:
  assumes "leaves ctxs L rt"
  obtains M rs where "rt = (Inr (), M)" "g_judged M = g_judged L" "g_loaded M = g_loaded L" "g_reports M = g_reports L @ rs"
    "rs = [] \<or> map (fst \<circ> snd) rs = ctxs"
  using assms by (cases rt) (auto simp: leaves_def)

lemma leaves_queue: "leaves [ctx] L (queue_external_close X p ctx L)"
  by (cases "p \<in> g_reported L"; cases "journaled X") (auto simp: leaves_def queue_external_close_def post_def)

lemma leaves_same: "leaves ctxs L (ret () L)" "leaves ctxs L (post X op L)" "leaves ctxs L (note_share_unknown X p L)"
  "leaves ctxs L (note_share_ambiguous X p L)"
  by (simp_all add: leaves_def post_def note_share_unknown_def note_share_ambiguous_def)

lemma mark_run:
  "fst (mark_close_judged X ids gs L) = Inr ()" "g_judged L \<union> set ids = g_judged (snd (mark_close_judged X ids gs L))"
  "g_loaded (snd (mark_close_judged X ids gs L)) = g_loaded L" "g_reports (snd (mark_close_judged X ids gs L)) = g_reports L"
proof -
  let ?fresh = "filter (\<lambda>i. i \<notin> g_judged L \<or> (map_of gs i \<noteq> None \<and> g_origins L i \<noteq> map_of gs i)) ids"
  have "g_judged L \<union> set ids = g_judged L \<union> set ?fresh" by auto
  then have j: "g_judged L \<union> set ids = g_judged L \<union> set ?fresh" .
  have "\<exists>M. mark_close_judged X ids gs L = (Inr (), M) \<and> g_judged M = g_judged L \<union> set ids \<and> g_loaded M = g_loaded L
      \<and> g_reports M = g_reports L"
  proof (cases "?fresh = []")
    case True
    have "mark_close_judged X ids gs L = (Inr (), L)"
      by (simp only: mark_close_judged_def seq_asks if_P [OF True] ret_run)
    then show ?thesis using j unfolding True by simp
  next
    case False
    show ?thesis
      by (simp only: mark_close_judged_def seq_asks if_not_P [OF False] Let_def seq_modify post_def modify_run) (use j in simp)
  qed
  then show "fst (mark_close_judged X ids gs L) = Inr ()" "g_judged L \<union> set ids = g_judged (snd (mark_close_judged X ids gs L))"
    "g_loaded (snd (mark_close_judged X ids gs L)) = g_loaded L" "g_reports (snd (mark_close_judged X ids gs L)) = g_reports L"
    by force+
qed

lemma count_own_fields: "g_judged (count_own_deals p org ds L) = g_judged L" "g_loaded (count_own_deals p org ds L) = g_loaded L"
  "g_reports (count_own_deals p org ds L) = g_reports L"
  using count_own_verdicts [of p org ds L] by (simp_all add: verdicts_def)

text \<open>A run of the marks and the report.\<close>

lemma apply_recovered_run:
  fixes X p unjudged origins known replay L
  defines "ext \<equiv> filter (\<lambda>(d, t). map_of origins (pd_deal_id d) = Some External) (rp_reported replay)"
  obtains L' where "apply_recovered X p unjudged origins known replay L = (Inr (), L')"
    "g_judged L' = g_judged L \<union> set (map pd_deal_id unjudged)" "g_loaded L' = g_loaded L"
    "\<exists>rs. g_reports L' = g_reports L @ rs \<and> (rs = [] \<or> map (fst \<circ> snd) rs = [recovered_report p ext])"
proof -
  let ?A = "if ext \<noteq> [] \<and> \<not> known \<and> \<not> g_hedging L then note_share_unknown X p
            else if ext \<noteq> [] then queue_external_close X p (recovered_report p ext) else ret ()"
  let ?B = "if filter (\<lambda>(d, t). map_of origins (pd_deal_id d) \<noteq> Some External) (rp_reported replay) \<noteq> []
            then post X (Noted ''ctrader_close_unattributed'' p) else ret ()"
  let ?C = "if rp_ambiguous replay \<noteq> [] then note_share_ambiguous X p else ret ()"
  let ?D = "mark_close_judged X (map pd_deal_id unjudged) origins"
  have "leaves [recovered_report p ext] L (?A L)" using leaves_queue leaves_same by (simp only: split: if_split) simp
  then obtain LA rs where a: "?A L = (Inr (), LA)" "g_judged LA = g_judged L" "g_loaded LA = g_loaded L"
    "g_reports LA = g_reports L @ rs" "rs = [] \<or> map (fst \<circ> snd) rs = [recovered_report p ext]" by (rule leavesE)
  have "leaves [] LA (?B LA)" using leaves_same by (simp only: split: if_split) simp
  then obtain LB where b: "?B LA = (Inr (), LB)" "g_judged LB = g_judged LA" "g_loaded LB = g_loaded LA" "g_reports LB = g_reports LA"
    by (rule leavesE) simp
  have "leaves [] LB (?C LB)" using leaves_same by (simp only: split: if_split) simp
  then obtain LC where c: "?C LB = (Inr (), LC)" "g_judged LC = g_judged LB" "g_loaded LC = g_loaded LB" "g_reports LC = g_reports LB"
    by (rule leavesE) simp
  let ?LD = "count_own_deals p (map_of origins) unjudged LC"
  note d = mark_run [where X = X and ids = "map pd_deal_id unjudged" and gs = origins and L = ?LD]
  obtain LE where e: "?D ?LD = (Inr (), LE)" using d(1) by (metis prod.collapse)
  have run: "apply_recovered X p unjudged origins known replay L = (Inr (), LE)"
    unfolding apply_recovered_def Let_def ext_def [symmetric]
    by (simp only: seq_def asks_run modify_run prod.case sum.case a(1) b(1) c(1) e)
  show ?thesis
  proof (rule that [OF run])
    show "g_judged LE = g_judged L \<union> set (map pd_deal_id unjudged)" "g_loaded LE = g_loaded L"
      using d(2,3) by (simp_all add: e count_own_fields a b c)
    show "\<exists>rs. g_reports LE = g_reports L @ rs \<and> (rs = [] \<or> map (fst \<circ> snd) rs = [recovered_report p ext])"
      using d(4) a(5) by (auto simp: e count_own_fields a b c)
  qed
qed

lemma led_set: "led (s\<lparr>led := L\<rparr>) = L"
  by simp

lemma by_time_set [simp]: "set (by_time ds) = set ds"
  by (simp add: by_time_def)

text \<open>What a judgement that returns leaves.\<close>

definition reports_only :: "int \<Rightarrow> share_replay \<Rightarrow> (nat \<times> close_context \<times> string option) list \<Rightarrow> bool" where
  "reports_only p rp rs \<longleftrightarrow> length rs \<le> 1 \<and> (\<forall>(k, ctx, c) \<in> set rs. cc_position ctx = p
     \<and> (\<exists>org. cc_deal_ids ctx = map (pd_deal_id \<circ> fst) (filter (\<lambda>(d, v). org (pd_deal_id d) = Some External) (rp_reported rp))))"

lemma judged_run:
  assumes "calm_waits V" and "judge_recovered_close_deals X V fired p deals venue_now share counted own s = (Inr r, t)"
    and load_s: "load_close_evidence X (led s) = (Inr (), L)" and False: "p \<notin> g_reported (led s)"
  shows "case r of
       None \<Rightarrow> verdicts (led t) = verdicts L
     | Some rp \<Rightarrow> load_close_evidence X (led t) = (Inr (), led t)
         \<and> (\<forall>d \<in> set deals. 0 < pd_closed d \<longrightarrow> pd_deal_id d \<in> g_judged (led t))
         \<and> (\<exists>rs. g_reports (led t) = g_reports L @ rs \<and> reports_only p rp rs)"
proof -
  obtain L1 where L1: "load_close_evidence X (led s) = (Inr (), L1)" "load_close_evidence X L1 = (Inr (), L1)"
    "\<not> journaled X \<or> g_loaded L1" by (rule load_run)
  then have L: "L1 = L" using load_s by simp
  let ?s = "s\<lparr>led := L\<rparr>" and ?ds = "by_time deals"
  let ?un = "filter (\<lambda>d. 0 < pd_closed d \<and> pd_deal_id d \<notin> g_judged L) ?ds"
  have run: "(if ?un = [] then ret (Some no_replay)
          else seq (origins_of X V fired p own [] ?un) (\<lambda>gs.
               case gs of
                 None \<Rightarrow> ret None
               | Some origins \<Rightarrow>
                   seq (asks (\<lambda>s. if share \<noteq> None then share else own_share X (led s) p)) (\<lambda>share.
                   seq (asks (\<lambda>s. recovered_replay X (led s) ?ds ?un (map_of origins) venue_now share counted own)) (\<lambda>replay.
                   seq (on_led (apply_recovered X p ?un origins (share \<noteq> None) replay)) (\<lambda>_.
                   ret (Some replay)))))) ?s = (Inr r, t)"
    using assms(2)
    by (simp only: judge_recovered_close_deals_def seq_asks if_not_P [OF False] seq_def [of "on_led (load_close_evidence X)"]
        on_led_def [of "load_close_evidence X"] load_s prod.case sum.case Let_def led_set)
  have loaded: "load_close_evidence X M = (Inr (), M)" if "g_loaded M = g_loaded L" for M
    using L1(3) that unfolding L by (auto simp: load_close_evidence_def)
  show ?thesis
  proof (cases "?un = []")
    case True
    then have "r = Some no_replay" "t = ?s" using run by simp_all
    moreover have "reports_only p no_replay []" by (simp add: reports_only_def)
    moreover have "d \<in> set deals \<Longrightarrow> 0 < pd_closed d \<Longrightarrow> pd_deal_id d \<in> g_judged L" for d
      using True by (auto simp: filter_empty_conv)
    ultimately show ?thesis using loaded [OF refl] by auto
  next
    case un: False
    obtain gs u where g: "origins_of X V fired p own [] ?un ?s = (Inr gs, u)"
      using run unfolding if_not_P [OF un] by (auto simp: seq_def split: prod.splits sum.splits)
    have same: "verdicts (led u) = verdicts L" using origins_run [OF assms(1) g] by simp
    show ?thesis
    proof (cases gs)
      case None
      then have "r = None" "t = u" using run g unfolding if_not_P [OF un] by (simp_all add: seq_def)
      then show ?thesis using same by simp
    next
      case (Some origins)
      define sh where "sh = (if share \<noteq> None then share else own_share X (led u) p)"
      define rp where "rp = recovered_replay X (led u) ?ds ?un (map_of origins) venue_now sh counted own"
      obtain L' where a: "apply_recovered X p ?un origins (sh \<noteq> None) rp (led u) = (Inr (), L')"
        "g_judged L' = g_judged (led u) \<union> set (map pd_deal_id ?un)" "g_loaded L' = g_loaded (led u)"
        "\<exists>rs. g_reports L' = g_reports (led u) @ rs \<and> (rs = [] \<or> map (fst \<circ> snd) rs
           = [recovered_report p (filter (\<lambda>(d, t). map_of origins (pd_deal_id d) = Some External) (rp_reported rp))])"
        by (rule apply_recovered_run)
      have rt: "r = Some rp" "t = u\<lparr>led := L'\<rparr>"
        using run unfolding if_not_P [OF un] seq_def [of "origins_of _ _ _ _ _ _ _"] g prod.case sum.case Some option.case seq_asks
          sh_def [symmetric] rp_def [symmetric] seq_def [of "on_led _"] on_led_def a(1) ret_run by auto
      have f: "g_judged (led u) = g_judged L" "g_loaded (led u) = g_loaded L" "g_reports (led u) = g_reports L"
        using same by (simp_all add: verdicts_def)
      have all: "d \<in> set deals \<Longrightarrow> 0 < pd_closed d \<Longrightarrow> pd_deal_id d \<in> g_judged L'" for d
        using a(2) f by auto
      have now_loaded: "load_close_evidence X (led t) = (Inr (), led t)" using loaded [of L'] a(3) f rt(2) by simp
      obtain rs where rs: "g_reports L' = g_reports L @ rs" "rs = [] \<or> map (fst \<circ> snd) rs
           = [recovered_report p (filter (\<lambda>(d, t). map_of origins (pd_deal_id d) = Some External) (rp_reported rp))]"
        using a(4) f(3) by auto
      have "reports_only p rp rs"
      proof (cases rs)
        case (Cons x xs)
        then have "xs = []" "fst (snd x) = recovered_report p (filter (\<lambda>(d, t). map_of origins (pd_deal_id d) = Some External) (rp_reported rp))"
          using rs(2) by auto
        then show ?thesis using Cons by (cases x) (auto simp: reports_only_def recovered_report_def case_prod_unfold comp_def)
      qed (simp add: reports_only_def)
      then show ?thesis using all now_loaded rs(1) rt by auto
    qed
  qed
qed


text \<open>A close by hand, of an order with a client order id of somebody else.\<close>

definition manual_order :: order where
  "manual_order = \<lparr>o_orderId = 50, o_tradeData = \<lparr>td_symbolId = 1, td_volume = 200000, td_tradeSide = SELL, td_openTimestamp = 0,
       td_label = []\<rparr>,
     o_orderType = MARKET, o_orderStatus = ORDER_STATUS_FILLED, o_executionPrice = 1, o_executedVolume = 200000,
     o_utcLastUpdateTimestamp = 0, o_closingOrder = True, o_limitPrice = 0, o_stopPrice = 0, o_clientOrderId = ''manual'',
     o_positionId = 7, o_isStopOut = False, o_stopLoss = None, o_takeProfit = None, o_relativeStopLoss = None,
     o_relativeTakeProfit = None, o_expirationTimestamp = None, o_timeInForce = None\<rparr>"

definition manual_archive :: archive where
  "manual_archive = lone_archive\<lparr>details_page := (\<lambda>k i. Inr manual_order)\<rparr>"

definition manual_close :: position_deal where
  "manual_close = \<lparr>pd_deal_id = 90, pd_order_id = 50, pd_executed_ms = 2000, pd_filled = 200000, pd_closed = 200000,
     pd_side = Sell, pd_price = 1, pd_fee = 0\<rparr>"


end
