(* ===== verification/Recovered.thy ===== *)
theory Recovered
  imports Verdicts Events
begin

text \<open>
  Crash recovery (\<open>recovery.py\<close>), run once while the connection is set up: every row whose dispatch a crash left pending is
  resolved from the venue's orders and deals, rows whose position is gone are retired once their close is judged, and
  positions and orders of the run that its journal lost are adopted or cancelled.
\<close>

section \<open>The orders the venue has shed\<close>

definition ABANDON_TTL :: rat where
  "ABANDON_TTL = 600"

record order_lookup =
  lk_order :: "order option"
  lk_conclusive :: bool

text \<open>A page holds orders last updated in the window asked for, or ones without a time.\<close>

definition in_span :: "int \<Rightarrow> int \<Rightarrow> order list \<Rightarrow> order list" where
  "in_span a b os = filter (\<lambda>v. o_utcLastUpdateTimestamp v = 0 \<or> (a \<le> o_utcLastUpdateTimestamp v \<and> o_utcLastUpdateTimestamp v \<le> b)) os"

definition oldest_update :: "order list \<Rightarrow> int" where
  "oldest_update os =
     (let ts = filter (\<lambda>t. t \<noteq> 0) (map o_utcLastUpdateTimestamp os) in if ts = [] then 0 else Min (set ts))"

definition lookup_done :: "int \<Rightarrow> bool \<Rightarrow> order list \<Rightarrow> bool" where
  "lookup_done from_ms has_more os \<longleftrightarrow>
     \<not> has_more \<or> os = [] \<or> oldest_update os = 0 \<or> oldest_update os \<le> from_ms"

lemma oldest_in_span: "\<not> lookup_done a has_more (in_span a b os) \<Longrightarrow> a < oldest_update (in_span a b os) \<and> oldest_update (in_span a b os) \<le> b"
proof -
  assume open_end: "\<not> lookup_done a has_more (in_span a b os)"
  let ?ts = "filter (\<lambda>t. t \<noteq> 0) (map o_utcLastUpdateTimestamp (in_span a b os))"
  have some: "?ts \<noteq> []" using open_end by (auto simp: lookup_done_def oldest_update_def)
  then have "Min (set ?ts) \<in> set ?ts" by (intro Min_in) (simp_all only: set_empty finite_set not_False_eq_True)
  then have "Min (set ?ts) \<le> b" by (auto simp: in_span_def)
  then show ?thesis using open_end some by (auto simp: lookup_done_def oldest_update_def Let_def)
qed

function coid_pages :: "archive \<Rightarrow> string \<Rightarrow> int \<Rightarrow> int \<Rightarrow> trail \<Rightarrow> order_lookup \<times> trail" where
  "coid_pages V coid from_ms to_ms s =
     (case order_page V (asked s) (wall_ms (led s)) from_ms to_ms of
        Inl e \<Rightarrow> (\<lparr>lk_order = None, lk_conclusive = False\<rparr>, waited V s)
      | Inr (os, has_more) \<Rightarrow>
          (case find (\<lambda>v. o_clientOrderId v = coid) (in_span from_ms to_ms os) of
             Some v \<Rightarrow> (\<lparr>lk_order = Some v, lk_conclusive = True\<rparr>, waited V s)
           | None \<Rightarrow>
               (if lookup_done from_ms has_more (in_span from_ms to_ms os)
                then (\<lparr>lk_order = None, lk_conclusive = True\<rparr>, waited V s)
                else coid_pages V coid from_ms (oldest_update (in_span from_ms to_ms os) - 1) (waited V s))))"
  by pat_completeness auto

termination
  by (relation "measure (\<lambda>(V, coid, a, b, s). nat (b - a + 1))") (use oldest_in_span in fastforce)+

definition find_order_by_coid :: "archive \<Rightarrow> string \<Rightarrow> int \<Rightarrow> order_lookup job" where
  "find_order_by_coid V coid from_ms s =
     (if \<not> wired s then (Inr \<lparr>lk_order = None, lk_conclusive = False\<rparr>, s)
      else (case coid_pages V coid from_ms (wall_ms (led s)) s of (found, t) \<Rightarrow> (Inr found, t)))"

definition recovery_lower_bound :: "row \<Rightarrow> exn + int" where
  "recovery_lower_bound r =
     (case extra r ''submitted_at_ms'' of
        None \<Rightarrow> Inr (r_created_ms r - SINCE_ANCHOR_SKEW_MS)
      | Some v \<Rightarrow> map_sum id (\<lambda>t. min (r_created_ms r) t - SINCE_ANCHOR_SKEW_MS) (parse_protocol_id v ''submitted_at_ms''))"

section \<open>What becomes of a pending row\<close>

definition recovered_extras :: "row \<Rightarrow> int \<Rightarrow> int \<Rightarrow> int \<Rightarrow> extras" where
  "recovered_extras r order_id p at_ms =
     (r_extras r)(''order_id'' \<mapsto> PyStr (py_str order_id), ''position_id'' \<mapsto> (if p \<noteq> 0 then PyInt p else PyNone),
       ''submitted_at_ms'' \<mapsto> PyInt at_ms)"

definition updated_ms :: "ledger \<Rightarrow> order \<Rightarrow> int" where
  "updated_ms L v = (if o_utcLastUpdateTimestamp v \<noteq> 0 then o_utcLastUpdateTimestamp v else wall_ms L)"

definition owned_now :: "floor \<Rightarrow> ledger \<Rightarrow> exn + int set" where
  "owned_now X L = map_sum id (\<lambda>ids. set ids \<union> (dom (g_close_pine L) - {0})) (named_positions (live_rows X (row_writes L)))"

text \<open>The row keeps waiting, but the venue's ids resolve to it; a position id of \<open>0\<close> is none.\<close>

definition record_recovered_refs :: "floor \<Rightarrow> row \<Rightarrow> int \<Rightarrow> int \<Rightarrow> int \<Rightarrow> unit act" where
  "record_recovered_refs X r order_id p at_ms =
     seq (post X (Row_op (Set_extras (r_coid r) ((recovered_extras r order_id p at_ms)(''recovered_inconclusive'' \<mapsto> PyBool True))))) (\<lambda>_.
     seq (post X (Row_op (Add_ref (r_coid r) ''order_id'' (py_str order_id)))) (\<lambda>_.
     link_ref X (r_coid r) p))"

definition recovered_cursor :: "row \<Rightarrow> rat \<Rightarrow> rat" where
  "recovered_cursor r filled = min (r_qty r) (max (r_filled r) filled)"

definition confirm_recovered_entry :: "floor \<Rightarrow> row \<Rightarrow> int \<Rightarrow> int \<Rightarrow> rat \<Rightarrow> int \<Rightarrow> bool \<Rightarrow> position option \<Rightarrow> unit act" where
  "confirm_recovered_entry X r order_id p filled at_ms partial_terminal pos =
     (let more_extras = recovered_extras r order_id p at_ms;
          extras = (if partial_terminal then more_extras(''recovered_partial_terminal'' \<mapsto> PyBool True) else more_extras)
      in seq (post X (Row_op (Confirm_parked (r_coid r) (recovered_cursor r filled) (py_str (if p \<noteq> 0 then p else order_id)) extras))) (\<lambda>_.
         seq (post X (Row_op (Add_ref (r_coid r) ''order_id'' (py_str order_id)))) (\<lambda>_.
         seq (post X (Row_op (Unpark (r_coid r)))) (\<lambda>_.
         seq (link_ref X (r_coid r) p) (\<lambda>_.
         seq (case pos of
                None \<Rightarrow> ret ()
              | Some q \<Rightarrow>
                  (if NANO < recovered_cursor r filled \<and> p_positionId q = p
                   then seq (asks (owned_now X)) (\<lambda>owned. seq (try_exn owned) (\<lambda>ids.
                        if p \<in> ids then guard (Took_protection q) else ret ()))
                   else ret ())) (\<lambda>_.
         post X (Row_op (Audit ''recovered_in_flight_confirmed'' (Some (r_coid r))))))))))"

definition clear_intent_anchor :: "floor \<Rightarrow> row \<Rightarrow> unit act" where
  "clear_intent_anchor X r =
     (if py_truth (map_option PyStr (r_intent_key r)) then post X (Row_op (Forget_intent (the (r_intent_key r)))) else ret ())"

definition retire_recovered_terminal :: "floor \<Rightarrow> row \<Rightarrow> order \<Rightarrow> unit act" where
  "retire_recovered_terminal X r v =
     seq (post X (Row_op (Land_row (r_coid r) ''rejected'' ''recovered_in_flight_rejected'' (Some (py_str (o_orderId v)))))) (\<lambda>_.
     clear_intent_anchor X r)"

definition too_young :: "ledger \<Rightarrow> row \<Rightarrow> bool" where
  "too_young L r \<longleftrightarrow> fsub (g_clock L) (fdiv (of_int (r_created_ms r)) 1000) < ABANDON_TTL"

definition maybe_abandon_unknown :: "floor \<Rightarrow> row \<Rightarrow> unit act" where
  "maybe_abandon_unknown X r =
     seq (asks (\<lambda>L. too_young L r)) (\<lambda>young.
     if young then ret ()
     else seq (post X (Row_op (Land_row (r_coid r) ''rejected'' ''recovered_abandoned_unknown'' None))) (\<lambda>_.
          clear_intent_anchor X r))"

definition share_with_recovered_fill :: "floor \<Rightarrow> ledger \<Rightarrow> row \<Rightarrow> int \<Rightarrow> rat \<Rightarrow> rat" where
  "share_with_recovered_fill X L r p recovered =
     (let rows = position_entry_rows X (row_writes L) p;
          counted = (if \<exists>q \<in> set rows. r_coid q = r_coid r then r_filled r else 0);
          added = max 0 (fsub (min (r_qty r) recovered) counted)
      in \<bar>fadd (rows_net X rows) (signed (r_side r) added)\<bar>)"

definition siblings :: "int \<Rightarrow> row \<Rightarrow> row list \<Rightarrow> string list" where
  "siblings p r rows =
     map r_coid (filter (\<lambda>q. r_coid q \<noteq> r_coid r
       \<and> (Option.bind (extra q ''position_id'') as_number = Some (of_int p) \<or> r_exchange_id q = Some (py_str p))) rows)"

definition retire_filled_then_closed :: "floor \<Rightarrow> row \<Rightarrow> int \<Rightarrow> unit act" where
  "retire_filled_then_closed X r p =
     seq (asks (\<lambda>L. siblings p r (live_rows X (row_writes L)))) (\<lambda>others.
     seq (post X (Row_op (Land_row (r_coid r) ''closed'' ''reconcile_filled_then_closed_retired'' (Some (py_str p))))) (\<lambda>_.
     close_rows X others))"

definition note_accepted_by_resume :: "floor \<Rightarrow> int \<Rightarrow> unit act" where
  "note_accepted_by_resume X p = post X (Noted ''ctrader_close_accepted_by_resume'' p)"

definition see_deals :: "int list \<Rightarrow> unit act" where
  "see_deals ids = modify (\<lambda>L. L\<lparr>g_seen := g_seen L \<union> set ids\<rparr>)"

section \<open>Resolving a row\<close>

definition ended :: "order_status \<Rightarrow> bool" where
  "ended st \<longleftrightarrow> st = ORDER_STATUS_REJECTED \<or> st = ORDER_STATUS_EXPIRED \<or> st = ORDER_STATUS_CANCELLED"

type_synonym firing = "ledger \<Rightarrow> int \<Rightarrow> order \<Rightarrow> close_origin"

definition stay_pending :: "floor \<Rightarrow> row \<Rightarrow> order \<Rightarrow> int \<Rightarrow> bool job" where
  "stay_pending X r v p =
     seq (asks (\<lambda>s. updated_ms (led s) v)) (\<lambda>at_ms.
     seq (on_led (record_recovered_refs X r (o_orderId v) p at_ms)) (\<lambda>_. ret False))"

definition position_of :: "order \<Rightarrow> deal_bridge \<Rightarrow> int" where
  "position_of v b = (if o_positionId v \<noteq> 0 then o_positionId v else case br_deal b of Some d \<Rightarrow> h_positionId d | None \<Rightarrow> 0)"

text \<open>Filled, then closed while the process was down.\<close>

definition resolve_closed :: "floor \<Rightarrow> archive \<Rightarrow> firing \<Rightarrow> row \<Rightarrow> order \<Rightarrow> int \<Rightarrow> deal_bridge \<Rightarrow> bool job" where
  "resolve_closed X V fired r v p b =
     seq (if accepted_by_resume X r
          then seq (on_led (note_accepted_by_resume X p)) (\<lambda>_. seq (on_led (mark_close_judged X (br_closing_ids b) [])) (\<lambda>_. ret True))
          else seq (asks (\<lambda>s. share_with_recovered_fill X (led s) r p (volume_to_units (br_filled b)))) (\<lambda>share.
               seq (judge_recovered_closes X V fired p (br_position_deals b) 0 (Some share) (set (br_deal_ids b)) [o_orderId v])
                 (\<lambda>taken. ret (taken \<noteq> None)))) (\<lambda>judged.
     if \<not> judged then stay_pending X r v p
     else seq (on_led (see_deals (br_deal_ids b))) (\<lambda>_. seq (on_led (see_deals (br_closing_ids b))) (\<lambda>_.
          seq (on_led (retire_filled_then_closed X r p)) (\<lambda>_. seq (on_led (clear_intent_anchor X r)) (\<lambda>_. ret False)))))"

definition confirm_resolved :: "floor \<Rightarrow> row \<Rightarrow> order \<Rightarrow> (int \<rightharpoonup> position) \<Rightarrow> int \<Rightarrow> deal_bridge \<Rightarrow> bool job" where
  "confirm_resolved X r v opens p b =
     (let recovered = volume_to_units (if br_filled b \<noteq> 0 then br_filled b else o_executedVolume v);
          partial_terminal = (ended (o_orderStatus v) \<and> recovered < fsub (r_qty r) NANO)
      in seq (on_led (see_deals (br_deal_ids b))) (\<lambda>_.
         seq (asks (\<lambda>s. updated_ms (led s) v)) (\<lambda>at_ms.
         seq (on_led (confirm_recovered_entry X r (o_orderId v) p recovered at_ms partial_terminal (if p \<noteq> 0 then opens p else None))) (\<lambda>_.
         ret True))))"

definition resolve_recovered_order ::
    "floor \<Rightarrow> archive \<Rightarrow> firing \<Rightarrow> row \<Rightarrow> order \<Rightarrow> (int \<rightharpoonup> position) \<Rightarrow> int \<Rightarrow> bool job" where
  "resolve_recovered_order X V fired r v opens from_ms =
     (if ended (o_orderStatus v) \<and> o_executedVolume v = 0
      then seq (on_led (retire_recovered_terminal X r v)) (\<lambda>_. ret False)
      else seq (find_fill_deal V (o_orderId v) from_ms None None) (\<lambda>b.
        let p = position_of v b; gone = (p \<noteq> 0 \<and> opens p = None) in
        if gone \<and> 0 < br_closed b \<and> 0 < br_filled b \<and> br_deal b \<noteq> None then resolve_closed X V fired r v p b
        else if gone \<and> \<not> br_conclusive b then stay_pending X r v p
        else if br_filled b = 0 \<and> o_executedVolume v \<noteq> 0 \<and> \<not> br_conclusive b then stay_pending X r v p
        else confirm_resolved X r v opens p b))"

text \<open>An order still resting at the venue; its fills are seeded before the row counts them.\<close>

definition confirm_live :: "floor \<Rightarrow> archive \<Rightarrow> row \<Rightarrow> order \<Rightarrow> (int \<rightharpoonup> position) \<Rightarrow> bool job" where
  "confirm_live X V r v opens =
     seq (if o_executedVolume v = 0 then ret True
          else seq (on_led (try_exn (recovery_lower_bound r))) (\<lambda>from_ms.
               seq (find_fill_deal V (o_orderId v) from_ms None None) (\<lambda>b.
               if br_filled b = 0 \<and> \<not> br_conclusive b then stay_pending X r v (o_positionId v)
               else seq (on_led (see_deals (br_deal_ids b))) (\<lambda>_. ret True)))) (\<lambda>known.
     if \<not> known then ret False
     else seq (asks (\<lambda>s. updated_ms (led s) v)) (\<lambda>at_ms.
          seq (on_led (confirm_recovered_entry X r (o_orderId v) (o_positionId v) (volume_to_units (o_executedVolume v)) at_ms False
                 (opens (o_positionId v)))) (\<lambda>_. ret True)))"

definition recover_one_pending_row ::
    "floor \<Rightarrow> archive \<Rightarrow> firing \<Rightarrow> row \<Rightarrow> (string \<rightharpoonup> order) \<Rightarrow> (int \<rightharpoonup> position) \<Rightarrow> bool job" where
  "recover_one_pending_row X V fired r resting opens =
     (if \<not> journaled X then ret False
      else case resting (r_coid r) of
        Some v \<Rightarrow> confirm_live X V r v opens
      | None \<Rightarrow>
          seq (on_led (try_exn (recovery_lower_bound r))) (\<lambda>from_ms.
          seq (find_order_by_coid V (r_coid r) from_ms) (\<lambda>found.
          case lk_order found of
            Some v \<Rightarrow> resolve_recovered_order X V fired r v opens from_ms
          | None \<Rightarrow> (if lk_conclusive found then seq (on_led (maybe_abandon_unknown X r)) (\<lambda>_. ret False) else ret False))))"

fun recover_pending_rows ::
    "floor \<Rightarrow> archive \<Rightarrow> firing \<Rightarrow> (string \<rightharpoonup> order) \<Rightarrow> (int \<rightharpoonup> position) \<Rightarrow> row list \<Rightarrow> string list job" where
  "recover_pending_rows X V fired resting opens [] = ret []"
| "recover_pending_rows X V fired resting opens (r # rs) =
     seq (recover_one_pending_row X V fired r resting opens) (\<lambda>promoted.
     seq (recover_pending_rows X V fired resting opens rs) (\<lambda>coids. ret (if promoted then r_coid r # coids else coids)))"

section \<open>Rows whose position is gone\<close>

definition shown_in :: "string set \<Rightarrow> pyval option \<Rightarrow> bool" where
  "shown_in ids v \<longleftrightarrow> (case v of Some (PyStr s) \<Rightarrow> s \<in> ids | Some (PyInt n) \<Rightarrow> py_str n \<in> ids | _ \<Rightarrow> False)"

definition still_shown :: "string set \<Rightarrow> string set \<Rightarrow> row \<Rightarrow> bool" where
  "still_shown oids pids r \<longleftrightarrow>
     (\<exists>i. r_exchange_id r = Some i \<and> (i \<in> oids \<or> i \<in> pids))
     \<or> shown_in oids (extra r ''order_id'') \<or> shown_in pids (extra r ''position_id'')"

definition may_be_orphan :: "string set \<Rightarrow> string set \<Rightarrow> row \<Rightarrow> bool" where
  "may_be_orphan oids pids r \<longleftrightarrow>
     r_state r \<in> {''confirmed'', ''closing'', ''rejected''} \<and> \<not> still_shown oids pids r
     \<and> (r_exchange_id r \<noteq> None \<or> extra r ''order_id'' \<noteq> None \<or> extra r ''position_id'' \<noteq> None)
     \<and> \<not> (extra r ''position_id'' = None \<and> r_filled r < fsub (r_qty r) NANO \<and> extra r ''order_id'' \<noteq> None)"

definition judge_orphan_close :: "floor \<Rightarrow> archive \<Rightarrow> firing \<Rightarrow> row \<Rightarrow> pyval \<Rightarrow> pyval \<Rightarrow> rat option \<Rightarrow> bool job" where
  "judge_orphan_close X V fired r order_id position_id until =
     seq (on_led (try_exn (parse_protocol_id position_id ''position_id''))) (\<lambda>p.
     seq (on_led (try_exn (parse_protocol_id order_id ''order_id''))) (\<lambda>oid.
     seq (on_led (try_exn (recovery_lower_bound r))) (\<lambda>from_ms.
     seq (find_fill_deal V oid from_ms (Some p) until) (\<lambda>b.
     if \<not> br_conclusive b then ret False
     else if 0 < br_closed b
          then seq (judge_recovered_closes X V fired p (br_position_deals b) 0 None (set (br_deal_ids b)) []) (\<lambda>taken.
               if taken = None then ret False
               else seq (on_led (see_deals (br_closing_ids b))) (\<lambda>_. ret True))
          else ret True))))"

definition retire_startup_orphan :: "floor \<Rightarrow> archive \<Rightarrow> firing \<Rightarrow> row \<Rightarrow> string set \<Rightarrow> string set \<Rightarrow> rat option \<Rightarrow> bool job" where
  "retire_startup_orphan X V fired r oids pids until =
     (if \<not> may_be_orphan oids pids r then ret False
      else seq (case (extra r ''position_id'', extra r ''order_id'') of
             (Some p, Some oid) \<Rightarrow>
               (if accepted_by_resume X r
                then seq (on_led (try_exn (parse_protocol_id p ''position_id''))) (\<lambda>i.
                     seq (on_led (note_accepted_by_resume X i)) (\<lambda>_. ret True))
                else judge_orphan_close X V fired r oid p until)
           | _ \<Rightarrow> ret True) (\<lambda>judged.
           if \<not> judged then ret False
           else seq (on_led (post X (Row_op (Audit ''startup_orphan_retired'' (Some (r_coid r)))))) (\<lambda>_.
                seq (on_led (post X (Row_op (Close_row (r_coid r))))) (\<lambda>_.
                seq (on_led (clear_intent_anchor X r)) (\<lambda>_. ret True)))))"

fun retire_orphans :: "floor \<Rightarrow> archive \<Rightarrow> firing \<Rightarrow> string set \<Rightarrow> string set \<Rightarrow> rat option \<Rightarrow> string list \<Rightarrow> row list \<Rightarrow> unit job" where
  "retire_orphans X V fired oids pids until promoted [] = ret ()"
| "retire_orphans X V fired oids pids until promoted (r # rs) =
     (if r_coid r \<in> set promoted then retire_orphans X V fired oids pids until promoted rs
      else seq (retire_startup_orphan X V fired r oids pids until) (\<lambda>_. retire_orphans X V fired oids pids until promoted rs))"

definition retire_startup_orphans :: "floor \<Rightarrow> archive \<Rightarrow> firing \<Rightarrow> position list \<times> order list \<Rightarrow> string list \<Rightarrow> unit job" where
  "retire_startup_orphans X V fired res promoted =
     (if \<not> journaled X then ret ()
      else seq (asks (\<lambda>s. (live_rows X (row_writes (led s)), fadd (g_mono (led s)) REQUEST_TIMEOUT))) (\<lambda>(rows, until).
           retire_orphans X V fired ((\<lambda>v. py_str (o_orderId v)) ` set (snd res)) ((\<lambda>p. py_str (p_positionId p)) ` set (fst res))
             (Some until) promoted rows))"

section \<open>What the journal lost\<close>

definition recovered_coid :: "floor \<Rightarrow> int \<Rightarrow> string" where
  "recovered_coid X p = run_tag X @ ''-recovered-'' @ py_str p"

definition adopt_own_leg :: "floor \<Rightarrow> position \<Rightarrow> unit act" where
  "adopt_own_leg X q =
     (let p = p_positionId q; coid = recovered_coid X p in
      seq (asks (\<lambda>L. symbol_label L (td_symbolId (p_tradeData q)))) (\<lambda>symbol.
      seq (post X (Row_op (Adopt_leg coid symbol (side_of (td_tradeSide (p_tradeData q))) (volume_to_units (td_volume (p_tradeData q))) p))) (\<lambda>_.
      seq (link_ref X coid p) (\<lambda>_.
      seq (post X (Row_op (Audit ''ctrader_own_leg_recovered'' (Some coid)))) (\<lambda>_.
      guard (Took_protection q))))))"

definition note_unlabelled_leg :: "floor \<Rightarrow> position \<Rightarrow> unit act" where
  "note_unlabelled_leg X q =
     seq (asks (\<lambda>L. Noted ''ctrader_untracked_leg_unattributed'' (p_positionId q) \<in> set (g_past L @ g_journal L))) (\<lambda>noted.
     if noted then ret () else post X (Noted ''ctrader_untracked_leg_unattributed'' (p_positionId q)))"

fun recover_positions :: "floor \<Rightarrow> int option \<Rightarrow> int set \<Rightarrow> position list \<Rightarrow> unit act" where
  "recover_positions X own_symbol owned [] = ret ()"
| "recover_positions X own_symbol owned (q # qs) =
     seq (if \<not> is_open q \<or> p_positionId q \<in> owned then ret ()
          else if td_label (p_tradeData q) = run_tag X then adopt_own_leg X q
          else if td_label (p_tradeData q) = [] \<and> own_symbol = Some (td_symbolId (p_tradeData q)) then note_unlabelled_leg X q
          else ret ()) (\<lambda>_.
     recover_positions X own_symbol owned qs)"

definition own_debris :: "floor \<Rightarrow> ledger \<Rightarrow> order \<Rightarrow> bool" where
  "own_debris X L v \<longleftrightarrow>
     \<not> o_closingOrder v \<and> o_orderType v \<in> {MARKET, LIMIT, STOP} \<and> o_orderStatus v = ORDER_STATUS_ACCEPTED
     \<and> (td_label (o_tradeData v) = run_tag X \<or> starts_with (o_clientOrderId v) (run_tag X @ ''-''))
     \<and> ref_row X (row_writes L) ''order_id'' (py_str (o_orderId v)) = None
     \<and> \<not> (o_clientOrderId v \<noteq> [] \<and> get_row X (row_writes L) (o_clientOrderId v) \<noteq> None)"

text \<open>The cancel goes through \<open>_dispatch_order\<close> (theory Desk); here it is the outcome the archive gives it.\<close>

definition cancel_own_debris :: "floor \<Rightarrow> archive \<Rightarrow> order \<Rightarrow> unit job" where
  "cancel_own_debris X V v =
     seq (request V (\<lambda>k. cancel_sent V k (o_orderId v))) (\<lambda>a.
     case a of
       Inl e \<Rightarrow> (if lookup_deferred e then on_led (post X (Noted ''ctrader_own_order_debris'' (o_orderId v))) else throw e)
     | Inr _ \<Rightarrow> on_led (post X (Noted ''ctrader_own_order_debris'' (o_orderId v))))"

fun recover_orders :: "floor \<Rightarrow> archive \<Rightarrow> order list \<Rightarrow> unit job" where
  "recover_orders X V [] = ret ()"
| "recover_orders X V (v # vs) =
     seq (asks (\<lambda>s. own_debris X (led s) v)) (\<lambda>lost.
     seq (if lost then cancel_own_debris X V v else ret ()) (\<lambda>_.
     recover_orders X V vs))"

definition recover_untracked_venue_state :: "floor \<Rightarrow> archive \<Rightarrow> int option \<Rightarrow> position list \<times> order list \<Rightarrow> unit job" where
  "recover_untracked_venue_state X V own_symbol res =
     (if \<not> journaled X then ret ()
      else seq (asks (\<lambda>s. owned_now X (led s))) (\<lambda>owned.
           seq (on_led (try_exn owned)) (\<lambda>ids.
           seq (on_led (recover_positions X own_symbol ids (fst res))) (\<lambda>_.
           recover_orders X V (snd res)))))"

section \<open>The whole recovery\<close>

definition resting_orders :: "order list \<Rightarrow> (string \<rightharpoonup> order)" where
  "resting_orders os = map_of (rev (map (\<lambda>v. (o_clientOrderId v, v)) (filter (\<lambda>v. o_clientOrderId v \<noteq> []) os)))"

definition open_now :: "position list \<Rightarrow> (int \<rightharpoonup> position)" where
  "open_now ps = map_of (rev (map (\<lambda>p. (p_positionId p, p)) (filter is_open ps)))"

definition recover_in_flight_submissions :: "floor \<Rightarrow> archive \<Rightarrow> firing \<Rightarrow> int option \<Rightarrow> unit job" where
  "recover_in_flight_submissions X V fired own_symbol =
     (if \<not> journaled X then ret ()
      else seq (asks (\<lambda>s. pending_rows X (row_writes (led s)))) (\<lambda>rows.
           seq (asks wired) (\<lambda>up.
           if \<not> up then throw (ExchangeConnectionError ''cTrader live connection not established'')
           else seq (request V (snapshot_page V)) (\<lambda>a.
           seq (on_led (try_exn a)) (\<lambda>res.
           seq (recover_pending_rows X V fired (resting_orders (snd res)) (open_now (fst res)) rows) (\<lambda>promoted.
           seq (retire_startup_orphans X V fired res promoted) (\<lambda>_.
           recover_untracked_venue_state X V own_symbol res)))))))"

end
