(* ===== verification/Recovered_Properties.thy ===== *)
theory Recovered_Properties
  imports Recovered Verdicts_Properties
begin

text \<open>
  What crash recovery may make of a row: every write to the journal's rows rests on an order, or on the absence of one,
  that the venue has shown, and every fill a row counts from then on is known to the event stream.
\<close>

section \<open>What a step writes to the rows\<close>

definition wrote :: "jop list \<Rightarrow> ledger \<Rightarrow> ledger \<Rightarrow> bool" where
  "wrote ws L M \<longleftrightarrow> row_writes M = row_writes L @ ws \<and> g_seen L \<subseteq> g_seen M"

definition undisturbed :: "archive \<Rightarrow> bool" where
  "undisturbed V \<longleftrightarrow> calm_waits V \<and> (\<forall>k L. g_seen L \<subseteq> g_seen (meanwhile V k L))"

lemma wrote_refl [simp]: "wrote [] L L"
  by (simp add: wrote_def)

lemma wrote_trans: "wrote a L M \<Longrightarrow> wrote b M N \<Longrightarrow> wrote (a @ b) L N"
  by (auto simp: wrote_def)

lemma row_writes_cong: "g_journal M = g_journal L \<Longrightarrow> row_writes M = row_writes L"
  by (simp add: row_writes_def)

lemma wrote_waited: "undisturbed V \<Longrightarrow> wrote [] (led s) (led (waited V s))"
  by (simp add: wrote_def waited_def undisturbed_def calm_waits_def verdicts_def row_writes_def)

abbreviation unwritten :: "ledger \<Rightarrow> 'a act \<Rightarrow> bool" where
  "unwritten L \<equiv> keeps (wrote [] L)"

abbreviation row_calm :: "ledger \<Rightarrow> 'a job \<Rightarrow> bool" where
  "row_calm L \<equiv> keeps (\<lambda>s. wrote [] L (led s))"

lemma row_calmD: "row_calm (led s) m \<Longrightarrow> m s = (r, t) \<Longrightarrow> wrote [] (led s) (led t)"
  using keepsD [of "\<lambda>u. wrote [] (led s) (led u)" m s] by simp

lemma unwrittenD: "unwritten L m \<Longrightarrow> m L = (r, M) \<Longrightarrow> wrote [] L M"
  using keepsD [of "wrote [] L" m L] by simp

lemma keeps_on_led: "keeps I m \<Longrightarrow> keeps (\<lambda>s. I (led s)) (on_led m)"
  by (auto simp: keeps_def on_led_def split: prod.split)

lemma on_led_run: "on_led m s = (r, t) \<longleftrightarrow> (\<exists>L. m (led s) = (r, L) \<and> t = s\<lparr>led := L\<rparr>)"
  by (auto simp: on_led_def split: prod.split)

lemma unwritten_modify: "(\<And>M. row_writes (f M) = row_writes M \<and> g_seen M \<subseteq> g_seen (f M)) \<Longrightarrow> unwritten L (modify f)"
  by (rule keeps_modify) (fastforce simp: wrote_def)

lemma row_writes_snoc: "row_writes (L\<lparr>g_journal := g_journal L @ [op]\<rparr>)
    = (case op of Row_op j \<Rightarrow> row_writes L @ [j] | _ \<Rightarrow> row_writes L)"
  by (simp add: row_writes_def List.map_filter_def split: lop.split)

lemma row_writes_shared: "row_writes (L\<lparr>g_shared := z, g_journal := g_journal L @ [Row_op j]\<rparr>) = row_writes L @ [j]"
  by (simp add: row_writes_def List.map_filter_def)

lemma unwritten_post: "(\<And>j. op \<noteq> Row_op j) \<Longrightarrow> unwritten L (post X op)"
  unfolding post_def by (rule unwritten_modify) (auto simp: row_writes_snoc split: lop.split)

lemma post_row: "journaled X \<Longrightarrow> post X (Row_op j) L = (r, M) \<longleftrightarrow> r = Inr () \<and> M = L\<lparr>g_journal := g_journal L @ [Row_op j]\<rparr>"
  by (auto simp: post_def)

lemma wrote_row: "wrote [j] L (L\<lparr>g_journal := g_journal L @ [Row_op j]\<rparr>)"
  by (simp add: wrote_def row_writes_snoc)

lemma replay_keeps_writes [simp]: "g_seen (replay_reports h es L) = g_seen L" "g_journal (replay_reports h es L) = g_journal L"
  by (induction h es L rule: replay_reports.induct) simp_all

lemma adopt_keeps_writes [simp]: "g_seen (adopt_closes cs L) = g_seen L" "g_journal (adopt_closes cs L) = g_journal L"
  by (induction cs arbitrary: L) simp_all

lemma unwritten_load: "unwritten L (load_close_evidence X)"
  unfolding load_close_evidence_def by (rule unwritten_modify) (auto simp: Let_def row_writes_def split: prod.split)

lemma count_own_seen [simp]: "g_seen (count_own_deals p org ds L) = g_seen L"
  by (induction p org ds L rule: count_own_deals.induct) (simp_all split: option.split)

lemma unwritten_count: "unwritten L (modify (count_own_deals p org ds))"
proof (rule unwritten_modify)
  fix M
  have "g_journal (count_own_deals p org ds M) = g_journal M" using count_own_verdicts [of p org ds M] by (simp add: verdicts_def)
  then show "row_writes (count_own_deals p org ds M) = row_writes M \<and> g_seen M \<subseteq> g_seen (count_own_deals p org ds M)"
    by (simp add: row_writes_def)
qed

lemma unwritten_notes: "unwritten L (note_share_unknown X p)" "unwritten L (note_share_ambiguous X p)" "unwritten L (note_accepted_by_resume X p)"
  unfolding note_share_unknown_def note_share_ambiguous_def note_accepted_by_resume_def by (rule unwritten_post, simp)+

lemma unwritten_marks: "unwritten L (mark_close_judged X ids gs)"
  unfolding mark_close_judged_def Let_def
  by (intro keeps_seq keeps_asks keeps_if keeps_ret unwritten_post unwritten_modify) (simp_all add: row_writes_def)

lemma unwritten_queue: "unwritten L (queue_external_close X p ctx)"
  unfolding queue_external_close_def
  by (intro keeps_seq keeps_asks keeps_pair keeps_if keeps_ret unwritten_post unwritten_modify) (simp_all add: row_writes_def)

lemma unwritten_verdict: "unwritten L (apply_recovered X p unjudged origins known replay)"
  unfolding apply_recovered_def Let_def
  by (intro keeps_seq keeps_asks keeps_if keeps_ret unwritten_notes unwritten_queue unwritten_post unwritten_count unwritten_marks) simp_all

lemma calm_request: "undisturbed V \<Longrightarrow> row_calm L (request V f)"
  by (auto simp: keeps_def request_def intro: wrote_trans [where a = "[]" and b = "[]", simplified] dest: wrote_waited)

lemma calm_kind: "undisturbed V \<Longrightarrow> row_calm L (closing_order_kind X V fired p i j)"
  unfolding closing_order_kind_def by (intro steps calm_request)

lemma calm_origin: "undisturbed V \<Longrightarrow> row_calm L (recovered_close_origin X V fired p i ms own)"
  unfolding recovered_close_origin_def by (intro steps calm_kind)

lemma calm_origins: "undisturbed V \<Longrightarrow> row_calm L (origins_of X V fired p own by_order ds)"
proof (induction ds arbitrary: by_order)
  case (Cons d ds)
  show ?case unfolding origins_of.simps by (intro steps calm_origin Cons)
qed simp

lemma calm_judge: "undisturbed V \<Longrightarrow> row_calm L (judge_recovered_closes X V fired p deals vn sh counted own)"
  unfolding judge_recovered_closes_def judge_recovered_close_deals_def Let_def
  by (intro steps calm_origins keeps_on_led unwritten_load unwritten_verdict)

text \<open>The readers of the history leave the ledger as the waits do.\<close>

lemma pages_wrote:
  assumes "undisturbed V"
  shows "walk_pages V oid until w s = (r, w', s') \<Longrightarrow> wrote [] (led s) (led s') \<and> walks s' = walks s \<and> wired s' = wired s"
using assms proof (induction V oid until w s rule: walk_pages.induct)
  case (1 V oid until w s)
  note run = "1.prems"(1) and calm = "1.prems"(2)
  show ?case
  proof (cases "wk_segments w")
    case Nil
    then show ?thesis using run by (simp add: walk_pages_run(1))
  next
    case (Cons p rest)
    obtain a b where p: "p = (a, b)" by (cases p)
    have same: "walks (waited V s) = walks s" "wired (waited V s) = wired s" by (simp_all add: waited_def)
    show ?thesis
    proof (cases "past_deadline until (led s)")
      case True
      then show ?thesis using run Cons p by (simp add: walk_pages_run(2))
    next
      case False
      show ?thesis
      proof (cases "deal_page V (asked s) (wall_ms (led s)) a b")
        case (Inl e)
        then show ?thesis using run Cons p False walk_pages_run(3) wrote_waited [OF calm] same by auto
      next
        case (Inr q)
        obtain ds has_more where q: "q = (ds, has_more)" by (cases q)
        have "walk_pages V oid until (take_page oid (in_window a b ds) has_more (w\<lparr>wk_last := Some (g_mono (led s))\<rparr>)) (waited V s)
          = (r, w', s')" using run Cons p False Inr q walk_pages_run(4) by simp
        then have "wrote [] (led (waited V s)) (led s') \<and> walks s' = walks (waited V s) \<and> wired s' = wired (waited V s)"
          using "1.IH" [OF Cons p [symmetric] False refl Inr q [symmetric]] calm by blast
        then show ?thesis using wrote_trans [OF wrote_waited [OF calm]] same by fastforce
      qed
    qed
  qed
qed

lemma history_wrote:
  assumes "undisturbed V" "find_fill_deal V oid from_ms cp until s = (r, t)"
  shows "wrote [] (led s) (led t)"
proof (cases "wired s")
  case True
  obtain q w s' where "walk_pages V oid until (extend_walk (wall_ms (led s)) (open_walk from_ms (walks s oid))) s = (q, w, s')"
    by (metis prod_cases3)
  then show ?thesis using assms(2) True pages_wrote [OF assms(1)] by (fastforce simp: find_fill_deal_def)
qed (use assms in \<open>simp add: find_fill_deal_def\<close>)

definition shown :: "archive \<Rightarrow> string \<Rightarrow> order \<Rightarrow> bool" where
  "shown V coid v \<longleftrightarrow> o_clientOrderId v = coid \<and> (\<exists>k m a b os has_more. order_page V k m a b = Inr (os, has_more) \<and> v \<in> set os)"

lemma coid_wrote:
  assumes "undisturbed V"
  shows "coid_pages V coid a b s = (found, t) \<Longrightarrow> wrote [] (led s) (led t) \<and> walks t = walks s \<and> wired t = wired s
     \<and> (\<forall>v. lk_order found = Some v \<longrightarrow> shown V coid v)"
using assms proof (induction V coid a b s rule: coid_pages.induct)
  case (1 V coid a b s)
  note run = "1.prems"(1) [unfolded coid_pages.simps [of V coid a b s]] and calm = "1.prems"(2)
  have w: "wrote [] (led s) (led (waited V s))" "walks (waited V s) = walks s" "wired (waited V s) = wired s"
    using wrote_waited [OF calm] by (simp_all add: waited_def)
  show ?case
  proof (cases "order_page V (asked s) (wall_ms (led s)) a b")
    case (Inl e)
    then show ?thesis using run w by auto
  next
    case (Inr q)
    obtain os has_more where q: "q = (os, has_more)" by (cases q)
    show ?thesis
    proof (cases "find (\<lambda>v. o_clientOrderId v = coid) (in_span a b os)")
      case (Some v)
      then have "v \<in> set (in_span a b os)" "o_clientOrderId v = coid" by (auto simp: find_Some_iff)
      then have "v \<in> set os" "o_clientOrderId v = coid" by (simp_all add: in_span_def)
      then have "shown V coid v" unfolding shown_def using Inr q by blast
      then show ?thesis using run Inr q Some w by auto
    next
      case None
      show ?thesis
      proof (cases "lookup_done a has_more (in_span a b os)")
        case True
        then show ?thesis using run Inr q None w by auto
      next
        case False
        have "coid_pages V coid a (oldest_update (in_span a b os) - 1) (waited V s) = (found, t)"
          using run Inr q None False by simp
        from "1.IH" [OF Inr q [symmetric] None False this calm] show ?thesis using w wrote_trans [OF w(1)] by fastforce
      qed
    qed
  qed
qed

section \<open>What a step on a row writes\<close>

text \<open>The id of a position is linked to a row, or the row found linked is left the one it is.\<close>

definition links :: "string \<Rightarrow> jop list \<Rightarrow> bool" where
  "links c ls \<longleftrightarrow> ls = [] \<or> (\<exists>n. ls = [Add_ref c ''position_id'' n]) \<or> ls = [Audit ''ctrader_position_id_shared'' (Some c)]"

definition forgets :: "row \<Rightarrow> jop list" where
  "forgets r = (if py_truth (map_option PyStr (r_intent_key r)) then [Forget_intent (the (r_intent_key r))] else [])"

text \<open>A step that returns, with what it wrote.\<close>

definition writes :: "(jop list \<Rightarrow> bool) \<Rightarrow> ledger \<Rightarrow> 'a act \<Rightarrow> bool" where
  "writes P L m \<longleftrightarrow> (\<forall>x M. m L = (Inr x, M) \<longrightarrow> (\<exists>ws. P ws \<and> wrote ws L M \<and> g_judged M = g_judged L \<and> g_reported M = g_reported L))"

lemma writesD: "writes P L m \<Longrightarrow> m L = (Inr x, M) \<Longrightarrow> \<exists>ws. P ws \<and> wrote ws L M \<and> g_judged M = g_judged L \<and> g_reported M = g_reported L"
  by (simp add: writes_def)

lemma writes_nothing: "writes (\<lambda>ws. ws = []) L (ret x)" "writes (\<lambda>ws. ws = []) L (asks f)" "writes (\<lambda>ws. ws = []) L (throw e)"
  by (simp_all add: writes_def)

lemma writes_row: "journaled X \<Longrightarrow> writes (\<lambda>ws. ws = [j]) L (post X (Row_op j))"
  by (auto simp: writes_def post_row wrote_row)

lemma writes_seq:
  assumes "writes P L m" "\<And>x M. m L = (Inr x, M) \<Longrightarrow> writes Q M (f x)"
  shows "writes (\<lambda>ws. \<exists>a b. P a \<and> Q b \<and> ws = a @ b) L (seq m f)"
  unfolding writes_def seq_Inr_iff
proof (intro allI impI, elim exE conjE)
  fix y N x M assume runs: "m L = (Inr x, M)" "f x M = (Inr y, N)"
  obtain a where a: "P a" "wrote a L M" "g_judged M = g_judged L" "g_reported M = g_reported L" using writesD [OF assms(1) runs(1)] by blast
  obtain b where b: "Q b" "wrote b M N" "g_judged N = g_judged M" "g_reported N = g_reported M" using writesD [OF assms(2) [OF runs(1)] runs(2)] by blast
  show "\<exists>ws. (\<exists>a b. P a \<and> Q b \<and> ws = a @ b) \<and> wrote ws L N \<and> g_judged N = g_judged L \<and> g_reported N = g_reported L"
    using a b wrote_trans [OF a(2) b(2)] by auto
qed

lemma writes_asks: "writes P L (f (g L)) \<Longrightarrow> writes P L (seq (asks g) f)"
  by (simp add: writes_def)

lemma writes_weaken: "writes P L m \<Longrightarrow> (\<And>ws. P ws \<Longrightarrow> Q ws) \<Longrightarrow> writes Q L m"
  by (fastforce simp: writes_def)

lemma writes_link: "journaled X \<Longrightarrow> writes (links c) L (link_ref X c p)"
  by (cases "ref_row X (row_writes L) ''position_id'' (py_str p)")
     (auto simp: writes_def link_ref_def links_def post_row wrote_def row_writes_snoc row_writes_shared)

lemma writes_clear: "journaled X \<Longrightarrow> writes (\<lambda>ws. ws = forgets r) L (clear_intent_anchor X r)"
  by (simp add: clear_intent_anchor_def forgets_def writes_row writes_nothing)

lemma writes_guard: "writes (\<lambda>ws. ws = []) L (guard c)"
  by (simp add: writes_def guard_def wrote_def row_writes_def)

lemma writes_close_rows: "journaled X \<Longrightarrow> writes (\<lambda>ws. ws = map Close_row cs) L (close_rows X cs)"
proof (induction cs arbitrary: L)
  case (Cons c cs)
  show ?case unfolding close_rows.simps
    by (rule writes_weaken [OF writes_seq [OF writes_row [OF Cons.prems] Cons.IH [OF Cons.prems]]]) auto
qed (simp add: writes_nothing)

lemma writes_refs:
  assumes "journaled X"
  shows "writes (\<lambda>ws. \<exists>ls. links (r_coid r) ls \<and> ws = [Set_extras (r_coid r) ((recovered_extras r oid p ms)(''recovered_inconclusive'' \<mapsto> PyBool True)),
      Add_ref (r_coid r) ''order_id'' (py_str oid)] @ ls) L (record_recovered_refs X r oid p ms)"
  unfolding record_recovered_refs_def
  by (rule writes_weaken [OF writes_seq [OF writes_row writes_seq [OF writes_row writes_link]]]) (use assms in auto)

definition confirms :: "row \<Rightarrow> int \<Rightarrow> rat \<Rightarrow> jop list \<Rightarrow> bool" where
  "confirms r oid vol ws \<longleftrightarrow> (\<exists>ref x ls. links (r_coid r) ls \<and> ws = [Confirm_parked (r_coid r) (recovered_cursor r vol) ref x,
     Add_ref (r_coid r) ''order_id'' (py_str oid), Unpark (r_coid r)] @ ls @ [Audit ''recovered_in_flight_confirmed'' (Some (r_coid r))])"

lemma writes_try: "writes (\<lambda>ws. ws = []) L (try_exn e)"
  by (auto simp: writes_def try_exn_def split: sum.splits)

lemma writes_confirm:
  assumes "journaled X"
  shows "writes (confirms r oid vol) L (confirm_recovered_entry X r oid p vol ms part pos)"
proof -
  let ?take = "case pos of None \<Rightarrow> ret () | Some q \<Rightarrow>
      (if NANO < recovered_cursor r vol \<and> p_positionId q = p
       then seq (asks (owned_now X)) (\<lambda>owned. seq (try_exn owned) (\<lambda>ids. if p \<in> ids then guard (Took_protection q) else ret ()))
       else ret ())"
  have asked: "writes (\<lambda>ws. ws = []) M (seq (asks (owned_now X)) (\<lambda>owned. seq (try_exn owned) (\<lambda>ids. if p \<in> ids then g else ret ())))"
    if "\<And>N. writes (\<lambda>ws. ws = []) N g" for M and g :: "unit act"
    using that [of M] by (cases "owned_now X M") (auto simp: writes_def try_exn_def)
  have take: "writes (\<lambda>ws. ws = []) M ?take" for M
  proof (cases pos)
    case (Some q)
    then show ?thesis using asked [OF writes_guard] by (simp add: writes_nothing)
  qed (simp add: writes_nothing)
  show ?thesis unfolding confirm_recovered_entry_def Let_def
    by (rule writes_weaken [OF writes_seq [OF writes_row writes_seq [OF writes_row writes_seq [OF writes_row
          writes_seq [OF writes_link writes_seq [OF take writes_row]]]]]]) (use assms in \<open>auto simp: confirms_def\<close>)
qed

lemma writes_landed:
  assumes "journaled X"
  shows "writes (\<lambda>ws. ws = Land_row (r_coid r) st ev x # forgets r) L
     (seq (post X (Row_op (Land_row (r_coid r) st ev x))) (\<lambda>_. clear_intent_anchor X r))"
  by (rule writes_weaken [OF writes_seq [OF writes_row writes_clear]]) (use assms in auto)

lemma writes_closed:
  assumes "journaled X"
  shows "writes (\<lambda>ws. \<exists>cs. ws = Land_row (r_coid r) ''closed'' ''reconcile_filled_then_closed_retired'' (Some (py_str p)) # map Close_row cs)
     L (retire_filled_then_closed X r p)"
  unfolding retire_filled_then_closed_def
  by (rule writes_asks, rule writes_weaken [OF writes_seq [OF writes_row writes_close_rows]]) (use assms in auto)

lemma see_deals_run: "see_deals ids L = (Inr (), L\<lparr>g_seen := g_seen L \<union> set ids\<rparr>)"
  by (simp add: see_deals_def)

lemma seen_more: "wrote [] L (L\<lparr>g_seen := g_seen L \<union> D\<rparr>)"
  by (auto simp: wrote_def row_writes_def)

lemma seq_on_led: "seq (on_led m) f s = (Inr y, u) \<longleftrightarrow> (\<exists>x L. m (led s) = (Inr x, L) \<and> f x (s\<lparr>led := L\<rparr>) = (Inr y, u))"
  by (auto simp: seq_Inr_iff on_led_run)

lemma try_run: "try_exn e L = (Inr x, M) \<longleftrightarrow> e = Inr x \<and> M = L"
  by (auto simp: try_exn_def split: sum.splits)

lemma seq_try: "seq (on_led (try_exn e)) f s = (Inr y, u) \<longleftrightarrow> (\<exists>x. e = Inr x \<and> f x s = (Inr y, u))"
  by (auto simp: seq_on_led try_run)

section \<open>The judgement of a close before a row is retired\<close>

definition marked :: "ledger \<Rightarrow> int \<Rightarrow> deal_bridge \<Rightarrow> bool" where
  "marked L p b \<longleftrightarrow> p \<in> g_reported L \<or> (\<forall>d \<in> set (br_position_deals b). 0 < pd_closed d \<longrightarrow> pd_deal_id d \<in> g_judged L)"

lemma judge_marks:
  assumes "undisturbed V" and "judge_recovered_closes X V fired p (br_position_deals b) vn sh counted own s = (Inr (Some x), t)"
  shows "marked (led t) p b"
proof -
  obtain rp where j: "judge_recovered_close_deals X V fired p (br_position_deals b) vn sh counted own s = (Inr (Some rp), t)"
    using assms(2) by (auto simp: judge_recovered_closes_def seq_Inr_iff)
  obtain L where l: "load_close_evidence X (led s) = (Inr (), L)" by (rule load_run)
  show ?thesis
  proof (cases "p \<in> g_reported (led s)")
    case True
    then show ?thesis using j by (simp add: judge_recovered_close_deals_def marked_def)
  next
    case False
    then show ?thesis using judged_run [OF _ j l] assms(1) by (simp add: marked_def undisturbed_def)
  qed
qed

lemma marked_later: "marked L p b \<Longrightarrow> g_judged M = g_judged L \<Longrightarrow> g_reported M = g_reported L \<Longrightarrow> marked M p b"
  by (simp add: marked_def)

section \<open>The fate of a pending row\<close>

definition known_order :: "archive \<Rightarrow> (string \<rightharpoonup> order) \<Rightarrow> row \<Rightarrow> order \<Rightarrow> bool" where
  "known_order V resting r v \<longleftrightarrow> resting (r_coid r) = Some v \<or> (resting (r_coid r) = None \<and> shown V (r_coid r) v)"

definition reads :: "archive \<Rightarrow> row \<Rightarrow> order \<Rightarrow> trail \<Rightarrow> deal_bridge \<Rightarrow> bool" where
  "reads V r v s b \<longleftrightarrow> (\<exists>from_ms u u'. recovery_lower_bound r = Inr from_ms \<and> walks u = walks s \<and> wired u = wired s
     \<and> find_fill_deal V (o_orderId v) from_ms None None u = (Inr b, u'))"

inductive fate :: "floor \<Rightarrow> archive \<Rightarrow> (string \<rightharpoonup> order) \<Rightarrow> row \<Rightarrow> trail \<Rightarrow> jop list \<Rightarrow> bool \<Rightarrow> ledger \<Rightarrow> bool"
  for X V resting r s where
  undecided: "fate X V resting r s [] False L"
| waits: "known_order V resting r v \<Longrightarrow> links (r_coid r) ls \<Longrightarrow>
    fate X V resting r s ([Set_extras (r_coid r) ((recovered_extras r (o_orderId v) p ms)(''recovered_inconclusive'' \<mapsto> PyBool True)),
      Add_ref (r_coid r) ''order_id'' (py_str (o_orderId v))] @ ls) False L"
| confirmed: "known_order V resting r v \<Longrightarrow> confirms r (o_orderId v) (volume_to_units vol) ws \<Longrightarrow>
    vol = 0 \<or> (\<exists>b. reads V r v s b \<and> vol \<in> {br_filled b, o_executedVolume v} \<and> (br_conclusive b \<or> br_filled b \<noteq> 0)
      \<and> set (br_deal_ids b) \<subseteq> g_seen L) \<Longrightarrow> fate X V resting r s ws True L"
| rejected: "known_order V resting r v \<Longrightarrow> ended (o_orderStatus v) \<Longrightarrow> o_executedVolume v = 0 \<Longrightarrow>
    fate X V resting r s (Land_row (r_coid r) ''rejected'' ''recovered_in_flight_rejected'' (Some (py_str (o_orderId v))) # forgets r) False L"
| abandoned: "resting (r_coid r) = None \<Longrightarrow> recovery_lower_bound r = Inr from_ms \<Longrightarrow>
    find_order_by_coid V (r_coid r) from_ms s = (Inr \<lparr>lk_order = None, lk_conclusive = True\<rparr>, u) \<Longrightarrow> \<not> too_young (led u) r \<Longrightarrow>
    fate X V resting r s (Land_row (r_coid r) ''rejected'' ''recovered_abandoned_unknown'' None # forgets r) False L"
| closed: "known_order V resting r v \<Longrightarrow> reads V r v s b \<Longrightarrow> 0 < br_closed b \<Longrightarrow> 0 < br_filled b \<Longrightarrow>
    set (br_deal_ids b) \<union> set (br_closing_ids b) \<subseteq> g_seen L \<Longrightarrow> accepted_by_resume X r \<or> marked L p b \<Longrightarrow>
    fate X V resting r s ((Land_row (r_coid r) ''closed'' ''reconcile_filled_then_closed_retired'' (Some (py_str p)) # map Close_row cs)
      @ forgets r) False L"

lemma stay_run:
  assumes "journaled X" "known_order V resting r v" "stay_pending X r v p s = (Inr q, t)"
  shows "\<exists>ws. wrote ws (led s) (led t) \<and> fate X V resting r s' ws q L"
proof -
  obtain M ms where m: "record_recovered_refs X r (o_orderId v) p ms (led s) = (Inr (), M)" "t = s\<lparr>led := M\<rparr>" "q = False"
    using assms(3) by (auto simp: stay_pending_def seq_on_led)
  from writesD [OF writes_refs [OF assms(1)] m(1)] obtain ls where
    "links (r_coid r) ls" "wrote ([Set_extras (r_coid r) ((recovered_extras r (o_orderId v) p ms)(''recovered_inconclusive'' \<mapsto> PyBool True)),
      Add_ref (r_coid r) ''order_id'' (py_str (o_orderId v))] @ ls) (led s) M" by blast
  then show ?thesis using fate.waits [OF assms(2)] m by fastforce
qed

lemma confirm_resolved_run:
  assumes "journaled X" "known_order V resting r v" "confirm_resolved X r v opens p b u = (Inr q, t)"
    and "reads V r v s b" "br_filled b \<noteq> 0 \<or> o_executedVolume v = 0 \<or> br_conclusive b"
  shows "\<exists>ws. wrote ws (led u) (led t) \<and> fate X V resting r s ws q (led t)"
proof -
  let ?vol = "if br_filled b \<noteq> 0 then br_filled b else o_executedVolume v"
  let ?L = "(led u)\<lparr>g_seen := g_seen (led u) \<union> set (br_deal_ids b)\<rparr>"
  obtain M ms part pos where m: "confirm_recovered_entry X r (o_orderId v) p (volume_to_units ?vol) ms part pos ?L = (Inr (), M)"
    "led t = M" "q = True" using assms(3) by (auto simp: confirm_resolved_def Let_def seq_on_led see_deals_run)
  obtain ws where w: "confirms r (o_orderId v) (volume_to_units ?vol) ws" "wrote ws ?L M"
    using writesD [OF writes_confirm [OF assms(1)] m(1)] by blast
  then have "set (br_deal_ids b) \<subseteq> g_seen M" by (auto simp: wrote_def)
  then have "?vol = 0 \<or> (\<exists>b. reads V r v s b \<and> ?vol \<in> {br_filled b, o_executedVolume v} \<and> (br_conclusive b \<or> br_filled b \<noteq> 0)
      \<and> set (br_deal_ids b) \<subseteq> g_seen (led t))" using assms(4,5) m(2) by auto
  from fate.confirmed [OF assms(2) w(1) this] show ?thesis using m wrote_trans [OF seen_more w(2)] by auto
qed

lemma resolve_closed_run:
  assumes "undisturbed V" "journaled X" "known_order V resting r v" "resolve_closed X V fired r v p b u = (Inr q, t)"
    and "reads V r v s b" "0 < br_closed b" "0 < br_filled b"
  shows "\<exists>ws. wrote ws (led u) (led t) \<and> fate X V resting r s ws q (led t)"
proof -
  let ?judge = "if accepted_by_resume X r
      then seq (on_led (note_accepted_by_resume X p)) (\<lambda>_. seq (on_led (mark_close_judged X (br_closing_ids b) [])) (\<lambda>_. ret True))
      else seq (asks (\<lambda>s. share_with_recovered_fill X (led s) r p (volume_to_units (br_filled b)))) (\<lambda>share.
           seq (judge_recovered_closes X V fired p (br_position_deals b) 0 (Some share) (set (br_deal_ids b)) [o_orderId v])
             (\<lambda>taken. ret (taken \<noteq> None)))"
  obtain judged u1 where j: "?judge u = (Inr judged, u1)" and
    rest: "(if \<not> judged then stay_pending X r v p
     else seq (on_led (see_deals (br_deal_ids b))) (\<lambda>_. seq (on_led (see_deals (br_closing_ids b))) (\<lambda>_.
          seq (on_led (retire_filled_then_closed X r p)) (\<lambda>_. seq (on_led (clear_intent_anchor X r)) (\<lambda>_. ret False))))) u1 = (Inr q, t)"
    using assms(4) unfolding resolve_closed_def seq_Inr_iff by blast
  have "row_calm (led u) ?judge"
    by (intro steps keeps_on_led unwritten_notes unwritten_marks calm_judge assms)
  then have u1: "wrote [] (led u) (led u1)" using j by (rule row_calmD)
  have mark: "judged \<Longrightarrow> accepted_by_resume X r \<or> marked (led u1) p b"
    using j judge_marks [OF assms(1)] by (auto simp: seq_Inr_iff split: if_splits)
  show ?thesis
  proof (cases judged)
    case False
    then obtain ws where "wrote ws (led u1) (led t)" "fate X V resting r s ws q (led t)"
      using rest stay_run [OF assms(2,3)] by fastforce
    then show ?thesis using wrote_trans [OF u1] by fastforce
  next
    case True
    let ?L = "(led u1)\<lparr>g_seen := g_seen (led u1) \<union> set (br_deal_ids b) \<union> set (br_closing_ids b)\<rparr>"
    obtain M N where m: "retire_filled_then_closed X r p ?L = (Inr (), M)" "clear_intent_anchor X r M = (Inr (), N)" "led t = N" "q = False"
      using rest True by (auto simp: seq_on_led see_deals_run)
    obtain cs where c: "wrote (Land_row (r_coid r) ''closed'' ''reconcile_filled_then_closed_retired'' (Some (py_str p)) # map Close_row cs) ?L M"
      "g_judged M = g_judged ?L" "g_reported M = g_reported ?L" using writesD [OF writes_closed [OF assms(2)] m(1)] by blast
    have f: "wrote (forgets r) M N" "g_judged N = g_judged M" "g_reported N = g_reported M"
      using writesD [OF writes_clear [OF assms(2)] m(2)] by blast+
    have "marked (led u1) p b \<Longrightarrow> marked N p b" by (erule marked_later) (use c f in simp_all)
    then have n: "accepted_by_resume X r \<or> marked N p b" using mark [OF True] by blast
    have "set (br_deal_ids b) \<union> set (br_closing_ids b) \<subseteq> g_seen N" using c(1) f(1) by (auto simp: wrote_def)
    note g = fate.closed [OF assms(3,5-7) this n, where cs = cs]
    have "wrote [] (led u1) ?L" by (auto simp: wrote_def row_writes_def)
    from wrote_trans [OF wrote_trans [OF wrote_trans [OF u1 this] c(1)] f(1)] show ?thesis using g m(3,4) by auto
  qed
qed

lemma landed_run:
  assumes "journaled X" "seq (on_led (seq (post X (Row_op (Land_row (r_coid r) st ev x))) (\<lambda>_. clear_intent_anchor X r))) (\<lambda>_. ret False) u = (Inr q, t)"
  shows "wrote (Land_row (r_coid r) st ev x # forgets r) (led u) (led t) \<and> q = False"
  using assms(2) writesD [OF writes_landed [OF assms(1)]] by (fastforce simp: seq_on_led)

lemma resolve_run:
  assumes "undisturbed V" "journaled X" "known_order V resting r v" "recovery_lower_bound r = Inr from_ms"
    and u: "walks u = walks s" "wired u = wired s"
    and run: "resolve_recovered_order X V fired r v opens from_ms u = (Inr q, t)"
  shows "\<exists>ws. wrote ws (led u) (led t) \<and> fate X V resting r s ws q (led t)"
proof (cases "ended (o_orderStatus v) \<and> o_executedVolume v = 0")
  case True
  have "wrote (Land_row (r_coid r) ''rejected'' ''recovered_in_flight_rejected'' (Some (py_str (o_orderId v))) # forgets r) (led u) (led t) \<and> q = False"
    by (rule landed_run [OF assms(2)]) (use run True in \<open>simp add: resolve_recovered_order_def retire_recovered_terminal_def\<close>)
  then show ?thesis using fate.rejected [OF assms(3)] True by auto
next
  case False
  obtain b u1 where b: "find_fill_deal V (o_orderId v) from_ms None None u = (Inr b, u1)" using find_fill_deal_returns by blast
  define p where "p = position_of v b"
  have evidence: "reads V r v s b" using assms(4) u b by (auto simp: reads_def)
  have u1: "wrote [] (led u) (led u1)" by (rule history_wrote [OF assms(1) b])
  have step: "\<exists>ws. wrote ws (led u1) (led t) \<and> fate X V resting r s ws q (led t) \<Longrightarrow> ?thesis"
    using wrote_trans [OF u1] by fastforce
  have rest: "(if (p \<noteq> 0 \<and> opens p = None) \<and> 0 < br_closed b \<and> 0 < br_filled b \<and> br_deal b \<noteq> None then resolve_closed X V fired r v p b
        else if (p \<noteq> 0 \<and> opens p = None) \<and> \<not> br_conclusive b then stay_pending X r v p
        else if br_filled b = 0 \<and> o_executedVolume v \<noteq> 0 \<and> \<not> br_conclusive b then stay_pending X r v p
        else confirm_resolved X r v opens p b) u1 = (Inr q, t)"
    using run b unfolding resolve_recovered_order_def if_not_P [OF False] seq_def p_def Let_def by simp
  show ?thesis
  proof (rule step, cases "(p \<noteq> 0 \<and> opens p = None) \<and> 0 < br_closed b \<and> 0 < br_filled b \<and> br_deal b \<noteq> None")
    case True
    then show "\<exists>ws. wrote ws (led u1) (led t) \<and> fate X V resting r s ws q (led t)"
      using rest resolve_closed_run [OF assms(1-3) _ evidence] by simp
  next
    case open_still: False
    show "\<exists>ws. wrote ws (led u1) (led t) \<and> fate X V resting r s ws q (led t)"
    proof (cases "((p \<noteq> 0 \<and> opens p = None) \<and> \<not> br_conclusive b) \<or> (br_filled b = 0 \<and> o_executedVolume v \<noteq> 0 \<and> \<not> br_conclusive b)")
      case True
      then have "stay_pending X r v p u1 = (Inr q, t)" using rest unfolding if_not_P [OF open_still] by (auto split: if_splits)
      then show ?thesis by (rule stay_run [OF assms(2,3)])
    next
      case False
      then have "confirm_resolved X r v opens p b u1 = (Inr q, t)" using rest unfolding if_not_P [OF open_still] by auto
      then show ?thesis by (rule confirm_resolved_run [OF assms(2,3)]) (use evidence False in auto)
    qed
  qed
qed

lemma live_run:
  assumes "undisturbed V" "journaled X" "resting (r_coid r) = Some v" "confirm_live X V r v opens s = (Inr q, t)"
  shows "\<exists>ws. wrote ws (led s) (led t) \<and> fate X V resting r s ws q (led t)"
proof -
  have known: "known_order V resting r v" using assms(3) by (simp add: known_order_def)
  let ?confirm = "seq (asks (\<lambda>s. updated_ms (led s) v)) (\<lambda>at_ms.
     seq (on_led (confirm_recovered_entry X r (o_orderId v) (o_positionId v) (volume_to_units (o_executedVolume v)) at_ms False
            (opens (o_positionId v)))) (\<lambda>_. ret True))"
  have confirm: "\<exists>ws. wrote ws (led u) (led t) \<and> fate X V resting r s ws q (led t)"
    if run: "?confirm u = (Inr q, t)" and evidence: "o_executedVolume v = 0 \<or> (\<exists>b. reads V r v s b
      \<and> o_executedVolume v \<in> {br_filled b, o_executedVolume v} \<and> (br_conclusive b \<or> br_filled b \<noteq> 0) \<and> set (br_deal_ids b) \<subseteq> g_seen (led u))" for u
  proof -
    obtain M ms where m: "confirm_recovered_entry X r (o_orderId v) (o_positionId v) (volume_to_units (o_executedVolume v)) ms False
      (opens (o_positionId v)) (led u) = (Inr (), M)" "led t = M" "q = True" using run by (auto simp: seq_on_led)
    obtain ws where w: "confirms r (o_orderId v) (volume_to_units (o_executedVolume v)) ws" "wrote ws (led u) M"
      using writesD [OF writes_confirm [OF assms(2)] m(1)] by blast
    then have "g_seen (led u) \<subseteq> g_seen M" by (simp add: wrote_def)
    then have e: "o_executedVolume v = 0 \<or> (\<exists>b. reads V r v s b
      \<and> o_executedVolume v \<in> {br_filled b, o_executedVolume v} \<and> (br_conclusive b \<or> br_filled b \<noteq> 0) \<and> set (br_deal_ids b) \<subseteq> g_seen (led t))"
      using evidence m(2) by blast
    from fate.confirmed [OF known w(1) e] show ?thesis using m w(2) by blast
  qed
  show ?thesis
  proof (cases "o_executedVolume v = 0")
    case True
    then show ?thesis using assms(4) confirm [of s] by (simp add: confirm_live_def)
  next
    case False
    obtain from_ms b u1 where b: "recovery_lower_bound r = Inr from_ms" "find_fill_deal V (o_orderId v) from_ms None None s = (Inr b, u1)"
      using assms(4) False find_fill_deal_returns by (fastforce simp: confirm_live_def seq_Inr_iff on_led_run try_run)
    have evidence: "reads V r v s b" using b by (auto simp: reads_def)
    have u1: "wrote [] (led s) (led u1)" by (rule history_wrote [OF assms(1) b(2)])
    show ?thesis
    proof (cases "br_filled b = 0 \<and> \<not> br_conclusive b")
      case True
      then have "stay_pending X r v (o_positionId v) u1 = (Inr q, t)"
        using assms(4) False b by (auto simp: confirm_live_def seq_Inr_iff on_led_run try_run stay_pending_def)
      then obtain ws where "wrote ws (led u1) (led t)" "fate X V resting r s ws q (led t)" using stay_run [OF assms(2) known] by blast
      then show ?thesis using wrote_trans [OF u1] by fastforce
    next
      case ok: False
      let ?u2 = "u1\<lparr>led := (led u1)\<lparr>g_seen := g_seen (led u1) \<union> set (br_deal_ids b)\<rparr>\<rparr>"
      have "?confirm ?u2 = (Inr q, t)"
        using assms(4) False b ok by (auto simp: confirm_live_def seq_Inr_iff on_led_run try_run see_deals_run)
      then obtain ws where "wrote ws (led ?u2) (led t)" "fate X V resting r s ws q (led t)" using confirm [of ?u2] evidence ok by auto
      then show ?thesis using wrote_trans [OF wrote_trans [OF u1 seen_more]] by fastforce
    qed
  qed
qed


section \<open>Rows retired at startup\<close>

definition orphan_evidence :: "archive \<Rightarrow> row \<Rightarrow> pyval \<Rightarrow> pyval \<Rightarrow> rat option \<Rightarrow> trail \<Rightarrow> ledger \<Rightarrow> bool" where
  "orphan_evidence V r p oid until s L \<longleftrightarrow> (\<exists>i n from_ms b u. parse_protocol_id p ''position_id'' = Inr i \<and> parse_protocol_id oid ''order_id'' = Inr n
     \<and> recovery_lower_bound r = Inr from_ms \<and> find_fill_deal V n from_ms (Some i) until s = (Inr b, u) \<and> br_conclusive b
     \<and> (br_closed b \<le> 0 \<or> (set (br_closing_ids b) \<subseteq> g_seen L \<and> marked L i b)))"

lemma orphan_evidence_later:
  "orphan_evidence V r p oid until s L \<Longrightarrow> g_seen L \<subseteq> g_seen M \<Longrightarrow> g_judged M = g_judged L \<Longrightarrow> g_reported M = g_reported L
     \<Longrightarrow> orphan_evidence V r p oid until s M"
proof -
  assume e: "orphan_evidence V r p oid until s L" and l: "g_seen L \<subseteq> g_seen M" "g_judged M = g_judged L" "g_reported M = g_reported L"
  obtain i n from_ms b u where "parse_protocol_id p ''position_id'' = Inr i" "parse_protocol_id oid ''order_id'' = Inr n"
     "recovery_lower_bound r = Inr from_ms" "find_fill_deal V n from_ms (Some i) until s = (Inr b, u)" "br_conclusive b"
     "br_closed b \<le> 0 \<or> (set (br_closing_ids b) \<subseteq> g_seen L \<and> marked L i b)" using e unfolding orphan_evidence_def by blast
  then show ?thesis unfolding orphan_evidence_def using l marked_later by blast
qed

lemma orphan_judged:
  assumes "undisturbed V" "judge_orphan_close X V fired r oid p until s = (Inr q, t)"
  shows "wrote [] (led s) (led t) \<and> (q \<longrightarrow> orphan_evidence V r p oid until s (led t))"
proof -
  let ?verdict = "\<lambda>i b. if \<not> br_conclusive b then ret False
     else if 0 < br_closed b
          then seq (judge_recovered_closes X V fired i (br_position_deals b) 0 None (set (br_deal_ids b)) []) (\<lambda>taken.
               if taken = None then ret False
               else seq (on_led (see_deals (br_closing_ids b))) (\<lambda>_. ret True))
          else ret True"
  obtain i n from_ms where ids: "parse_protocol_id p ''position_id'' = Inr i" "parse_protocol_id oid ''order_id'' = Inr n"
    "recovery_lower_bound r = Inr from_ms" and run: "seq (find_fill_deal V n from_ms (Some i) until) (?verdict i) s = (Inr q, t)"
    using assms(2) unfolding judge_orphan_close_def seq_try by blast
  obtain b u where hist: "find_fill_deal V n from_ms (Some i) until s = (Inr b, u)" and rest: "?verdict i b u = (Inr q, t)"
    using iffD1 [OF seq_Inr_iff run] by blast
  note b = ids hist
  have u: "wrote [] (led s) (led u)" by (rule history_wrote [OF assms(1) b(4)])
  consider (nothing) "t = u" "q \<longrightarrow> br_conclusive b \<and> br_closed b \<le> 0" | (judged) "br_conclusive b" "0 < br_closed b"
    using rest by (auto split: if_splits)
  then show ?thesis
  proof cases
    case nothing
    then show ?thesis using u b by (auto simp: orphan_evidence_def)
  next
    case judged
    obtain taken u1 where j: "judge_recovered_closes X V fired i (br_position_deals b) 0 None (set (br_deal_ids b)) [] u = (Inr taken, u1)"
      and rest1: "(if taken = None then ret False else seq (on_led (see_deals (br_closing_ids b))) (\<lambda>_. ret True)) u1 = (Inr q, t)"
      using rest judged by (auto simp: seq_Inr_iff)
    have u1: "wrote [] (led s) (led u1)"
      using wrote_trans [OF u row_calmD [OF calm_judge [OF assms(1)] j]] by simp
    show ?thesis
    proof (cases taken)
      case None
      then show ?thesis using u1 rest1 by simp
    next
      case (Some x)
      let ?L = "(led u1)\<lparr>g_seen := g_seen (led u1) \<union> set (br_closing_ids b)\<rparr>"
      have "led t = ?L" "q" using rest1 Some by (auto simp: seq_on_led see_deals_run)
      moreover have "marked ?L i b" using judge_marks [OF assms(1) j [unfolded Some]] by (simp add: marked_def)
      ultimately show ?thesis using wrote_trans [OF u1 seen_more] b judged by (auto simp: orphan_evidence_def)
    qed
  qed
qed


section \<open>Exposure the journal lost\<close>

definition is_adoption :: "jop \<Rightarrow> bool" where
  "is_adoption j \<longleftrightarrow> (case j of Adopt_leg _ _ _ _ _ \<Rightarrow> True | _ \<Rightarrow> False)"

definition adoption :: "floor \<Rightarrow> ledger \<Rightarrow> position \<Rightarrow> jop" where
  "adoption X L q = Adopt_leg (recovered_coid X (p_positionId q)) (symbol_label L (td_symbolId (p_tradeData q)))
     (side_of (td_tradeSide (p_tradeData q))) (volume_to_units (td_volume (p_tradeData q))) (p_positionId q)"

definition lost_leg :: "floor \<Rightarrow> int set \<Rightarrow> position \<Rightarrow> bool" where
  "lost_leg X ids q \<longleftrightarrow> is_open q \<and> p_positionId q \<notin> ids \<and> td_label (p_tradeData q) = run_tag X"

text \<open>The steps of the recovery leave the names of the symbols alone.\<close>

definition adopts :: "jop list \<Rightarrow> ledger \<Rightarrow> ledger \<Rightarrow> bool" where
  "adopts js L M \<longleftrightarrow> (\<exists>ws. wrote ws L M \<and> filter is_adoption ws = js) \<and> g_names M = g_names L"

lemma adopts_trans: "adopts a L M \<Longrightarrow> adopts b M N \<Longrightarrow> adopts (a @ b) L N"
  unfolding adopts_def using wrote_trans by fastforce

lemma adopts_post: "journaled X \<Longrightarrow> post X (Row_op j) L = (Inr (), M) \<Longrightarrow> adopts (if is_adoption j then [j] else []) L M"
  using wrote_row [of j L] by (fastforce simp: post_row adopts_def)

lemma adopts_other: "(\<And>j. op \<noteq> Row_op j) \<Longrightarrow> post X op L = (Inr (), M) \<Longrightarrow> adopts [] L M"
proof -
  assume other: "\<And>j. op \<noteq> Row_op j" and run: "post X op L = (Inr (), M)"
  have "wrote [] L M" by (rule unwrittenD [OF unwritten_post run]) (rule other)
  moreover have "g_names M = g_names L" using run by (auto simp: post_def split: if_splits)
  ultimately show ?thesis by (auto simp: adopts_def intro!: exI [of _ "[]"])
qed

lemma adopts_nothing: "adopts [] L L"
  by (auto simp: adopts_def intro!: exI [of _ "[]"])

lemma adopts_link: "journaled X \<Longrightarrow> link_ref X c p L = (Inr (), M) \<Longrightarrow> adopts [] L M"
proof -
  assume j: "journaled X" and run: "link_ref X c p L = (Inr (), M)"
  obtain ls where "links c ls" "wrote ls L M" using writesD [OF writes_link [OF j] run] by blast
  moreover have "g_names M = g_names L" using run by (auto simp: link_ref_def post_def split: if_splits option.splits)
  ultimately show ?thesis by (auto simp: adopts_def links_def is_adoption_def)
qed

lemma adopt_leg_run:
  assumes "journaled X" "adopt_own_leg X q L = (Inr (), M)"
  shows "adopts [adoption X L q] L M"
proof -
  let ?c = "recovered_coid X (p_positionId q)"
  obtain A B C where "post X (Row_op (adoption X L q)) L = (Inr (), A)" "link_ref X ?c (p_positionId q) A = (Inr (), B)"
    "post X (Row_op (Audit ''ctrader_own_leg_recovered'' (Some ?c))) B = (Inr (), C)" "M = C\<lparr>g_calls := g_calls C @ [Took_protection q]\<rparr>"
    using assms(2) by (auto simp: adopt_own_leg_def adoption_def Let_def seq_Inr_iff guard_def)
  note steps = adopts_post [OF assms(1) this(1)] adopts_link [OF assms(1) this(2)] adopts_post [OF assms(1) this(3)] this(4)
  have "adopts [] C M" using steps(4) by (auto simp: adopts_def wrote_def row_writes_def intro!: exI [of _ "[]"])
  from adopts_trans [OF adopts_trans [OF adopts_trans [OF steps(1,2)] steps(3)] this] show ?thesis
    by (simp add: is_adoption_def adoption_def)
qed

lemma recover_positions_run:
  assumes "journaled X"
  shows "recover_positions X own_symbol ids qs L = (Inr (), M) \<Longrightarrow> adopts (map (adoption X L) (filter (lost_leg X ids) qs)) L M"
proof (induction qs arbitrary: L)
  case Nil
  then show ?case by (auto simp: adopts_nothing)
next
  case (Cons q qs)
  let ?one = "if \<not> is_open q \<or> p_positionId q \<in> ids then ret ()
          else if td_label (p_tradeData q) = run_tag X then adopt_own_leg X q
          else if td_label (p_tradeData q) = [] \<and> own_symbol = Some (td_symbolId (p_tradeData q)) then note_unlabelled_leg X q
          else ret ()"
  obtain A where one: "?one L = (Inr (), A)" and rest: "recover_positions X own_symbol ids qs A = (Inr (), M)"
    using iffD1 [OF seq_Inr_iff Cons.prems [unfolded recover_positions.simps]] by auto
  have "adopts (if lost_leg X ids q then [adoption X L q] else []) L A"
  proof (cases "lost_leg X ids q")
    case True
    then show ?thesis using one adopt_leg_run [OF assms] by (auto simp: lost_leg_def split: if_splits)
  next
    case False
    note same = adopts_nothing [of L]
    have "note_unlabelled_leg X q L = (Inr (), A) \<Longrightarrow> adopts [] L A"
      using adopts_other [of "Noted ''ctrader_untracked_leg_unattributed'' (p_positionId q)" X L A] same
      by (auto simp: note_unlabelled_leg_def split: if_splits)
    then show ?thesis using one same False by (auto simp: lost_leg_def split: if_splits)
  qed
  moreover have "adopts (map (adoption X A) (filter (lost_leg X ids) qs)) A M" by (rule Cons.IH [OF rest])
  moreover have "adoption X A = adoption X L" if "g_names A = g_names L" using that by (simp add: adoption_def symbol_label_def fun_eq_iff)
  ultimately show ?case using adopts_trans unfolding adopts_def by fastforce
qed

text \<open>The orders noted as cancelled.\<close>

definition debris :: "ledger \<Rightarrow> int set" where
  "debris L = {n. Noted ''ctrader_own_order_debris'' n \<in> set (g_journal L)}"

definition runs_order :: "floor \<Rightarrow> order \<Rightarrow> bool" where
  "runs_order X v \<longleftrightarrow> \<not> o_closingOrder v \<and> o_orderStatus v = ORDER_STATUS_ACCEPTED
     \<and> (td_label (o_tradeData v) = run_tag X \<or> starts_with (o_clientOrderId v) (run_tag X @ ''-''))"

lemma debris_post: "(\<And>n. op = Noted ''ctrader_own_order_debris'' n \<Longrightarrow> n \<in> E) \<Longrightarrow> keeps (\<lambda>L. debris L \<subseteq> E) (post X op)"
  unfolding post_def by (rule keeps_modify) (auto simp: debris_def)

lemma debris_modify: "(\<And>L. g_journal (f L) = g_journal L) \<Longrightarrow> keeps (\<lambda>L. debris L \<subseteq> E) (modify f)"
  by (rule keeps_modify) (simp add: debris_def)

lemma debris_link: "keeps (\<lambda>L. debris L \<subseteq> E) (link_ref X c p)"
  unfolding link_ref_def by (intro steps keeps_pair debris_post debris_modify) simp_all

lemma debris_positions: "keeps (\<lambda>L. debris L \<subseteq> E) (recover_positions X own_symbol ids qs)"
proof (induction qs)
  case (Cons q qs)
  show ?case unfolding recover_positions.simps adopt_own_leg_def note_unlabelled_leg_def guard_def Let_def
    by (intro steps debris_link debris_post debris_modify Cons) simp_all
qed (simp add: keeps_def)

lemma debris_request: "calm_waits V \<Longrightarrow> keeps (\<lambda>s. debris (led s) \<subseteq> E) (request V f)"
  by (simp add: keeps_def request_def waited_def calm_waits_def verdicts_def debris_def)

lemma cancel_noted: "calm_waits V \<Longrightarrow> o_orderId v \<in> F \<Longrightarrow> keeps (\<lambda>s. debris (led s) \<subseteq> F) (cancel_own_debris X V v)"
  unfolding cancel_own_debris_def
  by (intro steps debris_request keeps_on_led [where I = "\<lambda>L. debris L \<subseteq> F"] debris_post) simp_all

lemma cancels_kept:
  assumes "undisturbed V"
  shows "keeps (\<lambda>s. wrote [] L (led s)) (recover_orders X V vs)"
    and "keeps (\<lambda>s. debris (led s) \<subseteq> E \<union> {n. \<exists>v \<in> set vs. runs_order X v \<and> n = o_orderId v}) (recover_orders X V vs)"
proof -
  show "keeps (\<lambda>s. wrote [] L (led s)) (recover_orders X V vs)"
  proof (induction vs)
    case (Cons v vs)
    show ?case unfolding recover_orders.simps cancel_own_debris_def
      by (intro steps keeps_on_led unwritten_post calm_request assms Cons) simp_all
  qed (simp add: keeps_def)
  have calm: "calm_waits V" using assms by (simp add: undisturbed_def)
  have gen: "keeps (\<lambda>s. debris (led s) \<subseteq> F) (recover_orders X V vs)"
    if "\<forall>v \<in> set vs. runs_order X v \<longrightarrow> o_orderId v \<in> F" for F using that
  proof (induction vs)
    case (Cons v vs)
    show ?case unfolding recover_orders.simps keeps_def
    proof (intro allI impI)
      fix s :: trail assume d: "debris (led s) \<subseteq> F"
      let ?lost = "own_debris X (led s) v"
      have one: "keeps (\<lambda>s. debris (led s) \<subseteq> F) (if ?lost then cancel_own_debris X V v else ret ())"
      proof (cases ?lost)
        case True
        then have "o_orderId v \<in> F" using Cons.prems by (simp add: own_debris_def runs_order_def)
        then show ?thesis using cancel_noted [OF calm] True by simp
      qed (simp add: keeps_def)
      have "keeps (\<lambda>s. debris (led s) \<subseteq> F)
          (seq (if ?lost then cancel_own_debris X V v else ret ()) (\<lambda>_. recover_orders X V vs))"
        by (rule keeps_seq [OF one Cons.IH]) (use Cons.prems in simp)
      from keepsD [OF this, of s] d show "debris (led (snd (seq (asks (\<lambda>s. own_debris X (led s) v)) (\<lambda>lost.
        seq (if lost then cancel_own_debris X V v else ret ()) (\<lambda>_. recover_orders X V vs)) s))) \<subseteq> F" by simp
    qed
  qed (simp add: keeps_def)
  show "keeps (\<lambda>s. debris (led s) \<subseteq> E \<union> {n. \<exists>v \<in> set vs. runs_order X v \<and> n = o_orderId v}) (recover_orders X V vs)"
    by (rule gen) blast
qed


section \<open>Concrete recoveries\<close>

text \<open>The venue answers at once; its order history is empty.\<close>

lemma lone_undisturbed: "undisturbed lone_archive"
  by (simp add: undisturbed_def calm_waits_def lone_archive_def)

text \<open>A row sent long ago that the venue never saw.\<close>

definition lost_row :: row where
  "lost_row = demo_row\<lparr>r_coid := ''r1-9'', r_state := ''submitted'', r_filled := 0, r_extras := Map.empty, r_intent_key := None, r_created_ms := 0\<rparr>"

lemma lost_row_old: "\<not> too_young (led (waited lone_archive lone_trail)) lost_row"
  using fl_exact [of 1000 1000 0] by (simp add: too_young_def waited_def lone_archive_def lone_trail_def demo_ledger_def lost_row_def demo_row_def
    fsub_def fdiv_def ABANDON_TTL_def)


text \<open>A position of the run that its journal does not know, and one of somebody else.\<close>

definition stray :: "string \<Rightarrow> int \<Rightarrow> position" where
  "stray label p = \<lparr>p_positionId = p, p_tradeData = \<lparr>td_symbolId = 1, td_volume = 200000, td_tradeSide = BUY, td_openTimestamp = 0,
     td_label = label\<rparr>, p_positionStatus = POSITION_STATUS_OPEN, p_price = 1, p_stopLoss = None, p_takeProfit = None, p_trailingStopLoss = None\<rparr>"

definition stray_order :: order where
  "stray_order = manual_order\<lparr>o_orderId := 51, o_orderType := LIMIT, o_orderStatus := ORDER_STATUS_ACCEPTED, o_closingOrder := False,
     o_clientOrderId := ''r1-7''\<rparr>"


text \<open>A row of a position that is gone; the history shows its fill and no close.\<close>

definition gone_row :: row where
  "gone_row = demo_row\<lparr>r_exchange_id := Some ''7'', r_filled := 1000, r_extras := [''order_id'' \<mapsto> PyStr ''5'', ''position_id'' \<mapsto> PyInt 7]\<rparr>"

lemma lone_read: "\<exists>b u. find_fill_deal lone_archive 5 (- SINCE_ANCHOR_SKEW_MS) (Some 7) (Some 30) lone_trail = (Inr b, u) \<and> br_conclusive b \<and> br_closed b = 0"
proof -
  have m: "wall_ms (led lone_trail) = 1000000" by (rule lone_ms)
  have d: "\<not> past_deadline (Some 30) (led lone_trail)"
    using fl_exact [of 30 30 0] by (simp add: past_deadline_def lone_trail_def demo_ledger_def fsub_def)
  show ?thesis
    using d by (simp add: find_fill_deal_def m extend_walk_def open_walk_def fresh_walk_def SINCE_ANCHOR_SKEW_MS_def walk_pages_run
      lone_archive_def lone_trail_def Let_def take_page_def owed_after_def in_window_def lone_deal_def deal_ms_def ingest_def note_fill_def
      note_executed_def note_closing_def walk_result_def fills_sorted_def)
qed


end
