(* ===== verification/Working.thy ===== *)
theory Working
  imports Recovered "HOL-Library.Option_ord"
begin

text \<open>
  The walk of a reconcile pass over the run's rows (\<open>reconcile.py\<close>): fills of working orders the stream missed, read from
  the snapshot and the deal history, the rows whose order has left the snapshot, and the verdict on a row
  that stayed missing. The core's disappearance tracker, which calls for that verdict, is a library.
\<close>

section \<open>Events of recovered fills\<close>

definition recovered_order :: "row \<Rightarrow> string \<Rightarrow> rat \<Rightarrow> rat option \<Rightarrow> ord_status \<Rightarrow> exchange_order" where
  "recovered_order r xid cumulative avg st =
     \<lparr>xo_id = xid, xo_symbol = r_symbol r, xo_side = r_side r, xo_type = Market, xo_qty = r_qty r, xo_filled = cumulative,
      xo_remaining = max 0 (fsub (r_qty r) cumulative), xo_price = None, xo_stop = None, xo_average = avg, xo_status = st,
      xo_reduce_only = False, xo_client_id = Some (r_coid r)\<rparr>"

definition fill_event :: "row \<Rightarrow> event_kind \<Rightarrow> ord_status \<Rightarrow> string \<Rightarrow> rat \<Rightarrow> rat \<Rightarrow> rat option \<Rightarrow> rat option \<Rightarrow> rat \<Rightarrow> rat \<Rightarrow> order_event" where
  "fill_event r kind st xid cumulative fill_qty avg fill_price fee time =
     \<lparr>ev_order = recovered_order r xid cumulative avg st, ev_kind = kind, ev_price = fill_price, ev_qty = Some fill_qty, ev_time = time,
      ev_pine = r_pine_id r, ev_from = r_from_entry r, ev_leg = Some Leg_entry, ev_fee = fee, ev_fill_id = None, ev_venue_cancel = False\<rparr>"

definition cancelled_event :: "row \<Rightarrow> rat \<Rightarrow> order_event" where
  "cancelled_event r now_ts =
     \<lparr>ev_order = recovered_order r (case extra r ''order_id'' of Some (PyStr i) \<Rightarrow> i | Some (PyInt n) \<Rightarrow> (if n = 0 then [] else py_str n) | _ \<Rightarrow> [])
        (r_filled r) None Order_cancelled, ev_kind = Ev_cancelled, ev_price = None, ev_qty = None, ev_time = now_ts,
      ev_pine = r_pine_id r, ev_from = r_from_entry r, ev_leg = Some Leg_entry, ev_fee = 0, ev_fill_id = None, ev_venue_cancel = False\<rparr>"

definition recovered_close_event :: "row \<Rightarrow> position_deal \<Rightarrow> int \<Rightarrow> order_event" where
  "recovered_close_event r d cents =
     (let qty = volume_to_units cents; price = or_none (pd_price d); time = fdiv (of_int (pd_executed_ms d)) 1000
      in \<lparr>ev_order = \<lparr>xo_id = py_str (pd_order_id d), xo_symbol = r_symbol r, xo_side = pd_side d, xo_type = Market, xo_qty = qty,
             xo_filled = qty, xo_remaining = 0, xo_price = None, xo_stop = None, xo_average = price, xo_status = Order_filled,
             xo_reduce_only = True, xo_client_id = None\<rparr>,
          ev_kind = Ev_filled, ev_price = price, ev_qty = Some qty, ev_time = time, ev_pine = None, ev_from = r_pine_id r,
          ev_leg = Some Leg_close, ev_fee = (if pd_filled d \<noteq> 0 then fdiv (fmul (pd_fee d) (of_int cents)) (of_int (pd_filled d)) else 0),
          ev_fill_id = Some (py_str (pd_deal_id d)), ev_venue_cancel = False\<rparr>)"

section \<open>Price and deals of a recovered delta\<close>

type_synonym fill = "int \<times> int \<times> int \<times> rat \<times> rat"

text \<open>The volume taken and its notional; the units booked before are the oldest.\<close>

fun delta_walk :: "fill list \<Rightarrow> rat \<Rightarrow> rat \<Rightarrow> rat \<Rightarrow> rat \<Rightarrow> rat \<times> rat" where
  "delta_walk [] skip qty taken notional = (taken, notional)"
| "delta_walk ((ms, i, cents, price, fee) # fs) skip qty taken notional =
     (let units = volume_to_units cents in
      if fsub units NANO \<le> skip then delta_walk fs (fsub skip units) qty taken notional
      else (let part = min (fsub units skip) (fsub qty taken); taken' = fadd taken part; notional' = fadd notional (fmul price part)
            in if fsub qty NANO \<le> taken' then (taken', notional') else delta_walk fs 0 qty taken' notional'))"

definition delta_fill_price :: "fill list \<Rightarrow> rat \<Rightarrow> rat \<Rightarrow> rat option" where
  "delta_fill_price fills booked qty =
     (case delta_walk fills booked qty 0 0 of (taken, notional) \<Rightarrow> if taken < fsub qty NANO then None else Some (fdiv notional taken))"

fun deals_covering :: "fill list \<Rightarrow> rat \<Rightarrow> rat \<Rightarrow> int list" where
  "deals_covering [] filled counted = []"
| "deals_covering ((ms, i, cents, price, fee) # fs) filled counted =
     (let counted' = fadd counted (volume_to_units cents) in if fadd filled NANO < counted' then [] else i # deals_covering fs filled counted')"

definition fees_of :: "fill list \<Rightarrow> int set \<Rightarrow> rat" where
  "fees_of fills ids = foldl fadd 0 (map (\<lambda>(ms, i, cents, price, fee). fee) (filter (\<lambda>(ms, i, cents, price, fee). i \<in> ids) fills))"

text \<open>\<open>avg or fallback\<close>.\<close>

definition first_price :: "rat option \<Rightarrow> rat option \<Rightarrow> rat option" where
  "first_price a b = (case a of Some q \<Rightarrow> if q \<noteq> 0 then Some q else b | None \<Rightarrow> b)"

fun reconciled_effects :: "int \<Rightarrow> int \<Rightarrow> side \<Rightarrow> fill list \<Rightarrow> int set \<Rightarrow> rat \<Rightarrow> unit act" where
  "reconciled_effects oid p sd [] ids remaining =
     (if VOLUME_TOL < remaining then record_share_effect p (signed sd remaining) True None None oid else ret ())"
| "reconciled_effects oid p sd ((ms, i, cents, price, fee) # fs) ids remaining =
     (if i \<notin> ids \<or> remaining \<le> VOLUME_TOL then reconciled_effects oid p sd fs ids remaining
      else (let part = min remaining (volume_to_units cents)
            in seq (record_share_effect p (signed sd part) True (Some ms) (Some i) oid) (\<lambda>_.
               reconciled_effects oid p sd fs ids (fsub remaining part))))"

definition record_reconciled_fill :: "int \<Rightarrow> int \<Rightarrow> side \<Rightarrow> rat \<Rightarrow> fill list \<Rightarrow> int set \<Rightarrow> unit act" where
  "record_reconciled_fill oid p sd units fills ids =
     (if p = 0 \<or> units \<le> 0 then ret () else reconciled_effects oid p sd fills ids units)"

section \<open>A working order still in the snapshot\<close>

definition deal_since_ms :: "ledger \<Rightarrow> row \<Rightarrow> exn + int" where
  "deal_since_ms L r =
     (case extra r ''submitted_at_ms'' of
        None \<Rightarrow> Inr (wall_ms L - 300000)
      | Some v \<Rightarrow> map_sum id (\<lambda>t. t - SINCE_ANCHOR_SKEW_MS) (parse_protocol_id v ''submitted_at_ms''))"

definition clear_missing_pending :: "floor \<Rightarrow> row \<Rightarrow> unit act" where
  "clear_missing_pending X r = post X (Row_op (Set_extras (r_coid r) ((r_extras r)(''missing_pending_since'' := None))))"

definition stamped :: "row \<Rightarrow> bool" where
  "stamped r \<longleftrightarrow> ''missing_pending_since'' \<in> dom (r_extras r)"

definition link_patch :: "row \<Rightarrow> int \<Rightarrow> extras" where
  "link_patch r p = (if p \<noteq> 0 \<and> extra r ''position_id'' = None then [''position_id'' \<mapsto> PyInt p] else Map.empty)"

definition book_progress :: "floor \<Rightarrow> row \<Rightarrow> order \<Rightarrow> (int \<rightharpoonup> position) \<Rightarrow> rat \<Rightarrow> deal_bridge \<Rightarrow> order_event option act" where
  "book_progress X r v opens now_ts b =
     (let filled = volume_to_units (o_executedVolume v); fill_qty = fsub filled (r_filled r); p = o_positionId v;
          delta = (if br_conclusive b then delta_fill_price (br_fills b) (r_filled r) fill_qty else None);
          covered = (if delta \<noteq> None then deals_covering (br_fills b) filled 0 else []);
          avg = (case (if p \<noteq> 0 then opens p else None) of Some q \<Rightarrow> p_price q | None \<Rightarrow> o_executionPrice v)
      in seq (asks g_seen) (\<lambda>seen.
         let fresh = set covered - seen; fee = fees_of (br_fills b) fresh;
             fill_price = (if delta \<noteq> None then delta else or_none (o_executionPrice v))
         in seq (post X (Row_op (Reconcile_filled (r_coid r) filled (py_str (o_orderId v)) (link_patch r p) ''reconcile_partial_fill''))) (\<lambda>_.
            seq (link_ref X (r_coid r) p) (\<lambda>_.
            seq (record_reconciled_fill (o_orderId v) p (r_side r) fill_qty (br_fills b) fresh) (\<lambda>_.
            seq (see_deals covered) (\<lambda>_.
            ret (Some (fill_event r Ev_partial Order_partly_filled (py_str (o_orderId v)) filled fill_qty (or_none avg) fill_price fee now_ts))))))))"

definition reconcile_working_row ::
    "floor \<Rightarrow> archive \<Rightarrow> row \<Rightarrow> order \<Rightarrow> (int \<rightharpoonup> position) \<Rightarrow> rat \<Rightarrow> rat option \<Rightarrow> order_event option job" where
  "reconcile_working_row X V r v opens now_ts until =
     (if \<not> journaled X then ret None
      else seq (if stamped r then on_led (clear_missing_pending X r) else ret ()) (\<lambda>_.
           let filled = volume_to_units (o_executedVolume v) in
           if filled \<le> fadd (r_filled r) NANO \<or> r_qty r \<le> filled then ret None
           else seq (asks (\<lambda>s. deal_since_ms (led s) r)) (\<lambda>since.
                seq (on_led (try_exn since)) (\<lambda>from_ms.
                seq (find_fill_deal V (o_orderId v) from_ms None until) (\<lambda>b.
                on_led (book_progress X r v opens now_ts b))))))"

section \<open>A working order that has left the snapshot\<close>

definition row_cumulative :: "row \<Rightarrow> deal_bridge \<Rightarrow> rat" where
  "row_cumulative r b = min (r_qty r) (max (r_filled r) (volume_to_units (br_filled b)))"

definition bridge_price :: "deal_bridge \<Rightarrow> history_deal \<Rightarrow> rat option" where
  "bridge_price b d = first_price (br_avg b) (or_none (h_executionPrice d))"

definition deal_time :: "history_deal \<Rightarrow> rat \<Rightarrow> rat" where
  "deal_time d now_ts = (if h_executionTimestamp d \<noteq> 0 then fdiv (of_int (h_executionTimestamp d)) 1000 else now_ts)"

definition fill_status :: "row \<Rightarrow> rat \<Rightarrow> ord_status" where
  "fill_status r cumulative = (if fsub (r_qty r) NANO \<le> cumulative then Order_filled else Order_partly_filled)"

definition filled_then_closed_events :: "ledger \<Rightarrow> row \<Rightarrow> deal_bridge \<Rightarrow> (position_deal \<times> int) list \<Rightarrow> rat \<Rightarrow> order_event list" where
  "filled_then_closed_events L r b closes now_ts =
     (let new_ids = set (br_deal_ids b) - g_seen L; cumulative = row_cumulative r b; fill_qty = fsub cumulative (r_filled r)
      in (case br_deal b of
            None \<Rightarrow> []
          | Some d \<Rightarrow>
              (if new_ids \<noteq> {} \<and> VOLUME_TOL < fill_qty
               then [fill_event r Ev_filled (fill_status r cumulative) (py_str (if h_positionId d \<noteq> 0 then h_positionId d else h_orderId d))
                       cumulative fill_qty (bridge_price b d)
                       (first_price (delta_fill_price (br_fills b) (r_filled r) fill_qty) (bridge_price b d))
                       (fees_of (br_fills b) new_ids) (deal_time d now_ts)]
               else []))
         @ map (\<lambda>(d, cents). recovered_close_event r d cents) (filter (\<lambda>(d, cents). pd_deal_id d \<notin> g_seen L) closes))"

definition retire_with_events ::
    "floor \<Rightarrow> row \<Rightarrow> deal_bridge \<Rightarrow> int \<Rightarrow> (position_deal \<times> int) list \<Rightarrow> rat \<Rightarrow> order_event list act" where
  "retire_with_events X r b p closes now_ts =
     seq (asks (\<lambda>L. filled_then_closed_events L r b closes now_ts)) (\<lambda>es.
     seq (see_deals (br_deal_ids b)) (\<lambda>_.
     seq (see_deals (br_closing_ids b)) (\<lambda>_.
     seq (retire_filled_then_closed X r p) (\<lambda>_. ret es))))"

definition promote_open ::
    "floor \<Rightarrow> row \<Rightarrow> deal_bridge \<Rightarrow> history_deal \<Rightarrow> position option \<Rightarrow> rat \<Rightarrow> order_event list act" where
  "promote_open X r b d pos now_ts =
     (let p = h_positionId d; cumulative = row_cumulative r b; fill_qty = fsub cumulative (r_filled r);
          link = (p \<noteq> 0 \<and> extra r ''position_id'' = None); xid = py_str (if p \<noteq> 0 then p else h_orderId d)
      in seq (asks (\<lambda>L. filter (\<lambda>i. i \<notin> g_seen L) (br_deal_ids b))) (\<lambda>new_ids.
         seq (if (0 < volume_to_units (br_filled b) \<or> link) \<and> stamped r then clear_missing_pending X r else ret ()) (\<lambda>_.
         seq (if fadd (r_filled r) NANO < cumulative \<or> link
              then seq (post X (Row_op (Reconcile_filled (r_coid r) cumulative xid (link_patch r p) ''reconcile_working_promoted''))) (\<lambda>_.
                   if link then link_ref X (r_coid r) p else ret ())
              else ret ()) (\<lambda>_.
         if new_ids = [] then ret []
         else seq (record_reconciled_fill (h_orderId d) p (r_side r) fill_qty (br_fills b) (set new_ids)) (\<lambda>_.
              seq (see_deals new_ids) (\<lambda>_.
              ret (if fill_qty \<le> NANO then []
                   else [fill_event r Ev_filled (fill_status r cumulative) xid cumulative fill_qty
                           (case pos of Some q \<Rightarrow> or_none (p_price q) | None \<Rightarrow> bridge_price b d)
                           (first_price (delta_fill_price (br_fills b) (r_filled r) fill_qty) (bridge_price b d))
                           (fees_of (br_fills b) (set new_ids)) (deal_time d now_ts)])))))))"

definition promote_from_deal ::
    "floor \<Rightarrow> row \<Rightarrow> deal_bridge \<Rightarrow> (int \<rightharpoonup> position) \<Rightarrow> rat \<Rightarrow> (position_deal \<times> int) list \<Rightarrow> order_event list act" where
  "promote_from_deal X r b opens now_ts closes =
     (case br_deal b of
        None \<Rightarrow> ret []
      | Some d \<Rightarrow>
          (if \<not> journaled X then ret []
           else (let p = h_positionId d in
             if p \<noteq> 0 \<and> opens p = None
             then (if 0 < br_closed b \<and> 0 < br_filled b then retire_with_events X r b p closes now_ts else ret [])
             else promote_open X r b d (if p \<noteq> 0 then opens p else None) now_ts)))"

definition stamp_missing :: "floor \<Rightarrow> row \<Rightarrow> rat \<Rightarrow> unit act" where
  "stamp_missing X r now_ts = post X (Row_op (Set_extras (r_coid r) ((r_extras r)(''missing_pending_since'' \<mapsto> PyFloat now_ts))))"

definition recover_vanished_working_row ::
    "floor \<Rightarrow> archive \<Rightarrow> firing \<Rightarrow> row \<Rightarrow> int \<Rightarrow> (int \<rightharpoonup> position) \<Rightarrow> rat \<Rightarrow> rat option \<Rightarrow> order_event list job" where
  "recover_vanished_working_row X V fired r oid opens now_ts until =
     (if \<not> journaled X then ret []
      else seq (asks (\<lambda>s. deal_since_ms (led s) r)) (\<lambda>since.
           seq (on_led (try_exn since)) (\<lambda>from_ms.
           seq (find_fill_deal V oid from_ms None until) (\<lambda>b.
           case br_deal b of
             Some d \<Rightarrow>
               (let p = h_positionId d in
                if p \<noteq> 0 \<and> opens p = None \<and> 0 < br_closed b \<and> 0 < br_filled b
                then seq (asks (\<lambda>s. share_with_recovered_fill X (led s) r p (volume_to_units (br_filled b)))) (\<lambda>share.
                     seq (judge_recovered_close_deals X V fired p (br_position_deals b) 0 (Some share) (set (br_deal_ids b)) []) (\<lambda>verdict.
                     case verdict of
                       None \<Rightarrow> ret []
                     | Some rp \<Rightarrow> on_led (promote_from_deal X r b opens now_ts (rp_booked rp))))
                else on_led (promote_from_deal X r b opens now_ts []))
           | None \<Rightarrow>
               (if br_conclusive b \<and> \<not> py_truth (extra r ''position_id'') \<and> r_filled r \<le> NANO \<and> \<not> stamped r
                then seq (on_led (stamp_missing X r now_ts)) (\<lambda>_. ret []) else ret [])))))"

section \<open>The walk over the rows\<close>

definition observe_row :: "floor \<Rightarrow> int option \<Rightarrow> order \<Rightarrow> rat \<Rightarrow> unit act" where
  "observe_row X resume_ms v read_at = modify (\<lambda>L. L\<lparr>g_terms :=
     observe_working_order (g_ticks L) r_created_ms resume_ms (row_of_order X L (o_orderId v)) v read_at (g_terms L)\<rparr>)"

definition orders_by_id :: "order list \<Rightarrow> (int \<rightharpoonup> order)" where
  "orders_by_id os = map_of (rev (map (\<lambda>v. (o_orderId v, v)) os))"

fun row_orders :: "row list \<Rightarrow> exn + (row \<times> int option) list" where
  "row_orders [] = Inr []"
| "row_orders (r # rs) =
     (case optional_id r ''order_id'' of Inl e \<Rightarrow> Inl e | Inr i \<Rightarrow> map_sum id (\<lambda>l. (r, i) # l) (row_orders rs))"

text \<open>Walks of orders and positions no row needs are dropped; \<open>shrinks\<close> are the positions with a pending startup shrink.\<close>

definition drop_stale_walks :: "int option set \<Rightarrow> (int \<rightharpoonup> position) \<Rightarrow> int set \<Rightarrow> trail \<Rightarrow> trail" where
  "drop_stale_walks ids opens shrinks s =
     s\<lparr>walks := (\<lambda>k. if (if 0 \<le> k then Some k \<notin> ids else opens (- k) = None \<and> - k \<notin> shrinks) then None else walks s k)\<rparr>"

text \<open>The rows of unfinished walks first, the one that waited longest for a request ahead; the sort is stable.\<close>

definition unfinished :: "(int \<rightharpoonup> deal_walk) \<Rightarrow> row \<times> int option \<Rightarrow> bool" where
  "unfinished ws ri \<longleftrightarrow> (case Option.bind (snd ri) ws of None \<Rightarrow> False | Some w \<Rightarrow> wk_segments w \<noteq> [])"

definition waited_since :: "(int \<rightharpoonup> deal_walk) \<Rightarrow> row \<times> int option \<Rightarrow> rat option" where
  "waited_since ws ri = Option.bind (Option.bind (snd ri) ws) wk_last"

definition walk_turns :: "(int \<rightharpoonup> deal_walk) \<Rightarrow> (row \<times> int option) list \<Rightarrow> (row \<times> int option) list" where
  "walk_turns ws ris =
     sort_key (waited_since ws) (filter (unfinished ws) ris) @ filter (\<lambda>ri. \<not> unfinished ws ri) ris"

definition settled_row :: "row \<Rightarrow> bool" where
  "settled_row r \<longleftrightarrow> py_truth (extra r ''position_id'') \<and> fsub (r_qty r) NANO \<le> r_filled r"

fun reconcile_rows ::
    "floor \<Rightarrow> archive \<Rightarrow> firing \<Rightarrow> int option \<Rightarrow> rat \<Rightarrow> (int \<rightharpoonup> order) \<Rightarrow> (int \<rightharpoonup> position) \<Rightarrow> rat \<Rightarrow> rat option \<Rightarrow> (row \<times> int option) list
     \<Rightarrow> order_event list job" where
  "reconcile_rows X V fired resume_ms read_at working opens now_ts until [] = ret []"
| "reconcile_rows X V fired resume_ms read_at working opens now_ts until ((r, i) # ris) =
     seq (case Option.bind i working of
            Some v \<Rightarrow> seq (reconcile_working_row X V r v opens now_ts until) (\<lambda>e.
                      seq (on_led (observe_row X resume_ms v read_at)) (\<lambda>_. ret (case e of None \<Rightarrow> [] | Some e \<Rightarrow> [e])))
          | None \<Rightarrow>
              (if settled_row r then ret []
               else case i of None \<Rightarrow> ret [] | Some oid \<Rightarrow> recover_vanished_working_row X V fired r oid opens now_ts until)) (\<lambda>es.
     seq (reconcile_rows X V fired resume_ms read_at working opens now_ts until ris) (\<lambda>rest. ret (es @ rest)))"

text \<open>The snapshot and the walk over the rows of it.\<close>

definition reconcile_snapshot_rows :: "floor \<Rightarrow> archive \<Rightarrow> firing \<Rightarrow> int option \<Rightarrow> int set \<Rightarrow> rat option \<Rightarrow> order_event list job" where
  "reconcile_snapshot_rows X V fired resume_ms shrinks until =
     seq (asks wired) (\<lambda>up.
     if \<not> journaled X \<or> \<not> up then ret []
     else seq (asks (\<lambda>s. g_clock (led s))) (\<lambda>read_at.
          seq (request V (snapshot_page V)) (\<lambda>a.
          case a of
            Inl e \<Rightarrow> throw (if e = AsyncTimeoutError
                      then CTraderTimeoutError ''reconcile snapshot read overran the reconcile pass budget'' else e)
          | Inr (ps, os) \<Rightarrow>
              seq (asks (\<lambda>s. (g_clock (led s), row_orders (live_rows X (row_writes (led s)))))) (\<lambda>(now_ts, rows).
              seq (on_led (try_exn rows)) (\<lambda>ris.
              seq (modify (drop_stale_walks (set (map snd ris)) (open_now ps) shrinks)) (\<lambda>_.
              seq (asks (\<lambda>s. walk_turns (walks s) ris)) (\<lambda>turns.
              reconcile_rows X V fired resume_ms read_at (orders_by_id os) (open_now ps) now_ts until turns)))))))"

section \<open>The verdict on a missing row\<close>

datatype resolution = INCONCLUSIVE | CLOSED | FILLED | CANCELLED | STILL_PRESENT

record confirmation =
  mc_resolution :: resolution
  mc_position :: "int option"
  mc_executions :: "int list"
  mc_closes :: "order_event list"
  mc_venue :: bool

definition verdict_of :: "resolution \<Rightarrow> confirmation" where
  "verdict_of q = \<lparr>mc_resolution = q, mc_position = None, mc_executions = [], mc_closes = [], mc_venue = False\<rparr>"

definition unattributed_cancel :: "floor \<Rightarrow> row \<Rightarrow> confirmation act" where
  "unattributed_cancel X r =
     seq (post X (Row_op (Audit ''ctrader_cancel_unattributed'' (Some (r_coid r))))) (\<lambda>_. ret ((verdict_of CANCELLED)\<lparr>mc_venue := True\<rparr>))"

definition vanished_order_verdict :: "floor \<Rightarrow> archive \<Rightarrow> row \<Rightarrow> int \<Rightarrow> confirmation job" where
  "vanished_order_verdict X V r oid =
     seq (asks wired) (\<lambda>up.
     if \<not> up then ret (verdict_of INCONCLUSIVE)
     else seq (request V (\<lambda>k. details_page V k oid)) (\<lambda>a.
          case a of
            Inl e \<Rightarrow>
              (if is_protocol_error e
               then (if is_not_found (error_code e) then on_led (unattributed_cancel X r) else ret (verdict_of INCONCLUSIVE))
               else if lookup_deferred e then ret (verdict_of INCONCLUSIVE) else throw e)
          | Inr v \<Rightarrow>
              (if o_orderStatus v = ORDER_STATUS_FILLED \<or> 0 < o_executedVolume v then ret (verdict_of FILLED)
               else if o_orderStatus v = ORDER_STATUS_ACCEPTED then ret (verdict_of STILL_PRESENT)
               else if o_orderStatus v = ORDER_STATUS_EXPIRED \<or> o_orderStatus v = ORDER_STATUS_REJECTED
                    then asks (\<lambda>s. (verdict_of CANCELLED)\<lparr>mc_venue := venue_cancel_reason (row_of_order X (led s) (o_orderId v)) v
                           (o_orderStatus v = ORDER_STATUS_EXPIRED) False (o_orderStatus v = ORDER_STATUS_REJECTED) (g_terms (led s))\<rparr>)
               else on_led (unattributed_cancel X r))))"

definition closed_verdict :: "int \<Rightarrow> deal_bridge \<Rightarrow> order_event list \<Rightarrow> confirmation" where
  "closed_verdict p b es = (verdict_of CLOSED)\<lparr>mc_position := Some p, mc_executions := remdups (br_deal_ids b @ br_closing_ids b), mc_closes := es\<rparr>"

definition confirm_missing :: "floor \<Rightarrow> archive \<Rightarrow> firing \<Rightarrow> row \<Rightarrow> rat option \<Rightarrow> confirmation job" where
  "confirm_missing X V fired r until =
     seq (on_led (try_exn (optional_id r ''position_id''))) (\<lambda>pid.
     case extra r ''order_id'' of
       None \<Rightarrow> ret (verdict_of CANCELLED)
     | Some raw \<Rightarrow>
         seq (on_led (try_exn (parse_protocol_id raw ''order_id''))) (\<lambda>oid.
         seq (asks (\<lambda>s. deal_since_ms (led s) r)) (\<lambda>since.
         seq (on_led (try_exn since)) (\<lambda>from_ms.
         seq (find_fill_deal V oid from_ms pid until) (\<lambda>b.
         if \<not> br_conclusive b then ret (verdict_of INCONCLUSIVE)
         else if 0 < br_closed b \<and> (0 < br_filled b \<or> pid \<noteq> None)
         then (let p = (case br_deal b of Some d \<Rightarrow> h_positionId d | None \<Rightarrow> the pid) in
               if accepted_by_resume X r
               then seq (on_led (note_accepted_by_resume X p)) (\<lambda>_.
                    seq (on_led (mark_close_judged X (br_closing_ids b) [])) (\<lambda>_. ret (closed_verdict p b [])))
               else seq (judge_recovered_close_deals X V fired p (br_position_deals b) 0 None (set (br_deal_ids b)) []) (\<lambda>replay.
                    case replay of
                      None \<Rightarrow> ret (verdict_of INCONCLUSIVE)
                    | Some rp \<Rightarrow> asks (\<lambda>s. closed_verdict p b (map (\<lambda>(d, cents). recovered_close_event r d cents)
                                   (filter (\<lambda>(d, cents). pd_deal_id d \<notin> g_seen (led s)) (rp_booked rp))))))
         else if pid = None
         then (if 0 < br_filled b then ret (verdict_of FILLED) else vanished_order_verdict X V r oid)
         else ret (verdict_of CANCELLED))))))"

definition register_recovered_deals :: "int list \<Rightarrow> unit act" where
  "register_recovered_deals ids = see_deals ids"

definition closed_position_siblings :: "floor \<Rightarrow> ledger \<Rightarrow> row \<Rightarrow> int option \<Rightarrow> string list" where
  "closed_position_siblings X L r p =
     (case p of
        None \<Rightarrow> []
      | Some p \<Rightarrow> (if \<not> journaled X then []
                  else map r_coid (filter (\<lambda>q. r_coid q \<noteq> r_coid r
                    \<and> (shown_in {py_str p} (extra q ''position_id'') \<or> r_exchange_id q = Some (py_str p))) (live_rows X (row_writes L)))))"

section \<open>Fills still owed\<close>

text \<open>\<open>stamps\<close> is the core's answer: whether the tracker holds a stamp on a row of the entries.\<close>

definition side_volume :: "floor \<Rightarrow> ledger \<Rightarrow> position \<Rightarrow> rat" where
  "side_volume X L q =
     (if share_side X L (p_positionId q) \<noteq> None \<and> share_side X L (p_positionId q) \<noteq> Some (side_of (td_tradeSide (p_tradeData q))) then 0
      else volume_to_units (td_volume (p_tradeData q)))"

fun owed_by_rows :: "floor \<Rightarrow> ledger \<Rightarrow> string set \<Rightarrow> (int \<rightharpoonup> position) \<Rightarrow> row list \<Rightarrow> exn + bool" where
  "owed_by_rows X L ids seen [] = Inr False"
| "owed_by_rows X L ids seen (r # rs) =
     (case extra r ''position_id'' of
        None \<Rightarrow> owed_by_rows X L ids seen rs
      | Some raw \<Rightarrow>
          (if (case r_pine_id r of None \<Rightarrow> True | Some i \<Rightarrow> i \<notin> ids) \<or> r_state r \<notin> set (entry_states X) \<or> r_filled r \<le> VOLUME_TOL
           then owed_by_rows X L ids seen rs
           else case parse_protocol_id raw ''position_id'' of
                  Inl e \<Rightarrow> Inl e
                | Inr p \<Rightarrow>
                    (if p \<in> g_reported L then owed_by_rows X L ids seen rs
                     else case seen p of
                            None \<Rightarrow> (if fsub (r_qty r) VOLUME_TOL \<le> r_filled r then Inr True else owed_by_rows X L ids seen rs)
                          | Some q \<Rightarrow> (if (case own_share X L p of None \<Rightarrow> False | Some sh \<Rightarrow> side_volume X L q < fsub sh VOLUME_TOL)
                                      then Inr True else owed_by_rows X L ids seen rs))))"

definition fill_recovery_pending :: "floor \<Rightarrow> ledger \<Rightarrow> bool \<Rightarrow> string set \<Rightarrow> (int \<rightharpoonup> position) option \<Rightarrow> exn + bool" where
  "fill_recovery_pending X L stamps ids shown_positions =
     (if stamps then Inr True
      else case shown_positions of
             None \<Rightarrow> Inr False
           | Some seen \<Rightarrow> (if journaled X then owed_by_rows X L ids seen (live_rows X (row_writes L)) else Inr False))"

end
