(* ===== verification/Working_Properties.thy ===== *)
theory Working_Properties
  imports Working Recovered_Properties Closes_Properties
begin

text \<open>
  A fill the stream missed is delivered once by the reconcile passes, for a volume the row's size allows, and a row that stayed
  missing is given the verdict the venue's evidence supports.
\<close>

section \<open>Recovered fills\<close>

definition of_leg :: "leg_type \<Rightarrow> order_event list \<Rightarrow> order_event list" where
  "of_leg l es = filter (\<lambda>e. ev_leg e = Some l) es"

text \<open>The entry fills among some events stand for what a row's cursor rises by.\<close>

definition entry_fills_within :: "row \<Rightarrow> order_event list \<Rightarrow> bool" where
  "entry_fills_within r es \<longleftrightarrow> length (of_leg Leg_entry es) \<le> 1 \<and> (\<forall>e \<in> set (of_leg Leg_entry es).
     \<exists>c. ev_qty e = Some (fsub c (r_filled r)) \<and> 0 < fsub c (r_filled r) \<and> c \<le> r_qty r \<and> xo_filled (ev_order e) = c)"

lemma of_leg_close [simp]: "of_leg Leg_entry (map (\<lambda>(d, cents). recovered_close_event r d cents) ds) = []"
  by (auto simp: of_leg_def filter_empty_conv recovered_close_event_def Let_def)

lemma of_leg_append [simp]: "of_leg l (a @ b) = of_leg l a @ of_leg l b"
  by (simp add: of_leg_def)

lemma of_leg_fill: "of_leg Leg_entry [fill_event r k st xid c q avg price fee time] = [fill_event r k st xid c q avg price fee time]"
  "of_leg Leg_close [fill_event r k st xid c q avg price fee time] = []" "of_leg l [] = []"
  by (simp_all add: of_leg_def fill_event_def)

lemma tol_positive: "0 < VOLUME_TOL" "0 < NANO"
  by (simp_all add: VOLUME_TOL_def NANO_def fl_pos)

lemma row_cumulative_size: "row_cumulative r b \<le> r_qty r"
  by (simp add: row_cumulative_def)

lemma one_fill_within:
  "0 < fsub (row_cumulative r b) (r_filled r) \<Longrightarrow>
     entry_fills_within r [fill_event r k st xid (row_cumulative r b) (fsub (row_cumulative r b) (r_filled r)) avg price fee time]"
  using row_cumulative_size [of r b] by (simp add: entry_fills_within_def of_leg_fill) (auto simp: fill_event_def recovered_order_def)

lemma no_fill_within: "of_leg Leg_entry es = [] \<Longrightarrow> entry_fills_within r es"
  by (simp add: entry_fills_within_def)

lemma closed_events_within: "entry_fills_within r (filled_then_closed_events L r b closes now_ts)"
proof -
  have "of_leg Leg_entry (filled_then_closed_events L r b closes now_ts)
    = of_leg Leg_entry (case br_deal b of None \<Rightarrow> [] | Some d \<Rightarrow>
        (if set (br_deal_ids b) - g_seen L \<noteq> {} \<and> VOLUME_TOL < fsub (row_cumulative r b) (r_filled r)
         then [fill_event r Ev_filled (fill_status r (row_cumulative r b)) (py_str (if h_positionId d \<noteq> 0 then h_positionId d else h_orderId d))
                 (row_cumulative r b) (fsub (row_cumulative r b) (r_filled r)) (bridge_price b d)
                 (first_price (delta_fill_price (br_fills b) (r_filled r) (fsub (row_cumulative r b) (r_filled r))) (bridge_price b d))
                 (fees_of (br_fills b) (set (br_deal_ids b) - g_seen L)) (deal_time d now_ts)]
         else []))"
    by (simp add: filled_then_closed_events_def Let_def)
  also have "entry_fills_within r \<dots>"
  proof (cases "br_deal b")
    case (Some d)
    then show ?thesis using one_fill_within [of r b] tol_positive(1)
      by (cases "VOLUME_TOL < fsub (row_cumulative r b) (r_filled r)") (auto simp: of_leg_fill no_fill_within)
  qed (simp add: no_fill_within of_leg_fill)
  finally show ?thesis by (simp add: entry_fills_within_def of_leg_def)
qed

definition learns :: "int set \<Rightarrow> 'a act \<Rightarrow> bool" where
  "learns D m \<longleftrightarrow> (\<forall>L x M. m L = (Inr x, M) \<longrightarrow> g_seen L \<union> D \<subseteq> g_seen M)"

lemma learnsD: "learns D m \<Longrightarrow> m L = (Inr x, M) \<Longrightarrow> g_seen L \<union> D \<subseteq> g_seen M"
  by (simp add: learns_def)

lemma learns_seq: "learns D m \<Longrightarrow> (\<And>x. learns E (f x)) \<Longrightarrow> learns (D \<union> E) (seq m f)"
  unfolding learns_def seq_Inr_iff by blast

lemma learns_basic: "learns {} (ret x)" "learns {} (asks f)" "learns {} (post X op)" "learns (set ids) (see_deals ids)"
  by (auto simp: learns_def post_def see_deals_def)

lemma learns_if: "learns D m \<Longrightarrow> learns D n \<Longrightarrow> learns D (if c then m else n)"
  by simp

lemma learns_link: "learns {} (link_ref X c p)"
  by (auto simp: learns_def link_ref_def post_def split: option.splits if_splits)

lemma learns_effect: "learns {} (record_share_effect p delta counted ms i oid)"
  by (auto simp: learns_def record_share_effect_def Let_def)

lemma learns_effects: "learns {} (reconciled_effects oid p sd fs ids remaining)"
proof (induction fs arbitrary: remaining)
  case (Cons f fs)
  obtain ms i cents price fee where f: "f = (ms, i, cents, price, fee)" by (cases f)
  have "learns ({} \<union> {}) (seq (record_share_effect p (signed sd q) True (Some ms) (Some i) oid) (\<lambda>_. reconciled_effects oid p sd fs ids rest))"
    for q rest by (rule learns_seq [OF learns_effect Cons.IH])
  then show ?case using Cons.IH by (simp add: f Let_def)
qed (simp add: learns_effect learns_basic)

lemma learns_recorded: "learns {} (record_reconciled_fill oid p sd units fills ids)"
  by (simp add: record_reconciled_fill_def learns_effects learns_basic)

lemma learns_weaken: "learns D m \<Longrightarrow> E \<subseteq> D \<Longrightarrow> learns E m"
  unfolding learns_def by blast

lemma learns_close_rows: "learns {} (close_rows X cs)"
proof (induction cs)
  case (Cons c cs)
  have "learns ({} \<union> {}) (close_rows X (c # cs))" unfolding close_rows.simps by (rule learns_seq [OF learns_basic(3) Cons])
  then show ?case by simp
qed (simp add: learns_def)

lemma learns_retire: "learns {} (retire_filled_then_closed X r p)"
proof -
  have "learns ({} \<union> ({} \<union> {})) (retire_filled_then_closed X r p)"
    unfolding retire_filled_then_closed_def by (intro learns_seq learns_basic learns_close_rows)
  then show ?thesis by simp
qed

text \<open>What a promotion delivers and teaches the stream.\<close>

lemma retire_events_run:
  assumes "retire_with_events X r b p closes now_ts L = (Inr es, M)"
  shows "es = filled_then_closed_events L r b closes now_ts" "g_seen L \<union> set (br_deal_ids b) \<union> set (br_closing_ids b) \<subseteq> g_seen M"
proof -
  obtain A where "retire_filled_then_closed X r p (L\<lparr>g_seen := g_seen L \<union> set (br_deal_ids b) \<union> set (br_closing_ids b)\<rparr>) = (Inr (), A)"
    "M = A" "es = filled_then_closed_events L r b closes now_ts"
    using assms by (auto simp: retire_with_events_def seq_Inr_iff see_deals_run)
  then show "es = filled_then_closed_events L r b closes now_ts" "g_seen L \<union> set (br_deal_ids b) \<union> set (br_closing_ids b) \<subseteq> g_seen M"
    using learnsD [OF learns_retire] by fastforce+
qed

lemma promote_open_run:
  assumes "promote_open X r b d pos now_ts L = (Inr es, M)"
  shows "set (br_deal_ids b) \<subseteq> g_seen M" "entry_fills_within r es" "of_leg Leg_close es = []"
    "set (br_deal_ids b) \<subseteq> g_seen L \<Longrightarrow> es = []"
    "\<not> set (br_deal_ids b) \<subseteq> g_seen L \<Longrightarrow> NANO < fsub (row_cumulative r b) (r_filled r) \<Longrightarrow> of_leg Leg_entry es \<noteq> []"
proof -
  let ?p = "h_positionId d" and ?c = "row_cumulative r b"
  let ?q = "fsub ?c (r_filled r)" and ?link = "h_positionId d \<noteq> 0 \<and> extra r ''position_id'' = None"
  let ?xid = "py_str (if ?p \<noteq> 0 then ?p else h_orderId d)" and ?new = "filter (\<lambda>i. i \<notin> g_seen L) (br_deal_ids b)"
  let ?clear = "if (0 < volume_to_units (br_filled b) \<or> ?link) \<and> stamped r then clear_missing_pending X r else ret ()"
  let ?row = "if fadd (r_filled r) NANO < ?c \<or> ?link
              then seq (post X (Row_op (Reconcile_filled (r_coid r) ?c ?xid (link_patch r ?p) ''reconcile_working_promoted''))) (\<lambda>_.
                   if ?link then link_ref X (r_coid r) ?p else ret ())
              else ret ()"
  let ?event = "fill_event r Ev_filled (fill_status r ?c) ?xid ?c ?q
                           (case pos of Some q \<Rightarrow> or_none (p_price q) | None \<Rightarrow> bridge_price b d)
                           (first_price (delta_fill_price (br_fills b) (r_filled r) ?q) (bridge_price b d))
                           (fees_of (br_fills b) (set ?new)) (deal_time d now_ts)"
  have "seq ?clear (\<lambda>_. seq ?row (\<lambda>_. if ?new = [] then ret []
         else seq (record_reconciled_fill (h_orderId d) ?p (r_side r) ?q (br_fills b) (set ?new)) (\<lambda>_.
              seq (see_deals ?new) (\<lambda>_. ret (if ?q \<le> NANO then [] else [?event]))))) L = (Inr es, M)"
    using assms by (simp only: promote_open_def Let_def seq_asks)
  then obtain x A y B where a: "?clear L = (Inr x, A)" and b: "?row A = (Inr y, B)" and
    rest: "(if ?new = [] then ret []
         else seq (record_reconciled_fill (h_orderId d) ?p (r_side r) ?q (br_fills b) (set ?new)) (\<lambda>_.
              seq (see_deals ?new) (\<lambda>_. ret (if ?q \<le> NANO then [] else [?event])))) B = (Inr es, M)"
    unfolding seq_Inr_iff by blast
  have clear: "learns {} ?clear" unfolding clear_missing_pending_def by (intro learns_if learns_basic)
  have "learns ({} \<union> {}) (seq (post X (Row_op (Reconcile_filled (r_coid r) ?c ?xid (link_patch r ?p) ''reconcile_working_promoted'')))
      (\<lambda>_. if ?link then link_ref X (r_coid r) ?p else ret ()))" by (intro learns_seq learns_basic learns_if learns_link)
  then have row: "learns {} ?row" by (intro learns_if learns_basic) simp
  have "g_seen L \<union> {} \<subseteq> g_seen A" by (rule learnsD) (rule clear, rule a)
  moreover have "g_seen A \<union> {} \<subseteq> g_seen B" by (rule learnsD) (rule row, rule b)
  ultimately have seen: "g_seen L \<subseteq> g_seen B" by blast
  have "set (br_deal_ids b) \<subseteq> g_seen M \<and> (if ?new \<noteq> [] \<and> \<not> ?q \<le> NANO then es = [?event] else es = [])"
  proof (cases "?new = []")
    case True
    then show ?thesis using rest seen by (auto simp: filter_empty_conv)
  next
    case False
    obtain C where c: "record_reconciled_fill (h_orderId d) ?p (r_side r) ?q (br_fills b) (set ?new) B = (Inr (), C)"
      "M = C\<lparr>g_seen := g_seen C \<union> set ?new\<rparr>" "es = (if ?q \<le> NANO then [] else [?event])"
      using rest unfolding if_not_P [OF False] by (auto simp: seq_Inr_iff see_deals_run)
    have "g_seen B \<subseteq> g_seen C" using learnsD [OF learns_recorded c(1)] by simp
    then show ?thesis using seen c(2,3) False by auto
  qed
  then show "set (br_deal_ids b) \<subseteq> g_seen M" "entry_fills_within r es" "of_leg Leg_close es = []"
    "set (br_deal_ids b) \<subseteq> g_seen L \<Longrightarrow> es = []"
    "\<not> set (br_deal_ids b) \<subseteq> g_seen L \<Longrightarrow> NANO < fsub (row_cumulative r b) (r_filled r) \<Longrightarrow> of_leg Leg_entry es \<noteq> []"
    using one_fill_within [of r b] tol_positive(2) by (auto simp: of_leg_fill no_fill_within filter_empty_conv split: if_splits)
qed

definition closes_listed :: "deal_bridge \<Rightarrow> (position_deal \<times> int) list \<Rightarrow> bool" where
  "closes_listed b closes \<longleftrightarrow> pd_deal_id ` fst ` set closes \<subseteq> set (br_closing_ids b)"

lemma promotion_cases:
  assumes "promote_from_deal X r b opens now_ts closes L = (Inr es, M)"
  obtains (nothing) "es = []"
  | (whole) "es = filled_then_closed_events L r b closes now_ts" "set (br_deal_ids b) \<union> set (br_closing_ids b) \<subseteq> g_seen M"
  | (still_open) d pos where "promote_open X r b d pos now_ts L = (Inr es, M)"
proof (cases "br_deal b")
  case None
  then have "es = []" using assms by (auto simp: promote_from_deal_def)
  then show ?thesis by (rule nothing)
next
  case (Some d)
  let ?gone = "h_positionId d \<noteq> 0 \<and> opens (h_positionId d) = None"
  show ?thesis
  proof (cases "journaled X")
    case False
    then have "es = []" using assms Some by (auto simp: promote_from_deal_def)
    then show ?thesis by (rule nothing)
  next
    case True
    show ?thesis
    proof (cases ?gone)
      case gone: True
      show ?thesis
      proof (cases "0 < br_closed b \<and> 0 < br_filled b")
        case closed: True
        then have "retire_with_events X r b (h_positionId d) closes now_ts L = (Inr es, M)"
          using assms Some True gone by (simp add: promote_from_deal_def Let_def)
        then show ?thesis using retire_events_run whole by fastforce
      next
        case False
        then have "es = []" using assms Some True gone by (auto simp: promote_from_deal_def Let_def)
        then show ?thesis by (rule nothing)
      qed
    next
      case False
      then have "promote_open X r b d (if h_positionId d \<noteq> 0 then opens (h_positionId d) else None) now_ts L = (Inr es, M)"
        using assms Some True by (simp only: promote_from_deal_def Let_def option.case if_False if_True not_True_eq_False)
      then show ?thesis by (rule still_open)
    qed
  qed
qed

lemma seen_events:
  assumes "set (br_deal_ids b) \<subseteq> g_seen L"
  shows "of_leg Leg_entry (filled_then_closed_events L r b closes now_ts) = []"
    and "closes_listed b closes \<Longrightarrow> set (br_closing_ids b) \<subseteq> g_seen L \<Longrightarrow> filled_then_closed_events L r b closes now_ts = []"
proof -
  have none: "set (br_deal_ids b) - g_seen L = {}" using assms by blast
  show "of_leg Leg_entry (filled_then_closed_events L r b closes now_ts) = []"
    by (simp add: filled_then_closed_events_def Let_def none of_leg_fill split: option.split)
  assume c: "closes_listed b closes" "set (br_closing_ids b) \<subseteq> g_seen L"
  have "pd_deal_id d \<in> g_seen L" if "(d, cents) \<in> set closes" for d cents
    using imageI [OF imageI [OF that], of pd_deal_id fst] c unfolding closes_listed_def by auto
  then have "filter (\<lambda>(d, cents). pd_deal_id d \<notin> g_seen L) closes = []" by (auto simp: filter_empty_conv)
  then show "filled_then_closed_events L r b closes now_ts = []"
    by (simp add: filled_then_closed_events_def Let_def none split: option.split)
qed

text \<open>
  C36: A fill the stream missed is delivered once. A reconcile pass that promotes a row from its order's deals
  delivers at most one entry fill, for what the row's cursor rises by and never beyond the row's size. Once it has delivered it, no
  later pass over the same evidence, whatever the row, the snapshot and the other tasks have become, delivers an
  entry fill again; and once it has delivered the closes of a position that is gone, it delivers nothing more.
\<close>

theorem recovered_fill_once:
  assumes "promote_from_deal X r b opens now_ts closes L = (Inr es, M)"
    and "g_seen M \<subseteq> g_seen N" and "promote_from_deal X r' b opens' now_ts' closes' N = (Inr es', N')"
    and "closes_listed b closes'"
  shows "entry_fills_within r es \<and> (of_leg Leg_entry es \<noteq> [] \<longrightarrow> of_leg Leg_entry es' = [])
     \<and> (of_leg Leg_close es \<noteq> [] \<longrightarrow> es' = [])"
  using assms(1)
proof (cases rule: promotion_cases)
  case nothing
  then show ?thesis by (simp add: no_fill_within of_leg_fill)
next
  case whole
  then have n: "set (br_deal_ids b) \<subseteq> g_seen N" "set (br_closing_ids b) \<subseteq> g_seen N" using assms(2) by auto
  have "es' = []" using assms(3)
  proof (cases rule: promotion_cases)
    case (still_open d pos)
    then show ?thesis using promote_open_run(4) n(1) by blast
  qed (use seen_events(2) n assms(4) in auto)
  then show ?thesis using whole closed_events_within by (simp add: of_leg_fill)
next
  case (still_open d pos)
  note o = promote_open_run [OF still_open]
  then have n: "set (br_deal_ids b) \<subseteq> g_seen N" using assms(2) by blast
  have "of_leg Leg_entry es' = []" using assms(3)
  proof (cases rule: promotion_cases)
    case (still_open d pos)
    then show ?thesis using promote_open_run(4) n by (fastforce simp: of_leg_fill)
  qed (use seen_events(1) n in \<open>auto simp: of_leg_fill\<close>)
  then show ?thesis using o by simp
qed

text \<open>The deal filled a row whose position is open.\<close>

definition lone_bridge :: deal_bridge where
  "lone_bridge = no_bridge\<lparr>br_deal := Some lone_deal, br_filled := 200000, br_conclusive := True, br_deal_ids := [31],
     br_fills := [(5, 31, 200000, 1, 0)]\<rparr>"

lemma returns_link [returns_rules]: "returns (link_ref X c p)"
  unfolding link_ref_def by (auto intro!: returns_rules simp: split_beta split: option.split)

lemma returns_see [returns_rules]: "returns (see_deals ids)"
  unfolding see_deals_def by (rule returns_rules)

lemma returns_effects [returns_rules]: "returns (reconciled_effects oid p sd fs ids remaining)"
proof (induction fs arbitrary: remaining)
  case (Cons f fs)
  obtain ms i cents price fee where f: "f = (ms, i, cents, price, fee)" by (cases f)
  show ?case unfolding f reconciled_effects.simps record_share_effect_def Let_def by (intro returns_rules Cons)
qed (auto intro: returns_rules simp: record_share_effect_def)

lemma returns_promote_open: "returns (promote_open X r b d pos now_ts)"
  unfolding promote_open_def Let_def clear_missing_pending_def record_reconciled_fill_def by (intro returns_rules)

lemma lone_promotion:
  "\<exists>es M. promote_from_deal (demo_floor silent) demo_row lone_bridge [7 \<mapsto> stray ''r1'' 7] 1000 [] L = (Inr es, M)
     \<and> (31 \<notin> g_seen L \<longrightarrow> of_leg Leg_entry es \<noteq> [])"
proof -
  have units: "volume_to_units 200000 = 2000"
    using fl_exact [of 2000 2000 0] by (simp add: volume_to_units_def fdiv_def VOLUME_SCALE_def)
  have "row_cumulative demo_row lone_bridge = 1000" "r_filled demo_row = 0"
    by (simp_all add: row_cumulative_def demo_row_def lone_bridge_def no_bridge_def units)
  then have volume: "NANO < fsub (row_cumulative demo_row lone_bridge) (r_filled demo_row)"
    using fl_exact [of 1000 1000 0] fl_exact [of 1 1 0] fl_mono [of "1 / 1000000000" 1] by (simp add: fsub_def NANO_def)
  have d: "br_deal lone_bridge = Some lone_deal" "br_deal_ids lone_bridge = [31]" "h_positionId lone_deal = 7" "journaled (demo_floor silent)"
    by (simp_all add: lone_bridge_def no_bridge_def lone_deal_def demo_floor_def)
  obtain es M where run: "promote_open (demo_floor silent) demo_row lone_bridge lone_deal (Some (stray ''r1'' 7)) 1000 L = (Inr es, M)"
    using returns_promote_open unfolding returns_def by (metis prod.collapse)
  then show ?thesis using promote_open_run(5) [OF run] volume by (auto simp: promote_from_deal_def d)
qed

lemma recovered_fill_once_witness:
  "\<exists>es M es' N. promote_from_deal (demo_floor silent) demo_row lone_bridge [7 \<mapsto> stray ''r1'' 7] 1000 [] demo_ledger = (Inr es, M)
     \<and> promote_from_deal (demo_floor silent) demo_row lone_bridge [7 \<mapsto> stray ''r1'' 7] 1000 [] M = (Inr es', N)
     \<and> entry_fills_within demo_row es \<and> of_leg Leg_entry es \<noteq> [] \<and> of_leg Leg_entry es' = []"
proof -
  have "31 \<notin> g_seen demo_ledger" by (simp add: demo_ledger_def)
  then obtain es M es' N where
    "promote_from_deal (demo_floor silent) demo_row lone_bridge [7 \<mapsto> stray ''r1'' 7] 1000 [] demo_ledger = (Inr es, M)"
    "promote_from_deal (demo_floor silent) demo_row lone_bridge [7 \<mapsto> stray ''r1'' 7] 1000 [] M = (Inr es', N)" "of_leg Leg_entry es \<noteq> []"
    using lone_promotion by metis
  then show ?thesis using recovered_fill_once [OF _ order_refl, of _ _ _ _ _ "[]"] by (auto simp: closes_listed_def)
qed

end
