(* ===== verification/Missing_Properties.thy ===== *)
theory Missing_Properties
  imports Working_Properties
begin

text \<open>
  The verdict on a row whose order or position left the venue's snapshot, against the deals and orders the venue files.
\<close>

section \<open>What the venue says of a vanished order\<close>

definition unexecuted :: "archive \<Rightarrow> int \<Rightarrow> bool" where
  "unexecuted V oid \<longleftrightarrow> (\<exists>k. case details_page V k oid of
     Inl e \<Rightarrow> is_protocol_error e \<and> is_not_found (error_code e)
   | Inr v \<Rightarrow> o_executedVolume v \<le> 0 \<and> o_orderStatus v \<noteq> ORDER_STATUS_FILLED \<and> o_orderStatus v \<noteq> ORDER_STATUS_ACCEPTED)"

definition executed_now :: "archive \<Rightarrow> int \<Rightarrow> bool" where
  "executed_now V oid \<longleftrightarrow> (\<exists>k v. details_page V k oid = Inr v \<and> (o_orderStatus v = ORDER_STATUS_FILLED \<or> 0 < o_executedVolume v))"

definition verdict_supported :: "archive \<Rightarrow> int \<Rightarrow> confirmation \<Rightarrow> bool" where
  "verdict_supported V oid c \<longleftrightarrow> mc_resolution c \<noteq> CLOSED \<and> (mc_resolution c = CANCELLED \<longrightarrow> unexecuted V oid)
     \<and> (mc_resolution c = FILLED \<longrightarrow> executed_now V oid)"

lemma plain_verdicts [simp]: "mc_resolution (verdict_of q) = q" "mc_executions (verdict_of q) = []"
  by (simp_all add: verdict_of_def)

lemma unattributed_run: "unattributed_cancel X r L = (Inr c, M) \<Longrightarrow> mc_resolution c = CANCELLED"
  by (auto simp: unattributed_cancel_def seq_Inr_iff)

lemma vanished_supported:
  assumes "vanished_order_verdict X V r oid s = (Inr c, t)"
  shows "verdict_supported V oid c"
proof (cases "wired s")
  case False
  then show ?thesis using assms by (auto simp: vanished_order_verdict_def verdict_supported_def)
next
  case up: True
  let ?a = "details_page V (asked s) oid"
  show ?thesis
  proof (cases ?a)
    case (Inl e)
    then have u: "is_protocol_error e \<Longrightarrow> is_not_found (error_code e) \<Longrightarrow> unexecuted V oid"
      unfolding unexecuted_def by (intro exI [of _ "asked s"]) simp
    show ?thesis using assms up Inl u
      by (auto simp: vanished_order_verdict_def seq_Inr_iff request_def verdict_supported_def on_led_run dest: unattributed_run split: if_splits)
  next
    case (Inr v)
    show ?thesis
    proof (cases "o_orderStatus v = ORDER_STATUS_FILLED \<or> 0 < o_executedVolume v")
      case True
      then have "executed_now V oid" unfolding executed_now_def using Inr by blast
      then show ?thesis using assms up Inr True by (auto simp: vanished_order_verdict_def seq_Inr_iff request_def verdict_supported_def)
    next
      case False
      then have u: "o_orderStatus v \<noteq> ORDER_STATUS_ACCEPTED \<Longrightarrow> unexecuted V oid"
        unfolding unexecuted_def using Inr by (intro exI [of _ "asked s"]) simp
      show ?thesis using assms up Inr False u
        by (auto simp: vanished_order_verdict_def seq_Inr_iff request_def verdict_supported_def on_led_run dest: unattributed_run split: if_splits)
    qed
  qed
qed

section \<open>The evidence a verdict rests on\<close>

text \<open>The cases of the verdict over the evidence \<open>b\<close>.\<close>

definition rests_on :: "archive \<Rightarrow> int \<Rightarrow> int option \<Rightarrow> deal_bridge \<Rightarrow> confirmation \<Rightarrow> bool" where
  "rests_on V oid pid b c \<longleftrightarrow> mc_resolution c = INCONCLUSIVE \<or>
     (br_conclusive b \<and>
       (if 0 < br_closed b \<and> (0 < br_filled b \<or> pid \<noteq> None)
        then mc_resolution c = CLOSED \<and> mc_executions c = remdups (br_deal_ids b @ br_closing_ids b)
        else if pid \<noteq> None then mc_resolution c = CANCELLED
        else if 0 < br_filled b then mc_resolution c = FILLED else verdict_supported V oid c))"

lemma closed_verdict_fields [simp]:
  "mc_resolution (closed_verdict p b es) = CLOSED" "mc_executions (closed_verdict p b es) = remdups (br_deal_ids b @ br_closing_ids b)"
  by (simp_all add: closed_verdict_def)

lemma confirm_missing_evidence:
  assumes "confirm_missing X V fired r until s = (Inr c, t)" "extra r ''order_id'' = Some raw"
    and "parse_protocol_id raw ''order_id'' = Inr oid" "deal_since_ms (led s) r = Inr from_ms"
  obtains pid b u where "optional_id r ''position_id'' = Inr pid" "find_fill_deal V oid from_ms pid until s = (Inr b, u)" "rests_on V oid pid b c"
proof -
  obtain pid where pid: "optional_id r ''position_id'' = Inr pid"
    using assms(1) by (cases "optional_id r ''position_id''") (auto simp: confirm_missing_def seq_on_led try_exn_def)
  let ?verdict = "\<lambda>b. if \<not> br_conclusive b then ret (verdict_of INCONCLUSIVE)
         else if 0 < br_closed b \<and> (0 < br_filled b \<or> pid \<noteq> None)
         then (let p = (case br_deal b of Some d \<Rightarrow> h_positionId d | None \<Rightarrow> the pid) in
               if accepted_by_resume X r
               then seq (on_led (note_accepted_by_resume X p)) (\<lambda>_.
                    seq (on_led (mark_close_judged X (br_closing_ids b) [])) (\<lambda>_. ret (closed_verdict p b [])))
               else seq (judge_recovered_close_deals X V fired p (br_position_deals b) 0 None (set (br_deal_ids b)) []) (\<lambda>replay.
                    case replay of
                      None \<Rightarrow> ret (verdict_of INCONCLUSIVE)
                    | Some rp \<Rightarrow> asks (\<lambda>s. closed_verdict p b (map (\<lambda>(d, cents). recovered_close_event r d cents)
                                   (filter (\<lambda>(d, cents). pd_deal_id d \<notin> g_seen (led s)) (rp_booked rp))))))
         else if pid = None
         then (if 0 < br_filled b then ret (verdict_of FILLED) else vanished_order_verdict X V r oid)
         else ret (verdict_of CANCELLED)"
  have "seq (find_fill_deal V oid from_ms pid until) ?verdict s = (Inr c, t)"
    using assms pid by (simp add: confirm_missing_def seq_on_led try_exn_def Let_def)
  then obtain b u where b: "find_fill_deal V oid from_ms pid until s = (Inr b, u)" and v: "?verdict b u = (Inr c, t)"
    unfolding seq_Inr_iff by blast
  have "rests_on V oid pid b c"
  proof (cases "br_conclusive b")
    case False
    then show ?thesis using v by (auto simp: rests_on_def)
  next
    case conclusive: True
    show ?thesis
    proof (cases "0 < br_closed b \<and> (0 < br_filled b \<or> pid \<noteq> None)")
      case closed: True
      then show ?thesis using v conclusive
        by (auto simp: rests_on_def Let_def seq_Inr_iff split: if_splits option.splits)
    next
      case False
      show ?thesis
      proof (cases pid)
        case None
        then show ?thesis using v conclusive False vanished_supported [of X V r oid u c t]
          by (cases "0 < br_filled b") (auto simp: rests_on_def)
      qed (use v conclusive False in \<open>auto simp: rests_on_def\<close>)
    qed
  qed
  then show ?thesis using that pid b by blast
qed

definition all_fill :: "history_deal set \<Rightarrow> bool" where
  "all_fill H \<longleftrightarrow> (\<forall>h \<in> H. h_dealStatus h = DEAL_FILLED \<longrightarrow> 0 < h_filledVolume h)"

lemma fills_summed:
  assumes "all_fill H" "F \<subseteq> {h \<in> H. fills_order oid h}" "finite F" "br_filled b = sum h_filledVolume F"
  shows "0 < br_filled b \<longleftrightarrow> F \<noteq> {}"
proof
  assume "F \<noteq> {}"
  have "0 < h_filledVolume h" if "h \<in> F" for h using assms(1,2) that by (auto simp: all_fill_def fills_order_def)
  then show "0 < br_filled b" unfolding assms(4) using \<open>F \<noteq> {}\<close> assms(3) by (intro sum_pos) auto
qed (use assms(4) in auto)

lemma closes_summed:
  assumes "C \<subseteq> {h \<in> H. closes_volume h \<and> h_positionId h = p}" "finite C" "br_closed b = (\<Sum>h \<in> C. or_else 0 (h_closedVolume h))"
  shows "0 < br_closed b \<longleftrightarrow> C \<noteq> {}"
proof
  assume "C \<noteq> {}"
  have "0 < or_else 0 (h_closedVolume h)" if "h \<in> C" for h using assms(1) that by (auto simp: closes_volume_def)
  then show "0 < br_closed b" unfolding assms(3) using \<open>C \<noteq> {}\<close> assms(2) by (intro sum_pos) auto
qed (use assms(3) in auto)


text \<open>An order the venue never executed and no longer knows.\<close>

definition forgetful_archive :: archive where
  "forgetful_archive = lone_archive\<lparr>details_page := (\<lambda>k i. Inl (CTraderProtocolError ''ORDER_NOT_FOUND'' [] None))\<rparr>"

lemma history_wired:
  assumes "undisturbed V" "find_fill_deal V oid from_ms cp until s = (Inr b, u)"
  shows "wired u = wired s"
proof -
  obtain q w s' where run: "walk_pages V oid until (extend_walk (wall_ms (led s)) (open_walk from_ms (walks s oid))) s = (q, w, s')"
    by (metis prod_cases3)
  then show ?thesis using assms(2) pages_wrote [OF assms(1) run]
    by (auto simp del: walk_pages.simps simp: find_fill_deal_def Let_def split: if_splits)
qed

definition missing_row :: row where
  "missing_row = demo_row\<lparr>r_extras := [''order_id'' \<mapsto> PyStr ''9'', ''submitted_at_ms'' \<mapsto> PyInt 1]\<rparr>"


end
