(* ===== verification/Spec2Isabelle.thy ===== *)
theory Spec2Isabelle
  imports Wire_Properties Recovery Grant Selection Collection_Properties Execution_Properties Account_State_Properties
    Closes_Properties Terms_Properties Events_Properties Deals_Properties Verdicts_Properties
    Recovered_Properties Missing_Properties
begin

text \<open>
  A model of the cTrader Open API plugin of PyneCore (\<open>src/src/pynecore_ctrader\<close>), and what makes it correct.

  The plugin connects a trading engine to a broker: it keeps one authenticated TLS connection, downloads
  history and streams bars, and sends, amends and cancels orders, with a journal of what it sent. The
  engine, its journal and its models are a library (PyneCore) and appear as parameters.

  \<^bold>\<open>Foundations.\<close> Prelude: the effect type \<open>eff\<close> (state and exceptions) with its combinators and the rules for
  them, maps and lists. Floats: IEEE double rounding on the rationals, for every sum, product and quotient the
  code computes in floating point. Errors (\<open>exceptions.py\<close>, the exception classes of \<open>wire.py\<close>): exceptions as one
  data type, the error-code classes and the mapping to the engine's exceptions. Helpers (\<open>helpers.py\<close>,
  \<open>models.py\<close>): identifiers, volumes, prices. Messages (\<open>src/proto\<close>): the fields of the messages the code reads.

  \<^bold>\<open>Connection.\<close> Wire (\<open>wire.py\<close>): the connection as a record with one operation per method; interleavings of
  requests, responses, time-outs and losses are a step relation. Wire_Properties: responses reach the request
  they name, frames are delivered in order, what an exception says about the bytes of a request. Session
  (\<open>session.py\<close>): the session file with a fault at any file operation, and the lock. Auth (\<open>auth.py\<close>), Account
  (\<open>_base.py\<close>): retries, token refresh, re-authorisation, requests bound to an account, as coroutines over a
  run whose surroundings decide every answer, its delay and what other tasks do meanwhile. Recovery, Grant,
  Selection: what a recovery, a shared grant and the choice of an account guarantee, and the event router.

  \<^bold>\<open>Market data\<close> (\<open>provider.py\<close>). Bars, Feed: the bars of the live stream. History: downloads and ask quotes. Calendar:
  schedules, holidays and open times over a time-zone parameter. Collection: recovering the bars of a gap, with its
  23 passes at most (20 settle attempts and three publication waits are the code's own bounds, so no fuel is
  added). The theories with the suffix \<open>_Properties\<close> hold what is proved of each.

  \<^bold>\<open>Orders.\<close> Desk (\<open>execution.py\<close>, \<open>_base.py\<close>): the dispatch of a request and the translation of its failures, the sizing
  rules, look-ups in the snapshot and the journal. Execution: placing, protecting, closing, cancelling and
  amending. Account_State (\<open>state.py\<close>): the queries of the engine and the adoption baseline. The journal is the
  sequence of writes made to it, each with the number of requests on the wire before it; what a read of it
  returns is a parameter of that sequence. Execution_Properties, Account_State_Properties: what a failure says about
  the order, the journal around an entry, what a close may target, what a cancel may claim, what the adoption
  baseline may write.

  \<^bold>\<open>Closes and shares\<close> (\<open>protection.py\<close>). Replay: the replay of a position's deals against the bot's share. Share: the
  bounds of that share as of a deal, fills the journal and the event stream see at different times, exposure
  retired and given back. Closes: the closes the run sent, the fills they take, the reports of someone else's
  closes. Terms: the terms of the bot's pending orders and the verdict on a view of one. These run on the record
  \<open>ledger\<close>, the plugin's attributes, and on \<open>terms\<close>; objects the code shares are references into the ledger. The
  memos a Desk run leaves are the calls into this layer.

  \<^bold>\<open>The event stream\<close> (\<open>events.py\<close>). Events: one pushed execution, from its kind and identity over the judgement of
  a closing fill to the writes of the journal and the event the engine gets; the loop is a list of turns, each a message, a
  reconcile pass or what other tasks do in between. Events_Properties: a deal is applied once, a fill nothing of
  the run names leaves no trace but audits, a report of someone else's close is justified by the share.

  \<^bold>\<open>What the stream missed\<close> (\<open>reconcile.py\<close>, \<open>protection.py\<close>). Deals: the walk over the deal history of an order, kept
  over as many calls as it takes (it ends because every page shortens the window owed), and the evidence of a
  fully read window. Verdicts: who sent each closing order it shows, the replay's verdict, and the report, the notes
  and the marks that follow. They run on the record \<open>trail\<close>, a ledger with the walks and the number of requests made,
  against an \<open>archive\<close>, the venue's answers and what other tasks do meanwhile. Deals_Properties: the evidence misses no
  deal the venue could show. Verdicts_Properties: a close is judged once. Working: the walk of a reconcile pass over the
  rows of the run, the fills of working and vanished orders it recovers, and the verdict on a row that stayed missing, which
  the core's tracker asks for. Working_Properties: a recovered fill is delivered once. Missing_Properties: what a verdict says
  is what the venue filed.

  \<^bold>\<open>Crash recovery\<close> (\<open>recovery.py\<close>). Recovered: the rows a crash left pending, the rows whose position is gone, and what of
  the run the journal lost, on the same records; paging the order history ends because every page lies in its window.
  Recovered_Properties: what may become of a row, as the inductive \<open>fate\<close>, from what the venue showed.

  \<^bold>\<open>Parameters and hypotheses.\<close> The answers of the venue, the clock, the file system's faults, the time zone and the
  core's journal are arguments. A theorem that relies on documented behaviour of one of them names it
  (\<open>answers_certain\<close>: a written request is answered by a response, a protocol error, a time-out or a lost
  connection, as theory Wire shows; \<open>quarantine_gate\<close>: the write gate raises only the quarantine error; \<open>files\<close>: a page of
  the deal history holds the newest deals of its window, uncut within a millisecond; \<open>clock_runs\<close>: time goes forward;
  \<open>undisturbed\<close>: while the recovery waits for an answer nothing else writes to the journal, the engine not having started).

  \<^bold>\<open>Not modelled.\<close> The serialisation of messages and the TLS sockets (libraries); the HTTP exchange of the OAuth code
  and the loopback server (I/O); set-up and tear-down of the live connection; the assembly of the symbol info record;
  the native fail-safe write; the level guard of a position's protection and the judgement of a fired one; the
  reconcile pass over open positions (shrinks, levels) and over claims left ambiguous, and the core's tracker of missing rows,
  whose grace period and policy are a library's; the halt of the core's policy on an edited order; log texts and numbers inside exception messages.
\<close>

end
